(* ===== verification/Braird_Prelude.thy ===== *)
theory Braird_Prelude
  imports Complex_Main "HOL-Library.Finite_Map" "HOL-Library.Char_ord"
    "HOL-Library.List_Lexorder" "HOL-Library.Multiset" "HOL-Library.Word"
begin

text \<open>
  The vocabulary the component theories share.

  \<^item> A Rust \<open>String\<close>, \<open>&str\<close> or \<open>Vec<u8>\<close> is the list of its bytes, written as a HOL
    \<open>string\<close> (a HOL \<open>char\<close> is exactly one byte), so \<open>as_bytes\<close> is the identity and the
    order on strings is Rust's bytewise lexicographic \<open>Ord\<close>.
  \<^item> An \<open>i64\<close> is an \<open>int\<close>; every addition of the source that can leave the 64-bit range is
    written out as the saturating or the checked operation it is.
  \<^item> \<open>serde_json::Value\<close> is the datatype \<open>json\<close>, its \<open>Number\<close> keeps the 64-bit width of
    serde's \<open>PosInt\<close> and \<open>NegInt\<close>, and a \<open>serde_json::Map\<close> is a finite map.  A finite
    \<open>f64\<close> is the rational it denotes (a JSON number is never a NaN or an infinity).
  \<^item> serde's printer and parser are code outside the repository: they are the two fields of
    a \<open>serde\<close> record, an argument of every definition that prints or parses.
  \<^item> A \<open>BTreeMap\<close> the code iterates over is a list of pairs sorted by key (\<open>bt_update\<close>).
\<close>

named_theorems json_simps \<open>equations of the JSON accessors\<close>

subsection \<open>64-bit signed arithmetic\<close>

definition i64_max :: int where "i64_max = 2 ^ 63 - 1"

definition i64_min :: int where "i64_min = - (2 ^ 63)"

definition is_i64 :: "int \<Rightarrow> bool" where "is_i64 i \<longleftrightarrow> i64_min \<le> i \<and> i \<le> i64_max"

text \<open>\<open>i64::saturating_add\<close> and \<open>i64::checked_add\<close>.\<close>

definition saturating_add :: "int \<Rightarrow> int \<Rightarrow> int" where
  "saturating_add a b = max i64_min (min i64_max (a + b))"

definition checked_add :: "int \<Rightarrow> int \<Rightarrow> int option" where
  "checked_add a b = (if is_i64 (a + b) then Some (a + b) else None)"

text \<open>Subtraction of a release build: it wraps.\<close>

definition wrapping_sub :: "int \<Rightarrow> int \<Rightarrow> int" where
  "wrapping_sub a b = sint (word_of_int (a - b) :: 64 word)"

lemma wrapping_sub_exact: "is_i64 (a - b) \<Longrightarrow> wrapping_sub a b = a - b"
  unfolding wrapping_sub_def int_word_sint by (simp add: is_i64_def i64_min_def i64_max_def)

lemma saturating_add_is_i64: "is_i64 (saturating_add a b)"
  by (simp add: is_i64_def saturating_add_def i64_max_def i64_min_def)

lemma saturating_add_exact: "is_i64 (a + b) \<Longrightarrow> saturating_add a b = a + b"
  by (simp add: is_i64_def saturating_add_def)

lemma saturating_add_mono: "a \<le> b \<Longrightarrow> saturating_add a c \<le> saturating_add b c"
  by (simp add: saturating_add_def)

lemma saturating_add_ge: "is_i64 a \<Longrightarrow> 0 \<le> b \<Longrightarrow> a \<le> saturating_add a b"
  by (auto simp: is_i64_def saturating_add_def max_def min_def)

lemma checked_add_Some: "checked_add a b = Some c \<longleftrightarrow> is_i64 (a + b) \<and> c = a + b"
  by (auto simp: checked_add_def)

lemma checked_add_None: "checked_add a b = None \<longleftrightarrow> \<not> is_i64 (a + b)"
  by (simp add: checked_add_def)

subsection \<open>serde_json values\<close>

text \<open>\<open>Float\<close> holds the rational value of a finite \<open>f64\<close>.\<close>

datatype number = PosInt "64 word" | NegInt "64 word" | Float rat

datatype json =
    JNull
  | JBool bool
  | JNumber number
  | JString string
  | JArray "json list"
  | JObject "(string, json) fmap"

type_synonym row = "(string, json) fmap"

text \<open>The printer and the parser of \<open>serde_json\<close>, parameters of the model.\<close>

record serde =
  to_str :: "json \<Rightarrow> string"
  from_str :: "string \<Rightarrow> json option"

text \<open>The conversion of an integer to the nearest \<open>f64\<close>, ties to even (Rust \<open>as f64\<close>).\<close>

fun bit_len :: "nat \<Rightarrow> nat" where
  "bit_len n = (if n = 0 then 0 else Suc (bit_len (n div 2)))"

declare bit_len.simps [simp del]

definition f64_of_nat :: "nat \<Rightarrow> rat" where
  "f64_of_nat n =
     (if bit_len n \<le> 53 then of_nat n
      else
        let e = bit_len n - 53; q = n div 2 ^ e; r = n mod 2 ^ e; h = 2 ^ (e - 1)
        in of_nat ((if h < r \<or> (r = h \<and> odd q) then Suc q else q) * 2 ^ e))"

definition f64_of_int :: "int \<Rightarrow> rat" where
  "f64_of_int i = (if 0 \<le> i then f64_of_nat (nat i) else - f64_of_nat (nat (- i)))"

fun number_as_f64 :: "number \<Rightarrow> rat" where
  "number_as_f64 (PosInt w) = f64_of_int (uint w)"
| "number_as_f64 (NegInt w) = f64_of_int (sint w)"
| "number_as_f64 (Float f) = f"

fun number_as_i64 :: "number \<Rightarrow> int option" where
  "number_as_i64 (PosInt w) = (if uint w \<le> i64_max then Some (uint w) else None)"
| "number_as_i64 (NegInt w) = Some (sint w)"
| "number_as_i64 (Float f) = None"

fun as_i64 :: "json \<Rightarrow> int option" where
  "as_i64 (JNumber n) = number_as_i64 n"
| "as_i64 v = None"

fun as_f64 :: "json \<Rightarrow> rat option" where
  "as_f64 (JNumber n) = Some (number_as_f64 n)"
| "as_f64 v = None"

fun as_str :: "json \<Rightarrow> string option" where
  "as_str (JString s) = Some s"
| "as_str v = None"

fun as_bool :: "json \<Rightarrow> bool option" where
  "as_bool (JBool b) = Some b"
| "as_bool v = None"

fun as_object :: "json \<Rightarrow> row option" where
  "as_object (JObject m) = Some m"
| "as_object v = None"

definition is_null :: "json \<Rightarrow> bool" where "is_null v \<longleftrightarrow> v = JNull"

text \<open>\<open>Value::from(i64)\<close>.\<close>

definition json_i64 :: "int \<Rightarrow> json" where
  "json_i64 i = JNumber (if 0 \<le> i then PosInt (word_of_int i) else NegInt (word_of_int i))"

text \<open>\<open>row.get(k).and_then(Value::as_...)\<close>.\<close>

definition row_str :: "row \<Rightarrow> string \<Rightarrow> string option" where
  "row_str r k = Option.bind (fmlookup r k) as_str"

definition row_i64 :: "row \<Rightarrow> string \<Rightarrow> int option" where
  "row_i64 r k = Option.bind (fmlookup r k) as_i64"

definition row_bool :: "row \<Rightarrow> string \<Rightarrow> bool option" where
  "row_bool r k = Option.bind (fmlookup r k) as_bool"

text \<open>\<open>Option::unwrap_or\<close>.\<close>

fun unwrap_or :: "'a option \<Rightarrow> 'a \<Rightarrow> 'a" where
  "unwrap_or None d = d"
| "unwrap_or (Some v) d = v"

text \<open>\<open>value.get("k")\<close> on an arbitrary JSON value: \<open>None\<close> unless it is an object.\<close>

fun json_get :: "json \<Rightarrow> string \<Rightarrow> json option" where
  "json_get (JObject m) k = fmlookup m k"
| "json_get v k = None"

subsection \<open>Facts about the JSON accessors\<close>

lemma bit_len_pos: "0 < n \<Longrightarrow> 0 < bit_len n"
  by (subst bit_len.simps) simp

lemma pow_bit_len_le: "0 < n \<Longrightarrow> 2 ^ (bit_len n - 1) \<le> n"
proof (induction n rule: bit_len.induct)
  case (1 n)
  show ?case
  proof (cases "n div 2 = 0")
    case True
    then have "bit_len (n div 2) = 0" by (subst bit_len.simps) simp
    with 1(2) show ?thesis by (subst bit_len.simps) simp
  next
    case False
    with 1 have "2 ^ (bit_len (n div 2) - 1) \<le> n div 2" by simp
    moreover obtain k where k: "bit_len (n div 2) = Suc k"
      using False bit_len_pos [of "n div 2"] gr0_implies_Suc by blast
    ultimately have "2 ^ Suc k \<le> n" by simp
    with k 1(2) show ?thesis by (subst bit_len.simps) simp
  qed
qed

lemma f64_of_nat_eq_0_iff: "f64_of_nat n = 0 \<longleftrightarrow> n = 0"
proof (cases "bit_len n \<le> 53")
  case True
  then show ?thesis by (simp add: f64_of_nat_def)
next
  case False
  then have pos: "0 < n" by (cases n) (simp_all add: bit_len.simps)
  have "2 ^ (bit_len n - 53) \<le> (2::nat) ^ (bit_len n - 1)"
    by (rule power_increasing) simp_all
  also have "\<dots> \<le> n" using pos by (rule pow_bit_len_le)
  finally have "0 < n div 2 ^ (bit_len n - 53)" by (simp add: div_greater_zero_iff)
  with False pos show ?thesis by (simp add: f64_of_nat_def Let_def)
qed

lemma f64_of_int_eq_0_iff: "f64_of_int i = 0 \<longleftrightarrow> i = 0"
  by (auto simp: f64_of_int_def f64_of_nat_eq_0_iff)

lemma sint64_bounds: "i64_min \<le> sint (w :: 64 word)" "sint (w :: 64 word) \<le> i64_max"
  using sint_range_size [of w] by (simp_all add: i64_min_def i64_max_def word_size)

lemma as_i64_is_i64: "as_i64 v = Some i \<Longrightarrow> is_i64 i"
proof (cases v)
  case (JNumber n)
  assume "as_i64 v = Some i"
  with JNumber show ?thesis
    using sint64_bounds
    by (cases n) (auto simp: is_i64_def i64_min_def order_trans [OF _ uint_ge_0] split: if_splits)
qed simp_all

lemma as_i64_json_i64 [json_simps]: "is_i64 i \<Longrightarrow> as_i64 (json_i64 i) = Some i"
proof -
  assume i: "is_i64 i"
  show ?thesis
  proof (cases "0 \<le> i")
    case True
    with i have "uint (word_of_int i :: 64 word) = i"
      by (simp add: uint_word_of_int is_i64_def i64_max_def)
    with i True show ?thesis by (simp add: json_i64_def is_i64_def)
  next
    case False
    with i have "sint (word_of_int i :: 64 word) = i"
      by (simp add: int_word_sint is_i64_def i64_min_def i64_max_def)
    with False show ?thesis by (simp add: json_i64_def)
  qed
qed

lemma json_i64_not_null [simp]: "json_i64 i \<noteq> JNull"
  by (simp add: json_i64_def)

lemma row_get_upd [json_simps]:
  "row_i64 (fmupd k v r) k' = (if k' = k then as_i64 v else row_i64 r k')"
  "row_str (fmupd k v r) k' = (if k' = k then as_str v else row_str r k')"
  "row_bool (fmupd k v r) k' = (if k' = k then as_bool v else row_bool r k')"
  by (simp_all add: row_i64_def row_str_def row_bool_def)

lemma row_i64_is_i64: "row_i64 r k = Some i \<Longrightarrow> is_i64 i"
  by (auto simp: row_i64_def bind_eq_Some_conv dest: as_i64_is_i64)

lemma unwrap_or_is_i64: "is_i64 d \<Longrightarrow> is_i64 (unwrap_or (row_i64 r k) d)"
  by (cases "row_i64 r k") (auto dest: row_i64_is_i64)

text \<open>Overlaying one row on another: the later one wins field by field.\<close>

lemma fmlookup_overlay [json_simps]:
  "fmlookup (m ++\<^sub>f n) k = (case fmlookup n k of Some v \<Rightarrow> Some v | None \<Rightarrow> fmlookup m k)"
  by (cases "fmlookup n k") (auto dest: fmdomI simp: fmdom_notD)

declare fmlookup_add [simp del]

subsection \<open>Sorted maps and iterator extrema\<close>

text \<open>\<open>BTreeMap::entry(k).or_insert_with(..)\<close> followed by an update of the entry.\<close>

fun bt_update :: "'k::linorder \<Rightarrow> ('v option \<Rightarrow> 'v) \<Rightarrow> ('k \<times> 'v) list \<Rightarrow> ('k \<times> 'v) list" where
  "bt_update k f [] = [(k, f None)]"
| "bt_update k f ((k', v) # m) =
     (if k < k' then (k, f None) # (k', v) # m
      else if k = k' then (k, f (Some v)) # m
      else (k', v) # bt_update k f m)"

text \<open>\<open>Iterator::max\<close> and \<open>Iterator::min\<close>.\<close>

fun iter_max :: "int list \<Rightarrow> int option" where
  "iter_max [] = None"
| "iter_max (x # xs) = Some (fold max xs x)"

fun iter_min :: "int list \<Rightarrow> int option" where
  "iter_min [] = None"
| "iter_min (x # xs) = Some (fold min xs x)"

abbreviation bt_sorted :: "('k::linorder \<times> 'v) list \<Rightarrow> bool" where
  "bt_sorted m \<equiv> sorted_wrt (<) (map fst m)"

lemma bt_update_keys: "set (map fst (bt_update k f m)) = insert k (set (map fst m))"
  by (induction k f m rule: bt_update.induct) auto

lemma bt_update_sorted: "bt_sorted m \<Longrightarrow> bt_sorted (bt_update k f m)"
proof (induction k f m rule: bt_update.induct)
  case (2 k f k' v m)
  show ?case
  proof (cases "k' < k")
    case True
    with 2 have "bt_sorted (bt_update k f m)" by simp
    moreover have "\<forall>x \<in> set (map fst (bt_update k f m)). k' < x"
      using 2(2) True by (simp only: bt_update_keys) auto
    ultimately show ?thesis using True by auto
  next
    case False
    with 2(2) show ?thesis by (auto intro: less_trans)
  qed
qed simp

lemma bt_lookup_None: "bt_sorted m \<Longrightarrow> \<forall>x \<in> set (map fst m). k < x \<Longrightarrow> map_of m k = None"
  by (auto simp: map_of_eq_None_iff)

lemma map_of_bt_update:
  "bt_sorted m \<Longrightarrow>
   map_of (bt_update k f m) k' = (if k' = k then Some (f (map_of m k)) else map_of m k')"
proof (induction k f m rule: bt_update.induct)
  case (2 k f k1 v m)
  have "k < k1 \<Longrightarrow> map_of m k = None"
    using 2(2) by (intro bt_lookup_None) auto
  with 2 show ?case by auto
qed simp

lemma fold_max_Max: "fold max xs x = Max (insert x (set xs))"
  by (simp flip: Max.set_eq_fold add: insert_commute)

lemma fold_min_Min: "fold min xs x = Min (insert x (set xs))"
  by (simp flip: Min.set_eq_fold add: insert_commute)

lemma iter_max_Some: "iter_max xs = Some m \<longleftrightarrow> m \<in> set xs \<and> (\<forall>x \<in> set xs. x \<le> m)"
proof (cases xs)
  case (Cons y ys)
  have "Max (insert y (set ys)) = m \<longleftrightarrow>
      m \<in> insert y (set ys) \<and> (\<forall>x \<in> insert y (set ys). x \<le> m)"
    by (rule Max_eq_iff) simp_all
  with Cons show ?thesis by (simp add: fold_max_Max)
qed simp

lemma iter_min_Some: "iter_min xs = Some m \<longleftrightarrow> m \<in> set xs \<and> (\<forall>x \<in> set xs. m \<le> x)"
proof (cases xs)
  case (Cons y ys)
  have "Min (insert y (set ys)) = m \<longleftrightarrow>
      m \<in> insert y (set ys) \<and> (\<forall>x \<in> insert y (set ys). m \<le> x)"
    by (rule Min_eq_iff) simp_all
  with Cons show ?thesis by (simp add: fold_min_Min)
qed simp

lemma iter_max_None [simp]: "iter_max xs = None \<longleftrightarrow> xs = []"
  by (cases xs) simp_all

lemma iter_min_None [simp]: "iter_min xs = None \<longleftrightarrow> xs = []"
  by (cases xs) simp_all

subsection \<open>Decimal text of an i64\<close>

text \<open>\<open>i64::to_string\<close> and \<open>str::parse::<i64>\<close>.\<close>

definition digit_char :: "nat \<Rightarrow> char" where "digit_char d = char_of (48 + d)"

definition digit_value :: "char \<Rightarrow> nat option" where
  "digit_value c = (let n = of_char c :: nat in if 48 \<le> n \<and> n \<le> 57 then Some (n - 48) else None)"

fun nat_to_string :: "nat \<Rightarrow> string" where
  "nat_to_string n =
     (if n < 10 then [digit_char n] else nat_to_string (n div 10) @ [digit_char (n mod 10)])"

declare nat_to_string.simps [simp del]

definition i64_to_string :: "int \<Rightarrow> string" where
  "i64_to_string i =
     (if i < 0 then CHR ''-'' # nat_to_string (nat (- i)) else nat_to_string (nat i))"

fun parse_digits :: "nat \<Rightarrow> string \<Rightarrow> nat option" where
  "parse_digits acc [] = Some acc"
| "parse_digits acc (c # cs) =
     (case digit_value c of None \<Rightarrow> None | Some d \<Rightarrow> parse_digits (10 * acc + d) cs)"

definition parse_nat :: "string \<Rightarrow> nat option" where
  "parse_nat cs = (if cs = [] then None else parse_digits 0 cs)"

definition parse_i64 :: "string \<Rightarrow> int option" where
  "parse_i64 cs =
     (let v = (case cs of
          c # cs' \<Rightarrow>
            if c = CHR ''-'' then map_option (\<lambda>n. - int n) (parse_nat cs')
            else if c = CHR ''+'' then map_option int (parse_nat cs')
            else map_option int (parse_nat cs)
        | [] \<Rightarrow> None)
      in Option.bind v (\<lambda>i. if is_i64 i then Some i else None))"

lemma digit_value_char: "d < 10 \<Longrightarrow> digit_value (digit_char d) = Some d"
  by (simp add: digit_value_def digit_char_def)

lemma parse_digits_append:
  "parse_digits acc (xs @ ys) = Option.bind (parse_digits acc xs) (\<lambda>a. parse_digits a ys)"
  by (induction acc xs rule: parse_digits.induct) (simp_all split: option.splits)

lemma nat_to_string_nonempty [simp]: "nat_to_string n \<noteq> []"
  by (subst nat_to_string.simps) simp

lemma parse_digits_nat_to_string: "parse_digits 0 (nat_to_string n) = Some n"
proof (induction n rule: nat_to_string.induct)
  case (1 n)
  show ?case
  proof (cases "n < 10")
    case True
    then show ?thesis by (subst nat_to_string.simps) (simp add: digit_value_char)
  next
    case False
    with 1 have "parse_digits 0 (nat_to_string (n div 10)) = Some (n div 10)" by simp
    then have "parse_digits 0 (nat_to_string (n div 10) @ [digit_char (n mod 10)]) = Some n"
      by (simp add: parse_digits_append digit_value_char)
    with False show ?thesis by (subst nat_to_string.simps) simp
  qed
qed

lemma hd_nat_to_string: "\<exists>d < 10. hd (nat_to_string n) = digit_char d"
proof (induction n rule: nat_to_string.induct)
  case (1 n)
  then show ?case
    by (cases "n < 10"; subst nat_to_string.simps) auto
qed

lemma digit_char_not_sign: "d < 10 \<Longrightarrow> digit_char d \<noteq> CHR ''-'' \<and> digit_char d \<noteq> CHR ''+''"
proof -
  assume d: "d < 10"
  then have "(of_char (digit_char d) :: nat) = 48 + d"
    by (simp add: digit_char_def)
  then show ?thesis by auto
qed

lemma parse_i64_to_string: "is_i64 i \<Longrightarrow> parse_i64 (i64_to_string i) = Some i"
proof -
  assume i: "is_i64 i"
  have p: "parse_nat (nat_to_string n) = Some n" for n
    by (simp add: parse_nat_def parse_digits_nat_to_string)
  show ?thesis
  proof (cases "i < 0")
    case True
    with i show ?thesis by (simp add: parse_i64_def i64_to_string_def p)
  next
    case False
    obtain c cs where cs: "nat_to_string (nat i) = c # cs"
      using nat_to_string_nonempty by (meson neq_Nil_conv)
    with hd_nat_to_string [of "nat i"] have "c \<noteq> CHR ''-'' \<and> c \<noteq> CHR ''+''"
      using digit_char_not_sign by auto
    with i False cs p [of "nat i"] show ?thesis
      by (simp add: parse_i64_def i64_to_string_def)
  qed
qed

subsection \<open>Fallible traversal and relational sorting\<close>

text \<open>\<open>iter().map(f).collect::<Result<Vec<_>, _>>()\<close>: the first error wins.\<close>

fun traverse :: "('a \<Rightarrow> 'e + 'b) \<Rightarrow> 'a list \<Rightarrow> 'e + 'b list" where
  "traverse f [] = Inr []"
| "traverse f (x # xs) =
     (case f x of Inl e \<Rightarrow> Inl e
      | Inr y \<Rightarrow> (case traverse f xs of Inl e \<Rightarrow> Inl e | Inr ys \<Rightarrow> Inr (y # ys)))"

text \<open>The \<open>?\<close> operator: an error returns at once.\<close>

definition and_then :: "'e + 'a \<Rightarrow> ('a \<Rightarrow> 'e + 'b) \<Rightarrow> 'e + 'b" where
  "and_then m f = (case m of Inl e \<Rightarrow> Inl e | Inr x \<Rightarrow> f x)"

lemma and_then_simps [simp]: "and_then (Inl e) f = Inl e" "and_then (Inr x) f = f x"
  by (simp_all add: and_then_def)

lemma and_then_Inr: "and_then m f = Inr y \<longleftrightarrow> (\<exists>x. m = Inr x \<and> f x = Inr y)"
  by (cases m) simp_all

text \<open>The elements a \<open>HashSet\<close> admits for the first time, in order:
  \<open>filter(|x| seen.insert(x))\<close>.\<close>

fun first_seen :: "'a list \<Rightarrow> 'a list \<Rightarrow> 'a list" where
  "first_seen seen [] = []"
| "first_seen seen (x # xs) =
     (if x \<in> set seen then first_seen seen xs else x # first_seen (x # seen) xs)"

lemma set_first_seen: "set (first_seen seen xs) = set xs - set seen"
  by (induction seen xs rule: first_seen.induct) auto

lemma distinct_first_seen: "distinct (first_seen seen xs)"
  by (induction seen xs rule: first_seen.induct) (auto simp: set_first_seen)

lemma find_SomeD: "find P xs = Some x \<Longrightarrow> x \<in> set xs \<and> P x"
  by (auto simp: find_Some_iff)

text \<open>A stable sort by a comparison, as \<open>slice::sort_by\<close> and \<open>ORDER BY\<close> are.\<close>

fun insort_by :: "('a \<Rightarrow> 'a \<Rightarrow> bool) \<Rightarrow> 'a \<Rightarrow> 'a list \<Rightarrow> 'a list" where
  "insort_by le x [] = [x]"
| "insort_by le x (y # ys) = (if le x y then x # y # ys else y # insort_by le x ys)"

definition sort_by :: "('a \<Rightarrow> 'a \<Rightarrow> bool) \<Rightarrow> 'a list \<Rightarrow> 'a list" where
  "sort_by le xs = foldr (insort_by le) xs []"

lemma mset_insort_by [simp]: "mset (insort_by le x ys) = add_mset x (mset ys)"
  by (induction le x ys rule: insort_by.induct) auto

lemma mset_sort_by [simp]: "mset (sort_by le xs) = mset xs"
  by (induction xs) (simp_all add: sort_by_def)

lemma set_sort_by [simp]: "set (sort_by le xs) = set xs"
  by (rule mset_eq_setD) simp

lemma length_sort_by [simp]: "length (sort_by le xs) = length xs"
  by (rule mset_eq_length) simp

lemma sorted_insort_by:
  assumes tot: "\<And>a b. le a b \<or> le b a" and tr: "\<And>a b c. le a b \<Longrightarrow> le b c \<Longrightarrow> le a c"
    and "sorted_wrt le ys"
  shows "sorted_wrt le (insort_by le x ys)"
  using assms(3)
proof (induction ys)
  case (Cons y ys)
  show ?case
  proof (cases "le x y")
    case True
    with Cons tr show ?thesis by fastforce
  next
    case False
    with tot have "le y x" by blast
    moreover have "set (insort_by le x ys) = insert x (set ys)"
      by (simp flip: set_mset_mset)
    ultimately show ?thesis using Cons False by auto
  qed
qed simp

lemma sorted_sort_by:
  assumes "\<And>a b. le a b \<or> le b a" and "\<And>a b c. le a b \<Longrightarrow> le b c \<Longrightarrow> le a c"
  shows "sorted_wrt le (sort_by le xs)"
proof (induction xs)
  case (Cons x xs)
  then show ?case using sorted_insort_by [of le, OF assms] by (simp add: sort_by_def)
qed (simp add: sort_by_def)

text \<open>Stability: sorting commutes with restricting to a subset of the elements.\<close>

lemma insort_by_least: "\<forall>z \<in> set zs. le x z \<Longrightarrow> insort_by le x zs = x # zs"
  by (cases zs) simp_all

lemma filter_insort_by:
  assumes tr: "\<And>a b c. le a b \<Longrightarrow> le b c \<Longrightarrow> le a c" and "sorted_wrt le ys"
  shows "filter P (insort_by le x ys) = (if P x then insort_by le x (filter P ys) else filter P ys)"
  using assms(2)
proof (induction ys)
  case (Cons y ys)
  show ?case
  proof (cases "le x y")
    case True
    with Cons(2) have "\<forall>z \<in> set (y # ys). le x z" by (auto intro: tr)
    then have "insort_by le x (filter P (y # ys)) = x # filter P (y # ys)"
      by (intro insort_by_least) auto
    with True show ?thesis by simp
  next
    case False
    with Cons show ?thesis by simp
  qed
qed simp

lemma filter_sort_by:
  assumes "\<And>a b. le a b \<or> le b a" and "\<And>a b c. le a b \<Longrightarrow> le b c \<Longrightarrow> le a c"
  shows "filter P (sort_by le xs) = sort_by le (filter P xs)"
proof (induction xs)
  case (Cons x xs)
  have "filter P (sort_by le (x # xs)) = filter P (insort_by le x (sort_by le xs))"
    by (simp add: sort_by_def)
  also have "\<dots> = (if P x then insort_by le x (filter P (sort_by le xs)) else filter P (sort_by le xs))"
    using assms by (intro filter_insort_by sorted_sort_by) blast+
  finally show ?case using Cons by (simp add: sort_by_def)
qed (simp add: sort_by_def)

subsection \<open>String slicing\<close>

text \<open>\<open>str::strip_prefix\<close>, \<open>str::strip_suffix\<close> and \<open>str::split_once\<close> on a one-byte separator.\<close>

definition strip_prefix :: "string \<Rightarrow> string \<Rightarrow> string option" where
  "strip_prefix p s = (if take (length p) s = p then Some (drop (length p) s) else None)"

definition strip_suffix :: "string \<Rightarrow> string \<Rightarrow> string option" where
  "strip_suffix p s = map_option rev (strip_prefix (rev p) (rev s))"

definition split_once :: "char \<Rightarrow> string \<Rightarrow> (string \<times> string) option" where
  "split_once c s =
     (case dropWhile (\<lambda>x. x \<noteq> c) s of [] \<Rightarrow> None | _ # t \<Rightarrow> Some (takeWhile (\<lambda>x. x \<noteq> c) s, t))"

lemma strip_prefix_append [simp]: "strip_prefix p (p @ s) = Some s"
  by (simp add: strip_prefix_def)

lemma strip_prefix_Some: "strip_prefix p s = Some t \<longleftrightarrow> s = p @ t"
  by (auto simp: strip_prefix_def) (metis append_take_drop_id)

lemma strip_suffix_Some: "strip_suffix p s = Some t \<longleftrightarrow> s = t @ p"
  by (auto simp: strip_suffix_def strip_prefix_Some rev_swap)

lemma split_once_append [simp]: "c \<notin> set a \<Longrightarrow> split_once c (a @ c # b) = Some (a, b)"
  by (simp add: split_once_def dropWhile_append takeWhile_append)

lemma split_once_Some: "split_once c s = Some (a, b) \<longleftrightarrow> c \<notin> set a \<and> s = a @ c # b"
proof
  assume "split_once c s = Some (a, b)"
  then obtain d where d: "dropWhile (\<lambda>x. x \<noteq> c) s = d # b" and a: "a = takeWhile (\<lambda>x. x \<noteq> c) s"
    by (auto simp: split_once_def split: list.splits)
  have "d = c" using hd_dropWhile [of "\<lambda>x. x \<noteq> c" s] d by simp
  then show "c \<notin> set a \<and> s = a @ c # b"
    using takeWhile_dropWhile_id [of "\<lambda>x. x \<noteq> c" s] d a by (auto dest: set_takeWhileD)
qed auto

text \<open>Well-formed UTF-8, as \<open>String::from_utf8\<close> checks it (no overlong form, no surrogate, at most
  U+10FFFF).\<close>

definition byte_in :: "nat \<Rightarrow> nat \<Rightarrow> char \<Rightarrow> bool" where
  "byte_in lo hi c \<longleftrightarrow> lo \<le> (of_char c :: nat) \<and> (of_char c :: nat) \<le> hi"

fun utf8_valid :: "string \<Rightarrow> bool" where
  "utf8_valid [] = True"
| "utf8_valid (a # s) =
     (if byte_in 0 127 a then utf8_valid s
      else case s of
        [] \<Rightarrow> False
      | b # s1 \<Rightarrow>
          if byte_in 194 223 a then byte_in 128 191 b \<and> utf8_valid s1
          else case s1 of
            [] \<Rightarrow> False
          | c # s2 \<Rightarrow>
              if byte_in 224 224 a then byte_in 160 191 b \<and> byte_in 128 191 c \<and> utf8_valid s2
              else if byte_in 225 236 a \<or> byte_in 238 239 a
                then byte_in 128 191 b \<and> byte_in 128 191 c \<and> utf8_valid s2
              else if byte_in 237 237 a then byte_in 128 159 b \<and> byte_in 128 191 c \<and> utf8_valid s2
              else case s2 of
                [] \<Rightarrow> False
              | d # s3 \<Rightarrow>
                  (byte_in 240 240 a \<and> byte_in 144 191 b \<or> byte_in 241 243 a \<and> byte_in 128 191 b \<or>
                   byte_in 244 244 a \<and> byte_in 128 143 b) \<and>
                  byte_in 128 191 c \<and> byte_in 128 191 d \<and> utf8_valid s3)"

declare utf8_valid.simps [simp del]

end
