(* ===== verification/Library_Vocab.thy ===== *)
theory Library_Vocab
  imports Braird_Prelude
begin

text \<open>
  The stored vocabularies of \<open>src/src/library.rs\<close>: the source lifecycle, the source kinds and
  the Library sort, each a closed enum with a printer and a total, tolerant parser.
\<close>

datatype source_status = ToRead | Reading | Shelved

definition status_value :: "source_status \<Rightarrow> string" where
  "status_value s =
     (case s of ToRead \<Rightarrow> ''to_read'' | Reading \<Rightarrow> ''reading'' | Shelved \<Rightarrow> ''shelved'')"

definition parse_status :: "string option \<Rightarrow> source_status" where
  "parse_status raw =
     (if raw = Some ''to_read'' then ToRead
      else if raw = Some ''reading'' then Reading
      else Shelved)"

datatype source_kind = Book | Podcast | Article | ResearchPaper | Video | Social

definition kind_value :: "source_kind \<Rightarrow> string" where
  "kind_value k =
     (case k of Book \<Rightarrow> ''book'' | Podcast \<Rightarrow> ''podcast'' | Article \<Rightarrow> ''article''
      | ResearchPaper \<Rightarrow> ''research_paper'' | Video \<Rightarrow> ''video'' | Social \<Rightarrow> ''social'')"

definition parse_kind :: "string option \<Rightarrow> source_kind" where
  "parse_kind raw =
     (if raw = Some ''podcast'' then Podcast
      else if raw = Some ''article'' then Article
      else if raw = Some ''research_paper'' then ResearchPaper
      else if raw = Some ''video'' then Video
      else if raw = Some ''social'' then Social
      else Book)"

definition LIBRARY_SORT_KEY :: string where "LIBRARY_SORT_KEY = ''library_sort''"

datatype library_sort = DateAdded | Alphabetical

definition sort_value :: "library_sort \<Rightarrow> string" where
  "sort_value s = (case s of DateAdded \<Rightarrow> ''date_added'' | Alphabetical \<Rightarrow> ''alphabetical'')"

definition parse_sort :: "string option \<Rightarrow> library_sort" where
  "parse_sort raw = (if raw = Some ''alphabetical'' then Alphabetical else DateAdded)"

lemmas vocab_defs = status_value_def parse_status_def kind_value_def parse_kind_def
  sort_value_def parse_sort_def

lemma parse_status_value: "parse_status (Some (status_value s)) = s"
  by (cases s) (simp_all add: vocab_defs)

lemma parse_kind_value: "parse_kind (Some (kind_value k)) = k"
  by (cases k) (simp_all add: vocab_defs)

lemma parse_sort_value: "parse_sort (Some (sort_value s)) = s"
  by (cases s) (simp_all add: vocab_defs)

lemma parse_status_fallback:
  "raw \<notin> (Some \<circ> status_value) ` UNIV \<Longrightarrow> parse_status raw = Shelved"
  by (auto simp: vocab_defs image_def split: source_status.splits)

lemma parse_kind_fallback:
  "raw \<notin> (Some \<circ> kind_value) ` UNIV \<Longrightarrow> parse_kind raw = Book"
proof -
  assume "raw \<notin> (Some \<circ> kind_value) ` UNIV"
  then have "raw \<noteq> Some (kind_value k)" for k by auto
  from this [of Podcast] this [of Article] this [of ResearchPaper] this [of Video]
    this [of Social]
  show ?thesis by (simp add: vocab_defs)
qed

end
