(* ===== verification/Crypto.thy ===== *)
theory Crypto
  imports Braird_Prelude
begin

text \<open>
  The sealing layer: \<open>src/src/primitives.rs\<close>, \<open>note_encryption.rs\<close>, \<open>byte_encryption.rs\<close>,
  \<open>key_manager.rs\<close> and the key-owning handle of \<open>vault.rs\<close>.  AES-256-GCM, HKDF, PBKDF2 and
  base64 are third-party crates: they are the fields of a \<open>crypto\<close> record, with the laws the
  code relies on collected in \<open>crypto_ok\<close>.  Random bytes are arguments, drawn by the caller.  A
  \<open>BadInput\<close> message keeps its fixed text; the rendering of a library error inside it is left
  out.
\<close>

subsection \<open>Primitives\<close>

record crypto =
  gcm_encrypt :: "string \<Rightarrow> string \<Rightarrow> string \<Rightarrow> string \<Rightarrow> string"
  gcm_decrypt :: "string \<Rightarrow> string \<Rightarrow> string \<Rightarrow> string \<Rightarrow> string option"
  hkdf_sha256 :: "string option \<Rightarrow> string \<Rightarrow> string \<Rightarrow> nat \<Rightarrow> string"
  pbkdf2_hmac_sha256 :: "string \<Rightarrow> string \<Rightarrow> nat \<Rightarrow> nat \<Rightarrow> string"
  b64_std_encode :: "string \<Rightarrow> string"
  b64_std_decode :: "string \<Rightarrow> string option"

datatype crypto_error = DecryptFailed | BadInput string

definition AES_KEY_LEN :: nat where "AES_KEY_LEN = 32"
definition GCM_IV_LEN :: nat where "GCM_IV_LEN = 12"

definition hkdf32 :: "crypto \<Rightarrow> string \<Rightarrow> string \<Rightarrow> string \<Rightarrow> string" where
  "hkdf32 C salt ikm info = hkdf_sha256 C (Some salt) ikm info 32"

definition hkdf32_unsalted :: "crypto \<Rightarrow> string \<Rightarrow> string \<Rightarrow> string" where
  "hkdf32_unsalted C ikm info = hkdf_sha256 C None ikm info 32"

definition pbkdf2_sha256 :: "crypto \<Rightarrow> string \<Rightarrow> string \<Rightarrow> nat \<Rightarrow> string" where
  "pbkdf2_sha256 C pin salt iterations = pbkdf2_hmac_sha256 C pin salt iterations 32"

text \<open>A message without associated data is sealed with the empty one.\<close>

definition aes_encrypt :: "crypto \<Rightarrow> string \<Rightarrow> string \<Rightarrow> string \<Rightarrow> string option \<Rightarrow> string" where
  "aes_encrypt C key iv pt aad = gcm_encrypt C key iv pt (unwrap_or aad [])"

definition aes_decrypt ::
  "crypto \<Rightarrow> string \<Rightarrow> string \<Rightarrow> string \<Rightarrow> string option \<Rightarrow> crypto_error + string" where
  "aes_decrypt C key iv ct aad =
     (if length key \<noteq> AES_KEY_LEN \<or> length iv \<noteq> GCM_IV_LEN then Inl (BadInput ''bad key/iv length'')
      else case gcm_decrypt C key iv ct (unwrap_or aad []) of
             None \<Rightarrow> Inl DecryptFailed | Some pt \<Rightarrow> Inr pt)"

definition b64encode :: "crypto \<Rightarrow> string \<Rightarrow> string" where
  "b64encode C bytes = b64_std_encode C bytes"

definition b64decode :: "crypto \<Rightarrow> string \<Rightarrow> crypto_error + string" where
  "b64decode C s = (case b64_std_decode C s of None \<Rightarrow> Inl (BadInput ''base64'') | Some b \<Rightarrow> Inr b)"

subsection \<open>Note text: enc:v1 and enc:v2\<close>

definition SENTINEL_V1 :: string where "SENTINEL_V1 = ''enc:v1:''"
definition SENTINEL_V2 :: string where "SENTINEL_V2 = ''enc:v2:''"

definition is_encrypted_v2 :: "string \<Rightarrow> bool" where
  "is_encrypted_v2 v \<longleftrightarrow> strip_prefix SENTINEL_V2 v \<noteq> None"

definition encrypt_note :: "crypto \<Rightarrow> string \<Rightarrow> string option \<Rightarrow> string \<Rightarrow> string \<Rightarrow> string" where
  "encrypt_note C mk note_id plaintext iv =
     (let sentinel = (case note_id of Some _ \<Rightarrow> SENTINEL_V2 | None \<Rightarrow> SENTINEL_V1);
          ct = aes_encrypt C mk iv plaintext note_id
      in sentinel @ b64encode C iv @ ''.'' @ b64encode C ct)"

definition open_payload ::
  "crypto \<Rightarrow> string \<Rightarrow> bool \<Rightarrow> string option \<Rightarrow> string \<Rightarrow> crypto_error + string" where
  "open_payload C mk is_v2 note_id payload =
     (case split_once (CHR ''.'') payload of
        None \<Rightarrow> Inl (BadInput ''missing '.' separator'')
      | Some (iv_b64, ct_b64) \<Rightarrow>
          case b64decode C iv_b64 of Inl e \<Rightarrow> Inl e
          | Inr iv \<Rightarrow>
              (case b64decode C ct_b64 of Inl e \<Rightarrow> Inl e
               | Inr ct \<Rightarrow>
                   if is_v2 \<and> note_id = None
                   then Inl (BadInput ''noteId required to decrypt enc:v2'')
                   else
                     (case aes_decrypt C mk iv ct (if is_v2 then note_id else None) of
                        Inl e \<Rightarrow> Inl e
                      | Inr pt \<Rightarrow> if utf8_valid pt then Inr pt else Inl (BadInput ''utf8''))))"

definition decrypt_note ::
  "crypto \<Rightarrow> string \<Rightarrow> string option \<Rightarrow> string \<Rightarrow> crypto_error + string" where
  "decrypt_note C mk note_id v =
     (case strip_prefix SENTINEL_V2 v of
        Some p \<Rightarrow> open_payload C mk True note_id p
      | None \<Rightarrow>
          (case strip_prefix SENTINEL_V1 v of
             Some p \<Rightarrow> open_payload C mk False note_id p
           | None \<Rightarrow> Inl (BadInput ''unrecognised sentinel'')))"

subsection \<open>Sealed byte blobs\<close>

definition VERSION_AAD :: char where "VERSION_AAD = CHR 0x02"
definition IV_LEN :: nat where "IV_LEN = 12"

definition seal_bytes :: "crypto \<Rightarrow> string \<Rightarrow> string \<Rightarrow> string \<Rightarrow> string \<Rightarrow> string" where
  "seal_bytes C mk bytes aad iv = VERSION_AAD # iv @ aes_encrypt C mk iv bytes (Some aad)"

definition open_bytes :: "crypto \<Rightarrow> string \<Rightarrow> string \<Rightarrow> string \<Rightarrow> crypto_error + string" where
  "open_bytes C mk sealed aad =
     (if length sealed < 1 + IV_LEN \<or> hd sealed \<noteq> VERSION_AAD
      then Inl (BadInput ''unrecognised sealed blob'')
      else aes_decrypt C mk (take IV_LEN (drop 1 sealed)) (drop (1 + IV_LEN) sealed) (Some aad))"

subsection \<open>Wrapping the master key\<close>

record wrapped_blob =
  wrapped_key :: string
  wb_iv :: string
  wb_salt :: string

definition WRAP_INFO :: string where "WRAP_INFO = ''surfc-master-key-wrap-v1''"
definition PIN_ITERATIONS :: nat where "PIN_ITERATIONS = 600000"

definition to_blob :: "crypto \<Rightarrow> string \<Rightarrow> string \<Rightarrow> string \<Rightarrow> wrapped_blob" where
  "to_blob C wk iv salt =
     \<lparr>wrapped_key = b64encode C wk, wb_iv = b64encode C iv, wb_salt = b64encode C salt\<rparr>"

definition to_mk_array :: "string \<Rightarrow> crypto_error + string" where
  "to_mk_array raw =
     (if length raw \<noteq> 32 then Inl (BadInput ''unwrapped MK is not 32 bytes'') else Inr raw)"

definition wrap_with_prf :: "crypto \<Rightarrow> string \<Rightarrow> string \<Rightarrow> string \<Rightarrow> string \<Rightarrow> wrapped_blob" where
  "wrap_with_prf C raw_mk prf salt iv =
     to_blob C (aes_encrypt C (hkdf32 C salt prf WRAP_INFO) iv raw_mk None) iv salt"

text \<open>The three decodes of a blob, in the order the code makes them.\<close>

definition open_blob ::
  "crypto \<Rightarrow> wrapped_blob \<Rightarrow> (string \<Rightarrow> string) \<Rightarrow> crypto_error + string" where
  "open_blob C blob derive =
     (case b64decode C (wb_salt blob) of Inl e \<Rightarrow> Inl e
      | Inr salt \<Rightarrow>
          (case b64decode C (wb_iv blob) of Inl e \<Rightarrow> Inl e
           | Inr iv \<Rightarrow>
               (case b64decode C (wrapped_key blob) of Inl e \<Rightarrow> Inl e
                | Inr ct \<Rightarrow>
                    (case aes_decrypt C (derive salt) iv ct None of Inl e \<Rightarrow> Inl e
                     | Inr raw \<Rightarrow> to_mk_array raw))))"

definition unwrap_with_prf :: "crypto \<Rightarrow> wrapped_blob \<Rightarrow> string \<Rightarrow> crypto_error + string" where
  "unwrap_with_prf C blob prf = open_blob C blob (\<lambda>salt. hkdf32 C salt prf WRAP_INFO)"

definition wrap_with_pin :: "crypto \<Rightarrow> string \<Rightarrow> string \<Rightarrow> string \<Rightarrow> string \<Rightarrow> wrapped_blob" where
  "wrap_with_pin C raw_mk pin salt iv =
     to_blob C (aes_encrypt C (pbkdf2_sha256 C pin salt PIN_ITERATIONS) iv raw_mk None) iv salt"

definition unwrap_with_pin :: "crypto \<Rightarrow> wrapped_blob \<Rightarrow> string \<Rightarrow> crypto_error + string" where
  "unwrap_with_pin C blob pin = open_blob C blob (\<lambda>salt. pbkdf2_sha256 C pin salt PIN_ITERATIONS)"

subsection \<open>The vault\<close>

record vault = vault_mk :: string

definition new_vault :: "string \<Rightarrow> vault" where "new_vault mk = \<lparr>vault_mk = mk\<rparr>"

definition vault_generate :: "string \<Rightarrow> vault" where "vault_generate random32 = new_vault random32"

definition vault_unlock :: "crypto \<Rightarrow> string \<Rightarrow> wrapped_blob \<Rightarrow> crypto_error + vault" where
  "vault_unlock C prf blob = map_sum id new_vault (unwrap_with_prf C blob prf)"

fun vault_unlock_from_blobs ::
  "crypto \<Rightarrow> string \<Rightarrow> wrapped_blob list \<Rightarrow> crypto_error + vault" where
  "vault_unlock_from_blobs C prf [] = Inl DecryptFailed"
| "vault_unlock_from_blobs C prf (blob # blobs) =
     (case unwrap_with_prf C blob prf of
        Inr mk \<Rightarrow> Inr (new_vault mk)
      | Inl _ \<Rightarrow> vault_unlock_from_blobs C prf blobs)"

definition vault_redeem_pin_transfer ::
  "crypto \<Rightarrow> wrapped_blob \<Rightarrow> string \<Rightarrow> crypto_error + vault" where
  "vault_redeem_pin_transfer C blob pin = map_sum id new_vault (unwrap_with_pin C blob pin)"

text \<open>The methods that draw randomness take it as the pair of a salt and an IV, or an IV.\<close>

definition vault_wrap_with_prf :: "crypto \<Rightarrow> string \<times> string \<Rightarrow> vault \<Rightarrow> string \<Rightarrow> wrapped_blob" where
  "vault_wrap_with_prf C rnd v prf = (case rnd of (salt, iv) \<Rightarrow> wrap_with_prf C (vault_mk v) prf salt iv)"

definition vault_rewrap :: "crypto \<Rightarrow> string \<times> string \<Rightarrow> vault \<Rightarrow> string \<Rightarrow> wrapped_blob" where
  "vault_rewrap C rnd v new_prf = vault_wrap_with_prf C rnd v new_prf"

definition vault_pin_wrap :: "crypto \<Rightarrow> string \<times> string \<Rightarrow> vault \<Rightarrow> string \<Rightarrow> wrapped_blob" where
  "vault_pin_wrap C rnd v pin = (case rnd of (salt, iv) \<Rightarrow> wrap_with_pin C (vault_mk v) pin salt iv)"

definition vault_encrypt_note :: "crypto \<Rightarrow> string \<Rightarrow> vault \<Rightarrow> string option \<Rightarrow> string \<Rightarrow> string" where
  "vault_encrypt_note C iv v note_id plaintext = encrypt_note C (vault_mk v) note_id plaintext iv"

definition vault_decrypt_note ::
  "crypto \<Rightarrow> vault \<Rightarrow> string option \<Rightarrow> string \<Rightarrow> crypto_error + string" where
  "vault_decrypt_note C v note_id ciphertext = decrypt_note C (vault_mk v) note_id ciphertext"

definition vault_seal_bytes :: "crypto \<Rightarrow> string \<Rightarrow> vault \<Rightarrow> string \<Rightarrow> string \<Rightarrow> string" where
  "vault_seal_bytes C iv v bytes aad = seal_bytes C (vault_mk v) bytes aad iv"

definition vault_open_bytes :: "crypto \<Rightarrow> vault \<Rightarrow> string \<Rightarrow> string \<Rightarrow> crypto_error + string" where
  "vault_open_bytes C v sealed aad = open_bytes C (vault_mk v) sealed aad"

definition BOOK_URL_INFO :: string where "BOOK_URL_INFO = ''braird-book-url-v1''"

definition book_url_key :: "crypto \<Rightarrow> vault \<Rightarrow> string" where
  "book_url_key C v = hkdf32_unsalted C (vault_mk v) BOOK_URL_INFO"

definition seal_book_url :: "crypto \<Rightarrow> string \<Rightarrow> vault \<Rightarrow> string \<Rightarrow> string \<Rightarrow> string" where
  "seal_book_url C iv v book_id url = encrypt_note C (book_url_key C v) (Some book_id) url iv"

definition open_book_url :: "crypto \<Rightarrow> vault \<Rightarrow> string \<Rightarrow> string \<Rightarrow> string option" where
  "open_book_url C v book_id sealed =
     (if \<not> is_encrypted_v2 sealed then None
      else case decrypt_note C (book_url_key C v) (Some book_id) sealed of
             Inl _ \<Rightarrow> None | Inr url \<Rightarrow> Some url)"

subsection \<open>What the code relies on of the libraries\<close>

text \<open>AES-256-GCM opens what it sealed, adds a 16-byte tag, and opens nothing else (the tag is
  recomputed and compared); the derivation functions return the length asked for; base64 has no
  \<open>'.'\<close> in its alphabet and is canonical in both directions.\<close>

definition aead_ok :: "crypto \<Rightarrow> bool" where
  "aead_ok C \<longleftrightarrow>
     (\<forall>k iv pt a. length k = 32 \<longrightarrow> length iv = 12 \<longrightarrow>
        gcm_decrypt C k iv (gcm_encrypt C k iv pt a) a = Some pt) \<and>
     (\<forall>k iv ct a pt. gcm_decrypt C k iv ct a = Some pt \<longrightarrow> ct = gcm_encrypt C k iv pt a) \<and>
     (\<forall>k iv pt a. length (gcm_encrypt C k iv pt a) = length pt + 16)"

definition kdf_ok :: "crypto \<Rightarrow> bool" where
  "kdf_ok C \<longleftrightarrow> (\<forall>s ikm info n. length (hkdf_sha256 C s ikm info n) = n) \<and>
     (\<forall>p s i n. length (pbkdf2_hmac_sha256 C p s i n) = n)"

definition b64_ok :: "crypto \<Rightarrow> bool" where
  "b64_ok C \<longleftrightarrow> (\<forall>b. b64_std_decode C (b64_std_encode C b) = Some b \<and> CHR ''.'' \<notin> set (b64_std_encode C b)) \<and>
     (\<forall>s b. b64_std_decode C s = Some b \<longrightarrow> s = b64_std_encode C b)"

definition crypto_ok :: "crypto \<Rightarrow> bool" where
  "crypto_ok C \<longleftrightarrow> aead_ok C \<and> kdf_ok C \<and> b64_ok C"

lemma aes_round_trip:
  "crypto_ok C \<Longrightarrow> length k = 32 \<Longrightarrow> length iv = 12 \<Longrightarrow>
   aes_decrypt C k iv (aes_encrypt C k iv pt a) a = Inr pt"
  by (simp add: crypto_ok_def aead_ok_def aes_decrypt_def aes_encrypt_def AES_KEY_LEN_def GCM_IV_LEN_def)

lemma aes_decrypt_sound:
  "crypto_ok C \<Longrightarrow> aes_decrypt C k iv ct a = Inr pt \<Longrightarrow>
   ct = aes_encrypt C k iv pt a \<and> length k = 32 \<and> length iv = 12"
  by (auto simp: crypto_ok_def aead_ok_def aes_decrypt_def aes_encrypt_def AES_KEY_LEN_def
      GCM_IV_LEN_def split: if_splits option.splits)

lemma b64_round_trip: "crypto_ok C \<Longrightarrow> b64decode C (b64encode C b) = Inr b"
  by (simp add: crypto_ok_def b64_ok_def b64decode_def b64encode_def)

lemma b64_canonical: "crypto_ok C \<Longrightarrow> b64decode C s = Inr b \<longleftrightarrow> s = b64encode C b"
  by (auto simp: crypto_ok_def b64_ok_def b64decode_def b64encode_def split: option.splits)

lemma b64_no_dot: "crypto_ok C \<Longrightarrow> CHR ''.'' \<notin> set (b64encode C b)"
  by (simp add: crypto_ok_def b64_ok_def b64encode_def)

lemma kdf_lengths:
  assumes "crypto_ok C"
  shows "length (hkdf32 C s ikm info) = 32" "length (hkdf32_unsalted C ikm info) = 32"
    "length (pbkdf2_sha256 C p s i) = 32"
  using assms
  by (simp_all add: crypto_ok_def kdf_ok_def hkdf32_def hkdf32_unsalted_def pbkdf2_sha256_def)

subsection \<open>Sealing as an interface\<close>

text \<open>A sealing scheme: what was sealed under a context \<open>k\<close> with randomness \<open>r\<close> opens to itself.
  Every format of the crate is one.\<close>

locale sealed_box =
  fixes seal :: "'k \<Rightarrow> 'r \<Rightarrow> 'p \<Rightarrow> 'b" and opn :: "'k \<Rightarrow> 'b \<Rightarrow> 'e + 'p"
    and ok :: "'k \<Rightarrow> 'r \<Rightarrow> 'p \<Rightarrow> bool"
  assumes open_seal: "ok k r p \<Longrightarrow> opn k (seal k r p) = Inr p"
begin

lemma seal_inj: "ok k r p \<Longrightarrow> ok k r' p' \<Longrightarrow> seal k r p = seal k r' p' \<Longrightarrow> p = p'"
  using open_seal by (metis sum.inject(2))

text \<open>Trying every box of a list, one sealed box in it is enough.\<close>

lemma trial_finds:
  assumes "ok k r p" "seal k r p \<in> set bs"
  shows "\<exists>b \<in> set bs. \<exists>q. opn k b = Inr q"
  using assms open_seal by blast

end

definition note_ok :: "crypto \<times> string \<times> string option \<Rightarrow> string \<Rightarrow> string \<Rightarrow> bool" where
  "note_ok k iv p = (case k of (C, mk, _) \<Rightarrow>
     crypto_ok C \<and> length mk = 32 \<and> length iv = 12 \<and> utf8_valid p)"

definition bytes_ok :: "crypto \<times> string \<times> string \<Rightarrow> string \<Rightarrow> string \<Rightarrow> bool" where
  "bytes_ok k iv p = (case k of (C, mk, _) \<Rightarrow> crypto_ok C \<and> length mk = 32 \<and> length iv = 12)"

definition blob_ok :: "crypto \<times> string \<Rightarrow> string \<times> string \<Rightarrow> string \<Rightarrow> bool" where
  "blob_ok k r p = (case k of (C, _) \<Rightarrow> crypto_ok C \<and> length (snd r) = 12 \<and> length p = 32)"

lemma sentinels_differ: "strip_prefix SENTINEL_V2 (SENTINEL_V1 @ s) = None"
  by (simp add: strip_prefix_def SENTINEL_V1_def SENTINEL_V2_def)

lemma open_payload_sealed:
  assumes "crypto_ok C" "length mk = 32" "length iv = 12" "utf8_valid p"
    and "is_v2 = (note_id \<noteq> None)"
  shows "open_payload C mk is_v2 note_id
    (b64encode C iv @ ''.'' @ b64encode C (aes_encrypt C mk iv p note_id)) = Inr p"
  using assms
  by (auto simp: open_payload_def b64_no_dot b64_round_trip aes_round_trip)

interpretation note_box: sealed_box "\<lambda>(C, mk, i) iv p. encrypt_note C mk i p iv"
  "\<lambda>(C, mk, i) v. decrypt_note C mk i v" note_ok
proof
  fix k :: "crypto \<times> string \<times> string option" and iv p
  assume ok: "note_ok k iv p"
  obtain C mk i where k: "k = (C, mk, i)" by (metis prod_cases3)
  have "decrypt_note C mk i (encrypt_note C mk i p iv) = Inr p"
    using ok open_payload_sealed [of C mk iv p "i \<noteq> None" i]
    by (cases i) (simp_all add: k note_ok_def encrypt_note_def decrypt_note_def Let_def sentinels_differ)
  then show "(case k of (C, mk, i) \<Rightarrow> \<lambda>v. decrypt_note C mk i v)
      ((case k of (C, mk, i) \<Rightarrow> \<lambda>iv p. encrypt_note C mk i p iv) iv p) = Inr p"
    by (simp add: k)
qed

interpretation bytes_box: sealed_box "\<lambda>(C, mk, aad) iv p. seal_bytes C mk p aad iv"
  "\<lambda>(C, mk, aad) b. open_bytes C mk b aad" bytes_ok
  by unfold_locales
    (auto simp: bytes_ok_def seal_bytes_def open_bytes_def IV_LEN_def aes_round_trip split: prod.splits)

interpretation prf_box: sealed_box "\<lambda>(C, prf) (salt, iv) mk. wrap_with_prf C mk prf salt iv"
  "\<lambda>(C, prf) b. unwrap_with_prf C b prf" blob_ok
  by unfold_locales
    (auto simp: blob_ok_def wrap_with_prf_def unwrap_with_prf_def open_blob_def to_blob_def
      b64_round_trip aes_round_trip kdf_lengths to_mk_array_def split: prod.splits)

interpretation pin_box: sealed_box "\<lambda>(C, pin) (salt, iv) mk. wrap_with_pin C mk pin salt iv"
  "\<lambda>(C, pin) b. unwrap_with_pin C b pin" blob_ok
  by unfold_locales
    (auto simp: blob_ok_def wrap_with_pin_def unwrap_with_pin_def open_blob_def to_blob_def
      b64_round_trip aes_round_trip kdf_lengths to_mk_array_def split: prod.splits)


subsection \<open>A toy instance of the libraries\<close>

text \<open>A transparent cipher with a constant tag and an escaping text code: it has the laws, and
  none of the secrecy.\<close>

definition toy_tag :: string where "toy_tag = replicate 16 (CHR ''t'')"

fun toy_escape :: "string \<Rightarrow> string" where
  "toy_escape [] = []"
| "toy_escape (c # s) =
     (if c = CHR ''.'' then CHR '','' # CHR ''1'' # toy_escape s
      else if c = CHR '','' then CHR '','' # CHR ''0'' # toy_escape s
      else c # toy_escape s)"

fun toy_unescape :: "string \<Rightarrow> string option" where
  "toy_unescape [] = Some []"
| "toy_unescape (c # s) =
     (if c = CHR ''.'' then None
      else if c = CHR '','' then
        (case s of [] \<Rightarrow> None
         | d # s' \<Rightarrow> if d = CHR ''1'' then map_option (Cons (CHR ''.'')) (toy_unescape s')
                     else if d = CHR ''0'' then map_option (Cons (CHR '','')) (toy_unescape s')
                     else None)
      else map_option (Cons c) (toy_unescape s))"

definition toy_crypto :: crypto where
  "toy_crypto = \<lparr>gcm_encrypt = (\<lambda>k iv pt a. pt @ toy_tag),
     gcm_decrypt = (\<lambda>k iv ct a. strip_suffix toy_tag ct),
     hkdf_sha256 = (\<lambda>s ikm info n. replicate n (CHR ''k'')),
     pbkdf2_hmac_sha256 = (\<lambda>p s i n. replicate n (CHR ''p'')),
     b64_std_encode = toy_escape, b64_std_decode = toy_unescape\<rparr>"

lemma toy_unescape_escape: "toy_unescape (toy_escape s) = Some s"
  by (induction s) auto

lemma toy_escape_no_dot: "CHR ''.'' \<notin> set (toy_escape s)"
  by (induction s) auto

lemma toy_escape_unescape: "toy_unescape s = Some b \<Longrightarrow> s = toy_escape b"
proof (induction s arbitrary: b rule: toy_unescape.induct)
  case (2 c s)
  show ?case
  proof (cases "c = CHR '',''")
    case True
    with 2(4) obtain d s' where s: "s = d # s'" by (cases s) auto
    with True 2(4) 2(1,2) [of d s'] show ?thesis by (auto split: if_splits)
  next
    case False
    with 2(4) 2(3) show ?thesis by (auto split: if_splits)
  qed
qed simp

lemma toy_crypto_ok: "crypto_ok toy_crypto"
proof -
  have "aead_ok toy_crypto" "kdf_ok toy_crypto"
    by (auto simp: aead_ok_def kdf_ok_def toy_crypto_def strip_suffix_Some, simp add: toy_tag_def)
  moreover have "b64_ok toy_crypto"
    using toy_escape_unescape
    by (simp add: b64_ok_def toy_crypto_def toy_unescape_escape toy_escape_no_dot)
  ultimately show ?thesis by (simp add: crypto_ok_def)
qed

abbreviation toy_mk :: string where "toy_mk \<equiv> replicate 32 (CHR ''m'')"
abbreviation toy_iv :: string where "toy_iv \<equiv> replicate 12 (CHR ''i'')"

subsection \<open>Properties\<close>

lemma open_payload_sound:
  assumes C: "crypto_ok C" and "open_payload C mk True (Some i) payload = Inr p"
  obtains iv where "length iv = 12" "utf8_valid p"
    "payload = b64encode C iv @ ''.'' @ b64encode C (aes_encrypt C mk iv p (Some i))"
proof -
  from assms(2) obtain a b iv ct where sp: "split_once (CHR ''.'') payload = Some (a, b)"
    and iv: "b64decode C a = Inr iv" and ct: "b64decode C b = Inr ct"
    and pt: "aes_decrypt C mk iv ct (Some i) = Inr p" and "utf8_valid p"
    by (auto simp: open_payload_def split: option.splits prod.splits sum.splits if_splits)
  moreover have "payload = a @ CHR ''.'' # b" using sp by (simp add: split_once_Some)
  ultimately show ?thesis
    using that aes_decrypt_sound [OF C pt] b64_canonical [OF C] by auto
qed

text \<open>
  Property C29.  An \<open>enc:v2\<close> text opens under a note id to a plaintext exactly when it is a
  sealing of that plaintext for that very id under that key: nothing malformed, truncated or
  sealed for another record opens.
\<close>

theorem note_v2_exact:
  assumes C: "crypto_ok C" and mk: "length mk = 32"
  shows "is_encrypted_v2 v \<and> decrypt_note C mk (Some i) v = Inr p \<longleftrightarrow>
    (\<exists>iv. length iv = 12 \<and> utf8_valid p \<and> v = encrypt_note C mk (Some i) p iv)"
    (is "?open \<longleftrightarrow> ?sealed")
proof
  assume ?open
  then obtain pl where v: "v = SENTINEL_V2 @ pl" and o': "open_payload C mk True (Some i) pl = Inr p"
    by (auto simp: is_encrypted_v2_def decrypt_note_def strip_prefix_Some)
  from open_payload_sound [OF C o'] show ?sealed
    by (auto simp: v encrypt_note_def Let_def)
next
  assume ?sealed
  then obtain iv where iv: "length iv = 12" "utf8_valid p" "v = encrypt_note C mk (Some i) p iv" by blast
  then have "is_encrypted_v2 v" by (simp add: is_encrypted_v2_def encrypt_note_def Let_def)
  moreover have "decrypt_note C mk (Some i) v = Inr p"
    using note_box.open_seal [of "(C, mk, Some i)" iv p] C mk iv by (simp add: note_ok_def)
  ultimately show ?open ..
qed

theorem note_v2_exact_witness:
  "is_encrypted_v2 (encrypt_note toy_crypto toy_mk (Some ''n1'') ''hi'' toy_iv) \<and>
   decrypt_note toy_crypto toy_mk (Some ''n1'') (encrypt_note toy_crypto toy_mk (Some ''n1'') ''hi'' toy_iv)
     = Inr ''hi''"
proof -
  have "utf8_valid ''hi''" by code_simp
  then show ?thesis
    using note_v2_exact [OF toy_crypto_ok, of toy_mk
        "encrypt_note toy_crypto toy_mk (Some ''n1'') ''hi'' toy_iv" "''n1''" "''hi''"]
    by (metis length_replicate)
qed

text \<open>
  Property C28.  The note id matters exactly for \<open>enc:v2\<close>: any other text decrypts the same under
  every id (or none), and an \<open>enc:v2\<close> text never opens without an id.
\<close>

theorem note_id_binds_v2_only:
  "(is_encrypted_v2 v \<or> (\<forall>i j. decrypt_note C mk i v = decrypt_note C mk j v)) \<and>
   (\<not> is_encrypted_v2 v \<or> isl (decrypt_note C mk None v))"
  by (auto simp: is_encrypted_v2_def decrypt_note_def open_payload_def
      split: option.splits sum.splits)

theorem note_id_binds_v2_only_witness:
  "isl (decrypt_note toy_crypto toy_mk None ''enc:v2:a.b'') \<and>
   decrypt_note toy_crypto toy_mk (Some ''x'') ''enc:v1:a.b'' = decrypt_note toy_crypto toy_mk None ''enc:v1:a.b''"
proof -
  have "is_encrypted_v2 ''enc:v2:a.b''" "\<not> is_encrypted_v2 ''enc:v1:a.b''"
    by (simp_all add: is_encrypted_v2_def strip_prefix_def SENTINEL_V2_def)
  then show ?thesis
    using note_id_binds_v2_only [of "''enc:v2:a.b''" toy_crypto toy_mk]
      note_id_binds_v2_only [of "''enc:v1:a.b''" toy_crypto toy_mk] by blast
qed

text \<open>
  A sealed blob opens under a context string to some bytes exactly when it is the
  sealing of those bytes for that context, with a 12-byte IV.
\<close>

theorem bytes_exact:
  assumes C: "crypto_ok C" and mk: "length mk = 32"
  shows "open_bytes C mk b aad = Inr p \<longleftrightarrow> (\<exists>iv. length iv = 12 \<and> b = seal_bytes C mk p aad iv)"
proof
  assume o': "open_bytes C mk b aad = Inr p"
  then have len: "13 \<le> length b" "hd b = VERSION_AAD"
    and dec: "aes_decrypt C mk (take 12 (drop 1 b)) (drop 13 b) (Some aad) = Inr p"
    by (auto simp: open_bytes_def IV_LEN_def split: if_splits)
  have "b = VERSION_AAD # take 12 (drop 1 b) @ drop 13 b"
    using len by (cases b) (auto simp: append_take_drop_id simp flip: drop_drop)
  with aes_decrypt_sound [OF C dec] show "\<exists>iv. length iv = 12 \<and> b = seal_bytes C mk p aad iv"
    by (metis seal_bytes_def)
next
  assume "\<exists>iv. length iv = 12 \<and> b = seal_bytes C mk p aad iv"
  then show "open_bytes C mk b aad = Inr p"
    using bytes_box.open_seal [of "(C, mk, aad)" _ p] C mk by (auto simp: bytes_ok_def)
qed

theorem bytes_exact_witness:
  "open_bytes toy_crypto toy_mk (seal_bytes toy_crypto toy_mk ''vec'' ''emb:n1'' toy_iv) ''emb:n1'' = Inr ''vec''"
  using bytes_exact [OF toy_crypto_ok, of toy_mk
      "seal_bytes toy_crypto toy_mk ''vec'' ''emb:n1'' toy_iv" "''emb:n1''" "''vec''"]
  by (metis length_replicate)


text \<open>Unlocking from a list skips the blobs that do not open, and fails when none does.\<close>

lemma unlock_from_blobs_skip:
  "\<forall>b \<in> set bs. isl (unwrap_with_prf C b prf) \<Longrightarrow>
   vault_unlock_from_blobs C prf (bs @ cs) = vault_unlock_from_blobs C prf cs"
  by (induction bs) (auto split: sum.split)

lemma unlock_from_blobs_fails:
  "vault_unlock_from_blobs C prf bs = Inl e \<longleftrightarrow>
     e = DecryptFailed \<and> (\<forall>b \<in> set bs. isl (unwrap_with_prf C b prf))"
  by (induction bs) (auto split: sum.split)

text \<open>
  Property C32.  A vault's key survives wrapping: whatever blobs that do not open stand before it,
  and whatever follows, unlocking with the same PRF output recovers the very vault that wrapped
  the key, and a PIN transfer blob redeems to it; unlocking fails, with the one coarse error,
  exactly when no blob of the list opens.
\<close>

theorem vault_unlock_recovers:
  assumes C: "crypto_ok C" and "length (vault_mk v) = 32" "length iv = 12"
    and "\<forall>b \<in> set before. isl (unwrap_with_prf C b prf)"
  shows "vault_unlock_from_blobs C prf (before @ vault_wrap_with_prf C (salt, iv) v prf # after) = Inr v \<and>
    vault_unlock C prf (vault_wrap_with_prf C (salt, iv) v prf) = Inr v \<and>
    vault_redeem_pin_transfer C (vault_pin_wrap C (salt, iv) v pin) pin = Inr v \<and>
    (vault_unlock_from_blobs C prf after = Inl DecryptFailed \<longleftrightarrow>
       (\<forall>b \<in> set after. isl (unwrap_with_prf C b prf))) \<and>
    (\<forall>e. vault_unlock_from_blobs C prf after = Inl e \<longrightarrow> e = DecryptFailed)"
proof -
  have u: "unwrap_with_prf C (vault_wrap_with_prf C (salt, iv) v prf) prf = Inr (vault_mk v)"
    using prf_box.open_seal [of "(C, prf)" "(salt, iv)" "vault_mk v"] assms
    by (simp add: blob_ok_def vault_wrap_with_prf_def)
  have p: "unwrap_with_pin C (vault_pin_wrap C (salt, iv) v pin) pin = Inr (vault_mk v)"
    using pin_box.open_seal [of "(C, pin)" "(salt, iv)" "vault_mk v"] assms
    by (simp add: blob_ok_def vault_pin_wrap_def)
  show ?thesis
    using unlock_from_blobs_skip [OF assms(4)]
    by (simp add: unlock_from_blobs_fails u p vault_unlock_def vault_redeem_pin_transfer_def
        new_vault_def)
qed

theorem vault_unlock_recovers_witness:
  "vault_unlock_from_blobs toy_crypto ''prf''
     [\<lparr>wrapped_key = ''.'', wb_iv = ''.'', wb_salt = ''.''\<rparr>,
      vault_wrap_with_prf toy_crypto (''salt'', toy_iv) (new_vault toy_mk) ''prf''] = Inr (new_vault toy_mk)"
proof -
  let ?bad = "\<lparr>wrapped_key = ''.'', wb_iv = ''.'', wb_salt = ''.''\<rparr>"
  have "isl (unwrap_with_prf toy_crypto ?bad ''prf'')"
    by (simp add: unwrap_with_prf_def open_blob_def b64decode_def toy_crypto_def)
  then have "\<forall>b \<in> set [?bad]. isl (unwrap_with_prf toy_crypto b ''prf'')" by simp
  from vault_unlock_recovers [OF toy_crypto_ok _ _ this, of "new_vault toy_mk" toy_iv "''salt''" "[]"]
  show ?thesis by (simp add: new_vault_def)
qed

lemma book_url_key_length: "crypto_ok C \<Longrightarrow> length (book_url_key C v) = 32"
  by (simp add: book_url_key_def kdf_lengths)

text \<open>
  Property C27.  A stored book link opens for a book to a URL exactly when it is the sealing of
  that URL for that book under the vault's link subkey; plaintext, \<open>enc:v1\<close> and anything else
  reads as no link.
\<close>

theorem book_url_exact:
  assumes C: "crypto_ok C"
  shows "open_book_url C v book_id sealed = Some url \<longleftrightarrow>
    (\<exists>iv. length iv = 12 \<and> utf8_valid url \<and> sealed = seal_book_url C iv v book_id url)"
proof
  assume "open_book_url C v book_id sealed = Some url"
  then obtain pl where s: "sealed = SENTINEL_V2 @ pl"
    and o': "open_payload C (book_url_key C v) True (Some book_id) pl = Inr url"
    by (auto simp: open_book_url_def is_encrypted_v2_def decrypt_note_def strip_prefix_Some
        split: if_splits sum.splits)
  from open_payload_sound [OF C o']
  show "\<exists>iv. length iv = 12 \<and> utf8_valid url \<and> sealed = seal_book_url C iv v book_id url"
    by (auto simp: s seal_book_url_def encrypt_note_def Let_def)
next
  assume "\<exists>iv. length iv = 12 \<and> utf8_valid url \<and> sealed = seal_book_url C iv v book_id url"
  then show "open_book_url C v book_id sealed = Some url"
    using note_box.open_seal [of "(C, book_url_key C v, Some book_id)" _ url] C book_url_key_length
    by (auto simp: open_book_url_def seal_book_url_def is_encrypted_v2_def note_ok_def encrypt_note_def
        Let_def)
qed

theorem book_url_exact_witness:
  "open_book_url toy_crypto (new_vault toy_mk) ''b''
     (seal_book_url toy_crypto toy_iv (new_vault toy_mk) ''b'' ''u'') = Some ''u''"
proof -
  have "utf8_valid ''u''" by code_simp
  then show ?thesis
    using book_url_exact [OF toy_crypto_ok, of "new_vault toy_mk" "''b''"
        "seal_book_url toy_crypto toy_iv (new_vault toy_mk) ''b'' ''u''" "''u''"]
    by (metis length_replicate)
qed

end
