(* ===== verification/Image_Crypto.thy ===== *)
theory Image_Crypto
  imports Crypto
begin

text \<open>
  The \<open>encimg:v1\<close> image seal of \<open>src/src/image_encryption.rs\<close> and its entry points in
  \<open>vault.rs\<close>: a fresh data key per image, wrapped under a subkey of the master key, the image in
  256 KiB chunks of an AEAD stream, one associated-data string that binds the user and the path.
  The STREAM construction (\<open>aead::stream\<close>) is a third-party crate: its two operations at a chunk
  position are the fields of a \<open>stream\<close> record with their laws in \<open>stream_ok\<close>.  The random data
  key, wrap IV and nonce prefix are arguments.
\<close>

subsection \<open>Constants and identifiers\<close>

record stream =
  enc_next :: "string \<Rightarrow> string \<Rightarrow> nat \<Rightarrow> string \<Rightarrow> string \<Rightarrow> string"
  enc_last :: "string \<Rightarrow> string \<Rightarrow> nat \<Rightarrow> string \<Rightarrow> string \<Rightarrow> string"
  dec_next :: "string \<Rightarrow> string \<Rightarrow> nat \<Rightarrow> string \<Rightarrow> string \<Rightarrow> string option"
  dec_last :: "string \<Rightarrow> string \<Rightarrow> nat \<Rightarrow> string \<Rightarrow> string \<Rightarrow> string option"

definition KEY_WRAP_INFO :: string where "KEY_WRAP_INFO = ''braird-image-key-wrap-v1''"
definition MAGIC :: string where "MAGIC = ''encimg:v1''"
definition CHUNK :: nat where "CHUNK = 262144"
definition TAG_LEN :: nat where "TAG_LEN = 16"
definition WRAP_IV_AT :: nat where "WRAP_IV_AT = length MAGIC"
definition WRAPPED_DEK_AT :: nat where "WRAPPED_DEK_AT = WRAP_IV_AT + 12"
definition NONCE_PREFIX_AT :: nat where "NONCE_PREFIX_AT = WRAPPED_DEK_AT + 32 + TAG_LEN"
definition HEADER_LEN :: nat where "HEADER_LEN = NONCE_PREFIX_AT + 7"
definition MIN_SEALED_LEN :: nat where "MIN_SEALED_LEN = HEADER_LEN + TAG_LEN"
definition MAX_CHUNKS :: nat where "MAX_CHUNKS = 2 ^ 32 - 1"

definition is_lower_hex :: "char \<Rightarrow> bool" where
  "is_lower_hex c \<longleftrightarrow> byte_in 48 57 c \<or> byte_in 97 102 c"

definition is_user_id :: "string \<Rightarrow> bool" where
  "is_user_id s \<longleftrightarrow> length s = 36 \<and>
     list_all (\<lambda>(i, c). if i \<in> {8, 13, 18, 23} then c = CHR ''-'' else is_lower_hex c)
       (List.enumerate 0 s)"

definition is_image_id :: "string \<Rightarrow> bool" where
  "is_image_id s \<longleftrightarrow> 1 \<le> length s \<and> length s \<le> 64 \<and>
     list_all (\<lambda>c. byte_in 48 57 c \<or> byte_in 65 90 c \<or> byte_in 97 122 c \<or> c = CHR ''-'') s"

definition image_id_for_path :: "string \<Rightarrow> string \<Rightarrow> string option" where
  "image_id_for_path user_id path =
     (if \<not> is_user_id user_id then None
      else case strip_prefix user_id path of None \<Rightarrow> None
        | Some p1 \<Rightarrow>
            (case strip_prefix ''/'' p1 of None \<Rightarrow> None
             | Some p2 \<Rightarrow>
                 (case strip_suffix ''.jpg'' p2 of None \<Rightarrow> None
                  | Some image_id \<Rightarrow> if is_image_id image_id then Some image_id else None)))"

text \<open>\<open>(n as u16).to_be_bytes()\<close>.\<close>

definition u16_be :: "nat \<Rightarrow> string" where
  "u16_be n = [char_of (n div 256 mod 256), char_of (n mod 256)]"

definition image_aad :: "string \<Rightarrow> string \<Rightarrow> string" where
  "image_aad user_id image_id =
     MAGIC @ u16_be (length user_id) @ user_id @ u16_be (length image_id) @ image_id"

definition fits_chunk_cap :: "nat \<Rightarrow> bool" where
  "fits_chunk_cap n \<longleftrightarrow> n \<le> MAX_CHUNKS * CHUNK"

subsection \<open>Sealing and opening\<close>

text \<open>The chunk loop, from a position of the stream on.\<close>

function seal_chunks :: "stream \<Rightarrow> string \<Rightarrow> string \<Rightarrow> string \<Rightarrow> nat \<Rightarrow> string \<Rightarrow> string" where
  "seal_chunks S dek prefix aad pos rest =
     (if CHUNK < length rest
      then enc_next S dek prefix pos (take CHUNK rest) aad @
             seal_chunks S dek prefix aad (Suc pos) (drop CHUNK rest)
      else enc_last S dek prefix pos rest aad)"
  by pat_completeness auto
termination
  by (relation "measure (\<lambda>(S, dek, prefix, aad, pos, rest). length rest)") (auto simp: CHUNK_def)

declare seal_chunks.simps [simp del]

definition seal_with ::
  "crypto \<Rightarrow> stream \<Rightarrow> string \<Rightarrow> string \<Rightarrow> string \<Rightarrow> string \<Rightarrow> string \<Rightarrow> string \<Rightarrow> string \<Rightarrow>
   crypto_error + string" where
  "seal_with C S k_wrap dek wrap_iv nonce_prefix user_id image_id pt =
     (if \<not> fits_chunk_cap (length pt) then Inl (BadInput ''image too large'')
      else
        let aad = image_aad user_id image_id
        in Inr (MAGIC @ wrap_iv @ aes_encrypt C k_wrap wrap_iv dek (Some aad) @ nonce_prefix @
             seal_chunks S dek nonce_prefix aad 0 pt))"

definition seal ::
  "crypto \<Rightarrow> stream \<Rightarrow> string \<times> string \<times> string \<Rightarrow> string \<Rightarrow> string \<Rightarrow> string \<Rightarrow> string \<Rightarrow>
   crypto_error + string" where
  "seal C S rnd k_wrap user_id image_id pt =
     (case rnd of (dek, wrap_iv, nonce_prefix) \<Rightarrow>
        seal_with C S k_wrap dek wrap_iv nonce_prefix user_id image_id pt)"

text \<open>The full chunks before the last one: \<open>n\<close> pieces of \<open>CHUNK + TAG_LEN\<close> bytes.\<close>

fun open_chunks :: "stream \<Rightarrow> string \<Rightarrow> string \<Rightarrow> string \<Rightarrow> nat \<Rightarrow> nat \<Rightarrow> string \<Rightarrow> string option" where
  "open_chunks S dek prefix aad pos 0 body = dec_last S dek prefix pos body aad"
| "open_chunks S dek prefix aad pos (Suc n) body =
     (case dec_next S dek prefix pos (take (CHUNK + TAG_LEN) body) aad of
        None \<Rightarrow> None
      | Some pt \<Rightarrow>
          map_option (append pt)
            (open_chunks S dek prefix aad (Suc pos) n (drop (CHUNK + TAG_LEN) body)))"

definition split_body :: "nat \<Rightarrow> nat \<times> nat" where
  "split_body n =
     (let piece = CHUNK + TAG_LEN
      in if n mod piece = 0 then (n div piece - 1, piece) else (n div piece, n mod piece))"

definition open_image ::
  "crypto \<Rightarrow> stream \<Rightarrow> string \<Rightarrow> string \<Rightarrow> string \<Rightarrow> string \<Rightarrow> crypto_error + string" where
  "open_image C S k_wrap user_id image_id sealed =
     (if length sealed < MIN_SEALED_LEN \<or> take (length MAGIC) sealed \<noteq> MAGIC then Inl DecryptFailed
      else
        let aad = image_aad user_id image_id
        in case aes_decrypt C k_wrap (take 12 (drop WRAP_IV_AT sealed))
                  (take (32 + TAG_LEN) (drop WRAPPED_DEK_AT sealed)) (Some aad) of
             Inl _ \<Rightarrow> Inl DecryptFailed
           | Inr dek \<Rightarrow>
               let body = drop HEADER_LEN sealed;
                   (before_last, last_len) = split_body (length body);
                   noncanonical = (last_len < TAG_LEN \<or> (last_len = TAG_LEN \<and> 0 < before_last))
               in if noncanonical \<or> MAX_CHUNKS \<le> before_last then Inl DecryptFailed
                  else case open_chunks S dek (take 7 (drop NONCE_PREFIX_AT sealed)) aad 0 before_last body of
                         None \<Rightarrow> Inl DecryptFailed | Some pt \<Rightarrow> Inr pt)"

subsection \<open>The vault's entry points\<close>

definition image_key_wrap_key :: "crypto \<Rightarrow> vault \<Rightarrow> string" where
  "image_key_wrap_key C v = hkdf32_unsalted C (vault_mk v) KEY_WRAP_INFO"

definition vault_seal_image ::
  "crypto \<Rightarrow> stream \<Rightarrow> string \<times> string \<times> string \<Rightarrow> vault \<Rightarrow> string \<Rightarrow> string \<Rightarrow> string \<Rightarrow>
   crypto_error + string" where
  "vault_seal_image C S rnd v user_id path plaintext =
     (if \<not> is_user_id user_id then Inl (BadInput ''user_id is not a lowercase UUID string'')
      else case image_id_for_path user_id path of
          None \<Rightarrow> Inl (BadInput ''path is not <user_id>/<image_id>.jpg'')
        | Some image_id \<Rightarrow> seal C S rnd (image_key_wrap_key C v) user_id image_id plaintext)"

definition vault_open_image ::
  "crypto \<Rightarrow> stream \<Rightarrow> vault \<Rightarrow> string \<Rightarrow> string \<Rightarrow> string \<Rightarrow> crypto_error + string" where
  "vault_open_image C S v user_id path sealed =
     (case image_id_for_path user_id path of
        None \<Rightarrow> Inl DecryptFailed
      | Some image_id \<Rightarrow> open_image C S (image_key_wrap_key C v) user_id image_id sealed)"

subsection \<open>What the code relies on of the stream\<close>

text \<open>At every position below the counter's limit a chunk opens to what was sealed there, grows by
  the tag, and nothing else opens.\<close>

definition stream_ok :: "stream \<Rightarrow> bool" where
  "stream_ok S \<longleftrightarrow> (\<forall>k p i a. i < MAX_CHUNKS \<longrightarrow>
     (\<forall>m. dec_next S k p i (enc_next S k p i m a) a = Some m \<and>
        dec_last S k p i (enc_last S k p i m a) a = Some m \<and>
        length (enc_next S k p i m a) = length m + 16 \<and>
        length (enc_last S k p i m a) = length m + 16) \<and>
     (\<forall>c m. (dec_next S k p i c a = Some m \<longrightarrow> c = enc_next S k p i m a) \<and>
        (dec_last S k p i c a = Some m \<longrightarrow> c = enc_last S k p i m a)))"

lemma stream_facts:
  assumes "stream_ok S" "i < MAX_CHUNKS"
  shows "dec_next S k p i (enc_next S k p i m a) a = Some m"
    "dec_last S k p i (enc_last S k p i m a) a = Some m"
    "length (enc_next S k p i m a) = length m + 16"
    "length (enc_last S k p i m a) = length m + 16"
  using assms by (simp_all add: stream_ok_def)

lemma stream_sound:
  assumes "stream_ok S" "i < MAX_CHUNKS"
  shows "dec_next S k p i c a = Some m \<Longrightarrow> c = enc_next S k p i m a \<and> length c = length m + 16"
    "dec_last S k p i c a = Some m \<Longrightarrow> c = enc_last S k p i m a \<and> length c = length m + 16"
  using assms unfolding stream_ok_def by metis+

subsection \<open>The chunk layout\<close>

text \<open>How many full chunks precede the last one.\<close>

definition full_chunks :: "nat \<Rightarrow> nat" where "full_chunks n = (n - 1) div CHUNK"

lemma full_chunks_small: "n \<le> CHUNK \<Longrightarrow> full_chunks n = 0"
  by (cases n) (simp_all add: full_chunks_def)

lemma full_chunks_step: "CHUNK < n \<Longrightarrow> full_chunks n = Suc (full_chunks (n - CHUNK))"
proof -
  assume "CHUNK < n"
  moreover from this have "n - 1 = (n - CHUNK - 1) + CHUNK" by simp
  moreover have "0 < CHUNK" by (simp add: CHUNK_def)
  ultimately show ?thesis by (metis Suc_eq_plus1 add.commute div_add_self2 full_chunks_def not_gr_zero)
qed

lemma full_chunks_bounds:
  "full_chunks n * CHUNK \<le> n" "n \<le> full_chunks n * CHUNK + CHUNK"
  "0 < n \<Longrightarrow> full_chunks n * CHUNK < n"
proof -
  have c: "0 < CHUNK" by (simp add: CHUNK_def)
  have d: "(n - 1) div CHUNK * CHUNK + (n - 1) mod CHUNK = n - 1" by simp
  have m: "(n - 1) mod CHUNK < CHUNK" using c by simp
  show "full_chunks n * CHUNK \<le> n" "n \<le> full_chunks n * CHUNK + CHUNK"
    "0 < n \<Longrightarrow> full_chunks n * CHUNK < n"
    unfolding full_chunks_def using d m by linarith+
qed

lemma fits_chunk_cap_iff: "fits_chunk_cap n \<longleftrightarrow> full_chunks n < MAX_CHUNKS"
proof -
  have m: "0 < MAX_CHUNKS" and c: "0 < CHUNK" by (simp_all add: MAX_CHUNKS_def CHUNK_def)
  show ?thesis
  proof (cases n)
    case (Suc k)
    have "k div CHUNK < MAX_CHUNKS \<longleftrightarrow> k < MAX_CHUNKS * CHUNK" by (rule div_less_iff_less_mult [OF c])
    with Suc show ?thesis by (auto simp: fits_chunk_cap_def full_chunks_def)
  qed (use m in \<open>simp add: fits_chunk_cap_def full_chunks_def\<close>)
qed

lemma seal_chunks_length:
  assumes S: "stream_ok S"
  shows "pos + full_chunks (length rest) < MAX_CHUNKS \<Longrightarrow>
    length (seal_chunks S dek prefix aad pos rest) = length rest + 16 * (full_chunks (length rest) + 1)"
proof (induction "length rest" arbitrary: pos rest rule: less_induct)
  case less
  show ?case
  proof (cases "CHUNK < length rest")
    case True
    note step = full_chunks_step [OF True]
    have "length (drop CHUNK rest) < length rest" using True by (simp add: CHUNK_def)
    from less(1) [OF this, of "Suc pos"] less(2) True step stream_facts(3) [OF S, of pos] show ?thesis
      by (subst seal_chunks.simps) simp
  next
    case False
    with less(2) stream_facts(4) [OF S, of pos] show ?thesis
      by (subst seal_chunks.simps) (simp add: full_chunks_small)
  qed
qed

lemma open_seal_chunks:
  assumes S: "stream_ok S"
  shows "pos + full_chunks (length rest) < MAX_CHUNKS \<Longrightarrow>
    open_chunks S dek prefix aad pos (full_chunks (length rest)) (seal_chunks S dek prefix aad pos rest)
      = Some rest"
proof (induction "length rest" arbitrary: pos rest rule: less_induct)
  case less
  show ?case
  proof (cases "CHUNK < length rest")
    case True
    note step = full_chunks_step [OF True]
    have l: "length (enc_next S dek prefix pos (take CHUNK rest) aad) = CHUNK + TAG_LEN"
      using less(2) True stream_facts(3) [OF S, of pos] by (simp add: TAG_LEN_def)
    have "length (drop CHUNK rest) < length rest" using True by (simp add: CHUNK_def)
    from less(1) [OF this, of "Suc pos"] less(2) True step l stream_facts(1) [OF S, of pos] show ?thesis
      by (subst seal_chunks.simps) simp
  next
    case False
    with less(2) stream_facts(2) [OF S, of pos] show ?thesis
      by (subst seal_chunks.simps) (simp add: full_chunks_small)
  qed
qed

lemma open_chunks_sound:
  assumes S: "stream_ok S"
  shows "open_chunks S dek prefix aad pos n body = Some pt \<Longrightarrow>
    length body = n * (CHUNK + TAG_LEN) + last_len \<Longrightarrow> last_len \<le> CHUNK + TAG_LEN \<Longrightarrow>
    (0 < n \<Longrightarrow> TAG_LEN < last_len) \<Longrightarrow> pos + n < MAX_CHUNKS \<Longrightarrow>
    body = seal_chunks S dek prefix aad pos pt \<and> full_chunks (length pt) = n"
proof (induction n arbitrary: pos body pt)
  case 0
  then have "body = enc_last S dek prefix pos pt aad" "length body = length pt + 16"
    using stream_sound(2) [OF S, of pos] by auto
  with 0(2,3) have "length pt \<le> CHUNK" by (simp add: TAG_LEN_def)
  with \<open>body = _\<close> show ?case by (subst seal_chunks.simps) (simp add: full_chunks_small)
next
  case (Suc n)
  let ?piece = "CHUNK + TAG_LEN"
  from Suc(2) obtain m pt' where m: "dec_next S dek prefix pos (take ?piece body) aad = Some m"
    and o': "open_chunks S dek prefix aad (Suc pos) n (drop ?piece body) = Some pt'" and pt: "pt = m @ pt'"
    by (auto split: option.splits)
  have long: "?piece \<le> length body" "TAG_LEN < last_len" using Suc(3,5) by auto
  have tk: "take ?piece body = enc_next S dek prefix pos m aad" and lm: "length m = CHUNK"
    using stream_sound(1) [OF S _ m] Suc(6) long(1) by (auto simp: TAG_LEN_def)
  have dr: "drop ?piece body = seal_chunks S dek prefix aad (Suc pos) pt'" "full_chunks (length pt') = n"
    using Suc(1) [OF o'] Suc(3-6) by auto
  have "0 < length pt'"
  proof (cases pt')
    case Nil
    then have "n = 0" using dr(2) by (simp add: full_chunks_def)
    then have "length (seal_chunks S dek prefix aad (Suc pos) []) = last_len"
      using Suc(3) dr(1) Nil by (metis add.commute add_diff_cancel_right' length_drop mult_1 One_nat_def)
    moreover have "length (seal_chunks S dek prefix aad (Suc pos) []) = 16"
      using seal_chunks_length [OF S, of "Suc pos" "[]" dek prefix aad] Suc(6) by (simp add: full_chunks_def)
    ultimately show ?thesis using long(2) by (simp add: TAG_LEN_def)
  qed simp
  then have "seal_chunks S dek prefix aad pos pt = take ?piece body @ drop ?piece body"
    "full_chunks (length pt) = Suc n"
    using lm tk dr full_chunks_step [of "length pt"]
    by (subst seal_chunks.simps, simp_all add: pt)
  then show ?case by simp
qed


lemma split_body_sealed:
  "split_body (n + 16 * (full_chunks n + 1)) =
     (full_chunks n, n - full_chunks n * CHUNK + TAG_LEN)"
proof -
  define f r where "f = full_chunks n" and "r = n - f * CHUNK"
  have n: "n = f * CHUNK + r" and r: "r \<le> CHUNK"
    using full_chunks_bounds(1,2) [of n] by (simp_all add: f_def r_def)
  have tot: "n + 16 * (f + 1) = f * (CHUNK + TAG_LEN) + (r + TAG_LEN)"
    by (simp add: n TAG_LEN_def algebra_simps)
  show ?thesis
  proof (cases "r = CHUNK")
    case True
    then have "n + 16 * (f + 1) = Suc f * (CHUNK + TAG_LEN)" unfolding tot by simp
    then show ?thesis
      by (simp add: split_body_def Let_def True flip: f_def r_def) (simp add: CHUNK_def)
  next
    case False
    then have lt: "r + TAG_LEN < CHUNK + TAG_LEN" using r by simp
    have "(f * (CHUNK + TAG_LEN) + (r + TAG_LEN)) mod (CHUNK + TAG_LEN) = r + TAG_LEN"
      "(f * (CHUNK + TAG_LEN) + (r + TAG_LEN)) div (CHUNK + TAG_LEN) = f"
      using lt by simp_all
    then show ?thesis
      unfolding f_def [symmetric] r_def [symmetric] tot
      by (simp add: split_body_def Let_def TAG_LEN_def)
  qed
qed

lemma split_body_shape:
  assumes "split_body n = (b, l)" "0 < n"
  shows "n = b * (CHUNK + TAG_LEN) + l" "l \<le> CHUNK + TAG_LEN"
proof -
  let ?p = "CHUNK + TAG_LEN"
  have p: "0 < ?p" by (simp add: CHUNK_def)
  have "n = b * ?p + l \<and> l \<le> ?p"
  proof (cases "n mod ?p = 0")
    case True
    then obtain q where "n = ?p * q" by (metis mod_0_imp_dvd dvdE)
    with assms(2) obtain q' where q: "n = ?p * Suc q'" by (cases q) auto
    then have "n div ?p = Suc q'" using p by simp
    with True assms(1) q show ?thesis by (simp add: split_body_def)
  next
    case False
    with assms(1) have "b = n div ?p" "l = n mod ?p" by (auto simp: split_body_def Let_def)
    then show ?thesis using p div_mult_mod_eq [of n ?p] mod_less_divisor [OF p, of n] by (metis less_imp_le)
  qed
  then show "n = b * ?p + l" "l \<le> ?p" by auto
qed

lemma layout_numbers:
  "length MAGIC = 9" "WRAP_IV_AT = 9" "WRAPPED_DEK_AT = 21" "NONCE_PREFIX_AT = 69" "HEADER_LEN = 76"
  "MIN_SEALED_LEN = 92"
  by (simp_all add: MAGIC_def WRAP_IV_AT_def WRAPPED_DEK_AT_def NONCE_PREFIX_AT_def HEADER_LEN_def
      MIN_SEALED_LEN_def TAG_LEN_def)

text \<open>The header of an object: the five fields of its parts, read back at their offsets.\<close>

lemma header_parts:
  assumes "length iv = 12" "length wd = 48" "length np = 7"
  shows "take (length MAGIC) (MAGIC @ iv @ wd @ np @ body) = MAGIC"
    "take 12 (drop WRAP_IV_AT (MAGIC @ iv @ wd @ np @ body)) = iv"
    "take (32 + TAG_LEN) (drop WRAPPED_DEK_AT (MAGIC @ iv @ wd @ np @ body)) = wd"
    "take 7 (drop NONCE_PREFIX_AT (MAGIC @ iv @ wd @ np @ body)) = np"
    "drop HEADER_LEN (MAGIC @ iv @ wd @ np @ body) = body"
  using assms by (simp_all add: layout_numbers TAG_LEN_def)

lemma header_split:
  assumes "92 \<le> length s" "take (length MAGIC) s = MAGIC"
  shows "s = MAGIC @ take 12 (drop WRAP_IV_AT s) @ take (32 + TAG_LEN) (drop WRAPPED_DEK_AT s) @
    take 7 (drop NONCE_PREFIX_AT s) @ drop HEADER_LEN s"
proof -
  have step: "drop a s = take b (drop a s) @ drop (a + b) s" for a b
    by (metis append_take_drop_id drop_drop add.commute)
  have "s = take 9 s @ drop 9 s" by simp
  also have "\<dots> = MAGIC @ take 12 (drop 9 s) @ take 48 (drop 21 s) @ take 7 (drop 69 s) @ drop 76 s"
    using assms(2) step [of 9 12] step [of 21 48] step [of 69 7] by (simp add: layout_numbers)
  finally show ?thesis by (simp add: layout_numbers TAG_LEN_def)
qed


subsection \<open>Properties\<close>

text \<open>The result of sealing, written out.\<close>

lemma seal_with_Inr:
  "seal_with C S k_wrap dek iv np u i pt = Inr s \<longleftrightarrow> fits_chunk_cap (length pt) \<and>
   s = MAGIC @ iv @ aes_encrypt C k_wrap iv dek (Some (image_aad u i)) @ np @
     seal_chunks S dek np (image_aad u i) 0 pt"
  by (auto simp: seal_with_def Let_def)

lemma wrapped_dek_length:
  "crypto_ok C \<Longrightarrow> length (aes_encrypt C k iv dek a) = length dek + 16"
  by (simp add: crypto_ok_def aead_ok_def aes_encrypt_def)

lemma open_seal_image:
  assumes C: "crypto_ok C" and S: "stream_ok S" and k: "length k_wrap = 32"
    and len: "length dek = 32" "length iv = 12" "length np = 7"
    and s: "seal_with C S k_wrap dek iv np u i pt = Inr s"
  shows "open_image C S k_wrap u i s = Inr pt"
proof -
  let ?aad = "image_aad u i" and ?n = "length pt"
  let ?body = "seal_chunks S dek np ?aad 0 pt"
  from s have cap: "full_chunks ?n < MAX_CHUNKS"
    and s': "s = MAGIC @ iv @ aes_encrypt C k_wrap iv dek (Some ?aad) @ np @ ?body"
    by (simp_all add: seal_with_Inr fits_chunk_cap_iff)
  have wd: "length (aes_encrypt C k_wrap iv dek (Some ?aad)) = 48" using C len by (simp add: wrapped_dek_length)
  have bl: "length ?body = ?n + 16 * (full_chunks ?n + 1)" using seal_chunks_length [OF S] cap by simp
  have sp: "split_body (length ?body) = (full_chunks ?n, ?n - full_chunks ?n * CHUNK + TAG_LEN)"
    unfolding bl by (rule split_body_sealed)
  have can: "\<not> (?n - full_chunks ?n * CHUNK + TAG_LEN = TAG_LEN \<and> 0 < full_chunks ?n)"
  proof (cases "?n = 0")
    case False
    then show ?thesis using full_chunks_bounds(3) [of ?n] by linarith
  qed (simp add: full_chunks_def)
  have ml: "\<not> length s < MIN_SEALED_LEN" by (simp add: s' bl wd len layout_numbers)
  note parts = header_parts [OF len(2) wd len(3), of ?body, folded s']
  have "aes_decrypt C k_wrap iv (aes_encrypt C k_wrap iv dek (Some ?aad)) (Some ?aad) = Inr dek"
    using aes_round_trip [OF C k len(2)] .
  moreover have "open_chunks S dek np ?aad 0 (full_chunks ?n) ?body = Some pt"
    using open_seal_chunks [OF S] cap by simp
  ultimately show ?thesis
    unfolding open_image_def Let_def parts sp using ml can cap by simp
qed

lemma open_image_sound:
  assumes C: "crypto_ok C" and S: "stream_ok S" and o': "open_image C S k_wrap u i s = Inr pt"
  obtains dek iv np where "length dek = 32" "length iv = 12" "length np = 7"
    "seal_with C S k_wrap dek iv np u i pt = Inr s"
proof -
  let ?aad = "image_aad u i" and ?iv = "take 12 (drop WRAP_IV_AT s)" and ?np = "take 7 (drop NONCE_PREFIX_AT s)"
  let ?wd = "take (32 + TAG_LEN) (drop WRAPPED_DEK_AT s)" and ?body = "drop HEADER_LEN s"
  obtain b l where sp: "split_body (length ?body) = (b, l)" by (meson surj_pair)
  from o' obtain dek where len': "MIN_SEALED_LEN \<le> length s" and mg: "take (length MAGIC) s = MAGIC"
    and dek: "aes_decrypt C k_wrap ?iv ?wd (Some ?aad) = Inr dek"
    and can: "TAG_LEN \<le> l" "l = TAG_LEN \<Longrightarrow> b = 0" "b < MAX_CHUNKS"
    and chunks: "open_chunks S dek ?np ?aad 0 b ?body = Some pt"
    by (auto simp: open_image_def Let_def sp [simplified] split: if_splits sum.splits option.splits)
  have len: "92 \<le> length s" using len' by (simp add: layout_numbers)
  have bl: "length ?body = length s - 76" by (simp add: layout_numbers)
  then have "0 < length ?body" using len by simp
  note shape = split_body_shape [OF sp this]
  have "?body = seal_chunks S dek ?np ?aad 0 pt \<and> full_chunks (length pt) = b"
  proof -
    have "0 < b \<Longrightarrow> TAG_LEN < l" using can(1,2) by fastforce
    from open_chunks_sound [OF S chunks shape this] can(3) show ?thesis by simp
  qed
  moreover have wd: "?wd = aes_encrypt C k_wrap ?iv dek (Some ?aad)" "length ?iv = 12"
    using aes_decrypt_sound [OF C dek] by simp_all
  moreover have "length dek = 32"
  proof -
    have "length ?wd = 48" using len by (simp add: layout_numbers TAG_LEN_def)
    then show ?thesis using wd(1) C by (simp add: wrapped_dek_length)
  qed
  moreover have "length ?np = 7" using len by (simp add: layout_numbers)
  moreover have "s = MAGIC @ ?iv @ ?wd @ ?np @ ?body" using header_split [OF len mg] .
  ultimately show ?thesis
    using that [of dek ?iv ?np] can(3) by (metis seal_with_Inr fits_chunk_cap_iff)
qed

lemma image_id_for_path_Some:
  "image_id_for_path u path = Some i \<longleftrightarrow>
     is_user_id u \<and> is_image_id i \<and> path = u @ ''/'' @ i @ ''.jpg''"
proof
  assume "image_id_for_path u path = Some i"
  then show "is_user_id u \<and> is_image_id i \<and> path = u @ ''/'' @ i @ ''.jpg''"
    by (auto simp: image_id_for_path_def strip_prefix_Some strip_suffix_Some split: option.splits if_splits)
next
  assume a: "is_user_id u \<and> is_image_id i \<and> path = u @ ''/'' @ i @ ''.jpg''"
  have "strip_prefix ''/'' (CHR ''/'' # t) = Some t" for t by (simp add: strip_prefix_Some)
  moreover have "strip_suffix ''.jpg'' (i @ ''.jpg'') = Some i" by (simp add: strip_suffix_Some)
  ultimately show "image_id_for_path u path = Some i" using a by (simp add: image_id_for_path_def)
qed

interpretation image_box: sealed_box
  "\<lambda>(C, S, kw, u, i) (dek, iv, np) p. seal_with C S kw dek iv np u i p"
  "\<lambda>(C, S, kw, u, i) b. case b of Inr s \<Rightarrow> open_image C S kw u i s | Inl e \<Rightarrow> Inl e"
  "\<lambda>(C, S, kw, u, i) (dek, iv, np) p. crypto_ok C \<and> stream_ok S \<and> length kw = 32 \<and>
     length dek = 32 \<and> length iv = 12 \<and> length np = 7 \<and> fits_chunk_cap (length p)"
proof
  fix k :: "crypto \<times> stream \<times> string \<times> string \<times> string" and r :: "string \<times> string \<times> string" and p :: string
  assume ok: "(case k of (C, S, kw, u, i) \<Rightarrow> \<lambda>(dek, iv, np) p. crypto_ok C \<and> stream_ok S \<and> length kw = 32 \<and>
     length dek = 32 \<and> length iv = 12 \<and> length np = 7 \<and> fits_chunk_cap (length p)) r p"
  obtain C S kw u i dek iv np where kr: "k = (C, S, kw, u, i)" "r = (dek, iv, np)"
    by (metis prod.collapse)
  with ok obtain s where "seal_with C S kw dek iv np u i p = Inr s" by (auto simp: seal_with_Inr)
  moreover from this ok kr have "open_image C S kw u i s = Inr p"
    by (auto intro: open_seal_image)
  ultimately show "(case k of (C, S, kw, u, i) \<Rightarrow> \<lambda>b. case b of Inl e \<Rightarrow> Inl e
        | Inr s \<Rightarrow> open_image C S kw u i s)
      ((case k of (C, S, kw, u, i) \<Rightarrow> \<lambda>(dek, iv, np) p. seal_with C S kw dek iv np u i p) r p) = Inr p"
    by (simp add: kr)
qed

text \<open>
  Property C22.  The vault opens an image object at a path to a picture exactly when the object is a
  sealing of that picture for that path by this vault (for some 32-byte data key, 12-byte IV and
  7-byte nonce prefix): every sealing opens, and no truncated, reordered, moved, padded or
  otherwise laid out object does.
\<close>

theorem vault_image_exact:
  assumes C: "crypto_ok C" and S: "stream_ok S"
  shows "vault_open_image C S v u path s = Inr pt \<longleftrightarrow>
    (\<exists>dek iv np. length dek = 32 \<and> length iv = 12 \<and> length np = 7 \<and>
       vault_seal_image C S (dek, iv, np) v u path pt = Inr s)"
proof (cases "image_id_for_path u path")
  case None
  then show ?thesis by (simp add: vault_open_image_def vault_seal_image_def)
next
  case (Some i)
  have k: "length (image_key_wrap_key C v) = 32" using C by (simp add: image_key_wrap_key_def kdf_lengths)
  have seal: "vault_seal_image C S (dek, iv, np) v u path pt =
      seal_with C S (image_key_wrap_key C v) dek iv np u i pt" for dek iv np
    using Some image_id_for_path_Some [of u path i] by (simp add: vault_seal_image_def seal_def)
  have "vault_open_image C S v u path s = open_image C S (image_key_wrap_key C v) u i s"
    using Some by (simp add: vault_open_image_def)
  then show ?thesis
    unfolding seal using open_seal_image [OF C S k] open_image_sound [OF C S] by metis
qed

text \<open>
  Property C39.  A sealed image is 92 bytes longer than the picture, plus 16 for every full 256 KiB
  chunk before the last, and sealing refuses exactly the pictures that need more than
  \<open>2^32 - 1\<close> chunks.
\<close>

theorem sealed_image_length:
  assumes "crypto_ok C" "stream_ok S" "length dek = 32" "length iv = 12" "length np = 7"
  shows "case seal_with C S k_wrap dek iv np u i pt of
      Inl e \<Rightarrow> e = BadInput ''image too large'' \<and> (2 ^ 32 - 1) * 262144 < length pt
    | Inr s \<Rightarrow> length pt \<le> (2 ^ 32 - 1) * 262144 \<and>
        length s = length pt + 92 + 16 * ((length pt - 1) div 262144)"
proof (cases "fits_chunk_cap (length pt)")
  case True
  then have "length (seal_chunks S dek np (image_aad u i) 0 pt) =
      length pt + 16 * (full_chunks (length pt) + 1)"
    using seal_chunks_length [OF assms(2)] by (simp add: fits_chunk_cap_iff)
  with True assms show ?thesis
    by (simp add: seal_with_def Let_def wrapped_dek_length layout_numbers full_chunks_def CHUNK_def
        fits_chunk_cap_def MAX_CHUNKS_def)
next
  case False
  then show ?thesis by (simp add: seal_with_def fits_chunk_cap_def MAX_CHUNKS_def CHUNK_def)
qed

lemma char_of_inj: "m < 256 \<Longrightarrow> n < 256 \<Longrightarrow> char_of m = char_of n \<Longrightarrow> m = (n :: nat)"
  using of_char_of [of m] of_char_of [of n] by (metis mod_less)

lemma u16_be_inj: "m < 65536 \<Longrightarrow> n < 65536 \<Longrightarrow> u16_be m = u16_be n \<Longrightarrow> m = n"
proof -
  assume a: "m < 65536" "n < 65536" "u16_be m = u16_be n"
  then have "m div 256 mod 256 = n div 256 mod 256" "m mod 256 = n mod 256"
    unfolding u16_be_def list.inject by (auto intro!: char_of_inj simp del: char_of_mod_256)
  moreover have "m div 256 < 256" "n div 256 < 256" using a by auto
  ultimately show ?thesis by (metis div_mult_mod_eq mod_less)
qed

text \<open>
  The associated data of an image identifies its user and its image: over ids of at
  most 65535 bytes the string is injective, so the authentication of one object can never stand
  for another path.
\<close>

theorem image_aad_injective:
  assumes "length u < 65536" "length u' < 65536" "length i < 65536" "length i' < 65536"
  shows "image_aad u i = image_aad u' i' \<longleftrightarrow> u = u' \<and> i = i'"
proof
  assume "image_aad u i = image_aad u' i'"
  then have eq: "u16_be (length u) @ u @ u16_be (length i) @ i = u16_be (length u') @ u' @ u16_be (length i') @ i'"
    by (simp add: image_aad_def)
  have "length (u16_be (length u)) = length (u16_be (length u'))" by (simp add: u16_be_def)
  with eq have "u16_be (length u) = u16_be (length u')"
    and rest: "u @ u16_be (length i) @ i = u' @ u16_be (length i') @ i'"
    using append_eq_append_conv [of "u16_be (length u)" "u16_be (length u')"] by blast+
  then have "length u = length u'" using u16_be_inj assms by blast
  with rest have "u = u'" and "u16_be (length i) @ i = u16_be (length i') @ i'"
    using append_eq_append_conv [of u u'] by blast+
  then show "u = u' \<and> i = i'" by (simp add: u16_be_def)
qed simp


subsection \<open>A concrete image\<close>

definition toy_stream :: stream where
  "toy_stream = \<lparr>enc_next = (\<lambda>k p i m a. m @ toy_tag), enc_last = (\<lambda>k p i m a. m @ toy_tag),
     dec_next = (\<lambda>k p i c a. strip_suffix toy_tag c), dec_last = (\<lambda>k p i c a. strip_suffix toy_tag c)\<rparr>"

lemma toy_stream_ok: "stream_ok toy_stream"
proof -
  have "length toy_tag = 16" by (simp add: toy_tag_def)
  then show ?thesis by (simp add: stream_ok_def toy_stream_def strip_suffix_Some)
qed

abbreviation toy_user :: string where "toy_user \<equiv> ''0123abcd-0000-0000-0000-00000000000f''"

lemma toy_path: "image_id_for_path toy_user (toy_user @ ''/'' @ ''img-1'' @ ''.jpg'') = Some ''img-1''"
proof -
  have "is_user_id toy_user" "is_image_id ''img-1''" by code_simp+
  then show ?thesis unfolding image_id_for_path_Some by blast
qed

theorem vault_image_exact_witness:
  "\<exists>s. vault_seal_image toy_crypto toy_stream (toy_mk, toy_iv, replicate 7 (CHR ''n'')) (new_vault toy_mk)
       toy_user (toy_user @ ''/'' @ ''img-1'' @ ''.jpg'') ''jpeg'' = Inr s \<and>
     vault_open_image toy_crypto toy_stream (new_vault toy_mk) toy_user
       (toy_user @ ''/'' @ ''img-1'' @ ''.jpg'') s = Inr ''jpeg''"
proof -
  let ?path = "toy_user @ ''/'' @ ''img-1'' @ ''.jpg''" and ?np = "replicate 7 (CHR ''n'')"
  have "is_user_id toy_user" by code_simp
  moreover have "fits_chunk_cap (length ''jpeg'')" by (simp add: fits_chunk_cap_def MAX_CHUNKS_def CHUNK_def)
  ultimately obtain s where s: "vault_seal_image toy_crypto toy_stream (toy_mk, toy_iv, ?np) (new_vault toy_mk)
      toy_user ?path ''jpeg'' = Inr s"
    unfolding vault_seal_image_def toy_path seal_def seal_with_def Let_def by simp
  then have "\<exists>dek iv np. length dek = 32 \<and> length iv = 12 \<and> length np = 7 \<and>
      vault_seal_image toy_crypto toy_stream (dek, iv, np) (new_vault toy_mk) toy_user ?path ''jpeg'' = Inr s"
    by (intro exI [of _ toy_mk] exI [of _ toy_iv] exI [of _ ?np]) simp
  then have "vault_open_image toy_crypto toy_stream (new_vault toy_mk) toy_user ?path s = Inr ''jpeg''"
    using vault_image_exact [OF toy_crypto_ok toy_stream_ok] by blast
  with s show ?thesis by blast
qed

theorem sealed_image_length_witness:
  "case seal_with toy_crypto toy_stream toy_mk toy_mk toy_iv ''1234567'' ''u'' ''i'' ''jpeg'' of
     Inl e \<Rightarrow> False | Inr s \<Rightarrow> length s = 96"
  using sealed_image_length [OF toy_crypto_ok toy_stream_ok, of toy_mk toy_iv "''1234567''" "''jpeg''"
      toy_mk "''u''" "''i''"]
  by (auto split: sum.splits)

theorem image_aad_injective_witness: "image_aad ''a'' ''bc'' \<noteq> image_aad ''ab'' ''c''"
  using image_aad_injective [of "''a''" "''ab''" "''bc''" "''c''"] by simp

end
