(* ===== verification/Search.thy ===== *)
theory Search
  imports Braird_Prelude
begin

text \<open>
  The matching core of \<open>src/src/search.rs\<close>: tokenizing, the small stemmer, the order-preserving
  deduplication of query terms and the edit distance.  The engine works on Unicode scalar values,
  so a text here is the list of its scalar values (\<open>nat list\<close>).  Two Unicode tables are
  arguments: the lower-casing of a word (\<open>lower\<close>) and the token boundary test on non-newline
  scalars by general category (\<open>boundary\<close>).  The scoring in \<open>f64\<close> is in \<open>Ranking\<close>.
\<close>

type_synonym scalars = "nat list"

text \<open>The scalar values of an ASCII literal.\<close>

definition lit :: "string \<Rightarrow> scalars" where "lit s = map of_char s"

definition ends_with :: "scalars \<Rightarrow> scalars \<Rightarrow> bool" where
  "ends_with s suf \<longleftrightarrow> length suf \<le> length s \<and> drop (length s - length suf) s = suf"

subsection \<open>Stemming\<close>

definition undouble_letters :: scalars where "undouble_letters = lit ''bcdfghjkmnpqrtv''"

definition undouble :: "scalars \<Rightarrow> scalars" where
  "undouble w =
     (let len = length w
      in if 2 \<le> len \<and> w ! (len - 1) = w ! (len - 2) \<and> w ! (len - 1) \<in> set undouble_letters
         then take (len - 1) w else w)"

definition strip_plural :: "scalars \<Rightarrow> scalars" where
  "strip_plural w =
     (let n = length w
      in if ends_with w (lit ''ies'') \<and> 4 < n then take (n - 3) w @ lit ''y''
         else if ends_with w (lit ''sses'') then take (n - 2) w
         else if ends_with w (lit ''s'') \<and> \<not> ends_with w (lit ''ss'') then take (n - 1) w
         else w)"

definition strip_inflection :: "scalars \<Rightarrow> scalars" where
  "strip_inflection w =
     (let n = length w
      in if ends_with w (lit ''ing'') \<and> 5 < n then undouble (take (n - 3) w)
         else if ends_with w (lit ''ed'') \<and> 4 < n then undouble (take (n - 2) w)
         else w)"

definition stem :: "(scalars \<Rightarrow> scalars) \<Rightarrow> scalars \<Rightarrow> scalars" where
  "stem lower word =
     (let w = lower word in if length w \<le> 3 then w else strip_inflection (strip_plural w))"

subsection \<open>Terms\<close>

definition is_token_boundary :: "(nat \<Rightarrow> bool) \<Rightarrow> nat \<Rightarrow> bool" where
  "is_token_boundary boundary c \<longleftrightarrow> c = 10 \<or> c = 13 \<or> boundary c"

text \<open>\<open>str::split\<close> on a predicate: the pieces between the separators, empty ones included.\<close>

fun split_on :: "(nat \<Rightarrow> bool) \<Rightarrow> scalars \<Rightarrow> scalars list" where
  "split_on p [] = [[]]"
| "split_on p (c # cs) =
     (if p c then [] # split_on p cs
      else (case split_on p cs of [] \<Rightarrow> [[c]] | t # ts \<Rightarrow> (c # t) # ts))"

definition stem_all :: "(scalars \<Rightarrow> scalars) \<Rightarrow> (nat \<Rightarrow> bool) \<Rightarrow> scalars \<Rightarrow> scalars list" where
  "stem_all lower boundary s =
     filter (\<lambda>t. t \<noteq> [])
       (map (stem lower) (filter (\<lambda>t. t \<noteq> []) (split_on (is_token_boundary boundary) s)))"

definition distinct_terms :: "scalars list \<Rightarrow> scalars list" where
  "distinct_terms terms = fold (\<lambda>t out. if t \<in> set out then out else out @ [t]) terms []"

definition MAX_FUZZY :: nat where "MAX_FUZZY = 6"

text \<open>\<open>round(len * 0.2)\<close>, half away from zero: a fifth of a whole number is never a half, so the
  rounding of the \<open>f64\<close> product cannot cross the threshold.\<close>

definition fuzzy_max_distance :: "scalars \<Rightarrow> nat" where
  "fuzzy_max_distance term' = min ((2 * length term' + 5) div 10) MAX_FUZZY"

subsection \<open>Edit distance\<close>

text \<open>The inner loop: the cells of one row from the previous row, with the cell to the left.\<close>

fun lev_cells :: "nat \<Rightarrow> nat \<Rightarrow> scalars \<Rightarrow> nat list \<Rightarrow> nat list" where
  "lev_cells ca left (cb # bs) (p0 # p1 # ps) =
     (let x = min (min (p1 + 1) (left + 1)) (p0 + (if ca = cb then 0 else 1))
      in x # lev_cells ca x bs (p1 # ps))"
| "lev_cells ca left bs ps = []"

definition lev_row :: "scalars \<Rightarrow> nat \<times> nat \<Rightarrow> nat list \<Rightarrow> nat list" where
  "lev_row b ica prev = (case ica of (i, ca) \<Rightarrow> (i + 1) # lev_cells ca (i + 1) b prev)"

definition levenshtein :: "scalars \<Rightarrow> scalars \<Rightarrow> nat" where
  "levenshtein a b =
     (if a = [] then length b
      else if b = [] then length a
      else fold (lev_row b) (List.enumerate 0 a) [0..<length b + 1] ! length b)"

subsection \<open>The recurrence\<close>

text \<open>The distance of the first \<open>i\<close> scalars of \<open>a\<close> to the first \<open>j\<close> of \<open>b\<close>.\<close>

fun edit_dist :: "scalars \<Rightarrow> scalars \<Rightarrow> nat \<Rightarrow> nat \<Rightarrow> nat" where
  "edit_dist a b 0 j = j"
| "edit_dist a b i 0 = i"
| "edit_dist a b (Suc i) (Suc j) =
     min (min (edit_dist a b i (Suc j) + 1) (edit_dist a b (Suc i) j + 1))
       (edit_dist a b i j + (if a ! i = b ! j then 0 else 1))"

lemma lev_cells_row:
  assumes "j \<le> length b"
  shows "lev_cells (a ! i) (edit_dist a b (Suc i) j) (drop j b)
      (map (edit_dist a b i) [j..<length b + 1]) =
    map (edit_dist a b (Suc i)) [Suc j..<length b + 1]"
  using assms
proof (induction "length b - j" arbitrary: j)
  case 0
  then show ?case by simp
next
  case (Suc k)
  then have j: "j < length b" by simp
  have "[j..<length b + 1] = j # Suc j # [Suc (Suc j)..<length b + 1]"
    using j by (simp add: upt_conv_Cons)
  moreover have "drop j b = b ! j # drop (Suc j) b" using j by (simp add: Cons_nth_drop_Suc)
  moreover have "[Suc j..<length b + 1] = Suc j # [Suc (Suc j)..<length b + 1]"
    using j by (simp add: upt_conv_Cons)
  moreover note Suc(1) [of "Suc j"]
  ultimately show ?case using Suc(2) j by (simp add: Let_def)
qed

lemma lev_row_next:
  "lev_row b (i, a ! i) (map (edit_dist a b i) [0..<length b + 1]) =
   map (edit_dist a b (Suc i)) [0..<length b + 1]"
  using lev_cells_row [of 0 b a i] by (simp add: lev_row_def upt_conv_Cons del: upt_Suc)

lemma lev_rows:
  "k \<le> length a \<Longrightarrow>
   fold (lev_row b) (take k (List.enumerate 0 a)) [0..<length b + 1] =
   map (edit_dist a b k) [0..<length b + 1]"
proof (induction k)
  case 0
  have "edit_dist a b 0 = (\<lambda>j. j)" by (simp add: fun_eq_iff)
  then show ?case by simp
next
  case (Suc k)
  then have "take (Suc k) (List.enumerate 0 a) = take k (List.enumerate 0 a) @ [(k, a ! k)]"
    by (simp add: take_Suc_conv_app_nth nth_enumerate_eq)
  with Suc lev_row_next [of b k a] show ?case by simp
qed

lemma levenshtein_eq: "levenshtein a b = edit_dist a b (length a) (length b)"
proof -
  consider "a = []" | "a \<noteq> []" "b = []" | "a \<noteq> []" "b \<noteq> []" by blast
  then show ?thesis
  proof cases
    case 2
    then show ?thesis by (cases a) (simp_all add: levenshtein_def)
  next
    case 3
    then have "levenshtein a b = map (edit_dist a b (length a)) [0..<length b + 1] ! length b"
      using lev_rows [of "length a" a b] by (simp add: levenshtein_def)
    then show ?thesis by (simp add: nth_append)
  qed (simp add: levenshtein_def)
qed

lemma edit_dist_commute: "edit_dist a b i j = edit_dist b a j i"
proof (induction a b i j rule: edit_dist.induct)
  case (1 a b j)
  show ?case by (cases j) simp_all
qed auto

lemma edit_dist_upper: "edit_dist a b i j \<le> max i j"
  by (induction a b i j rule: edit_dist.induct) auto

lemma edit_dist_lower: "i \<le> edit_dist a b i j + j \<and> j \<le> edit_dist a b i j + i"
  by (induction a b i j rule: edit_dist.induct) auto

lemma edit_dist_zero:
  "i \<le> length a \<Longrightarrow> j \<le> length b \<Longrightarrow> edit_dist a b i j = 0 \<longleftrightarrow> take i a = take j b"
proof (induction a b i j rule: edit_dist.induct)
  case (3 a b i j)
  then show ?case by (auto simp: take_Suc_conv_app_nth)
qed auto

text \<open>
  Property C37.  The two-row edit distance computes the full Wagner-Fischer recurrence on the whole
  of both words; it is zero exactly for equal words, symmetric, at least the difference of the
  lengths and at most the longer length.
\<close>

theorem levenshtein_correct:
  "levenshtein a b = edit_dist a b (length a) (length b) \<and>
   (levenshtein a b = 0 \<longleftrightarrow> a = b) \<and> levenshtein a b = levenshtein b a \<and>
   length a \<le> levenshtein a b + length b \<and> levenshtein a b \<le> max (length a) (length b)"
  using edit_dist_zero [of "length a" a "length b" b] edit_dist_lower [of "length a" a b "length b"]
    edit_dist_upper [of a b "length a" "length b"] edit_dist_commute [of a b "length a" "length b"]
  by (simp add: levenshtein_eq)

subsection \<open>Stems and terms\<close>

lemma undouble_length: "length w - 1 \<le> length (undouble w) \<and> length (undouble w) \<le> length w"
  by (auto simp: undouble_def Let_def)

lemma ends_with_length: "ends_with s suf \<Longrightarrow> length suf \<le> length s"
  by (simp add: ends_with_def)

lemma strip_plural_length:
  "3 < length w \<Longrightarrow> 3 \<le> length (strip_plural w) \<and> length (strip_plural w) \<le> length w \<or>
   ends_with w (lit ''sses'') \<and> length (strip_plural w) = length w - 2"
  by (auto simp: strip_plural_def Let_def lit_def)

lemma strip_inflection_length:
  "min 2 (length w) \<le> length (strip_inflection w) \<and> length (strip_inflection w) \<le> length w"
  using undouble_length [of "take (length w - 3) w"] undouble_length [of "take (length w - 2) w"]
  by (auto simp: strip_inflection_def Let_def)

text \<open>
  Stemming never lengthens a word and never wipes one out: the stem of a lower-cased
  word of at least two scalars has at least two, and shorter words are kept whole, so a non-empty
  token always yields a term.
\<close>

theorem stem_length:
  "min 2 (length (lower w)) \<le> length (stem lower w) \<and> length (stem lower w) \<le> length (lower w)"
proof (cases "length (lower w) \<le> 3")
  case False
  then have p: "2 \<le> length (strip_plural (lower w))" "length (strip_plural (lower w)) \<le> length (lower w)"
    using strip_plural_length [of "lower w"] by auto
  with False strip_inflection_length [of "strip_plural (lower w)"] show ?thesis
    by (simp add: stem_def Let_def)
qed (simp add: stem_def)

lemma distinct_terms_snoc:
  "distinct_terms (ts @ [t]) =
     (if t \<in> set (distinct_terms ts) then distinct_terms ts else distinct_terms ts @ [t])"
  by (simp add: distinct_terms_def)

text \<open>
  Deduplicating the query terms keeps each term once, in the order of its first
  occurrence.
\<close>

theorem distinct_terms_correct:
  "distinct_terms ts = rev (remdups (rev ts)) \<and> distinct (distinct_terms ts) \<and>
   set (distinct_terms ts) = set ts"
proof -
  have "set (distinct_terms ts) = set ts \<and> distinct_terms ts = rev (remdups (rev ts))"
  proof (induction ts rule: rev_induct)
    case (snoc t ts)
    then show ?case by (auto simp: distinct_terms_snoc)
  qed (simp add: distinct_terms_def)
  then show ?thesis by simp
qed

end
