(* ===== verification/Store.thy ===== *)
theory Store
  imports Braird_Prelude
begin

text \<open>
  The on-device SQLite store of \<open>src/src/store.rs\<close>.  A table is the list of its rows in rowid
  order, a row the function from column names to SQLite values; the SQL statements of the
  source are the list operations they denote (\<open>INSERT OR REPLACE\<close> drops the rows that
  conflict on the primary key, where a NULL key never conflicts, and appends).  A transaction
  that fails returns an error and no new store: the caller keeps the old one, which is the
  rollback.  Errors of the SQLite library itself (I/O, a full disk) are outside the model.
\<close>

subsection \<open>Descriptors\<close>

datatype col_type = CText | CInt | CBool | CReal | CJson

definition sqlite :: "col_type \<Rightarrow> string" where
  "sqlite ty =
     (case ty of CText \<Rightarrow> ''TEXT'' | CJson \<Rightarrow> ''TEXT'' | CInt \<Rightarrow> ''INTEGER''
      | CBool \<Rightarrow> ''INTEGER'' | CReal \<Rightarrow> ''REAL'')"

definition logical :: "col_type \<Rightarrow> string" where
  "logical ty =
     (case ty of CText \<Rightarrow> ''text'' | CInt \<Rightarrow> ''int'' | CBool \<Rightarrow> ''bool'' | CReal \<Rightarrow> ''real''
      | CJson \<Rightarrow> ''json'')"

record table_desc =
  ts_name :: string
  ts_pk :: "string list"
  ts_columns :: "(string \<times> col_type) list"

definition BOOK_FILLABLE_COLUMNS :: "string list" where
  "BOOK_FILLABLE_COLUMNS = [''status'', ''kind'', ''url'']"

definition synced_schema :: "table_desc list" where
  "synced_schema = [
    \<lparr>ts_name = ''books'', ts_pk = [''id''], ts_columns = [
      (''id'', CText), (''title'', CText), (''author'', CText), (''isbn'', CText),
      (''cover_url'', CText), (''cover_source'', CText), (''cover_resolved_at'', CInt),
      (''merged_into'', CText), (''status'', CText), (''kind'', CText), (''url'', CText),
      (''created_at'', CInt), (''updated_at'', CInt), (''deleted'', CBool)]\<rparr>,
    \<lparr>ts_name = ''notes'', ts_pk = [''id''], ts_columns = [
      (''id'', CText), (''book_id'', CText), (''text'', CText), (''page'', CText),
      (''tags'', CJson), (''image_path'', CText), (''ink_crop_path'', CText),
      (''source'', CText), (''source_id'', CText), (''source_meta'', CJson),
      (''chapter'', CText), (''content_tag'', CText),
      (''created_at'', CInt), (''updated_at'', CInt), (''deleted'', CBool)]\<rparr>,
    \<lparr>ts_name = ''custom_ideas'', ts_pk = [''id''], ts_columns = [
      (''id'', CText), (''name'', CText), (''description'', CText),
      (''created_at'', CInt), (''updated_at'', CInt), (''deleted'', CBool)]\<rparr>,
    \<lparr>ts_name = ''note_links'', ts_pk = [''id''], ts_columns = [
      (''id'', CText), (''from_note_id'', CText), (''to_note_id'', CText),
      (''relation_type'', CText),
      (''created_at'', CInt), (''updated_at'', CInt), (''deleted'', CBool)]\<rparr>,
    \<lparr>ts_name = ''lenses'', ts_pk = [''id''], ts_columns = [
      (''id'', CText), (''name'', CText), (''leaf_ids'', CJson), (''combinator'', CText),
      (''threshold'', CInt),
      (''created_at'', CInt), (''updated_at'', CInt), (''deleted'', CBool)]\<rparr>,
    \<lparr>ts_name = ''collections'', ts_pk = [''id''], ts_columns = [
      (''id'', CText), (''name'', CText),
      (''created_at'', CInt), (''updated_at'', CInt), (''deleted'', CBool)]\<rparr>,
    \<lparr>ts_name = ''collection_memberships'', ts_pk = [''id''], ts_columns = [
      (''id'', CText), (''note_id'', CText), (''collection_id'', CText),
      (''created_at'', CInt), (''updated_at'', CInt), (''deleted'', CBool)]\<rparr>,
    \<lparr>ts_name = ''note_signals'', ts_pk = [''note_id''], ts_columns = [
      (''note_id'', CText), (''source_prior'', CReal), (''return_visits'', CInt),
      (''has_annotation'', CBool), (''stitch_spawns'', CInt),
      (''exposure_recency_at'', CInt), (''engagement_recency_at'', CInt),
      (''importance'', CReal),
      (''created_at'', CInt), (''updated_at'', CInt), (''deleted'', CBool)]\<rparr>]"

definition native_schema :: "table_desc list" where
  "native_schema = [
    \<lparr>ts_name = ''questions'', ts_pk = [''id''], ts_columns = [
      (''id'', CText), (''text'', CText), (''status'', CText), (''tone'', CText),
      (''resolved_at'', CInt), (''checkin_at'', CInt), (''checkin_response'', CText),
      (''created_at'', CInt), (''updated_at'', CInt), (''deleted'', CBool)]\<rparr>,
    \<lparr>ts_name = ''question_notes'', ts_pk = [''id''], ts_columns = [
      (''id'', CText), (''question_id'', CText), (''note_id'', CText),
      (''created_at'', CInt), (''updated_at'', CInt), (''deleted'', CBool)]\<rparr>,
    \<lparr>ts_name = ''user_settings'', ts_pk = [''key''], ts_columns = [
      (''key'', CText), (''value'', CText), (''updated_at'', CInt), (''deleted'', CBool)]\<rparr>]"

definition descriptor_tables :: "table_desc list" where
  "descriptor_tables = synced_schema @ native_schema"

definition synced_table_names :: "string list" where
  "synced_table_names = map ts_name descriptor_tables"

definition table_schema :: "string \<Rightarrow> table_desc option" where
  "table_schema name = find (\<lambda>t. ts_name t = name) descriptor_tables"

datatype db_error =
    UnknownTable string
  | StampOverflow string string
  | NoSuchColumn string
  | InvalidColumnType string

fun schema_or_err :: "string \<Rightarrow> db_error + table_desc" where
  "schema_or_err table =
     (case table_schema table of None \<Rightarrow> Inl (UnknownTable table) | Some t \<Rightarrow> Inr t)"

definition pk_of :: "table_desc \<Rightarrow> string" where "pk_of t = hd (ts_pk t)"

definition membership_id :: "string \<Rightarrow> string \<Rightarrow> string" where
  "membership_id collection_id note_id = collection_id @ '':'' @ note_id"

definition question_note_id :: "string \<Rightarrow> string \<Rightarrow> string" where
  "question_note_id question_id note_id = question_id @ '':'' @ note_id"

subsection \<open>JSON and SQLite values\<close>

datatype sqlval = SNull | SInteger int | SReal rat | SText string | SBlob string

type_synonym sqlrow = "string \<Rightarrow> sqlval"

fun truthy :: "json option \<Rightarrow> bool" where
  "truthy (Some (JBool b)) = b"
| "truthy (Some (JNumber n)) = (number_as_f64 n \<noteq> 0)"
| "truthy (Some (JString s)) = (s \<noteq> [] \<and> s \<noteq> ''false'' \<and> s \<noteq> ''0'')"
| "truthy v = False"

definition json_to_sql :: "serde \<Rightarrow> json option \<Rightarrow> col_type \<Rightarrow> sqlval" where
  "json_to_sql J v ty =
     (case v of None \<Rightarrow> SNull | Some val \<Rightarrow>
        if val = JNull then SNull
        else case ty of
            CText \<Rightarrow> (case val of JString s \<Rightarrow> SText s | _ \<Rightarrow> SNull)
          | CInt \<Rightarrow> (case as_i64 val of Some i \<Rightarrow> SInteger i | None \<Rightarrow> SNull)
          | CBool \<Rightarrow>
              (case val of JBool b \<Rightarrow> SInteger (if b then 1 else 0)
               | JNumber n \<Rightarrow> SInteger (if number_as_f64 n \<noteq> 0 then 1 else 0)
               | _ \<Rightarrow> SNull)
          | CReal \<Rightarrow> (case as_f64 val of Some f \<Rightarrow> SReal f | None \<Rightarrow> SNull)
          | CJson \<Rightarrow> SText (to_str J val))"

definition sql_to_json :: "serde \<Rightarrow> sqlval \<Rightarrow> col_type \<Rightarrow> json" where
  "sql_to_json J sv ty =
     (case sv of
        SNull \<Rightarrow> JNull
      | SInteger i \<Rightarrow> if ty = CBool then JBool (i \<noteq> 0) else json_i64 i
      | SReal f \<Rightarrow> JNumber (Float f)
      | SText s \<Rightarrow> if ty = CJson then unwrap_or (from_str J s) JNull else JString s
      | SBlob b \<Rightarrow> JNull)"

subsection \<open>State\<close>

record outbox_row =
  ob_id :: int
  ob_table :: string
  ob_record_id :: "string option"
  ob_payload :: string
  ob_created_at :: int

record emb_row =
  emb_owner :: string
  emb_model_version :: "string option"
  emb_content_token :: "string option"
  emb_vector :: "string option"
  emb_updated_at :: int

record store =
  tables :: "string \<Rightarrow> sqlrow list"
  outbox :: "outbox_row list"
  outbox_seq :: int
  meta :: "string \<Rightarrow> string option"
  embeddings :: "emb_row list"
  question_embeddings :: "emb_row list"

definition empty_store :: store where
  "empty_store = \<lparr>tables = (\<lambda>_. []), outbox = [], outbox_seq = 0, meta = (\<lambda>_. None),
     embeddings = [], question_embeddings = []\<rparr>"

subsection \<open>Outbox and meta\<close>

definition enqueue :: "store \<Rightarrow> string \<Rightarrow> string \<Rightarrow> string \<Rightarrow> int \<Rightarrow> store" where
  "enqueue st table_name record_id payload_json created_at =
     st\<lparr>outbox := outbox st @ [\<lparr>ob_id = outbox_seq st + 1, ob_table = table_name,
          ob_record_id = Some record_id, ob_payload = payload_json,
          ob_created_at = created_at\<rparr>],
        outbox_seq := outbox_seq st + 1\<rparr>"

definition outbox_le :: "outbox_row \<Rightarrow> outbox_row \<Rightarrow> bool" where
  "outbox_le a b \<longleftrightarrow> ob_created_at a < ob_created_at b \<or>
     (ob_created_at a = ob_created_at b \<and> ob_id a \<le> ob_id b)"

definition outbox_items :: "store \<Rightarrow> outbox_row list" where
  "outbox_items st = sort_by outbox_le (outbox st)"

definition queued_for :: "string \<Rightarrow> string \<Rightarrow> outbox_row \<Rightarrow> bool" where
  "queued_for table record_id o' \<longleftrightarrow> ob_table o' = table \<and> ob_record_id o' = Some record_id"

definition is_pending_delete :: "serde \<Rightarrow> string \<Rightarrow> string \<Rightarrow> outbox_row \<Rightarrow> bool" where
  "is_pending_delete J table record_id o' \<longleftrightarrow> queued_for table record_id o' \<and>
     (case from_str J (ob_payload o') of None \<Rightarrow> False
      | Some v \<Rightarrow> truthy (json_get v ''deleted''))"

definition drop_pending_deletes_inner ::
  "serde \<Rightarrow> store \<Rightarrow> string \<Rightarrow> string \<Rightarrow> nat \<times> store" where
  "drop_pending_deletes_inner J st table record_id =
     (length (filter (is_pending_delete J table record_id) (outbox st)),
      st\<lparr>outbox := filter (\<lambda>o'. \<not> is_pending_delete J table record_id o') (outbox st)\<rparr>)"

definition clear_outbox :: "store \<Rightarrow> int list \<Rightarrow> store" where
  "clear_outbox st ids = st\<lparr>outbox := filter (\<lambda>o'. ob_id o' \<notin> set ids) (outbox st)\<rparr>"

definition meta_get :: "store \<Rightarrow> string \<Rightarrow> string option" where
  "meta_get st key = meta st key"

definition meta_set :: "store \<Rightarrow> string \<Rightarrow> string \<Rightarrow> store" where
  "meta_set st key v = st\<lparr>meta := (meta st)(key := Some v)\<rparr>"

definition meta_delete :: "store \<Rightarrow> string \<Rightarrow> store" where
  "meta_delete st key = st\<lparr>meta := (meta st)(key := None)\<rparr>"

definition sync_seq_key :: "string \<Rightarrow> string" where
  "sync_seq_key table = ''sync:seq:'' @ table"

definition sync_cursor_key :: "string \<Rightarrow> string" where
  "sync_cursor_key table = ''sync:cursor:'' @ table"

definition sync_pulled_key :: "string \<Rightarrow> string" where
  "sync_pulled_key table = ''sync:pulled:'' @ table"

definition get_seq_cursor :: "store \<Rightarrow> string \<Rightarrow> int option" where
  "get_seq_cursor st table = Option.bind (meta_get st (sync_seq_key table)) parse_i64"

definition set_seq_cursor :: "store \<Rightarrow> string \<Rightarrow> int \<Rightarrow> store" where
  "set_seq_cursor st table seq =
     meta_delete (meta_set st (sync_seq_key table) (i64_to_string seq)) (sync_cursor_key table)"

definition has_completed_pull :: "store \<Rightarrow> string \<Rightarrow> bool" where
  "has_completed_pull st table \<longleftrightarrow> meta_get st (sync_pulled_key table) \<noteq> None"

definition mark_pull_complete :: "store \<Rightarrow> string \<Rightarrow> store" where
  "mark_pull_complete st table = meta_set st (sync_pulled_key table) ''1''"

subsection \<open>Rows\<close>

text \<open>The columns a SELECT of a descriptor reads back, as a JSON object.\<close>

definition row_of_sql :: "serde \<Rightarrow> table_desc \<Rightarrow> sqlrow \<Rightarrow> row" where
  "row_of_sql J t r =
     fmap_of_list (map (\<lambda>(name, ty). (name, sql_to_json J (r name) ty)) (ts_columns t))"

definition sql_of_row :: "serde \<Rightarrow> table_desc \<Rightarrow> row \<Rightarrow> sqlrow" where
  "sql_of_row J t r =
     (\<lambda>c. case map_of (ts_columns t) c of
            None \<Rightarrow> SNull | Some ty \<Rightarrow> json_to_sql J (fmlookup r c) ty)"

definition get_row :: "serde \<Rightarrow> store \<Rightarrow> string \<Rightarrow> string \<Rightarrow> db_error + row option" where
  "get_row J st table id' =
     (case schema_or_err table of Inl e \<Rightarrow> Inl e
      | Inr t \<Rightarrow>
          Inr (map_option (row_of_sql J t)
                 (find (\<lambda>r. r (pk_of t) = SText id') (tables st (ts_name t)))))"

text \<open>The order of \<open>ORDER BY\<close>: NULL, then numbers, then text, then blobs.\<close>

fun sql_rank :: "sqlval \<Rightarrow> nat" where
  "sql_rank SNull = 0"
| "sql_rank (SInteger _) = 1"
| "sql_rank (SReal _) = 1"
| "sql_rank (SText _) = 2"
| "sql_rank (SBlob _) = 3"

fun sql_num :: "sqlval \<Rightarrow> rat" where
  "sql_num (SInteger i) = of_int i"
| "sql_num (SReal f) = f"
| "sql_num v = 0"

fun sql_bytes :: "sqlval \<Rightarrow> string" where
  "sql_bytes (SText s) = s"
| "sql_bytes (SBlob s) = s"
| "sql_bytes v = []"

definition sql_less :: "sqlval \<Rightarrow> sqlval \<Rightarrow> bool" where
  "sql_less a b \<longleftrightarrow> sql_rank a < sql_rank b \<or>
     (sql_rank a = sql_rank b \<and>
        (sql_num a < sql_num b \<or> (sql_num a = sql_num b \<and> sql_bytes a < sql_bytes b)))"

text \<open>\<open>ORDER BY a DESC, b DESC\<close>.\<close>

definition order_desc :: "string \<Rightarrow> string \<Rightarrow> sqlrow \<Rightarrow> sqlrow \<Rightarrow> bool" where
  "order_desc a b r r' \<longleftrightarrow> sql_less (r' a) (r a) \<or>
     (\<not> sql_less (r a) (r' a) \<and> \<not> sql_less (r b) (r' b))"

text \<open>\<open>LIMIT ? OFFSET ?\<close>: a negative limit is no limit, a negative offset is zero.\<close>

definition limit_offset :: "int \<Rightarrow> int \<Rightarrow> 'a list \<Rightarrow> 'a list" where
  "limit_offset limit off xs =
     (let ys = drop (nat off) xs in if limit < 0 then ys else take (nat limit) ys)"

text \<open>\<open>deleted = 0\<close> and the optional equality filter of the paginated reads.\<close>

definition is_live :: "sqlrow \<Rightarrow> bool" where
  "is_live r \<longleftrightarrow> r ''deleted'' = SInteger 0"

definition matches :: "(string \<times> string) option \<Rightarrow> sqlrow \<Rightarrow> bool" where
  "matches flt r \<longleftrightarrow> (case flt of None \<Rightarrow> True | Some (col, v) \<Rightarrow> r col = SText v)"

definition has_column :: "table_desc \<Rightarrow> string \<Rightarrow> bool" where
  "has_column t c \<longleftrightarrow> c \<in> set (map fst (ts_columns t))"

definition missing_column :: "table_desc \<Rightarrow> string list \<Rightarrow> string option" where
  "missing_column t cs = find (\<lambda>c. \<not> has_column t c) cs"

definition filter_columns :: "(string \<times> string) option \<Rightarrow> string list" where
  "filter_columns flt = (case flt of None \<Rightarrow> [] | Some (col, _) \<Rightarrow> [col])"

definition list_live ::
  "serde \<Rightarrow> store \<Rightarrow> string \<Rightarrow> (string \<times> string) option \<Rightarrow> int \<Rightarrow> int \<Rightarrow> db_error + row list" where
  "list_live J st table flt limit off =
     (case schema_or_err table of Inl e \<Rightarrow> Inl e
      | Inr t \<Rightarrow>
          case missing_column t (filter_columns flt @ [''created_at'']) of
            Some c \<Rightarrow> Inl (NoSuchColumn c)
          | None \<Rightarrow>
              Inr (map (row_of_sql J t)
                (limit_offset limit off
                  (sort_by (order_desc ''created_at'' (pk_of t))
                    (filter (\<lambda>r. is_live r \<and> matches flt r) (tables st (ts_name t)))))))"

definition count_live ::
  "store \<Rightarrow> string \<Rightarrow> (string \<times> string) option \<Rightarrow> db_error + int" where
  "count_live st table flt =
     (case schema_or_err table of Inl e \<Rightarrow> Inl e
      | Inr t \<Rightarrow>
          case missing_column t (filter_columns flt) of
            Some c \<Rightarrow> Inl (NoSuchColumn c)
          | None \<Rightarrow>
              Inr (int (length (filter (\<lambda>r. is_live r \<and> matches flt r)
                (tables st (ts_name t))))))"

definition count_all :: "store \<Rightarrow> string \<Rightarrow> db_error + int" where
  "count_all st table =
     (case schema_or_err table of Inl e \<Rightarrow> Inl e
      | Inr t \<Rightarrow> Inr (int (length (tables st (ts_name t)))))"

definition fill_column :: "string \<Rightarrow> string \<Rightarrow> string \<Rightarrow> sqlrow \<Rightarrow> sqlrow" where
  "fill_column id' col v r =
     (if r ''id'' = SText id' \<and> r col = SNull then r(col := SText v) else r)"

definition fill_null_book_columns :: "store \<Rightarrow> string \<Rightarrow> row \<Rightarrow> store" where
  "fill_null_book_columns st id' incoming =
     fold (\<lambda>col s. case row_str incoming col of None \<Rightarrow> s
             | Some v \<Rightarrow> s\<lparr>tables := (tables s)(''books'' :=
                 map (fill_column id' col v) (tables s ''books''))\<rparr>)
       BOOK_FILLABLE_COLUMNS st"

definition delete_embedding :: "store \<Rightarrow> string \<Rightarrow> store" where
  "delete_embedding st note_id =
     st\<lparr>embeddings := filter (\<lambda>e. emb_owner e \<noteq> note_id) (embeddings st)\<rparr>"

definition delete_question_embedding :: "store \<Rightarrow> string \<Rightarrow> store" where
  "delete_question_embedding st question_id =
     st\<lparr>question_embeddings :=
          filter (\<lambda>e. emb_owner e \<noteq> question_id) (question_embeddings st)\<rparr>"

definition conflicts :: "table_desc \<Rightarrow> sqlrow \<Rightarrow> sqlrow \<Rightarrow> bool" where
  "conflicts t r r' \<longleftrightarrow> list_all (\<lambda>c. r c \<noteq> SNull \<and> r' c = r c) (ts_pk t)"

definition insert_or_replace :: "table_desc \<Rightarrow> sqlrow \<Rightarrow> store \<Rightarrow> store" where
  "insert_or_replace t r st =
     st\<lparr>tables := (tables st)(ts_name t :=
          filter (\<lambda>r'. \<not> conflicts t r r') (tables st (ts_name t)) @ [r])\<rparr>"

definition apply_row :: "serde \<Rightarrow> store \<Rightarrow> string \<Rightarrow> row \<Rightarrow> db_error + store" where
  "apply_row J st table r =
     (case schema_or_err table of Inl e \<Rightarrow> Inl e
      | Inr t \<Rightarrow>
          let st1 = insert_or_replace t (sql_of_row J t r) st;
              st2 = (if table = ''notes'' \<and> truthy (fmlookup r ''deleted'')
                     then case row_str r ''id'' of Some i \<Rightarrow> delete_embedding st1 i
                          | None \<Rightarrow> st1
                     else st1);
              st3 = (if table = ''questions'' \<and> truthy (fmlookup r ''deleted'')
                     then case row_str r ''id'' of Some i \<Rightarrow> delete_question_embedding st2 i
                          | None \<Rightarrow> st2
                     else st2)
          in Inr st3)"

subsection \<open>Descriptor facts\<close>

lemmas schema_defs = descriptor_tables_def synced_schema_def native_schema_def

text \<open>What every generic helper relies on: one primary-key column of text type, distinct
  columns, and the \<open>updated_at\<close> and \<open>deleted\<close> columns.\<close>

definition desc_ok :: "table_desc \<Rightarrow> bool" where
  "desc_ok t \<longleftrightarrow> ts_pk t = [pk_of t] \<and> map_of (ts_columns t) (pk_of t) = Some CText \<and>
     distinct (map fst (ts_columns t)) \<and>
     map_of (ts_columns t) ''updated_at'' = Some CInt \<and>
     map_of (ts_columns t) ''deleted'' = Some CBool"

lemma descriptors_ok: "list_all desc_ok descriptor_tables"
  by (simp add: schema_defs desc_ok_def pk_of_def)

lemma descriptor_names_distinct: "distinct synced_table_names"
  by (simp add: schema_defs synced_table_names_def)

lemma table_schema_Some:
  assumes "table_schema name = Some t"
  shows "ts_name t = name" "desc_ok t"
proof -
  from assms obtain i where "i < length descriptor_tables" "t = descriptor_tables ! i"
    "ts_name t = name"
    unfolding table_schema_def find_Some_iff by auto
  then show "ts_name t = name" "desc_ok t"
    using descriptors_ok by (auto simp: list_all_length)
qed

lemma schema_or_err_Inr [simp]: "schema_or_err table = Inr t \<longleftrightarrow> table_schema table = Some t"
  by (simp split: option.splits)

lemma schema_or_err_Inl [simp]:
  "schema_or_err table = Inl e \<longleftrightarrow> table_schema table = None \<and> e = UnknownTable table"
  by (auto split: option.splits)

declare schema_or_err.simps [simp del]

lemma schema_or_err_eqs [simp]:
  "table_schema table = Some t \<Longrightarrow> schema_or_err table = Inr t"
  "table_schema table = None \<Longrightarrow> schema_or_err table = Inl (UnknownTable table)"
  by simp_all

lemma notes_schema: "table_schema ''notes'' = Some (descriptor_tables ! 1)"
  by (simp add: table_schema_def schema_defs)

lemma questions_schema: "table_schema ''questions'' = Some (descriptor_tables ! 8)"
  by (simp add: table_schema_def schema_defs)

lemma pk_notes_questions [simp]:
  "pk_of (descriptor_tables ! 1) = ''id''" "pk_of (descriptor_tables ! 8) = ''id''"
  "ts_name (descriptor_tables ! 1) = ''notes''" "ts_name (descriptor_tables ! 8) = ''questions''"
  by (simp_all add: schema_defs pk_of_def)

subsection \<open>Reading back what was written\<close>

lemma fmlookup_row_of_sql:
  "fmlookup (row_of_sql J t r) c =
   map_option (\<lambda>ty. sql_to_json J (r c) ty) (map_of (ts_columns t) c)"
proof -
  have "map_of (map (\<lambda>(n, ty). (n, sql_to_json J (r n) ty)) cs) c =
      map_option (\<lambda>ty. sql_to_json J (r c) ty) (map_of cs c)" for cs
    by (induction cs) auto
  then show ?thesis by (simp add: row_of_sql_def fmlookup_of_list)
qed

lemma sql_of_row_pk:
  "desc_ok t \<Longrightarrow> sql_of_row J t r (pk_of t) =
     (case row_str r (pk_of t) of Some i \<Rightarrow> SText i | None \<Rightarrow> SNull)"
  by (auto simp: sql_of_row_def desc_ok_def json_to_sql_def row_str_def
      split: option.splits json.splits)

lemma conflicts_pk:
  "desc_ok t \<Longrightarrow> conflicts t r r' \<longleftrightarrow> r (pk_of t) \<noteq> SNull \<and> r' (pk_of t) = r (pk_of t)"
proof -
  assume "desc_ok t"
  then have "ts_pk t = [pk_of t]" by (simp add: desc_ok_def)
  then show ?thesis by (simp add: conflicts_def)
qed

text \<open>What a stored row reads back as: every column through its SQLite form.\<close>

definition stored_row :: "serde \<Rightarrow> table_desc \<Rightarrow> row \<Rightarrow> row" where
  "stored_row J t r = row_of_sql J t (sql_of_row J t r)"

lemma fmlookup_stored_row:
  "fmlookup (stored_row J t r) c =
   map_option (\<lambda>ty. sql_to_json J (json_to_sql J (fmlookup r c) ty) ty) (map_of (ts_columns t) c)"
  by (cases "map_of (ts_columns t) c") (simp_all add: stored_row_def fmlookup_row_of_sql sql_of_row_def)

lemma stored_row_i64:
  assumes "map_of (ts_columns t) c = Some CInt"
  shows "row_i64 (stored_row J t r) c = row_i64 r c"
proof (cases "fmlookup r c")
  case None
  with assms show ?thesis
    by (simp add: row_i64_def fmlookup_stored_row json_to_sql_def sql_to_json_def)
next
  case (Some v)
  with assms show ?thesis
    by (cases "as_i64 v")
      (auto simp: row_i64_def fmlookup_stored_row json_to_sql_def sql_to_json_def
        as_i64_json_i64 dest: as_i64_is_i64)
qed

lemma stored_row_text:
  assumes "map_of (ts_columns t) c = Some CText"
  shows "row_str (stored_row J t r) c = row_str r c"
  using assms
  by (auto simp: row_str_def fmlookup_stored_row json_to_sql_def sql_to_json_def bind_eq_None_conv
      split: option.splits json.splits)

text \<open>The values \<open>json_to_sql\<close> can put in a column of each type.\<close>

fun sql_typed :: "col_type \<Rightarrow> sqlval \<Rightarrow> bool" where
  "sql_typed ty SNull = True"
| "sql_typed ty (SInteger i) = (if ty = CBool then i = 0 \<or> i = 1 else ty = CInt \<and> is_i64 i)"
| "sql_typed ty (SReal f) = (ty = CReal)"
| "sql_typed ty (SText s) = (ty = CText \<or> ty = CJson)"
| "sql_typed ty (SBlob b) = False"

definition row_typed :: "table_desc \<Rightarrow> sqlrow \<Rightarrow> bool" where
  "row_typed t r \<longleftrightarrow> (\<forall>(c, ty) \<in> set (ts_columns t). sql_typed ty (r c))"

definition rows_typed :: "store \<Rightarrow> bool" where
  "rows_typed st \<longleftrightarrow>
     (\<forall>t \<in> set descriptor_tables. \<forall>r \<in> set (tables st (ts_name t)). row_typed t r)"

lemma json_to_sql_typed: "sql_typed ty (json_to_sql J v ty)"
  by (cases ty) (auto simp: json_to_sql_def dest: as_i64_is_i64 split: option.splits json.splits)

lemma sql_of_row_typed: "desc_ok t \<Longrightarrow> row_typed t (sql_of_row J t r)"
  by (auto simp: row_typed_def sql_of_row_def desc_ok_def json_to_sql_typed)

lemma table_schema_in: "table_schema name = Some t \<Longrightarrow> t \<in> set descriptor_tables"
  by (auto simp: table_schema_def find_Some_iff)

lemma find_append: "find P (xs @ ys) = (case find P xs of None \<Rightarrow> find P ys | Some x \<Rightarrow> Some x)"
  by (induction xs) auto

lemma find_filter_agree: "(\<And>x. P x \<Longrightarrow> Q x) \<Longrightarrow> find P (filter Q xs) = find P xs"
  by (induction xs) auto

lemma find_filter_none: "(\<And>x. P x \<Longrightarrow> \<not> Q x) \<Longrightarrow> find P (filter Q xs) = None"
  by (induction xs) auto

lemma apply_row_ok: "table_schema table = Some t \<Longrightarrow> \<exists>st'. apply_row J st table r = Inr st'"
  by (simp add: apply_row_def Let_def)

lemma apply_row_schema: "apply_row J st table r = Inr st' \<Longrightarrow> \<exists>t. table_schema table = Some t"
  by (auto simp: apply_row_def split: sum.splits)

lemma apply_row_tables:
  assumes "apply_row J st table r = Inr st'" and t: "table_schema table = Some t"
  shows "tables st' = (tables st)(table :=
    filter (\<lambda>r'. \<not> conflicts t (sql_of_row J t r) r') (tables st table) @ [sql_of_row J t r])"
  using assms table_schema_Some(1) [OF t]
  by (auto simp: apply_row_def Let_def insert_or_replace_def delete_embedding_def
      delete_question_embedding_def split: option.splits if_splits)

lemma apply_row_frame:
  assumes "apply_row J st table r = Inr st'"
  shows "outbox st' = outbox st" "outbox_seq st' = outbox_seq st" "meta st' = meta st"
  using assms
  by (auto simp: apply_row_def Let_def insert_or_replace_def delete_embedding_def
      delete_question_embedding_def split: sum.splits option.splits if_splits)

lemma apply_row_embeddings:
  assumes "apply_row J st table r = Inr st'"
  shows "embeddings st' =
    (if table = ''notes'' \<and> truthy (fmlookup r ''deleted'')
     then filter (\<lambda>e. Some (emb_owner e) \<noteq> row_str r ''id'') (embeddings st)
     else embeddings st)"
  using assms
  by (auto simp: apply_row_def Let_def insert_or_replace_def delete_embedding_def
      delete_question_embedding_def split: sum.splits option.splits if_splits)

lemma apply_row_question_embeddings:
  assumes "apply_row J st table r = Inr st'"
  shows "question_embeddings st' =
    (if table = ''questions'' \<and> truthy (fmlookup r ''deleted'')
     then filter (\<lambda>e. Some (emb_owner e) \<noteq> row_str r ''id'') (question_embeddings st)
     else question_embeddings st)"
  using assms
  by (auto simp: apply_row_def Let_def insert_or_replace_def delete_embedding_def
      delete_question_embedding_def split: sum.splits option.splits if_splits)

lemma get_row_eq:
  "table_schema table = Some t \<Longrightarrow> get_row J st table i =
     Inr (map_option (row_of_sql J t) (find (\<lambda>r. r (pk_of t) = SText i) (tables st table)))"
  using table_schema_Some(1) by (simp add: get_row_def)

lemma get_row_apply:
  assumes ap: "apply_row J st table r = Inr st'" and t: "table_schema table = Some t"
    and k: "row_str r (pk_of t) = Some k"
  shows "get_row J st' table i =
    (if i = k then Inr (Some (stored_row J t r)) else get_row J st table i)"
proof -
  have ok: "desc_ok t" using t by (rule table_schema_Some)
  have pk: "sql_of_row J t r (pk_of t) = SText k"
    using ok k by (simp add: sql_of_row_pk)
  have cf: "conflicts t (sql_of_row J t r) r' \<longleftrightarrow> r' (pk_of t) = SText k" for r'
    using conflicts_pk [OF ok] pk by simp
  show ?thesis
  proof (cases "i = k")
    case True
    then show ?thesis
      using pk t
      by (simp add: get_row_eq apply_row_tables [OF ap t] cf find_append find_filter_none
          stored_row_def)
  next
    case False
    have "find (\<lambda>r. r (pk_of t) = SText i) (filter (\<lambda>r'. r' (pk_of t) \<noteq> SText k) (tables st table))
        = find (\<lambda>r. r (pk_of t) = SText i) (tables st table)"
      using False by (intro find_filter_agree) auto
    with False show ?thesis
      using pk t
      by (simp add: get_row_eq apply_row_tables [OF ap t] cf find_append split: option.splits)
  qed
qed

lemma get_row_apply_other:
  assumes ap: "apply_row J st table r = Inr st'" and "table' \<noteq> table"
  shows "get_row J st' table' i = get_row J st table' i"
proof (cases "table_schema table'")
  case (Some t')
  obtain t where "table_schema table = Some t" using apply_row_schema [OF ap] by blast
  with Some assms show ?thesis by (simp add: get_row_eq apply_row_tables)
qed (simp add: get_row_def)

lemma get_row_frame: "tables st' = tables st \<Longrightarrow> get_row J st' = get_row J st"
  by (simp add: get_row_def fun_eq_iff split: sum.splits)

lemma get_row_typed:
  assumes "rows_typed st" and t: "table_schema table = Some t"
    and "get_row J st table i = Inr (Some r)" and col: "map_of (ts_columns t) c = Some ty"
  obtains v sv where "fmlookup r c = Some v" "v = sql_to_json J sv ty" "sql_typed ty sv"
proof -
  from assms(3) obtain sr where sr: "find (\<lambda>r. r (pk_of t) = SText i) (tables st table) = Some sr"
    and r: "r = row_of_sql J t sr"
    using t by (auto simp: get_row_eq)
  then have "sr \<in> set (tables st (ts_name t))"
    using table_schema_Some(1) [OF t] by (auto simp: find_Some_iff)
  then have "sql_typed ty (sr c)"
    using assms(1) table_schema_in [OF t] map_of_SomeD [OF col]
    by (fastforce simp: rows_typed_def row_typed_def)
  with that show ?thesis by (simp add: r fmlookup_row_of_sql col)
qed

end
