(* ===== verification/Staging.thy ===== *)
theory Staging
  imports Store
begin

text \<open>
  The transactional write paths of \<open>src/src/store.rs\<close>: staging a local edit (merged row plus
  queued outbox payload, with the monotonic \<open>updated_at\<close> clamp), the batch, live-target,
  resurrecting and import forms, and the pull sink that rebases the outbox.
\<close>

subsection \<open>Rebasing the outbox on a pulled winner\<close>

definition payload_stamp :: "serde \<Rightarrow> outbox_row \<Rightarrow> int option" where
  "payload_stamp J o' =
     Option.bind (from_str J (ob_payload o'))
       (\<lambda>v. Option.bind (json_get v ''updated_at'') as_i64)"

definition is_superseded :: "serde \<Rightarrow> string \<Rightarrow> string option \<Rightarrow> int \<Rightarrow> outbox_row \<Rightarrow> bool" where
  "is_superseded J table record_id incoming_updated o' \<longleftrightarrow>
     (case record_id of None \<Rightarrow> False
      | Some rid \<Rightarrow> queued_for table rid o' \<and>
          (case payload_stamp J o' of None \<Rightarrow> False | Some stamp \<Rightarrow> stamp \<le> incoming_updated))"

definition apply_row_rebasing_outbox ::
  "serde \<Rightarrow> store \<Rightarrow> string \<Rightarrow> row \<Rightarrow> int \<Rightarrow> db_error + (store \<times> (int \<times> int) list)" where
  "apply_row_rebasing_outbox J st table r incoming_updated =
     (case schema_or_err table of Inl e \<Rightarrow> Inl e
      | Inr t \<Rightarrow>
          case apply_row J st table r of Inl e \<Rightarrow> Inl e
          | Inr st1 \<Rightarrow>
              let stale = is_superseded J table (row_str r (pk_of t)) incoming_updated;
                  dropped = map (\<lambda>o'. (ob_id o', unwrap_or (payload_stamp J o') 0))
                              (filter stale (outbox st1))
              in Inr (st1\<lparr>outbox := filter (\<lambda>o'. \<not> stale o') (outbox st1)\<rparr>, dropped))"

subsection \<open>Staging local writes\<close>

text \<open>The monotonic clamp: a staged stamp is raised past the stored one, and refused when no
  strictly newer \<open>i64\<close> exists.  A partial row without a stamp is left alone.\<close>

definition clamp_partial ::
  "string \<Rightarrow> string \<Rightarrow> row option \<Rightarrow> row \<Rightarrow> db_error + row" where
  "clamp_partial table record_id existing partial' =
     (let stored_updated = unwrap_or (Option.bind existing (\<lambda>r. row_i64 r ''updated_at'')) 0
      in case row_i64 partial' ''updated_at'' of
          None \<Rightarrow> Inr partial'
        | Some stamp \<Rightarrow>
            (case checked_add stored_updated 1 of
               None \<Rightarrow> Inl (StampOverflow table record_id)
             | Some lower \<Rightarrow>
                 let clamped = max stamp lower
                 in Inr (if clamped \<noteq> stamp
                         then fmupd ''updated_at'' (json_i64 clamped) partial' else partial')))"

definition stage_write_inner ::
  "serde \<Rightarrow> store \<Rightarrow> string \<Rightarrow> string \<Rightarrow> row \<Rightarrow> int \<Rightarrow> db_error + store" where
  "stage_write_inner J st table record_id partial' created_at =
     (case get_row J st table record_id of Inl e \<Rightarrow> Inl e
      | Inr existing \<Rightarrow>
          case clamp_partial table record_id existing partial' of Inl e \<Rightarrow> Inl e
          | Inr clamped \<Rightarrow>
              let merged = unwrap_or existing fmempty ++\<^sub>f clamped
              in case apply_row J st table merged of Inl e \<Rightarrow> Inl e
                 | Inr st1 \<Rightarrow>
                     Inr (enqueue st1 table record_id (to_str J (JObject clamped)) created_at))"

definition stage_local_write ::
  "serde \<Rightarrow> store \<Rightarrow> string \<Rightarrow> string \<Rightarrow> row \<Rightarrow> int \<Rightarrow> db_error + store" where
  "stage_local_write J st table record_id partial' created_at =
     stage_write_inner J st table record_id partial' created_at"

text \<open>One entry of a batch: a live write drops its queued tombstone first.\<close>

definition stage_batch_entry ::
  "serde \<Rightarrow> int \<Rightarrow> string \<times> string \<times> row \<Rightarrow> store \<Rightarrow> db_error + store" where
  "stage_batch_entry J created_at w st =
     (case w of (table, record_id, r) \<Rightarrow>
        let st1 = (if fmlookup r ''deleted'' \<noteq> Some (JBool True)
                   then snd (drop_pending_deletes_inner J st table record_id) else st)
        in stage_write_inner J st1 table record_id r created_at)"

fun stage_batch ::
  "serde \<Rightarrow> int \<Rightarrow> (string \<times> string \<times> row) list \<Rightarrow> store \<Rightarrow> db_error + store" where
  "stage_batch J created_at [] st = Inr st"
| "stage_batch J created_at (w # ws) st =
     (case stage_batch_entry J created_at w st of Inl e \<Rightarrow> Inl e
      | Inr st1 \<Rightarrow> stage_batch J created_at ws st1)"

definition stage_local_writes ::
  "serde \<Rightarrow> store \<Rightarrow> (string \<times> string \<times> row) list \<Rightarrow> int \<Rightarrow> db_error + store" where
  "stage_local_writes J st writes created_at =
     (if writes = [] then Inr st else stage_batch J created_at writes st)"

datatype stage_existing_error = TargetMissing | Sql db_error

definition stage_local_write_existing_live ::
  "serde \<Rightarrow> store \<Rightarrow> string \<Rightarrow> string \<Rightarrow> row \<Rightarrow> (string \<times> string \<times> row) list \<Rightarrow> int \<Rightarrow>
   stage_existing_error + store" where
  "stage_local_write_existing_live J st table record_id partial' extra_writes created_at =
     (case get_row J st table record_id of
        Inl e \<Rightarrow> Inl (Sql e)
      | Inr None \<Rightarrow> Inl TargetMissing
      | Inr (Some existing) \<Rightarrow>
          if unwrap_or (row_bool existing ''deleted'') False then Inl TargetMissing
          else case stage_write_inner J st table record_id partial' created_at of
              Inl e \<Rightarrow> Inl (Sql e)
            | Inr st1 \<Rightarrow>
                (case stage_batch J created_at extra_writes st1 of
                   Inl e \<Rightarrow> Inl (Sql e) | Inr st2 \<Rightarrow> Inr st2))"

definition stage_local_write_resurrecting ::
  "serde \<Rightarrow> store \<Rightarrow> string \<Rightarrow> string \<Rightarrow> row \<Rightarrow> int \<Rightarrow> db_error + store" where
  "stage_local_write_resurrecting J st table record_id partial' created_at =
     stage_write_inner J (snd (drop_pending_deletes_inner J st table record_id))
       table record_id partial' created_at"

record import_write =
  iw_table :: string
  iw_record_id :: string
  iw_row :: row

fun stage_import_batch ::
  "serde \<Rightarrow> store \<Rightarrow> import_write list \<Rightarrow> int \<Rightarrow> db_error + store" where
  "stage_import_batch J st [] batch_timestamp = Inr st"
| "stage_import_batch J st (w # ws) batch_timestamp =
     (case apply_row J (snd (drop_pending_deletes_inner J st (iw_table w) (iw_record_id w)))
             (iw_table w) (iw_row w) of
        Inl e \<Rightarrow> Inl e
      | Inr st1 \<Rightarrow>
          stage_import_batch J
            (enqueue st1 (iw_table w) (iw_record_id w) (to_str J (JObject (iw_row w)))
               batch_timestamp)
            ws batch_timestamp)"

subsection \<open>The clamp\<close>

text \<open>The stored stamp of a record, zero when there is none.\<close>

definition stored_stamp :: "serde \<Rightarrow> store \<Rightarrow> string \<Rightarrow> string \<Rightarrow> int" where
  "stored_stamp J st table record_id =
     (case get_row J st table record_id of
        Inr (Some r) \<Rightarrow> unwrap_or (row_i64 r ''updated_at'') 0 | _ \<Rightarrow> 0)"

lemma stored_stamp_existing:
  "get_row J st table rid = Inr existing \<Longrightarrow>
   unwrap_or (Option.bind existing (\<lambda>r. row_i64 r ''updated_at'')) 0 = stored_stamp J st table rid"
  by (cases existing) (simp_all add: stored_stamp_def)

lemma stored_stamp_is_i64: "is_i64 (stored_stamp J st table rid)"
proof -
  have "is_i64 0" by (simp add: is_i64_def i64_max_def i64_min_def)
  then show ?thesis
    by (auto simp: stored_stamp_def unwrap_or_is_i64 split: sum.splits option.splits)
qed

lemma clamp_partial_stamp:
  assumes "clamp_partial table rid existing p = Inr p'"
    and "row_i64 p ''updated_at'' = Some stamp"
    and "s = unwrap_or (Option.bind existing (\<lambda>r. row_i64 r ''updated_at'')) 0"
  shows "row_i64 p' ''updated_at'' = Some (max stamp (s + 1)) \<and> is_i64 (max stamp (s + 1))"
proof -
  from assms have s1: "is_i64 (s + 1)"
    by (auto simp: clamp_partial_def Let_def checked_add_def split: if_splits)
  have st: "is_i64 stamp" using assms(2) by (rule row_i64_is_i64)
  then have "is_i64 (max stamp (s + 1))" using s1 by (simp add: max_def)
  with s1 assms show ?thesis
    by (auto simp: clamp_partial_def Let_def checked_add_def json_simps)
qed

lemma clamp_partial_other:
  assumes "clamp_partial table rid existing p = Inr p'" and "c \<noteq> ''updated_at''"
  shows "fmlookup p' c = fmlookup p c"
  using assms by (auto simp: clamp_partial_def Let_def split: option.splits if_splits)

lemma clamp_partial_no_stamp:
  "row_i64 p ''updated_at'' = None \<Longrightarrow> clamp_partial table rid existing p = Inr p"
  by (simp add: clamp_partial_def)

lemma stage_write_inner_Inr:
  assumes "stage_write_inner J st table rid p now = Inr st'"
  obtains existing p' st1 where
    "get_row J st table rid = Inr existing" "clamp_partial table rid existing p = Inr p'"
    "apply_row J st table (unwrap_or existing fmempty ++\<^sub>f p') = Inr st1"
    "st' = enqueue st1 table rid (to_str J (JObject p')) now"
  using assms by (auto simp: stage_write_inner_def Let_def split: sum.splits)

lemma pk_not_updated_at: "desc_ok t \<Longrightarrow> pk_of t \<noteq> ''updated_at''"
  by (auto simp: desc_ok_def)

lemma merged_pk:
  assumes "desc_ok t" and "clamp_partial table rid existing p = Inr p'"
    and "fmlookup p (pk_of t) = Some (JString rid)"
  shows "row_str (base ++\<^sub>f p') (pk_of t) = Some rid"
  using clamp_partial_other [OF assms(2) pk_not_updated_at [OF assms(1)]] assms(3)
  by (simp add: row_str_def json_simps)

lemma stored_stamp_eq:
  "get_row J st table rid = Inr (Some r) \<Longrightarrow>
   stored_stamp J st table rid = unwrap_or (row_i64 r ''updated_at'') 0"
  by (simp add: stored_stamp_def)

lemma get_row_enqueue [simp]: "get_row J (enqueue st t' r' p' n') = get_row J st"
  by (rule get_row_frame) (simp add: enqueue_def)

text \<open>The whole effect of a staged write on its record, its outbox entry and the rest.\<close>

lemma stage_write_inner_effect:
  assumes ok: "stage_write_inner J st table rid p now = Inr st'"
    and t: "table_schema table = Some t"
    and pk: "fmlookup p (pk_of t) = Some (JString rid)"
  obtains existing p' where
    "get_row J st table rid = Inr existing" "clamp_partial table rid existing p = Inr p'"
    "get_row J st' table rid = Inr (Some (stored_row J t (unwrap_or existing fmempty ++\<^sub>f p')))"
    "\<And>i. i \<noteq> rid \<Longrightarrow> get_row J st' table i = get_row J st table i"
    "\<And>table' i. table' \<noteq> table \<Longrightarrow> get_row J st' table' i = get_row J st table' i"
    "outbox st' = outbox st @ [\<lparr>ob_id = outbox_seq st + 1, ob_table = table,
       ob_record_id = Some rid, ob_payload = to_str J (JObject p'), ob_created_at = now\<rparr>]"
    "outbox_seq st' = outbox_seq st + 1" "meta st' = meta st"
proof -
  from ok obtain existing p' st1 where
    ex: "get_row J st table rid = Inr existing" and cl: "clamp_partial table rid existing p = Inr p'"
    and ap: "apply_row J st table (unwrap_or existing fmempty ++\<^sub>f p') = Inr st1"
    and st': "st' = enqueue st1 table rid (to_str J (JObject p')) now"
    by (rule stage_write_inner_Inr)
  have k: "row_str (unwrap_or existing fmempty ++\<^sub>f p') (pk_of t) = Some rid"
    using table_schema_Some(2) [OF t] cl pk by (rule merged_pk)
  show ?thesis
  proof (rule that [OF ex cl])
    show "get_row J st' table rid =
        Inr (Some (stored_row J t (unwrap_or existing fmempty ++\<^sub>f p')))"
      by (simp add: st' get_row_apply [OF ap t k])
    show "get_row J st' table i = get_row J st table i" if "i \<noteq> rid" for i
      using that by (simp add: st' get_row_apply [OF ap t k])
    show "get_row J st' table' i = get_row J st table' i" if "table' \<noteq> table" for table' i
      using that by (simp add: st' get_row_apply_other [OF ap])
  qed (simp_all add: st' enqueue_def apply_row_frame [OF ap])
qed

text \<open>A value of a column survives another pass through its SQLite form; a JSON column needs
  the printer and the parser to agree on the stored value.\<close>

definition serde_agrees :: "serde \<Rightarrow> json \<Rightarrow> bool" where
  "serde_agrees J v \<longleftrightarrow> v = JNull \<or> from_str J (to_str J v) = Some v"

lemma restore_value:
  assumes "ty = CJson \<Longrightarrow> serde_agrees J v" and "sql_typed ty sv" and "v = sql_to_json J sv ty"
  shows "sql_to_json J (json_to_sql J (Some v) ty) ty = v"
  using assms
  by (cases ty; cases sv)
    (auto simp: serde_agrees_def json_to_sql_def sql_to_json_def as_i64_json_i64
      split: option.splits json.splits if_splits)

text \<open>A staged write fails only on an unknown table or when no newer stamp exists.\<close>

lemma stage_write_inner_succeeds:
  assumes t: "table_schema table = Some t"
    and "row_i64 p ''updated_at'' = None \<or> stored_stamp J st table rid \<noteq> i64_max"
  shows "\<exists>st'. stage_write_inner J st table rid p now = Inr st'"
proof -
  obtain existing where ex: "get_row J st table rid = Inr existing"
    using t by (simp add: get_row_eq)
  have "is_i64 (stored_stamp J st table rid + 1) \<or> row_i64 p ''updated_at'' = None"
    using assms(2) stored_stamp_is_i64 [of J st table rid]
    by (auto simp: is_i64_def i64_max_def i64_min_def)
  then obtain p' where cl: "clamp_partial table rid existing p = Inr p'"
    using stored_stamp_existing [OF ex]
    by (cases "row_i64 p ''updated_at''") (auto simp: clamp_partial_def checked_add_def Let_def)
  obtain st1 where "apply_row J st table (unwrap_or existing fmempty ++\<^sub>f p') = Inr st1"
    using apply_row_ok [OF t] by blast
  with ex cl show ?thesis by (simp add: stage_write_inner_def)
qed

lemma stage_write_inner_overflow:
  assumes t: "table_schema table = Some t"
    and "row_i64 p ''updated_at'' = Some stamp" and "stored_stamp J st table rid = i64_max"
  shows "stage_write_inner J st table rid p now = Inl (StampOverflow table rid)"
proof -
  obtain existing where ex: "get_row J st table rid = Inr existing"
    using t by (simp add: get_row_eq)
  with assms(2,3) stored_stamp_existing [OF ex] show ?thesis
    by (simp add: stage_write_inner_def clamp_partial_def checked_add_def is_i64_def)
qed

text \<open>A store with one collection stamped 500, and a JSON text pair that parses nothing.\<close>

definition mute_serde :: serde where
  "mute_serde = \<lparr>to_str = (\<lambda>_. []), from_str = (\<lambda>_. None)\<rparr>"

definition collection_row :: sqlrow where
  "collection_row = (\<lambda>_. SNull)(''id'' := SText ''c1'', ''name'' := SText ''Old'',
     ''created_at'' := SInteger 400, ''updated_at'' := SInteger 500, ''deleted'' := SInteger 0)"

definition collection_store :: store where
  "collection_store = empty_store\<lparr>tables := (\<lambda>_. [])(''collections'' := [collection_row])\<rparr>"

definition collection_edit :: row where
  "collection_edit = fmap_of_list [(''id'', JString ''c1''), (''name'', JString ''New''),
     (''updated_at'', json_i64 100)]"

lemma collections_schema:
  "table_schema ''collections'' = Some (descriptor_tables ! 5)"
  "pk_of (descriptor_tables ! 5) = ''id''"
  "ts_columns (descriptor_tables ! 5) = [(''id'', CText), (''name'', CText),
     (''created_at'', CInt), (''updated_at'', CInt), (''deleted'', CBool)]"
  by (simp_all add: table_schema_def schema_defs pk_of_def)

lemma collection_edit_stamp: "row_i64 collection_edit ''updated_at'' = Some 100"
  by (simp add: collection_edit_def row_i64_def fmlookup_of_list as_i64_json_i64 is_i64_def
      i64_max_def i64_min_def)

lemma collection_stamp: "stored_stamp J collection_store ''collections'' ''c1'' = 500"
  by (simp add: stored_stamp_def get_row_eq collections_schema collection_store_def
      collection_row_def fmlookup_row_of_sql row_i64_def sql_to_json_def as_i64_json_i64
      is_i64_def i64_max_def i64_min_def empty_store_def)

lemma collection_store_outbox: "outbox collection_store = []"
  by (simp add: collection_store_def empty_store_def)

lemma collection_store_typed: "rows_typed collection_store"
  by (simp add: rows_typed_def row_typed_def collection_store_def collection_row_def
      empty_store_def schema_defs is_i64_def i64_max_def i64_min_def)

lemma collection_get:
  "get_row J collection_store ''collections'' ''c1'' =
     Inr (Some (row_of_sql J (descriptor_tables ! 5) collection_row))"
  by (simp add: get_row_eq collections_schema collection_store_def collection_row_def
      empty_store_def)

lemma collection_staged:
  obtains st' where "stage_local_write mute_serde collection_store ''collections'' ''c1''
      collection_edit 7 = Inr st'"
    "fmlookup collection_edit (pk_of (descriptor_tables ! 5)) = Some (JString ''c1'')"
proof -
  obtain st' where "stage_local_write mute_serde collection_store ''collections'' ''c1''
      collection_edit 7 = Inr st'"
    using stage_write_inner_succeeds [OF collections_schema(1), of collection_edit mute_serde
        collection_store "''c1''" 7]
    by (auto simp: stage_local_write_def collection_stamp i64_max_def)
  then show ?thesis
    by (rule that) (simp add: collections_schema collection_edit_def fmlookup_of_list)
qed

subsection \<open>Properties of staging\<close>

text \<open>
  Property C23.  The monotonic clamp.  A staged write carries a stamp strictly newer than the row
  it replaces, and the stamp in the queued payload (the one the server compares) is the stamp of
  the stored row: it is the host's stamp, raised to one past the stored stamp when the local
  clock trails.  Every other column of the payload is the host's.
\<close>

theorem stage_write_strictly_newer:
  assumes "stage_local_write J st table rid p now = Inr st'"
    and "table_schema table = Some t" and "fmlookup p (pk_of t) = Some (JString rid)"
    and "row_i64 p ''updated_at'' = Some stamp"
  shows "\<exists>q. outbox st' = outbox st @ [\<lparr>ob_id = outbox_seq st + 1, ob_table = table,
        ob_record_id = Some rid, ob_payload = to_str J (JObject q), ob_created_at = now\<rparr>]
    \<and> row_i64 q ''updated_at'' = Some (max stamp (stored_stamp J st table rid + 1))
    \<and> fmdrop ''updated_at'' q = fmdrop ''updated_at'' p
    \<and> stored_stamp J st' table rid = max stamp (stored_stamp J st table rid + 1)
    \<and> stored_stamp J st table rid < stored_stamp J st' table rid"
proof -
  from assms(1) have "stage_write_inner J st table rid p now = Inr st'"
    by (simp add: stage_local_write_def)
  then obtain existing p' where
    ex: "get_row J st table rid = Inr existing" and cl: "clamp_partial table rid existing p = Inr p'"
    and new: "get_row J st' table rid =
      Inr (Some (stored_row J t (unwrap_or existing fmempty ++\<^sub>f p')))"
    and ob: "outbox st' = outbox st @ [\<lparr>ob_id = outbox_seq st + 1, ob_table = table,
        ob_record_id = Some rid, ob_payload = to_str J (JObject p'), ob_created_at = now\<rparr>]"
    using assms(2,3) by (rule stage_write_inner_effect)
  let ?m = "max stamp (stored_stamp J st table rid + 1)"
  have q: "row_i64 p' ''updated_at'' = Some ?m"
    using clamp_partial_stamp [OF cl assms(4) refl] stored_stamp_existing [OF ex] by simp
  have "row_i64 (unwrap_or existing fmempty ++\<^sub>f p') ''updated_at'' = Some ?m"
    using q by (auto simp: row_i64_def bind_eq_Some_conv json_simps)
  moreover have "map_of (ts_columns t) ''updated_at'' = Some CInt"
    using table_schema_Some(2) [OF assms(2)] by (simp add: desc_ok_def)
  ultimately have "stored_stamp J st' table rid = ?m"
    using stored_stamp_eq [OF new] by (simp add: stored_row_i64)
  moreover have "fmdrop ''updated_at'' p' = fmdrop ''updated_at'' p"
    using clamp_partial_other [OF cl] by (intro fmap_ext) simp
  ultimately show ?thesis using ob q by auto
qed

theorem stage_write_strictly_newer_witness:
  "\<exists>st' q. stage_local_write mute_serde collection_store ''collections'' ''c1'' collection_edit 7
       = Inr st'
     \<and> row_i64 q ''updated_at'' = Some 501
     \<and> map ob_payload (outbox st') = [to_str mute_serde (JObject q)]
     \<and> stored_stamp mute_serde st' ''collections'' ''c1'' = 501"
proof -
  obtain st' where st': "stage_local_write mute_serde collection_store ''collections'' ''c1''
      collection_edit 7 = Inr st'"
    and pk: "fmlookup collection_edit (pk_of (descriptor_tables ! 5)) = Some (JString ''c1'')"
    by (rule collection_staged)
  show ?thesis
    using stage_write_strictly_newer [OF st' collections_schema(1) pk collection_edit_stamp] st'
    by (auto simp: collection_stamp collection_store_outbox)
qed



text \<open>
  A partial edit never nulls a column it does not mention: after staging, a column
  of the row holds the edit's value (through its column type) when the edit names it, and what
  it held before otherwise.  The JSON printer and parser are asked to agree on the values the
  row already stores in JSON columns.
\<close>

theorem stage_write_keeps_columns:
  assumes ok: "stage_local_write J st table rid p now = Inr st'"
    and t: "table_schema table = Some t" and pk: "fmlookup p (pk_of t) = Some (JString rid)"
    and col: "map_of (ts_columns t) c = Some ty" and c: "c \<noteq> ''updated_at''"
    and typed: "rows_typed st" and old: "get_row J st table rid = Inr (Some before)"
    and agrees: "\<forall>v. ty = CJson \<and> fmlookup before c = Some v \<longrightarrow> serde_agrees J v"
  shows "\<exists>after. get_row J st' table rid = Inr (Some after) \<and>
    fmlookup after c = (case fmlookup p c of
        None \<Rightarrow> fmlookup before c
      | Some v \<Rightarrow> Some (sql_to_json J (json_to_sql J (Some v) ty) ty))"
proof -
  from ok have "stage_write_inner J st table rid p now = Inr st'"
    by (simp add: stage_local_write_def)
  then obtain existing p' where ex: "get_row J st table rid = Inr existing"
    and cl: "clamp_partial table rid existing p = Inr p'"
    and new: "get_row J st' table rid =
      Inr (Some (stored_row J t (unwrap_or existing fmempty ++\<^sub>f p')))"
    using t pk by (rule stage_write_inner_effect)
  have p': "fmlookup p' c = fmlookup p c" using clamp_partial_other [OF cl c] .
  from ex old have ex': "existing = Some before" by simp
  obtain v sv where v: "fmlookup before c = Some v" "v = sql_to_json J sv ty" "sql_typed ty sv"
    using get_row_typed [OF typed t old col] .
  then have "sql_to_json J (json_to_sql J (Some v) ty) ty = v"
    using agrees by (intro restore_value) auto
  with new ex' v(1) p' col show ?thesis
    by (cases "fmlookup p c") (auto simp: fmlookup_stored_row json_simps)
qed

theorem stage_write_keeps_columns_witness:
  "\<exists>st' after. stage_local_write mute_serde collection_store ''collections'' ''c1'' collection_edit 7
       = Inr st' \<and> get_row mute_serde st' ''collections'' ''c1'' = Inr (Some after)
     \<and> fmlookup after ''created_at'' = Some (json_i64 400)"
proof -
  obtain st' where st': "stage_local_write mute_serde collection_store ''collections'' ''c1''
      collection_edit 7 = Inr st'"
    and pk: "fmlookup collection_edit (pk_of (descriptor_tables ! 5)) = Some (JString ''c1'')"
    by (rule collection_staged)
  have "\<exists>after. get_row mute_serde st' ''collections'' ''c1'' = Inr (Some after) \<and>
      fmlookup after ''created_at'' = (case fmlookup collection_edit ''created_at'' of
        None \<Rightarrow> fmlookup (row_of_sql mute_serde (descriptor_tables ! 5) collection_row) ''created_at''
      | Some v \<Rightarrow> Some (sql_to_json mute_serde (json_to_sql mute_serde (Some v) CInt) CInt))"
    by (rule stage_write_keeps_columns [OF st' collections_schema(1) pk _ _ collection_store_typed
          collection_get])
      (simp_all add: collections_schema serde_agrees_def fmlookup_row_of_sql collection_row_def
        sql_to_json_def mute_serde_def)
  with st' show ?thesis
    by (auto simp: fmlookup_row_of_sql collections_schema collection_row_def sql_to_json_def
        collection_edit_def fmlookup_of_list)
qed

end
