(* ===== verification/Prompt.thy ===== *)
theory Prompt
  imports Braird_Prelude
begin

text \<open>
  The open-question prompt state machine of \<open>src/src/prompt.rs\<close>: a pure function of the
  question log, the settings and the clock.  Stamps are \<open>i64\<close> epoch milliseconds, so the
  additions of a cadence are the saturating ones of the source.
\<close>

subsection \<open>Constants and types\<close>

definition PROMPT_CADENCE_KEY :: string where "PROMPT_CADENCE_KEY = ''prompt_cadence''"
definition PROMPT_TONE_KEY :: string where "PROMPT_TONE_KEY = ''prompt_tone''"
definition PROMPT_SKIPPED_AT_KEY :: string where
  "PROMPT_SKIPPED_AT_KEY = ''prompt_skipped_at''"
definition PROMPT_ANSWERED_AT_KEY :: string where
  "PROMPT_ANSWERED_AT_KEY = ''prompt_answered_at''"
definition CHECKIN_COMPLETED_AT_KEY :: string where
  "CHECKIN_COMPLETED_AT_KEY = ''checkin_completed_at''"
definition QUESTION_NUDGE_DISMISSED_AT_KEY :: string where
  "QUESTION_NUDGE_DISMISSED_AT_KEY = ''question_nudge_dismissed_at''"

definition CADENCE_MIN_HOURS :: nat where "CADENCE_MIN_HOURS = 72"
definition CADENCE_MAX_HOURS :: nat where "CADENCE_MAX_HOURS = 672"
definition CADENCE_DEFAULT_HOURS :: nat where "CADENCE_DEFAULT_HOURS = 168"
definition HOUR_MS :: int where "HOUR_MS = 60 * 60 * 1000"
definition NUDGE_DELAY_MS :: int where "NUDGE_DELAY_MS = 24 * HOUR_MS"
definition QUESTION_NUDGE_THRESHOLD :: nat where "QUESTION_NUDGE_THRESHOLD = 8"
definition QUESTION_NUDGE_QUIET_MS :: int where "QUESTION_NUDGE_QUIET_MS = 28 * 24 * HOUR_MS"

datatype prompt_tone = Introspective | Productive

datatype prompt_event_kind = Initial | Nudge | CheckIn

record prompt_settings =
  cadence_hours :: nat
  tone :: prompt_tone

record prompt_event =
  ev_kind :: prompt_event_kind
  due_at :: int
  ev_tone :: prompt_tone

record question_meta =
  qm_id :: string
  qm_status :: "string option"
  qm_created_at :: int
  qm_updated_at :: int
  qm_resolved_at :: "int option"
  qm_checkin_at :: "int option"

record prompt_state =
  account_created_at_ms :: int
  questions :: "question_meta list"
  has_ever_answered :: bool
  prompt_skipped_at_ms :: "int option"
  checkin_completed_at_ms :: "int option"

subsection \<open>Operations\<close>

definition clamp_cadence :: "nat \<Rightarrow> nat" where
  "clamp_cadence hours = max CADENCE_MIN_HOURS (min CADENCE_MAX_HOURS hours)"

definition ascii_lower :: "char \<Rightarrow> char" where
  "ascii_lower c =
     (let n = of_char c :: nat in if 65 \<le> n \<and> n \<le> 90 then char_of (n + 32) else c)"

definition eq_ignore_ascii_case :: "string \<Rightarrow> string \<Rightarrow> bool" where
  "eq_ignore_ascii_case a b \<longleftrightarrow> map ascii_lower a = map ascii_lower b"

definition parse_tone :: "string option \<Rightarrow> prompt_tone" where
  "parse_tone raw =
     (case raw of
        Some s \<Rightarrow> if eq_ignore_ascii_case s ''productive'' then Productive else Introspective
      | None \<Rightarrow> Introspective)"

definition tone_value :: "prompt_tone \<Rightarrow> string" where
  "tone_value t =
     (case t of Introspective \<Rightarrow> ''introspective'' | Productive \<Rightarrow> ''productive'')"

definition is_active :: "string option \<Rightarrow> bool" where
  "is_active status \<longleftrightarrow> \<not> (status = Some ''resolved'' \<or> status = Some ''dismissed'')"

definition bound_interaction :: "int \<Rightarrow> int \<Rightarrow> int \<Rightarrow> int" where
  "bound_interaction stamp birth now_ms = (if now_ms < stamp then birth else max stamp birth)"

definition active_questions :: "prompt_state \<Rightarrow> question_meta list" where
  "active_questions st = filter (\<lambda>q. is_active (qm_status q)) (questions st)"

definition opt_list :: "'a option \<Rightarrow> 'a list" where
  "opt_list o' = (case o' of None \<Rightarrow> [] | Some x \<Rightarrow> [x])"

definition checkin_stamps :: "prompt_state \<Rightarrow> int list" where
  "checkin_stamps st =
     opt_list (checkin_completed_at_ms st) @
     concat (map (\<lambda>q. opt_list (qm_checkin_at q)) (active_questions st))"

definition checkin_anchor :: "prompt_state \<Rightarrow> int \<Rightarrow> int option" where
  "checkin_anchor st now_ms =
     (case iter_min (map qm_created_at (active_questions st)) of
        None \<Rightarrow> None
      | Some birth \<Rightarrow>
          Some (unwrap_or
            (iter_max (map (\<lambda>stamp. bound_interaction stamp birth now_ms) (checkin_stamps st)))
            birth))"

definition question_nudge_due :: "nat \<Rightarrow> int option \<Rightarrow> int \<Rightarrow> bool" where
  "question_nudge_due active_count dismissed_at now_ms =
     (if active_count \<le> QUESTION_NUDGE_THRESHOLD then False
      else case dismissed_at of
          Some dismissed \<Rightarrow>
            if dismissed \<le> now_ms then saturating_add dismissed QUESTION_NUDGE_QUIET_MS \<le> now_ms else True
        | None \<Rightarrow> True)"

definition cadence_ms :: "prompt_settings \<Rightarrow> int" where
  "cadence_ms settings = int (clamp_cadence (cadence_hours settings)) * HOUR_MS"

definition closed_at :: "prompt_state \<Rightarrow> int \<Rightarrow> int option" where
  "closed_at st now_ms =
     iter_max (map (\<lambda>q. bound_interaction (unwrap_or (qm_resolved_at q) (qm_updated_at q))
                          (qm_created_at q) now_ms) (questions st))"

definition skipped_at :: "prompt_state \<Rightarrow> int \<Rightarrow> int option" where
  "skipped_at st now_ms =
     map_option (\<lambda>t. bound_interaction t (account_created_at_ms st) now_ms)
       (prompt_skipped_at_ms st)"

definition initial_due :: "prompt_state \<Rightarrow> prompt_settings \<Rightarrow> int \<Rightarrow> int" where
  "initial_due st settings now_ms =
     (case iter_max (opt_list (closed_at st now_ms) @ opt_list (skipped_at st now_ms)) of
        Some anchor \<Rightarrow> saturating_add anchor (cadence_ms settings)
      | None \<Rightarrow> account_created_at_ms st)"

definition next_events ::
  "prompt_state \<Rightarrow> prompt_settings \<Rightarrow> int \<Rightarrow> prompt_event list" where
  "next_events st settings now_ms =
     (let event = (\<lambda>kind due. \<lparr>ev_kind = kind, due_at = due, ev_tone = tone settings\<rparr>)
      in case checkin_anchor st now_ms of
          Some anchor \<Rightarrow> [event CheckIn (saturating_add anchor (cadence_ms settings))]
        | None \<Rightarrow>
            let nudge_at = saturating_add (account_created_at_ms st) NUDGE_DELAY_MS;
                events = [event Initial (initial_due st settings now_ms)] @
                  (if \<not> has_ever_answered st \<and> prompt_skipped_at_ms st = None
                      \<and> now_ms < nudge_at
                   then [event Nudge nudge_at] else [])
            in sort_key due_at events)"

subsection \<open>Facts about the pieces\<close>

lemmas prompt_consts = CADENCE_MIN_HOURS_def CADENCE_MAX_HOURS_def HOUR_MS_def
  NUDGE_DELAY_MS_def QUESTION_NUDGE_THRESHOLD_def QUESTION_NUDGE_QUIET_MS_def

lemma clamp_cadence_bounds: "72 \<le> clamp_cadence h \<and> clamp_cadence h \<le> 672"
  by (auto simp: clamp_cadence_def prompt_consts)

lemma clamp_cadence_idem: "clamp_cadence (clamp_cadence h) = clamp_cadence h"
  by (auto simp: clamp_cadence_def prompt_consts)

lemma cadence_ms_pos: "0 < cadence_ms settings"
  using clamp_cadence_bounds [of "cadence_hours settings"]
  by (simp add: cadence_ms_def prompt_consts)

lemma bound_interaction_ge: "birth \<le> bound_interaction s birth now"
  by (simp add: bound_interaction_def)

lemma bound_interaction_le: "bound_interaction s birth now \<le> max birth now"
  by (auto simp: bound_interaction_def)

lemma bound_interaction_stable:
  "\<not> (now < s \<and> s \<le> now') \<Longrightarrow> now \<le> now' \<Longrightarrow>
   bound_interaction s birth now' = bound_interaction s birth now"
  by (auto simp: bound_interaction_def)

lemma checkin_anchor_None: "checkin_anchor st now = None \<longleftrightarrow> active_questions st = []"
  by (auto simp: checkin_anchor_def split: option.splits)

lemma checkin_anchor_bounds:
  assumes "checkin_anchor st now = Some a"
    and "iter_min (map qm_created_at (active_questions st)) = Some birth"
  shows "birth \<le> a \<and> a \<le> max birth now"
proof (cases "iter_max (map (\<lambda>s. bound_interaction s birth now) (checkin_stamps st))")
  case None
  with assms show ?thesis by (auto simp: checkin_anchor_def)
next
  case (Some m)
  then obtain s where "m = bound_interaction s birth now"
    by (auto simp: iter_max_Some)
  moreover from Some assms have "a = m" by (simp add: checkin_anchor_def)
  ultimately show ?thesis
    using bound_interaction_ge [of birth s now] bound_interaction_le [of s birth now] by simp
qed

lemma max_in_bounds:
  "iter_max xs = Some m \<Longrightarrow> \<forall>x \<in> set xs. x \<le> b \<Longrightarrow> m \<le> (b::int)"
  by (auto simp: iter_max_Some)

lemma set_opt_list: "set (opt_list o') = set_option o'"
  by (cases o') (simp_all add: opt_list_def)

lemma question_stamp_in_active:
  "s \<in> set (checkin_stamps st) \<longleftrightarrow>
   checkin_completed_at_ms st = Some s \<or>
   (\<exists>q \<in> set (questions st). is_active (qm_status q) \<and> qm_checkin_at q = Some s)"
  by (auto simp: checkin_stamps_def active_questions_def set_opt_list)

lemma closed_at_le:
  assumes "closed_at st now = Some c" and "\<forall>q \<in> set (questions st). qm_created_at q \<le> now"
  shows "c \<le> now"
proof (rule max_in_bounds)
  show "iter_max (map (\<lambda>q. bound_interaction (unwrap_or (qm_resolved_at q) (qm_updated_at q))
          (qm_created_at q) now) (questions st)) = Some c"
    using assms(1) by (simp add: closed_at_def)
  show "\<forall>x \<in> set (map (\<lambda>q. bound_interaction (unwrap_or (qm_resolved_at q) (qm_updated_at q))
          (qm_created_at q) now) (questions st)). x \<le> now"
    using assms(2) bound_interaction_le by (fastforce simp: max_def split: if_splits)
qed

lemma skipped_at_le: "skipped_at st now = Some s \<Longrightarrow> account_created_at_ms st \<le> now \<Longrightarrow> s \<le> now"
  using bound_interaction_le [of _ "account_created_at_ms st" now]
  by (auto simp: skipped_at_def bound_interaction_def)

lemma initial_due_le:
  assumes "is_i64 now" "account_created_at_ms st \<le> now"
    and "\<forall>q \<in> set (questions st). qm_created_at q \<le> now"
  shows "initial_due st settings now \<le> saturating_add now (cadence_ms settings)"
proof (cases "iter_max (opt_list (closed_at st now) @ opt_list (skipped_at st now))")
  case None
  have "now \<le> saturating_add now (cadence_ms settings)"
    using assms(1) cadence_ms_pos [of settings] by (intro saturating_add_ge) simp_all
  with None assms(2) show ?thesis by (simp add: initial_due_def)
next
  case (Some a)
  then have "a \<in> set_option (closed_at st now) \<union> set_option (skipped_at st now)"
    by (simp add: iter_max_Some set_opt_list)
  then have "a \<le> now"
    using assms by (auto dest: closed_at_le skipped_at_le)
  with Some show ?thesis by (simp add: initial_due_def saturating_add_mono)
qed

text \<open>The stamps a host, a pull or another device may have written.\<close>

definition prompt_stamps :: "prompt_state \<Rightarrow> int set" where
  "prompt_stamps st =
     set_option (checkin_completed_at_ms st) \<union> set_option (prompt_skipped_at_ms st) \<union>
     (\<Union>q \<in> set (questions st). set_option (qm_checkin_at q) \<union>
        {unwrap_or (qm_resolved_at q) (qm_updated_at q)})"

lemma checkin_stamps_subset: "set (checkin_stamps st) \<subseteq> prompt_stamps st"
  by (auto simp: question_stamp_in_active prompt_stamps_def)

lemma anchors_stable:
  assumes "now \<le> now'" and "\<And>s. s \<in> prompt_stamps st \<Longrightarrow> \<not> (now < s \<and> s \<le> now')"
  shows "checkin_anchor st now' = checkin_anchor st now"
    and "closed_at st now' = closed_at st now"
    and "skipped_at st now' = skipped_at st now"
proof -
  have b: "bound_interaction s birth now' = bound_interaction s birth now"
    if "s \<in> prompt_stamps st" for s birth
    using that assms bound_interaction_stable by blast
  have "map (\<lambda>s. bound_interaction s birth now') (checkin_stamps st) =
      map (\<lambda>s. bound_interaction s birth now) (checkin_stamps st)" for birth
    using b checkin_stamps_subset by (intro map_cong) auto
  then show "checkin_anchor st now' = checkin_anchor st now"
    by (simp only: checkin_anchor_def)
  have "map (\<lambda>q. bound_interaction (unwrap_or (qm_resolved_at q) (qm_updated_at q))
          (qm_created_at q) now') (questions st) =
      map (\<lambda>q. bound_interaction (unwrap_or (qm_resolved_at q) (qm_updated_at q))
          (qm_created_at q) now) (questions st)"
    using b by (intro map_cong) (auto simp: prompt_stamps_def)
  then show "closed_at st now' = closed_at st now"
    by (simp only: closed_at_def)
  show "skipped_at st now' = skipped_at st now"
    using b by (cases "prompt_skipped_at_ms st") (auto simp: skipped_at_def prompt_stamps_def)
qed

lemma filter_sort_initial:
  "filter (\<lambda>e. ev_kind e \<noteq> Nudge) (sort_key due_at (e # (if b then [n] else []))) = [e]"
  if "ev_kind e = Initial" "ev_kind n = Nudge"
  using that by auto

lemma filter_sort_nudge:
  "filter (\<lambda>e. ev_kind e = Nudge) (sort_key due_at (e # (if b then [n] else []))) =
   (if b then [n] else [])"
  if "ev_kind e = Initial" "ev_kind n = Nudge"
  using that by auto

text \<open>
  An account with one active question whose last check-in carries a stamp far in the future
  (a device with a fast clock), read at time 2000.
\<close>

definition skewed_state :: prompt_state where
  "skewed_state = \<lparr>account_created_at_ms = 0,
     questions = [\<lparr>qm_id = ''q'', qm_status = Some ''active'', qm_created_at = 1000,
       qm_updated_at = 1000, qm_resolved_at = None, qm_checkin_at = Some 9000000000000\<rparr>],
     has_ever_answered = True, prompt_skipped_at_ms = None, checkin_completed_at_ms = None\<rparr>"

definition weekly :: prompt_settings where
  "weekly = \<lparr>cadence_hours = 168, tone = Productive\<rparr>"

lemma skewed_state_events:
  "next_events skewed_state weekly 2000 =
   [\<lparr>ev_kind = CheckIn, due_at = 604801000, ev_tone = Productive\<rparr>]"
  by (simp add: next_events_def skewed_state_def weekly_def checkin_anchor_def checkin_stamps_def
      active_questions_def is_active_def opt_list_def bound_interaction_def cadence_ms_def
      clamp_cadence_def saturating_add_def i64_max_def i64_min_def prompt_consts)

subsection \<open>Properties\<close>

text \<open>
  The prompt is never empty, holds at most two events, is sorted by due time and
  carries the tone in force; a check-in is offered exactly when a question is active, and then
  it is the only event.
\<close>

theorem next_events_shape:
  fixes st settings now_ms
  defines "es \<equiv> next_events st settings now_ms"
  shows "es \<noteq> [] \<and> length es \<le> 2 \<and> sorted (map due_at es) \<and> ev_tone ` set es = {tone settings} \<and>
    (CheckIn \<in> ev_kind ` set es \<longleftrightarrow> active_questions st \<noteq> []) \<and>
    (active_questions st \<noteq> [] \<longleftrightarrow> map ev_kind es = [CheckIn])"
proof (cases "checkin_anchor st now_ms")
  case None
  then have "active_questions st = []" by (simp add: checkin_anchor_None)
  with None show ?thesis
    unfolding es_def by (auto simp: next_events_def Let_def)
next
  case (Some a)
  then have "active_questions st \<noteq> []" using checkin_anchor_None [of st now_ms] by simp
  with Some show ?thesis
    unfolding es_def by (simp add: next_events_def)
qed

text \<open>
  Property C38.  No foreign clock silences the loop: whatever stamps the synced rows carry, a
  check-in or an initial prompt is due at most one cadence from now, provided the account and
  the questions themselves were not created in the future.
\<close>

theorem prompt_due_within_cadence:
  assumes "is_i64 now_ms" and "account_created_at_ms st \<le> now_ms"
    and "\<forall>q \<in> set (questions st). qm_created_at q \<le> now_ms"
    and "e \<in> set (next_events st settings now_ms)" and "ev_kind e \<noteq> Nudge"
  shows "due_at e \<le> saturating_add now_ms (cadence_ms settings)"
proof (cases "checkin_anchor st now_ms")
  case None
  with assms(4,5) have "due_at e = initial_due st settings now_ms"
    by (auto simp: next_events_def Let_def split: if_splits)
  with assms(1-3) show ?thesis by (simp add: initial_due_le)
next
  case (Some a)
  then obtain birth where birth: "iter_min (map qm_created_at (active_questions st)) = Some birth"
    by (auto simp: checkin_anchor_def split: option.splits)
  then have "birth \<le> now_ms"
    using assms(3) by (auto simp: iter_min_Some active_questions_def)
  then have "a \<le> now_ms"
    using checkin_anchor_bounds [OF Some birth] by simp
  with Some assms(4) show ?thesis by (simp add: next_events_def saturating_add_mono)
qed

theorem prompt_due_within_cadence_witness:
  "due_at \<lparr>ev_kind = CheckIn, due_at = 604801000, ev_tone = Productive\<rparr>
     \<le> saturating_add 2000 (cadence_ms weekly)"
  by (rule prompt_due_within_cadence [of 2000 skewed_state])
    (simp_all add: skewed_state_events, simp_all add: skewed_state_def is_i64_def i64_max_def
      i64_min_def)

text \<open>
  Re-evaluating an unchanged state later does not move a prompt: unless the clock
  passes one of the stamps in between, every event but the nudge keeps its due time.
\<close>

theorem next_events_stable:
  assumes "now_ms \<le> now'" and "\<forall>s \<in> prompt_stamps st. \<not> (now_ms < s \<and> s \<le> now')"
  shows "filter (\<lambda>e. ev_kind e \<noteq> Nudge) (next_events st settings now') =
    filter (\<lambda>e. ev_kind e \<noteq> Nudge) (next_events st settings now_ms)"
proof -
  have st: "checkin_anchor st now' = checkin_anchor st now_ms"
    "closed_at st now' = closed_at st now_ms" "skipped_at st now' = skipped_at st now_ms"
    using anchors_stable [of now_ms now' st] assms by blast+
  have "initial_due st settings now' = initial_due st settings now_ms"
    by (simp add: initial_due_def st)
  then show ?thesis
    by (cases "checkin_anchor st now_ms")
      (simp_all add: next_events_def Let_def st filter_sort_initial del: sort_key_simps)
qed

theorem next_events_stable_witness:
  "filter (\<lambda>e. ev_kind e \<noteq> Nudge) (next_events skewed_state weekly 8000000000000) =
   filter (\<lambda>e. ev_kind e \<noteq> Nudge) (next_events skewed_state weekly 2000)"
  by (rule next_events_stable) (simp_all add: skewed_state_def prompt_stamps_def)

text \<open>
  The onboarding nudge: it is offered exactly while no question is active, nothing
  was ever answered, no skip is recorded and the first 24 hours have not passed; it is then one
  event, due 24 hours after account creation.
\<close>

theorem nudge_exactly_in_window:
  "filter (\<lambda>e. ev_kind e = Nudge) (next_events st settings now_ms) =
   (if active_questions st = [] \<and> \<not> has_ever_answered st \<and> prompt_skipped_at_ms st = None
       \<and> now_ms < saturating_add (account_created_at_ms st) NUDGE_DELAY_MS
    then [\<lparr>ev_kind = Nudge, due_at = saturating_add (account_created_at_ms st) NUDGE_DELAY_MS,
           ev_tone = tone settings\<rparr>]
    else [])"
proof (cases "checkin_anchor st now_ms")
  case None
  moreover from None have "active_questions st = []" by (simp add: checkin_anchor_None)
  ultimately show ?thesis
    by (simp add: next_events_def Let_def filter_sort_nudge del: sort_key_simps)
next
  case (Some a)
  moreover from Some have "active_questions st \<noteq> []"
    using checkin_anchor_None [of st now_ms] by simp
  ultimately show ?thesis by (simp add: next_events_def)
qed

end
