(* ===== verification/Embedding_Store.thy ===== *)
theory Embedding_Store
  imports Staging Prompt
begin

text \<open>
  The sealed-vector tables of \<open>src/src/store.rs\<close>: staleness tokens, guarded upserts, corpus
  invalidation, the orphan sweep and the derived embed queues.  A vector is the opaque sealed
  blob; \<open>None\<close> is the NULL skip marker.
\<close>

subsection \<open>Notes\<close>

text \<open>\<open>COALESCE(content_tag, 'u:' || COALESCE(updated_at, 0))\<close>.\<close>

definition content_token_sql :: "sqlrow \<Rightarrow> string" where
  "content_token_sql r =
     (case r ''content_tag'' of SText s \<Rightarrow> s
      | _ \<Rightarrow> ''u:'' @ (case r ''updated_at'' of SInteger i \<Rightarrow> i64_to_string i | _ \<Rightarrow> ''0''))"

definition note_content_token :: "store \<Rightarrow> string \<Rightarrow> string option" where
  "note_content_token st note_id =
     map_option content_token_sql
       (find (\<lambda>r. r ''id'' = SText note_id \<and> is_live r) (tables st ''notes''))"

definition put_embedding :: "emb_row \<Rightarrow> emb_row list \<Rightarrow> emb_row list" where
  "put_embedding e es = filter (\<lambda>e'. emb_owner e' \<noteq> emb_owner e) es @ [e]"

definition upsert_embedding_if_current ::
  "store \<Rightarrow> string \<Rightarrow> string \<Rightarrow> string \<Rightarrow> string option \<Rightarrow> int \<Rightarrow> bool \<times> store" where
  "upsert_embedding_if_current st note_id corpus_key content_token sealed updated_at =
     (if note_content_token st note_id \<noteq> Some content_token then (False, st)
      else (True, st\<lparr>embeddings := put_embedding
              \<lparr>emb_owner = note_id, emb_model_version = Some corpus_key,
               emb_content_token = Some content_token, emb_vector = sealed,
               emb_updated_at = updated_at\<rparr> (embeddings st)\<rparr>))"

definition delete_embeddings_not_matching :: "store \<Rightarrow> string \<Rightarrow> nat \<times> store" where
  "delete_embeddings_not_matching st corpus_key =
     (let stale = (\<lambda>e. emb_model_version e \<noteq> Some corpus_key)
      in (length (filter stale (embeddings st)) + length (filter stale (question_embeddings st)),
          st\<lparr>embeddings := filter (\<lambda>e. \<not> stale e) (embeddings st),
             question_embeddings := filter (\<lambda>e. \<not> stale e) (question_embeddings st)\<rparr>))"

definition has_live_row :: "store \<Rightarrow> string \<Rightarrow> string \<Rightarrow> bool" where
  "has_live_row st table i \<longleftrightarrow>
     list_ex (\<lambda>r. r ''id'' = SText i \<and> is_live r) (tables st table)"

definition sweep_orphan_embeddings :: "store \<Rightarrow> nat \<times> store" where
  "sweep_orphan_embeddings st =
     (let keep_n = (\<lambda>e. has_live_row st ''notes'' (emb_owner e));
          keep_q = (\<lambda>e. has_live_row st ''questions'' (emb_owner e))
      in (length (filter (\<lambda>e. \<not> keep_n e) (embeddings st)) +
            length (filter (\<lambda>e. \<not> keep_q e) (question_embeddings st)),
          st\<lparr>embeddings := filter keep_n (embeddings st),
             question_embeddings := filter keep_q (question_embeddings st)\<rparr>))"

text \<open>\<open>pending_embeddings_sql\<close>: the WHERE clause of the derived queue over the left join.\<close>

definition is_pending :: "store \<Rightarrow> string \<Rightarrow> sqlrow \<Rightarrow> bool" where
  "is_pending st corpus_key r \<longleftrightarrow> is_live r \<and>
     (case find (\<lambda>e. r ''id'' = SText (emb_owner e)) (embeddings st) of
        None \<Rightarrow> True
      | Some e \<Rightarrow> emb_model_version e \<noteq> Some corpus_key \<or>
          emb_content_token e \<noteq> Some (content_token_sql r))"

definition pending_note_rows :: "store \<Rightarrow> string \<Rightarrow> sqlrow list" where
  "pending_note_rows st corpus_key = filter (is_pending st corpus_key) (tables st ''notes'')"

definition text_column :: "sqlrow \<Rightarrow> string \<Rightarrow> db_error + string" where
  "text_column r c = (case r c of SText s \<Rightarrow> Inr s | _ \<Rightarrow> Inl (InvalidColumnType c))"

definition pending_embeddings ::
  "store \<Rightarrow> string \<Rightarrow> int \<Rightarrow> db_error + (string \<times> string) list" where
  "pending_embeddings st corpus_key limit =
     traverse (\<lambda>r. case text_column r ''id'' of Inl e \<Rightarrow> Inl e
                   | Inr i \<Rightarrow> Inr (i, content_token_sql r))
       (limit_offset limit 0
         (sort_by (order_desc ''created_at'' ''id'') (pending_note_rows st corpus_key)))"

definition live_embeddings :: "store \<Rightarrow> string \<Rightarrow> (string \<times> string) list" where
  "live_embeddings st corpus_key =
     concat (map (\<lambda>e. case emb_vector e of
          None \<Rightarrow> []
        | Some v \<Rightarrow> if emb_model_version e = Some corpus_key
                    then map (\<lambda>_. (emb_owner e, v))
                      (filter (\<lambda>r. r ''id'' = SText (emb_owner e) \<and> is_live r)
                        (tables st ''notes''))
                    else []) (embeddings st))"

definition sealed_embedding :: "store \<Rightarrow> string \<Rightarrow> string \<Rightarrow> string option" where
  "sealed_embedding st note_id corpus_key =
     (case find (\<lambda>e. emb_owner e = note_id \<and> emb_model_version e = Some corpus_key \<and>
               emb_vector e \<noteq> None \<and> has_live_row st ''notes'' note_id) (embeddings st) of
        None \<Rightarrow> None | Some e \<Rightarrow> emb_vector e)"

definition current_sealed_embedding :: "store \<Rightarrow> string \<Rightarrow> string \<Rightarrow> string option" where
  "current_sealed_embedding st note_id corpus_key =
     (case find (\<lambda>e. emb_owner e = note_id \<and> emb_model_version e = Some corpus_key \<and>
               emb_vector e \<noteq> None \<and>
               list_ex (\<lambda>r. r ''id'' = SText note_id \<and> is_live r \<and>
                  emb_content_token e = Some (content_token_sql r)) (tables st ''notes''))
            (embeddings st) of
        None \<Rightarrow> None | Some e \<Rightarrow> emb_vector e)"

subsection \<open>Questions\<close>

definition question_text_token :: "store \<Rightarrow> string \<Rightarrow> string option" where
  "question_text_token st question_id =
     (case find (\<lambda>r. r ''id'' = SText question_id \<and> is_live r) (tables st ''questions'') of
        None \<Rightarrow> None
      | Some r \<Rightarrow> (case r ''text'' of SText s \<Rightarrow> Some s | _ \<Rightarrow> None))"

text \<open>\<open>COALESCE(q.status, '') NOT IN ('resolved', 'dismissed')\<close>.\<close>

definition status_not_closed :: "sqlrow \<Rightarrow> bool" where
  "status_not_closed r \<longleftrightarrow>
     (case r ''status'' of SText s \<Rightarrow> s \<noteq> ''resolved'' \<and> s \<noteq> ''dismissed'' | _ \<Rightarrow> True)"

definition is_pending_question :: "store \<Rightarrow> string \<Rightarrow> sqlrow \<Rightarrow> bool" where
  "is_pending_question st corpus_key r \<longleftrightarrow> is_live r \<and> r ''text'' \<noteq> SNull \<and> status_not_closed r \<and>
     (case find (\<lambda>e. r ''id'' = SText (emb_owner e)) (question_embeddings st) of
        None \<Rightarrow> True
      | Some e \<Rightarrow> emb_model_version e \<noteq> Some corpus_key \<or>
          map_option SText (emb_content_token e) \<noteq> Some (r ''text''))"

definition pending_question_rows :: "store \<Rightarrow> string \<Rightarrow> sqlrow list" where
  "pending_question_rows st corpus_key =
     filter (is_pending_question st corpus_key) (tables st ''questions'')"

definition pending_question_embeddings ::
  "store \<Rightarrow> string \<Rightarrow> db_error + (string \<times> string) list" where
  "pending_question_embeddings st corpus_key =
     traverse (\<lambda>r. case text_column r ''id'' of Inl e \<Rightarrow> Inl e
                   | Inr i \<Rightarrow> (case text_column r ''text'' of Inl e \<Rightarrow> Inl e
                              | Inr s \<Rightarrow> Inr (i, s)))
       (sort_by (order_desc ''created_at'' ''id'') (pending_question_rows st corpus_key))"

definition pending_embedding_count :: "store \<Rightarrow> string \<Rightarrow> int" where
  "pending_embedding_count st corpus_key =
     int (length (pending_note_rows st corpus_key)) +
     int (length (pending_question_rows st corpus_key))"

definition upsert_question_embedding_if_current ::
  "store \<Rightarrow> string \<Rightarrow> string \<Rightarrow> string \<Rightarrow> string option \<Rightarrow> int \<Rightarrow> bool \<times> store" where
  "upsert_question_embedding_if_current st question_id corpus_key token sealed updated_at =
     (if question_text_token st question_id \<noteq> Some token then (False, st)
      else (True, st\<lparr>question_embeddings := put_embedding
              \<lparr>emb_owner = question_id, emb_model_version = Some corpus_key,
               emb_content_token = Some token, emb_vector = sealed,
               emb_updated_at = updated_at\<rparr> (question_embeddings st)\<rparr>))"

definition live_question_embeddings :: "store \<Rightarrow> string \<Rightarrow> (string \<times> string) list" where
  "live_question_embeddings st corpus_key =
     concat (map (\<lambda>e. case emb_vector e of
          None \<Rightarrow> []
        | Some v \<Rightarrow> if emb_model_version e = Some corpus_key
                    then map (\<lambda>_. (emb_owner e, v))
                      (filter (\<lambda>r. r ''id'' = SText (emb_owner e) \<and> is_live r)
                        (tables st ''questions''))
                    else []) (question_embeddings st))"

subsection \<open>Facts\<close>

text \<open>The queue's status clause is the prompt machine's notion of an active question.\<close>

lemma status_not_closed_is_active:
  "sql_typed CText (r ''status'') \<Longrightarrow>
   status_not_closed r \<longleftrightarrow>
     is_active (case r ''status'' of SText s \<Rightarrow> Some s | _ \<Rightarrow> None)"
  by (auto simp: status_not_closed_def is_active_def split: sqlval.splits)

lemma note_content_token_Some:
  assumes "note_content_token st i = Some tok"
  obtains r where "r \<in> set (tables st ''notes'')" "r ''id'' = SText i" "is_live r"
    "content_token_sql r = tok"
  using assms by (auto simp: note_content_token_def dest: find_SomeD)

lemma find_put_embedding:
  "find (\<lambda>e'. v = SText (emb_owner e')) (put_embedding e es) =
   (if v = SText (emb_owner e) then Some e else find (\<lambda>e'. v = SText (emb_owner e')) es)"
proof (cases "v = SText (emb_owner e)")
  case True
  then show ?thesis
    by (simp add: put_embedding_def find_append find_filter_none)
next
  case False
  have "find (\<lambda>e'. v = SText (emb_owner e')) (filter (\<lambda>e'. emb_owner e' \<noteq> emb_owner e) es)
      = find (\<lambda>e'. v = SText (emb_owner e')) es"
    using False by (intro find_filter_agree) auto
  with False show ?thesis
    by (simp add: put_embedding_def find_append split: option.splits)
qed

end
