(* ===== verification/Store_Invariant.thy ===== *)
theory Store_Invariant
  imports Embedding_Store
begin

text \<open>
  The invariant of the store and the state machine of its write operations: every store
  reachable from an empty one by the operations of \<open>src/src/store.rs\<close> has typed rows, unique
  primary keys, strictly increasing outbox ids of synced tables, at most one vector per owner, and no vector of a
  tombstoned note or question.
\<close>

subsection \<open>The invariant\<close>

definition pk_unique :: "table_desc \<Rightarrow> sqlrow list \<Rightarrow> bool" where
  "pk_unique t rs \<longleftrightarrow> distinct (filter (\<lambda>v. v \<noteq> SNull) (map (\<lambda>r. r (pk_of t)) rs))"

definition tables_unique :: "store \<Rightarrow> bool" where
  "tables_unique st \<longleftrightarrow> (\<forall>t \<in> set descriptor_tables. pk_unique t (tables st (ts_name t)))"

definition outbox_ok :: "store \<Rightarrow> bool" where
  "outbox_ok st \<longleftrightarrow> sorted_wrt (<) (map ob_id (outbox st)) \<and>
     (\<forall>o' \<in> set (outbox st). ob_id o' \<le> outbox_seq st \<and> ob_table o' \<in> set synced_table_names)"

definition no_tombstone_vector :: "sqlrow list \<Rightarrow> emb_row list \<Rightarrow> bool" where
  "no_tombstone_vector rs es \<longleftrightarrow>
     (\<forall>e \<in> set es. \<forall>r \<in> set rs. r ''id'' = SText (emb_owner e) \<longrightarrow> r ''deleted'' \<noteq> SInteger 1)"

definition vectors_ok :: "store \<Rightarrow> bool" where
  "vectors_ok st \<longleftrightarrow>
     distinct (map emb_owner (embeddings st)) \<and>
     distinct (map emb_owner (question_embeddings st)) \<and>
     no_tombstone_vector (tables st ''notes'') (embeddings st) \<and>
     no_tombstone_vector (tables st ''questions'') (question_embeddings st)"

definition store_inv :: "store \<Rightarrow> bool" where
  "store_inv st \<longleftrightarrow> rows_typed st \<and> tables_unique st \<and> outbox_ok st \<and> vectors_ok st"

text \<open>One write operation of the store.\<close>

inductive store_op :: "serde \<Rightarrow> store \<Rightarrow> store \<Rightarrow> bool" for J where
  op_apply: "apply_row J st table r = Inr st' \<Longrightarrow> store_op J st st'"
| op_rebase: "apply_row_rebasing_outbox J st table r upd = Inr (st', dropped) \<Longrightarrow> store_op J st st'"
| op_stage: "stage_local_write J st table rid r now = Inr st' \<Longrightarrow> store_op J st st'"
| op_stage_batch: "stage_local_writes J st ws now = Inr st' \<Longrightarrow> store_op J st st'"
| op_stage_live:
    "stage_local_write_existing_live J st table rid r ws now = Inr st' \<Longrightarrow> store_op J st st'"
| op_resurrect: "stage_local_write_resurrecting J st table rid r now = Inr st' \<Longrightarrow> store_op J st st'"
| op_import: "stage_import_batch J st iws now = Inr st' \<Longrightarrow> store_op J st st'"
| op_clear: "store_op J st (clear_outbox st ids)"
| op_meta_set: "store_op J st (meta_set st k v)"
| op_meta_delete: "store_op J st (meta_delete st k)"
| op_cursor: "store_op J st (set_seq_cursor st table seq)"
| op_receipt: "store_op J st (mark_pull_complete st table)"
| op_fill: "store_op J st (fill_null_book_columns st i r)"
| op_vector: "store_op J st (snd (upsert_embedding_if_current st i key tok sealed now))"
| op_question_vector:
    "store_op J st (snd (upsert_question_embedding_if_current st i key tok sealed now))"
| op_drop_vector: "store_op J st (delete_embedding st i)"
| op_drop_question_vector: "store_op J st (delete_question_embedding st i)"
| op_invalidate: "store_op J st (snd (delete_embeddings_not_matching st key))"
| op_sweep: "store_op J st (snd (sweep_orphan_embeddings st))"

inductive store_reachable :: "serde \<Rightarrow> store \<Rightarrow> bool" for J where
  reach_empty: "store_reachable J empty_store"
| reach_step: "store_reachable J st \<Longrightarrow> store_op J st st' \<Longrightarrow> store_reachable J st'"

subsection \<open>Preservation, operation by operation\<close>

lemma store_inv_empty: "store_inv empty_store"
  by (simp add: store_inv_def empty_store_def rows_typed_def tables_unique_def pk_unique_def
      outbox_ok_def vectors_ok_def no_tombstone_vector_def)

lemma store_inv_tables:
  "list_all (\<lambda>t. list_all (row_typed t) (T (ts_name t)) \<and> pk_unique t (T (ts_name t))) descriptor_tables \<Longrightarrow>
   store_inv (empty_store\<lparr>tables := T\<rparr>)"
  by (auto simp: store_inv_def rows_typed_def tables_unique_def outbox_ok_def vectors_ok_def
      no_tombstone_vector_def list_all_iff empty_store_def)

lemma table_schema_descriptor: "t \<in> set descriptor_tables \<Longrightarrow> table_schema (ts_name t) = Some t"
proof -
  have "list_all (\<lambda>t. table_schema (ts_name t) = Some t) descriptor_tables"
    by (simp add: table_schema_def schema_defs)
  then show "t \<in> set descriptor_tables \<Longrightarrow> ?thesis" by (simp add: list_all_iff)
qed

lemma pk_unique_replace:
  assumes "desc_ok t" "pk_unique t rs"
  shows "pk_unique t (filter (\<lambda>r'. \<not> conflicts t r r') rs @ [r])"
proof -
  have "distinct (filter (\<lambda>v. v \<noteq> SNull) (map (\<lambda>r. r (pk_of t)) (filter Q rs)))" for Q
    using assms(2) unfolding pk_unique_def by (induction rs) auto
  then show ?thesis
    using conflicts_pk [OF assms(1)] by (auto simp: pk_unique_def)
qed

lemma tombstone_truthy:
  "json_to_sql J v CBool = SInteger 1 \<Longrightarrow> truthy v"
  by (auto simp: json_to_sql_def split: option.splits json.splits if_splits)

lemma sql_of_row_deleted:
  "desc_ok t \<Longrightarrow> sql_of_row J t r ''deleted'' = json_to_sql J (fmlookup r ''deleted'') CBool"
  by (simp add: sql_of_row_def desc_ok_def)

lemma no_tombstone_vector_apply:
  assumes t: "desc_ok t" "pk_of t = ''id''" and "no_tombstone_vector rs es"
  shows "no_tombstone_vector (filter Q rs @ [sql_of_row J t r])
    (if truthy (fmlookup r ''deleted'')
     then filter (\<lambda>e. Some (emb_owner e) \<noteq> row_str r ''id'') es else es)"
proof -
  have "sql_of_row J t r ''id'' = SText i \<Longrightarrow> row_str r ''id'' = Some i" for i
    using sql_of_row_pk [OF t(1), of J r] t(2) by (auto split: option.splits)
  moreover have "sql_of_row J t r ''deleted'' = SInteger 1 \<Longrightarrow> truthy (fmlookup r ''deleted'')"
    using sql_of_row_deleted [OF t(1), of J r] tombstone_truthy by simp
  ultimately show ?thesis
    using assms(3) by (auto simp: no_tombstone_vector_def)
qed

lemma no_tombstone_vector_mono:
  "no_tombstone_vector rs es \<Longrightarrow> set es' \<subseteq> set es \<Longrightarrow> no_tombstone_vector rs es'"
  by (auto simp: no_tombstone_vector_def)

lemma store_inv_apply:
  assumes inv: "store_inv st" and ap: "apply_row J st table r = Inr st'"
  shows "store_inv st'"
proof -
  obtain t where t: "table_schema table = Some t" using apply_row_schema [OF ap] by blast
  note ok = table_schema_Some(2) [OF t] and name = table_schema_Some(1) [OF t]
  note tabs = apply_row_tables [OF ap t]
  have eq: "t' = t" if "t' \<in> set descriptor_tables" "ts_name t' = table" for t'
    using table_schema_descriptor [OF that(1)] that(2) t by simp
  have "rows_typed st'"
    using inv sql_of_row_typed [OF ok]
    by (auto simp: store_inv_def rows_typed_def tabs dest: eq)
  moreover have "tables_unique st'"
  proof -
    have "pk_unique t (tables st table)"
      using inv table_schema_in [OF t] name by (auto simp: store_inv_def tables_unique_def)
    then show ?thesis
      using inv pk_unique_replace [OF ok]
      by (auto simp: store_inv_def tables_unique_def tabs dest: eq)
  qed
  moreover have "outbox_ok st'"
    using inv by (simp add: store_inv_def outbox_ok_def apply_row_frame [OF ap])
  moreover have "vectors_ok st'"
  proof -
    have n: "table = ''notes'' \<Longrightarrow> pk_of t = ''id''" "table = ''questions'' \<Longrightarrow> pk_of t = ''id''"
      using t notes_schema questions_schema pk_notes_questions by (metis option.inject)+
    have nt: "no_tombstone_vector (tables st' ''notes'') (embeddings st')"
    proof (cases "table = ''notes''")
      case True
      with inv show ?thesis
        by (simp add: store_inv_def vectors_ok_def tabs apply_row_embeddings [OF ap]
            no_tombstone_vector_apply [OF ok n(1) [OF True]] cong: if_cong)
    next
      case False
      with inv show ?thesis
        by (simp add: store_inv_def vectors_ok_def tabs apply_row_embeddings [OF ap])
    qed
    moreover have nq: "no_tombstone_vector (tables st' ''questions'') (question_embeddings st')"
    proof (cases "table = ''questions''")
      case True
      with inv show ?thesis
        by (simp add: store_inv_def vectors_ok_def tabs apply_row_question_embeddings [OF ap]
            no_tombstone_vector_apply [OF ok n(2) [OF True]] cong: if_cong)
    next
      case False
      with inv show ?thesis
        by (simp add: store_inv_def vectors_ok_def tabs apply_row_question_embeddings [OF ap])
    qed
    ultimately show ?thesis
      using inv by (simp add: vectors_ok_def store_inv_def apply_row_embeddings [OF ap]
          apply_row_question_embeddings [OF ap] distinct_map_filter)
  qed
  ultimately show ?thesis by (simp add: store_inv_def)
qed

lemma store_inv_meta [simp]: "store_inv (st\<lparr>meta := m\<rparr>) = store_inv st"
  by (simp add: store_inv_def rows_typed_def tables_unique_def outbox_ok_def vectors_ok_def)

lemma outbox_ok_filter: "outbox_ok st \<Longrightarrow> outbox_ok (st\<lparr>outbox := filter P (outbox st)\<rparr>)"
  by (auto simp: outbox_ok_def sorted_wrt_map sorted_wrt_filter)

lemma store_inv_outbox_filter: "store_inv st \<Longrightarrow> store_inv (st\<lparr>outbox := filter P (outbox st)\<rparr>)"
  using outbox_ok_filter
  by (simp add: store_inv_def rows_typed_def tables_unique_def vectors_ok_def)

lemma store_inv_enqueue:
  "store_inv st \<Longrightarrow> table \<in> set synced_table_names \<Longrightarrow> store_inv (enqueue st table rid p now)"
  by (fastforce simp: store_inv_def rows_typed_def tables_unique_def vectors_ok_def outbox_ok_def
      enqueue_def sorted_wrt_append)

lemma apply_row_synced: "apply_row J st table r = Inr st' \<Longrightarrow> table \<in> set synced_table_names"
proof -
  assume "apply_row J st table r = Inr st'"
  then obtain t where "table_schema table = Some t" using apply_row_schema by blast
  then have "t \<in> set descriptor_tables" "ts_name t = table"
    by (rule table_schema_in, rule table_schema_Some)
  then show ?thesis by (auto simp: synced_table_names_def)
qed

lemma store_inv_drop_pending:
  "store_inv st \<Longrightarrow> store_inv (snd (drop_pending_deletes_inner J st table rid))"
  by (simp add: drop_pending_deletes_inner_def store_inv_outbox_filter)

lemma store_inv_stage_inner:
  "store_inv st \<Longrightarrow> stage_write_inner J st table rid p now = Inr st' \<Longrightarrow> store_inv st'"
  by (auto elim!: stage_write_inner_Inr intro: store_inv_enqueue store_inv_apply apply_row_synced)

lemma store_inv_batch:
  "store_inv st \<Longrightarrow> stage_batch J now ws st = Inr st' \<Longrightarrow> store_inv st'"
proof (induction J now ws st rule: stage_batch.induct)
  case (2 J now w ws st)
  from 2(3) obtain st1 where st1: "stage_batch_entry J now w st = Inr st1"
    and rest: "stage_batch J now ws st1 = Inr st'"
    by (auto split: sum.splits)
  have "store_inv st1"
    using st1 2(2) store_inv_drop_pending [OF 2(2)]
    by (auto simp: stage_batch_entry_def Let_def split: prod.splits if_splits
        intro: store_inv_stage_inner)
  from 2(1) [OF st1 this rest] show ?case .
qed simp

lemma store_inv_import:
  "store_inv st \<Longrightarrow> stage_import_batch J st ws now = Inr st' \<Longrightarrow> store_inv st'"
proof (induction J st ws now rule: stage_import_batch.induct)
  case (2 J st w ws now)
  from 2(3) obtain st1 where ap: "apply_row J
      (snd (drop_pending_deletes_inner J st (iw_table w) (iw_record_id w)))
      (iw_table w) (iw_row w) = Inr st1"
    and rest: "stage_import_batch J (enqueue st1 (iw_table w) (iw_record_id w)
      (to_str J (JObject (iw_row w))) now) ws now = Inr st'"
    by (auto split: sum.splits)
  have "store_inv st1"
    using store_inv_apply [OF store_inv_drop_pending [OF 2(2)] ap] .
  from 2(1) [OF ap store_inv_enqueue [OF this apply_row_synced [OF ap]] rest] show ?case .
qed simp

lemma store_inv_rebase:
  "store_inv st \<Longrightarrow> apply_row_rebasing_outbox J st table r upd = Inr (st', dropped) \<Longrightarrow> store_inv st'"
  by (auto simp: apply_row_rebasing_outbox_def Let_def split: sum.splits
      intro!: store_inv_outbox_filter intro: store_inv_apply)

lemma books_schema: "table_schema ''books'' = Some (descriptor_tables ! 0)"
  by (simp add: table_schema_def schema_defs)

lemma books_pk: "pk_of (descriptor_tables ! 0) = ''id''"
  by (simp add: schema_defs pk_of_def)

lemma books_unique:
  "t \<in> set descriptor_tables \<Longrightarrow> ts_name t = ''books'' \<longleftrightarrow> t = descriptor_tables ! 0"
  using table_schema_descriptor [of t] books_schema table_schema_Some(1) [OF books_schema] by auto

lemma fillable_text:
  "col \<in> set BOOK_FILLABLE_COLUMNS \<Longrightarrow> (col, ty) \<in> set (ts_columns (descriptor_tables ! 0)) \<Longrightarrow> ty = CText"
proof -
  have "list_all (\<lambda>(c, ty). c \<in> set BOOK_FILLABLE_COLUMNS \<longrightarrow> ty = CText)
      (ts_columns (descriptor_tables ! 0))"
    by (simp add: schema_defs BOOK_FILLABLE_COLUMNS_def)
  then show "col \<in> set BOOK_FILLABLE_COLUMNS \<Longrightarrow>
      (col, ty) \<in> set (ts_columns (descriptor_tables ! 0)) \<Longrightarrow> ty = CText"
    by (auto simp: list_all_iff)
qed

lemma fill_column_typed:
  assumes "row_typed (descriptor_tables ! 0) r" "col \<in> set BOOK_FILLABLE_COLUMNS"
  shows "row_typed (descriptor_tables ! 0) (fill_column i col v r)"
  using assms(1) fillable_text [OF assms(2)] by (auto simp: row_typed_def fill_column_def)

lemma fill_column_pk: "col \<in> set BOOK_FILLABLE_COLUMNS \<Longrightarrow> fill_column i col v r ''id'' = r ''id''"
  by (auto simp: fill_column_def BOOK_FILLABLE_COLUMNS_def)

text \<open>Filling one column of a book keeps the invariant.\<close>

lemma store_inv_fill_one:
  assumes inv: "store_inv st" and col: "col \<in> set BOOK_FILLABLE_COLUMNS"
  shows "store_inv (st\<lparr>tables := (tables st)(''books'' :=
    map (fill_column i col v) (tables st ''books''))\<rparr>)"
proof -
  define b where "b = descriptor_tables ! 0"
  note u = books_unique [folded b_def]
  have b: "b \<in> set descriptor_tables" "ts_name b = ''books''"
    using table_schema_in [OF books_schema] table_schema_Some(1) [OF books_schema]
    by (simp_all add: b_def)
  have "pk_unique b (map (fill_column i col v) rs) = pk_unique b rs" for rs
    by (simp add: pk_unique_def b_def books_pk comp_def fill_column_pk [OF col])
  moreover have "pk_unique b (tables st ''books'')" "\<forall>r \<in> set (tables st ''books''). row_typed b r"
    using inv b by (auto simp: store_inv_def tables_unique_def rows_typed_def)
  ultimately show ?thesis
    using inv fill_column_typed [folded b_def, OF _ col]
    by (auto simp: store_inv_def rows_typed_def tables_unique_def outbox_ok_def vectors_ok_def u)
qed

lemma store_inv_fill: "store_inv st \<Longrightarrow> store_inv (fill_null_book_columns st i r)"
proof -
  have "store_inv st \<Longrightarrow> set cols \<subseteq> set BOOK_FILLABLE_COLUMNS \<Longrightarrow>
     store_inv (fold (\<lambda>col s. case row_str r col of None \<Rightarrow> s
             | Some v \<Rightarrow> s\<lparr>tables := (tables s)(''books'' :=
                 map (fill_column i col v) (tables s ''books''))\<rparr>) cols st)" for cols
    by (induction cols arbitrary: st) (auto split: option.splits intro: store_inv_fill_one)
  then show "store_inv st \<Longrightarrow> ?thesis" by (simp add: fill_null_book_columns_def)
qed

lemma distinct_put_embedding:
  "distinct (map emb_owner es) \<Longrightarrow> distinct (map emb_owner (put_embedding e es))"
  by (auto simp: put_embedding_def distinct_map_filter)

text \<open>A vector is only put beside a live row, and the key of that row is unique.\<close>

lemma pk_unique_at_most_one:
  assumes "pk_unique t rs" "r \<in> set rs" "r' \<in> set rs" "r (pk_of t) = SText i" "r' (pk_of t) = SText i"
  shows "r = r'"
proof (rule ccontr)
  assume "r \<noteq> r'"
  with assms(2,3) obtain xs ys where rs: "rs = xs @ r # ys" and "r' \<in> set xs \<or> r' \<in> set ys"
    by (metis Un_iff set_append set_ConsD split_list)
  then obtain us vs ws where "rs = us @ r # vs @ r' # ws \<or> rs = us @ r' # vs @ r # ws"
    by (metis append.assoc append_Cons split_list)
  with assms(1,4,5) show False by (auto simp: pk_unique_def)
qed

lemma no_tombstone_vector_put:
  assumes "no_tombstone_vector rs es" "pk_unique t rs" "pk_of t = ''id''"
    "r \<in> set rs" "r ''id'' = SText (emb_owner e)" "is_live r"
  shows "no_tombstone_vector rs (put_embedding e es)"
proof -
  have "r' = r" if "r' \<in> set rs" "r' ''id'' = SText (emb_owner e)" for r'
    using pk_unique_at_most_one [OF assms(2) that(1) assms(4)] that(2) assms(3,5) by simp
  with assms(1,6) show ?thesis
    by (auto simp: no_tombstone_vector_def put_embedding_def is_live_def)
qed

lemma store_inv_pk:
  assumes "store_inv st"
  shows "pk_unique (descriptor_tables ! 1) (tables st ''notes'')"
    "pk_unique (descriptor_tables ! 8) (tables st ''questions'')"
  using assms table_schema_in [OF notes_schema] table_schema_in [OF questions_schema]
    pk_notes_questions(3,4)
  unfolding store_inv_def tables_unique_def by metis+

lemma store_inv_embeddings:
  assumes "store_inv st" "distinct (map emb_owner es)" "no_tombstone_vector (tables st ''notes'') es"
  shows "store_inv (st\<lparr>embeddings := es\<rparr>)"
  using assms by (simp add: store_inv_def rows_typed_def tables_unique_def outbox_ok_def vectors_ok_def)

lemma store_inv_question_embeddings:
  assumes "store_inv st" "distinct (map emb_owner es)"
    "no_tombstone_vector (tables st ''questions'') es"
  shows "store_inv (st\<lparr>question_embeddings := es\<rparr>)"
  using assms by (simp add: store_inv_def rows_typed_def tables_unique_def outbox_ok_def vectors_ok_def)

lemma store_inv_filter_vectors:
  assumes "store_inv st"
  shows "store_inv (st\<lparr>embeddings := filter P (embeddings st)\<rparr>)"
    "store_inv (st\<lparr>question_embeddings := filter P (question_embeddings st)\<rparr>)"
  using assms no_tombstone_vector_mono [OF _ filter_is_subset]
  by (simp_all add: store_inv_embeddings store_inv_question_embeddings distinct_map_filter
      store_inv_def [of st] vectors_ok_def [of st])

lemma store_inv_upsert:
  assumes inv: "store_inv st"
  shows "store_inv (snd (upsert_embedding_if_current st i key tok sealed now))"
proof (cases "note_content_token st i = Some tok")
  case True
  then obtain r where r: "r \<in> set (tables st ''notes'')" "r ''id'' = SText i" "is_live r"
    by (rule note_content_token_Some)
  with True inv show ?thesis
    by (auto simp: upsert_embedding_if_current_def store_inv_def [of st] vectors_ok_def [of st]
        intro!: store_inv_embeddings distinct_put_embedding
          no_tombstone_vector_put [OF _ store_inv_pk(1) [OF inv] pk_notes_questions(1)])
qed (use inv in \<open>simp add: upsert_embedding_if_current_def\<close>)

lemma store_inv_upsert_question:
  assumes inv: "store_inv st"
  shows "store_inv (snd (upsert_question_embedding_if_current st i key tok sealed now))"
proof (cases "question_text_token st i = Some tok")
  case True
  then obtain r where r: "r \<in> set (tables st ''questions'')" "r ''id'' = SText i" "is_live r"
    by (auto simp: question_text_token_def dest: find_SomeD split: option.splits)
  with True inv show ?thesis
    by (auto simp: upsert_question_embedding_if_current_def store_inv_def [of st] vectors_ok_def [of st]
        intro!: store_inv_question_embeddings distinct_put_embedding
          no_tombstone_vector_put [OF _ store_inv_pk(2) [OF inv] pk_notes_questions(2)])
qed (use inv in \<open>simp add: upsert_question_embedding_if_current_def\<close>)

lemma store_inv_both_vectors:
  assumes "store_inv st"
  shows "store_inv (st\<lparr>embeddings := filter P (embeddings st),
    question_embeddings := filter Q (question_embeddings st)\<rparr>)"
  using store_inv_filter_vectors(2) [OF store_inv_filter_vectors(1) [OF assms]] by simp

lemma store_inv_existing_live:
  assumes "store_inv st" "stage_local_write_existing_live J st table rid r ws now = Inr st'"
  shows "store_inv st'"
  using assms
  by (auto simp: stage_local_write_existing_live_def
      intro: store_inv_batch store_inv_stage_inner split: sum.splits option.splits if_splits)

lemma store_inv_resurrecting:
  assumes "store_inv st" "stage_local_write_resurrecting J st table rid r now = Inr st'"
  shows "store_inv st'"
  using assms store_inv_stage_inner [OF store_inv_drop_pending]
  by (simp add: stage_local_write_resurrecting_def)

lemma store_inv_writes:
  assumes "store_inv st" "stage_local_writes J st ws now = Inr st'"
  shows "store_inv st'"
  using assms by (auto simp: stage_local_writes_def intro: store_inv_batch split: if_splits)

lemmas store_inv_pres = store_inv_apply store_inv_rebase store_inv_stage_inner store_inv_writes
  store_inv_existing_live store_inv_resurrecting store_inv_import

theorem store_op_inv: "store_op J st st' \<Longrightarrow> store_inv st \<Longrightarrow> store_inv st'"
proof (induction rule: store_op.induct)
  case (op_stage st table rid r now st')
  then show ?case using store_inv_stage_inner by (simp add: stage_local_write_def)
qed (erule (1) store_inv_pres |
    simp only: clear_outbox_def delete_embedding_def delete_question_embedding_def
      delete_embeddings_not_matching_def sweep_orphan_embeddings_def Let_def meta_set_def
      meta_delete_def set_seq_cursor_def mark_pull_complete_def store_inv_meta snd_conv
      store_inv_fill store_inv_upsert store_inv_upsert_question store_inv_filter_vectors
      store_inv_both_vectors store_inv_outbox_filter)+

text \<open>
  Every store that the write operations reach from an empty one has rows of the column types,
  unique primary keys, strictly increasing outbox ids below the counter and of synced tables, at
  most one vector per owner, and no sealed vector beside a tombstoned note or question.
\<close>

lemma reachable_store_inv: "store_reachable J st \<Longrightarrow> store_inv st"
  by (induction rule: store_reachable.induct) (auto intro: store_inv_empty store_op_inv)

subsection \<open>The embed queue\<close>

lemma is_pending_after_upsert:
  assumes "note_content_token st i = Some tok"
    and "upsert_embedding_if_current st i key tok sealed now = (True, st')"
  shows "is_pending st' key r \<longleftrightarrow>
    (if r ''id'' = SText i then is_live r \<and> content_token_sql r \<noteq> tok else is_pending st key r)"
proof -
  have "embeddings st' = put_embedding
      \<lparr>emb_owner = i, emb_model_version = Some key, emb_content_token = Some tok,
       emb_vector = sealed, emb_updated_at = now\<rparr> (embeddings st)"
    using assms by (auto simp: upsert_embedding_if_current_def)
  then show ?thesis by (auto simp: is_pending_def find_put_embedding)
qed

text \<open>
  In a store with the invariant, a vector written under the token the note has
  now takes exactly that note off the embed queue of its corpus and leaves every other pending
  note on it; a vector sealed under any other token is refused and changes nothing.
\<close>

theorem upsert_drains_queue:
  assumes inv: "store_inv st"
  shows "case upsert_embedding_if_current st i key tok sealed now of (ok, st') \<Rightarrow>
     ok = (note_content_token st i = Some tok) \<and>
     (\<not> ok \<or> pending_note_rows st' key =
        filter (\<lambda>r. r ''id'' \<noteq> SText i) (pending_note_rows st key)) \<and>
     (ok \<or> st' = st)"
proof (cases "note_content_token st i = Some tok")
  case True
  then obtain r0 where r0: "r0 \<in> set (tables st ''notes'')" "r0 ''id'' = SText i" "is_live r0"
    "content_token_sql r0 = tok"
    by (rule note_content_token_Some)
  obtain st' where up: "upsert_embedding_if_current st i key tok sealed now = (True, st')"
    using True by (simp add: upsert_embedding_if_current_def)
  then have tabs: "tables st' = tables st"
    by (auto simp: upsert_embedding_if_current_def split: if_splits)
  have one: "r = r0" if "r \<in> set (tables st ''notes'')" "r ''id'' = SText i" for r
    using pk_unique_at_most_one [OF store_inv_pk(1) [OF inv] that(1) r0(1)] that(2) r0(2)
      pk_notes_questions(1) by auto
  have "is_pending st' key r \<longleftrightarrow> r ''id'' \<noteq> SText i \<and> is_pending st key r"
    if "r \<in> set (tables st ''notes'')" for r
    using is_pending_after_upsert [OF True up, of r] one [OF that] r0(4) by auto
  then have "pending_note_rows st' key = filter (\<lambda>r. r ''id'' \<noteq> SText i) (pending_note_rows st key)"
    by (auto simp: pending_note_rows_def tabs intro!: filter_cong)
  with True up show ?thesis by simp
qed (simp add: upsert_embedding_if_current_def)

definition one_note_store :: store where
  "one_note_store = empty_store\<lparr>tables := (\<lambda>_. [])(''notes'' :=
     [(\<lambda>_. SNull)(''id'' := SText ''n'', ''updated_at'' := SInteger 5, ''deleted'' := SInteger 0)])\<rparr>"

lemma one_note_store_inv: "store_inv one_note_store"
  unfolding one_note_store_def by (rule store_inv_tables)
    (simp add: schema_defs pk_unique_def row_typed_def is_i64_def i64_min_def i64_max_def)

theorem upsert_drains_queue_witness:
  "length (pending_note_rows one_note_store ''m'') = 1 \<and>
   pending_note_rows (snd (upsert_embedding_if_current one_note_store ''n'' ''m'' ''u:5'' None 9)) ''m'' = []"
proof -
  have one: "pending_note_rows one_note_store ''m'' = tables one_note_store ''notes''"
    by (simp add: pending_note_rows_def is_pending_def is_live_def one_note_store_def empty_store_def)
  have "i64_to_string 5 = ''5''" by code_simp
  then have "note_content_token one_note_store ''n'' = Some ''u:5''"
    by (simp add: note_content_token_def one_note_store_def is_live_def content_token_sql_def)
  with upsert_drains_queue [OF one_note_store_inv, of "''n''" "''u:5''" "''m''" None 9]
  have "pending_note_rows (snd (upsert_embedding_if_current one_note_store ''n'' ''m'' ''u:5'' None 9)) ''m''
      = filter (\<lambda>r. r ''id'' \<noteq> SText ''n'') (tables one_note_store ''notes'')"
    by (auto simp: case_prod_beta one)
  moreover have "filter (\<lambda>r. r ''id'' \<noteq> SText ''n'') (tables one_note_store ''notes'') = []"
    "length (tables one_note_store ''notes'') = 1"
    by (simp_all add: one_note_store_def)
  ultimately show ?thesis by (simp add: one)
qed

end
