(* ===== verification/Text_Slices.thy ===== *)
theory Text_Slices
  imports Braird_Prelude
begin

text \<open>
  The slicing of text that the HTTP client, the link normaliser, the content tag and the corpus
  key share: \<open>str::split\<close>, \<open>[..].join\<close>, \<open>trim_end_matches\<close>, \<open>replace\<close> of one byte,
  \<open>str::trim\<close>, and the round trips between splitting and joining.
\<close>

subsection \<open>Splitting and joining\<close>

text \<open>\<open>s.split(p).collect()\<close>: the fields between the separators, the empty ones too.\<close>

fun split_by :: "('a \<Rightarrow> bool) \<Rightarrow> 'a list \<Rightarrow> 'a list list" where
  "split_by P [] = [[]]"
| "split_by P (x # xs) =
     (if P x then [] # split_by P xs else (x # hd (split_by P xs)) # tl (split_by P xs))"

fun join :: "'a list \<Rightarrow> 'a list list \<Rightarrow> 'a list" where
  "join sep [] = []"
| "join sep [x] = x"
| "join sep (x # y # zs) = x @ sep @ join sep (y # zs)"

lemma split_by_nonempty [simp]: "split_by P xs \<noteq> []"
  by (cases xs) auto

lemma split_by_fields: "w \<in> set (split_by P xs) \<Longrightarrow> x \<in> set w \<Longrightarrow> \<not> P x \<and> x \<in> set xs"
proof (induction xs arbitrary: w)
  case (Cons a xs)
  then show ?case using hd_in_set [OF split_by_nonempty, of P xs] list.set_sel(2) [OF split_by_nonempty, of _ P xs]
    by (fastforce split: if_splits)
qed simp

lemma split_by_no_sep: "\<forall>x \<in> set w. \<not> P x \<Longrightarrow> split_by P w = [w]"
  by (induction w) simp_all

lemma split_by_append:
  "\<forall>x \<in> set w. \<not> P x \<Longrightarrow> P c \<Longrightarrow> split_by P (w @ c # xs) = w # split_by P xs"
  by (induction w) simp_all

lemma hd_split_by: "hd (split_by P xs) = takeWhile (\<lambda>x. \<not> P x) xs"
  by (induction xs) auto

lemma split_by_join:
  "ws \<noteq> [] \<Longrightarrow> \<forall>w \<in> set ws. c \<notin> set w \<Longrightarrow> split_by (\<lambda>x. x = c) (join [c] ws) = ws"
proof (induction "[c]" ws rule: join.induct)
  case (2 x)
  then show ?case by (auto intro: split_by_no_sep)
next
  case (3 x y zs)
  have "split_by (\<lambda>x. x = c) (x @ c # join [c] (y # zs)) = x # split_by (\<lambda>x. x = c) (join [c] (y # zs))"
    using 3(3) by (intro split_by_append) auto
  with 3 show ?case by simp
qed simp

lemma join_Cons: "zs \<noteq> [] \<Longrightarrow> join sep (x # zs) = x @ sep @ join sep zs"
  by (cases zs) simp_all

lemma set_join: "set (join sep ws) \<subseteq> set sep \<union> (\<Union>w \<in> set ws. set w)"
  by (induction sep ws rule: join.induct) auto

lemma join_split_by: "join [c] (split_by (\<lambda>x. x = c) xs) = xs"
proof (induction xs)
  case (Cons x xs)
  obtain w ws where s: "split_by (\<lambda>x. x = c) xs = w # ws"
    by (cases "split_by (\<lambda>x. x = c) xs") auto
  with Cons show ?case by (cases ws) auto
qed simp

lemma join_empty_iff: "join [c] ws = [] \<longleftrightarrow> ws = [] \<or> ws = [[]]"
  by (induction "[c]" ws rule: join.induct) auto

subsection \<open>Trimming\<close>

text \<open>\<open>trim_end_matches(p)\<close>.\<close>

definition trim_end_by :: "('a \<Rightarrow> bool) \<Rightarrow> 'a list \<Rightarrow> 'a list" where
  "trim_end_by P xs = rev (dropWhile P (rev xs))"

definition trim_by :: "('a \<Rightarrow> bool) \<Rightarrow> 'a list \<Rightarrow> 'a list" where
  "trim_by P xs = trim_end_by P (dropWhile P xs)"

lemma trim_end_by_Nil [simp]: "trim_end_by P [] = []"
  by (simp add: trim_end_by_def)

lemma trim_end_by_snoc [simp]:
  "trim_end_by P (xs @ [x]) = (if P x then trim_end_by P xs else xs @ [x])"
  by (simp add: trim_end_by_def)

lemma set_trim_end_by: "set (trim_end_by P xs) \<subseteq> set xs"
  by (auto simp: trim_end_by_def dest: set_dropWhileD)

lemma trim_end_by_last: "trim_end_by P xs \<noteq> [] \<Longrightarrow> \<not> P (last (trim_end_by P xs))"
  by (induction xs rule: rev_induct) auto

lemma trim_end_by_id: "xs = [] \<or> \<not> P (last xs) \<Longrightarrow> trim_end_by P xs = xs"
  by (cases xs rule: rev_cases) auto

lemma trim_end_by_idem [simp]: "trim_end_by P (trim_end_by P xs) = trim_end_by P xs"
  using trim_end_by_last by (intro trim_end_by_id) blast

lemma trim_end_by_prefix: "\<exists>ys. xs = trim_end_by P xs @ ys \<and> (\<forall>y \<in> set ys. P y)"
proof -
  have "rev xs = takeWhile P (rev xs) @ dropWhile P (rev xs)" by simp
  then have "xs = trim_end_by P xs @ rev (takeWhile P (rev xs))"
    by (metis rev_append rev_rev_ident trim_end_by_def)
  then show ?thesis by (metis set_rev set_takeWhileD)
qed

lemma hd_trim_end_by: "trim_end_by P xs \<noteq> [] \<Longrightarrow> hd (trim_end_by P xs) = hd xs"
  using trim_end_by_prefix [of xs P] by (metis hd_append2)

lemma trim_by_hd: "trim_by P xs \<noteq> [] \<Longrightarrow> \<not> P (hd (trim_by P xs))"
  unfolding trim_by_def
  using hd_trim_end_by [of P "dropWhile P xs"] hd_dropWhile [of P xs] trim_end_by_Nil [of P]
  by metis

lemma trim_by_last: "trim_by P xs \<noteq> [] \<Longrightarrow> \<not> P (last (trim_by P xs))"
  unfolding trim_by_def by (rule trim_end_by_last)

lemma set_trim_by: "set (trim_by P xs) \<subseteq> set xs"
  using set_trim_end_by [of P "dropWhile P xs"] by (auto simp: trim_by_def dest: set_dropWhileD)

subsection \<open>Whitespace of UTF-8 text\<close>

text \<open>The scalars with the Unicode property White_Space, as \<open>char::is_whitespace\<close> has them.\<close>

definition white_space :: "nat \<Rightarrow> bool" where
  "white_space c \<longleftrightarrow> 9 \<le> c \<and> c \<le> 13 \<or> c \<in> {32, 133, 160, 5760, 8232, 8233, 8239, 8287, 12288}
     \<or> 8192 \<le> c \<and> c \<le> 8202"

text \<open>The same characters as UTF-8 bytes, and \<open>str::trim\<close> on the bytes.\<close>

definition white_bytes :: "string list" where
  "white_bytes = map (\<lambda>n. [char_of n]) [9, 10, 11, 12, 13, 32 :: nat]
     @ map (map char_of) [[194, 133], [194, 160], [225, 154, 128 :: nat]]
     @ map (\<lambda>n. map char_of [226, 128, n]) ([128 ..< 139] @ [168, 169, 175 :: nat])
     @ map (map char_of) [[226, 129, 159], [227, 128, 128 :: nat]]"

function trim_start :: "string \<Rightarrow> string" where
  "trim_start s = (case find (\<lambda>w. take (length w) s = w) white_bytes of
       None \<Rightarrow> s | Some w \<Rightarrow> trim_start (drop (length w) s))"
  by pat_completeness auto
termination
proof (relation "measure length")
  fix s w
  assume "find (\<lambda>w. take (length w) s = w) white_bytes = Some w"
  then have w: "w \<in> set white_bytes" "take (length w) s = w" by (auto dest: find_SomeD)
  then have "w \<noteq> []" by (auto simp: white_bytes_def)
  with w(2) show "(drop (length w) s, s) \<in> measure length" by (cases s) auto
qed simp

declare trim_start.simps [simp del]

function trim_end :: "string \<Rightarrow> string" where
  "trim_end s = (case find (\<lambda>w. w = drop (length s - length w) s) white_bytes of
       None \<Rightarrow> s | Some w \<Rightarrow> trim_end (take (length s - length w) s))"
  by pat_completeness auto
termination
proof (relation "measure length")
  fix s w
  assume "find (\<lambda>w. w = drop (length s - length w) s) white_bytes = Some w"
  then have w: "w \<in> set white_bytes" "w = drop (length s - length w) s" by (auto dest: find_SomeD)
  then have "w \<noteq> []" by (auto simp: white_bytes_def)
  moreover from w(2) this have "s \<noteq> []" by auto
  ultimately show "(take (length s - length w) s, s) \<in> measure length" by (cases s; cases w) auto
qed simp

declare trim_end.simps [simp del]

definition str_trim :: "string \<Rightarrow> string" where
  "str_trim s = trim_end (trim_start s)"

text \<open>A text of visible ASCII, as a serialised URL is.\<close>

definition graphic :: "string \<Rightarrow> bool" where
  "graphic s \<longleftrightarrow> list_all (byte_in 33 126) s"

lemma white_bytes_dull: "w \<in> set white_bytes \<Longrightarrow> w \<noteq> [] \<and> \<not> byte_in 33 126 (hd w) \<and> \<not> byte_in 33 126 (last w)"
  by (auto simp: white_bytes_def byte_in_def)

lemma str_trim_graphic: "graphic s \<Longrightarrow> str_trim s = s"
proof -
  assume g: "graphic s"
  then have b: "byte_in 33 126 c" if "c \<in> set s" for c
    using that by (auto simp: graphic_def list_all_iff)
  have "take (length w) s \<noteq> w" if "w \<in> set white_bytes" for w
    using white_bytes_dull [OF that] b by (metis hd_in_set in_set_takeD)
  then have 1: "trim_start s = s"
    by (subst trim_start.simps) (auto split: option.splits dest!: find_SomeD)
  have "w \<noteq> drop (length s - length w) s" if "w \<in> set white_bytes" for w
    using white_bytes_dull [OF that] b by (metis hd_in_set in_set_dropD)
  then have "trim_end s = s"
    by (subst trim_end.simps) (auto split: option.splits dest!: find_SomeD)
  with 1 show ?thesis by (simp add: str_trim_def)
qed

subsection \<open>Replacing one byte\<close>

text \<open>\<open>s.replace(c, "\\c")\<close>: a backslash before every occurrence of a byte.\<close>

definition escape_char :: "char \<Rightarrow> string \<Rightarrow> string" where
  "escape_char c s = concat (map (\<lambda>x. if x = c then [CHR 0x5C, x] else [x]) s)"

end
