(* ===== verification/Content_Tag.thy ===== *)
theory Content_Tag
  imports Text_Slices Crypto
begin

text \<open>
  The content fingerprint: \<open>src/src/normalize.rs\<close>, \<open>src/src/content_tag.rs\<close> and
  \<open>Vault::content_tag\<close>.  The Unicode tables (NFKC, full lower-casing, general categories) and
  HMAC-SHA256 are code outside the repository: they are the fields of a \<open>text_lib\<close> record.  The
  normaliser works on scalar values; a string is its UTF-8 bytes, so both directions of the
  encoding are written out.
\<close>

subsection \<open>UTF-8\<close>

definition utf8_char :: "nat \<Rightarrow> string" where
  "utf8_char c =
     map char_of (if c < 128 then [c]
       else if c < 2048 then [192 + c div 64, 128 + c mod 64]
       else if c < 65536 then [224 + c div 4096, 128 + c div 64 mod 64, 128 + c mod 64]
       else [240 + c div 262144, 128 + c div 4096 mod 64, 128 + c div 64 mod 64, 128 + c mod 64])"

definition utf8_encode :: "nat list \<Rightarrow> string" where
  "utf8_encode cs = concat (map utf8_char cs)"

definition byte :: "char \<Rightarrow> nat" where "byte c = of_char c"

text \<open>The scalars of a string, by the length its lead bytes announce; a Rust \<open>str\<close> is always
  well-formed, so the tail of a truncated sequence does not occur.\<close>

fun utf8_decode :: "string \<Rightarrow> nat list" where
  "utf8_decode [] = []"
| "utf8_decode (a # s) =
     (if byte a < 128 then byte a # utf8_decode s
      else case s of
        [] \<Rightarrow> []
      | b # s1 \<Rightarrow>
          if byte a < 224 then ((byte a - 192) * 64 + (byte b - 128)) # utf8_decode s1
          else case s1 of
            [] \<Rightarrow> []
          | c # s2 \<Rightarrow>
              if byte a < 240
              then ((byte a - 224) * 4096 + (byte b - 128) * 64 + (byte c - 128)) # utf8_decode s2
              else case s2 of
                [] \<Rightarrow> []
              | d # s3 \<Rightarrow>
                  ((byte a - 240) * 262144 + (byte b - 128) * 4096 + (byte c - 128) * 64
                    + (byte d - 128)) # utf8_decode s3)"

declare utf8_decode.simps [simp del]

definition is_scalar :: "nat \<Rightarrow> bool" where
  "is_scalar c \<longleftrightarrow> c < 55296 \<or> 57344 \<le> c \<and> c < 1114112"

lemma byte_char_of [simp]: "n < 256 \<Longrightarrow> byte (char_of n) = n"
  by (simp add: byte_def)

lemma utf8_decode_lead:
  "byte a < 128 \<Longrightarrow> utf8_decode (a # s) = byte a # utf8_decode s"
  "128 \<le> byte a \<Longrightarrow> byte a < 224 \<Longrightarrow>
     utf8_decode (a # b # s) = ((byte a - 192) * 64 + (byte b - 128)) # utf8_decode s"
  "224 \<le> byte a \<Longrightarrow> byte a < 240 \<Longrightarrow>
     utf8_decode (a # b # c # s) =
       ((byte a - 224) * 4096 + (byte b - 128) * 64 + (byte c - 128)) # utf8_decode s"
  "240 \<le> byte a \<Longrightarrow>
     utf8_decode (a # b # c # d # s) =
       ((byte a - 240) * 262144 + (byte b - 128) * 4096 + (byte c - 128) * 64 + (byte d - 128))
         # utf8_decode s"
  by (subst utf8_decode.simps(2), simp)+

text \<open>The digits of a scalar in base 64.\<close>

lemma base64_digits:
  fixes c :: nat
  shows "c div 64 * 64 + c mod 64 = c"
    and "c div 4096 * 4096 + (c div 64 mod 64) * 64 + c mod 64 = c"
    and "c div 262144 * 262144 + (c div 4096 mod 64) * 4096 + (c div 64 mod 64) * 64 + c mod 64 = c"
proof -
  have s2: "c div 4096 * 64 + c div 64 mod 64 = c div 64"
    using div_mult2_eq [of c 64 64] div_mult_mod_eq [of "c div 64" 64] by simp
  have s3: "c div 262144 * 64 + c div 4096 mod 64 = c div 4096"
    using div_mult2_eq [of c 4096 64] div_mult_mod_eq [of "c div 4096" 64] by simp
  show s1: "c div 64 * 64 + c mod 64 = c" by simp
  show "c div 4096 * 4096 + (c div 64 mod 64) * 64 + c mod 64 = c"
    using s1 s2 by linarith
  show "c div 262144 * 262144 + (c div 4096 mod 64) * 4096 + (c div 64 mod 64) * 64 + c mod 64 = c"
    using s1 s2 s3 by linarith
qed

lemma utf8_decode_char:
  assumes "c < 1114112"
  shows "utf8_decode (utf8_char c @ s) = c # utf8_decode s"
proof -
  consider "c < 128" | "128 \<le> c" "c < 2048" | "2048 \<le> c" "c < 65536" | "65536 \<le> c" by linarith
  then show ?thesis
  proof cases
    case 1
    then show ?thesis by (simp add: utf8_char_def utf8_decode_lead)
  next
    case 2
    then have "c div 64 < 32" by simp
    with 2 show ?thesis by (simp add: utf8_char_def utf8_decode_lead(2) base64_digits(1))
  next
    case 3
    then have "c div 4096 < 16" by simp
    with 3 show ?thesis by (simp add: utf8_char_def utf8_decode_lead(3) base64_digits(2))
  next
    case 4
    have "c div 262144 < 5" using assms by simp
    with 4 show ?thesis by (simp add: utf8_char_def utf8_decode_lead(4) base64_digits(3))
  qed
qed

lemma utf8_decode_encode: "list_all is_scalar cs \<Longrightarrow> utf8_decode (utf8_encode cs) = cs"
  by (induction cs)
    (auto simp: utf8_encode_def utf8_decode_char is_scalar_def utf8_decode.simps(1))

lemma utf8_char_bytes:
  assumes "c < 1114112"
  shows "map byte (utf8_char c) = (if c < 128 then [c]
       else if c < 2048 then [192 + c div 64, 128 + c mod 64]
       else if c < 65536 then [224 + c div 4096, 128 + c div 64 mod 64, 128 + c mod 64]
       else [240 + c div 262144, 128 + c div 4096 mod 64, 128 + c div 64 mod 64, 128 + c mod 64])"
proof -
  have "c div 64 < 32" if "c < 2048" using that by simp
  moreover have "c div 4096 < 16" if "c < 65536" using that by simp
  moreover have "c div 262144 < 5" using assms by simp
  ultimately show ?thesis by (simp add: utf8_char_def)
qed

lemma utf8_char_NUL: "is_scalar c \<Longrightarrow> c \<noteq> 0 \<Longrightarrow> CHR 0x00 \<notin> set (utf8_char c)"
proof
  assume "is_scalar c" "c \<noteq> 0" "CHR 0x00 \<in> set (utf8_char c)"
  then have "byte CHR 0x00 \<in> set (map byte (utf8_char c))" by (simp only: set_map imageI)
  then show False using \<open>is_scalar c\<close> \<open>c \<noteq> 0\<close>
    by (subst (asm) utf8_char_bytes) (auto simp: is_scalar_def byte_def split: if_splits)
qed

lemma utf8_encode_NUL: "list_all is_scalar cs \<Longrightarrow> 0 \<notin> set cs \<Longrightarrow> CHR 0x00 \<notin> set (utf8_encode cs)"
  using utf8_char_NUL by (auto simp: utf8_encode_def list_all_iff)

subsection \<open>Normalisation\<close>

text \<open>The general categories the source tells apart.\<close>

datatype general_category =
    SpaceSeparator | LineSeparator | ParagraphSeparator | ConnectorPunctuation | DashPunctuation | ClosePunctuation
  | FinalPunctuation | InitialPunctuation | OtherPunctuation | OpenPunctuation | OtherCategory

record text_lib =
  nfkc :: "nat list \<Rightarrow> nat list"
  to_lowercase :: "nat list \<Rightarrow> nat list"
  get_general_category :: "nat \<Rightarrow> general_category"
  hmac_sha256 :: "string \<Rightarrow> string \<Rightarrow> string"

definition is_ecmascript_whitespace :: "text_lib \<Rightarrow> nat \<Rightarrow> bool" where
  "is_ecmascript_whitespace U c \<longleftrightarrow>
     c \<in> {9, 10, 11, 12, 13, 32, 160, 65279, 8232, 8233} \<or> get_general_category U c = SpaceSeparator"

definition is_punctuation :: "text_lib \<Rightarrow> nat \<Rightarrow> bool" where
  "is_punctuation U c \<longleftrightarrow> get_general_category U c \<in>
     {ConnectorPunctuation, DashPunctuation, ClosePunctuation, FinalPunctuation,
      InitialPunctuation, OtherPunctuation, OpenPunctuation}"

text \<open>\<open>char::is_control\<close>: the category Cc.\<close>

definition is_control :: "nat \<Rightarrow> bool" where
  "is_control c \<longleftrightarrow> c < 32 \<or> 127 \<le> c \<and> c < 160"

fun collapse_ws :: "text_lib \<Rightarrow> bool \<Rightarrow> nat list \<Rightarrow> nat list" where
  "collapse_ws U in_ws [] = []"
| "collapse_ws U in_ws (c # cs) =
     (if is_ecmascript_whitespace U c
      then (if in_ws then collapse_ws U True cs else 32 # collapse_ws U True cs)
      else c # collapse_ws U False cs)"

definition collapse_whitespace :: "text_lib \<Rightarrow> nat list \<Rightarrow> nat list" where
  "collapse_whitespace U cs = collapse_ws U False cs"

definition normalize_scalars :: "text_lib \<Rightarrow> nat list \<Rightarrow> nat list" where
  "normalize_scalars U cs =
     (if cs = [] then []
      else
        let lower = to_lowercase U (nfkc U cs);
            no_ctrl = filter (\<lambda>c. \<not> is_control c) (collapse_whitespace U lower);
            trimmed = trim_by white_space no_ctrl;
            stripped = trim_end_by (is_punctuation U) trimmed
        in trim_by white_space stripped)"

definition normalize_for_tag :: "text_lib \<Rightarrow> string \<Rightarrow> string" where
  "normalize_for_tag U s = utf8_encode (normalize_scalars U (utf8_decode s))"

subsection \<open>The tag\<close>

definition TAG_INFO :: string where "TAG_INFO = ''surfc-content-tag-v1''"

definition hkdf_expand :: "crypto \<Rightarrow> string \<Rightarrow> string \<Rightarrow> string \<Rightarrow> nat \<Rightarrow> string" where
  "hkdf_expand C salt ikm info len = hkdf_sha256 C (Some salt) ikm info len"

definition tag_message :: "text_lib \<Rightarrow> string \<Rightarrow> string option \<Rightarrow> string" where
  "tag_message U txt book_id = normalize_for_tag U txt @ CHR 0x00 # unwrap_or book_id []"

definition hex_digit :: "nat \<Rightarrow> char" where
  "hex_digit n = char_of (if n < 10 then 48 + n else 87 + n)"

definition hex_encode :: "string \<Rightarrow> string" where
  "hex_encode bs = concat (map (\<lambda>b. [hex_digit (byte b div 16), hex_digit (byte b mod 16)]) bs)"

definition content_tag :: "crypto \<Rightarrow> text_lib \<Rightarrow> string \<Rightarrow> string \<Rightarrow> string option \<Rightarrow> string" where
  "content_tag C U raw_mk txt book_id =
     hex_encode (hmac_sha256 U (hkdf_expand C (replicate 32 CHR 0x00) raw_mk TAG_INFO 64)
       (tag_message U txt book_id))"

definition vault_content_tag :: "crypto \<Rightarrow> text_lib \<Rightarrow> vault \<Rightarrow> string \<Rightarrow> string option \<Rightarrow> string" where
  "vault_content_tag C U v txt book_id = content_tag C U (vault_mk v) txt book_id"

subsection \<open>What the normal form guarantees\<close>

text \<open>The scalars the Unicode tables produce are scalar values.\<close>

definition scalars_ok :: "text_lib \<Rightarrow> bool" where
  "scalars_ok U \<longleftrightarrow> (\<forall>cs. list_all is_scalar (to_lowercase U cs))"

lemma collapse_ws_set: "set (collapse_ws U b cs) \<subseteq> insert 32 (set cs)"
  by (induction U b cs rule: collapse_ws.induct) auto

lemma collapse_ws_white:
  "c \<in> set (collapse_ws U b cs) \<Longrightarrow> is_ecmascript_whitespace U c \<Longrightarrow> c = 32"
  by (induction U b cs rule: collapse_ws.induct) (auto split: if_splits)

lemma normalize_scalars_set:
  "set (normalize_scalars U cs) \<subseteq>
     {c \<in> insert 32 (set (to_lowercase U (nfkc U cs))). \<not> is_control c \<and>
        (is_ecmascript_whitespace U c \<longrightarrow> c = 32)}"
proof (cases "cs = []")
  case False
  let ?l = "to_lowercase U (nfkc U cs)"
  have "set (normalize_scalars U cs) \<subseteq> set (filter (\<lambda>c. \<not> is_control c) (collapse_whitespace U ?l))"
    using False
    by (simp add: normalize_scalars_def Let_def del: set_filter)
      (meson order_trans set_trim_by set_trim_end_by)
  then show ?thesis
    using collapse_ws_set [of U False ?l] collapse_ws_white [of _ U False ?l]
    by (auto simp: collapse_whitespace_def)
qed (simp add: normalize_scalars_def)

lemma normalize_NUL:
  assumes "scalars_ok U"
  shows "CHR 0x00 \<notin> set (normalize_for_tag U s)"
proof -
  have "list_all is_scalar (normalize_scalars U (utf8_decode s))"
    using normalize_scalars_set [of U "utf8_decode s"] assms
    by (force simp: list_all_iff scalars_ok_def is_scalar_def)
  moreover have "0 \<notin> set (normalize_scalars U (utf8_decode s))"
    using normalize_scalars_set [of U "utf8_decode s"] by (auto simp: is_control_def)
  ultimately show ?thesis unfolding normalize_for_tag_def by (rule utf8_encode_NUL)
qed

text \<open>
  The text that is fingerprinted identifies the note's content and its book: two
  notes have the same message exactly when their normal forms and their book ids (none counting as
  the empty one) agree, so equal tags mean equal content up to a collision of the hash; the
  message never depends on anything else.
\<close>

theorem tag_message_exact:
  assumes "scalars_ok U"
  shows "tag_message U s b = tag_message U s' b' \<longleftrightarrow>
    normalize_for_tag U s = normalize_for_tag U s' \<and> unwrap_or b [] = unwrap_or b' []"
proof
  assume "tag_message U s b = tag_message U s' b'"
  then have "split_once CHR 0x00 (tag_message U s b) = split_once CHR 0x00 (tag_message U s' b')"
    by simp
  then show "normalize_for_tag U s = normalize_for_tag U s' \<and> unwrap_or b [] = unwrap_or b' []"
    using normalize_NUL [OF assms] by (simp add: tag_message_def)
qed (simp add: tag_message_def)

text \<open>ASCII lower-casing and the ASCII categories, for examples.\<close>

definition ascii_text :: text_lib where
  "ascii_text = \<lparr>nfkc = id,
     to_lowercase = (\<lambda>cs. map (\<lambda>c. if 65 \<le> c \<and> c \<le> 90 then c + 32 else if is_scalar c then c else 65533) cs),
     get_general_category = (\<lambda>c. if c = 32 then SpaceSeparator
       else if c \<in> {33, 44, 46, 58, 59, 63} then OtherPunctuation else OtherCategory),
     hmac_sha256 = (\<lambda>k m. m)\<rparr>"

lemmas ascii_eval = normalize_scalars_def collapse_whitespace_def is_ecmascript_whitespace_def
  is_control_def is_punctuation_def trim_by_def trim_end_by_def white_space_def ascii_text_def
  is_scalar_def Let_def

lemma ascii_text_ok: "scalars_ok ascii_text"
  by (auto simp: scalars_ok_def ascii_text_def list_all_iff is_scalar_def)

theorem tag_message_exact_witness:
  "tag_message ascii_text '' So it  goes. '' None = tag_message ascii_text ''so it goes'' (Some [])"
proof -
  have "normalize_for_tag ascii_text '' So it  goes. '' = normalize_for_tag ascii_text ''so it goes''"
    by (simp add: normalize_for_tag_def utf8_decode.simps byte_def ascii_eval)
  with tag_message_exact [OF ascii_text_ok] show ?thesis by simp
qed

text \<open>
  The normal form is clean: no control character, no whitespace but single-byte
  blanks in place of ECMAScript whitespace, and none at either end.
\<close>

theorem normalize_scalars_clean:
  fixes U cs
  defines "ns \<equiv> normalize_scalars U cs"
  shows "(\<forall>c \<in> set ns. \<not> is_control c \<and> (is_ecmascript_whitespace U c \<longrightarrow> c = 32)) \<and>
    (ns = [] \<or> \<not> white_space (hd ns) \<and> \<not> white_space (last ns))"
proof -
  have "ns = [] \<or> \<not> white_space (hd ns) \<and> \<not> white_space (last ns)"
    using trim_by_hd trim_by_last by (auto simp: ns_def normalize_scalars_def Let_def)
  then show ?thesis using normalize_scalars_set [of U cs] by (auto simp: ns_def)
qed

theorem normalize_scalars_clean_witness:
  "\<not> is_control (hd (normalize_scalars ascii_text [7, 32, 72, 105, 9, 33])) \<and>
   normalize_scalars ascii_text [7, 32, 72, 105, 9, 33] = [104, 105]"
proof -
  have e: "normalize_scalars ascii_text [7, 32, 72, 105, 9, 33] = [104, 105]"
    by (simp add: ascii_eval)
  with normalize_scalars_clean [of ascii_text "[7, 32, 72, 105, 9, 33]"] show ?thesis by simp
qed

text \<open>A text library that forgets everything, for examples whose tags do not matter.\<close>

definition blank_text :: text_lib where
  "blank_text = \<lparr>nfkc = (\<lambda>_. []), to_lowercase = (\<lambda>_. []), get_general_category = (\<lambda>_. OtherCategory),
     hmac_sha256 = (\<lambda>_ _. ''t'')\<rparr>"

end
