(* ===== verification/Source_Url.thy ===== *)
theory Source_Url
  imports Text_Slices Library_Vocab Prompt Content_Tag
begin

text \<open>
  Shared links, \<open>src/src/source_url.rs\<close>: the canonical form of a link, the kind it is filed under
  and the cover it gets.  The \<open>url\<close> crate is code outside the repository: its parser, its printer
  and its setters are the fields of a \<open>url_lib\<close> record over the components of a URL, with the laws
  the normaliser relies on collected in \<open>url_ok\<close>.
\<close>

subsection \<open>The url crate\<close>

record url =
  u_scheme :: string
  u_username :: string
  u_password :: "string option"
  u_host :: "string option"
  u_port :: "string option"
  u_path :: string
  u_query :: "string option"
  u_fragment :: "string option"

record url_lib =
  url_parse :: "string \<Rightarrow> url option"
  url_print :: "url \<Rightarrow> string"
  set_scheme :: "url \<Rightarrow> string \<Rightarrow> url option"
  set_username :: "url \<Rightarrow> string \<Rightarrow> url option"
  set_password :: "url \<Rightarrow> string option \<Rightarrow> url option"
  set_fragment :: "url \<Rightarrow> string option \<Rightarrow> url"
  set_query :: "url \<Rightarrow> string option \<Rightarrow> url"
  set_path :: "url \<Rightarrow> string \<Rightarrow> url"
  url_valid :: "url \<Rightarrow> bool"

subsection \<open>Tables\<close>

definition TRACKING_PARAMS :: "string list" where
  "TRACKING_PARAMS = [''fbclid'', ''gclid'', ''mc_cid'', ''mc_eid'', ''ref'']"

definition HOST_KEPT_PARAMS :: "(string \<times> string list) list" where
  "HOST_KEPT_PARAMS = [(''github.com'', [''ref''])]"

definition HOST_TRACKING_PARAMS :: "(string \<times> string list) list" where
  "HOST_TRACKING_PARAMS =
    [(''youtube.com'', [''si'']), (''youtu.be'', [''si'']), (''spotify.com'', [''si'']),
     (''x.com'', [''t'', ''s'']), (''twitter.com'', [''t'', ''s'']),
     (''instagram.com'', [''igsh'', ''igshid'']), (''linkedin.com'', [''trk'', ''rcm'']),
     (''tiktok.com'', [''_r'', ''_t''])]"

definition on_domain :: "string \<Rightarrow> string \<Rightarrow> bool" where
  "on_domain host domain \<longleftrightarrow> host = domain \<or>
     (case strip_suffix domain host of None \<Rightarrow> False | Some rest \<Rightarrow> rest \<noteq> [] \<and> last rest = CHR ''.'')"

definition VIDEO_HOSTS :: "string list" where
  "VIDEO_HOSTS = [''youtube.com'', ''youtu.be'', ''vimeo.com'']"

definition PODCAST_HOSTS :: "string list" where
  "PODCAST_HOSTS = [''podcasts.apple.com'', ''overcast.fm'', ''pocketcasts.com'', ''pca.st'',
     ''castbox.fm'', ''podbean.com'', ''buzzsprout.com'', ''simplecast.com'', ''transistor.fm'',
     ''libsyn.com'', ''anchor.fm'', ''podcasters.spotify.com'']"

definition RESEARCH_HOSTS :: "string list" where
  "RESEARCH_HOSTS = [''arxiv.org'', ''doi.org'', ''biorxiv.org'', ''medrxiv.org'', ''ssrn.com'',
     ''ncbi.nlm.nih.gov'', ''semanticscholar.org'', ''openreview.net'', ''aclanthology.org'',
     ''jstor.org'', ''sciencedirect.com'', ''link.springer.com'', ''onlinelibrary.wiley.com'',
     ''dl.acm.org'', ''ieeexplore.ieee.org'', ''nature.com'', ''science.org'', ''pnas.org'',
     ''plos.org'', ''cell.com'', ''thelancet.com'', ''nejm.org'', ''bmj.com'']"

definition SOCIAL_HOSTS :: "string list" where
  "SOCIAL_HOSTS = [''x.com'', ''twitter.com'', ''bsky.app'', ''threads.net'', ''threads.com'',
     ''instagram.com'', ''linkedin.com'']"

subsection \<open>Normalisation\<close>

definition for_host :: "(string \<times> string list) list \<Rightarrow> string \<Rightarrow> string list" where
  "for_host table host =
     (case find (\<lambda>(domain, keys). on_domain host domain) table of None \<Rightarrow> [] | Some (_, keys) \<Rightarrow> keys)"

definition query_key :: "string \<Rightarrow> string" where
  "query_key pair = map ascii_lower (hd (split_by (\<lambda>c. c = CHR ''='') pair))"

definition keeps_pair :: "string \<Rightarrow> string \<Rightarrow> bool" where
  "keeps_pair host pair =
     (let key = query_key pair;
          tracking = strip_prefix ''utm_'' key \<noteq> None \<or>
            (key \<in> set TRACKING_PARAMS \<and> key \<notin> set (for_host HOST_KEPT_PARAMS host)) \<or>
            key \<in> set (for_host HOST_TRACKING_PARAMS host)
      in key \<noteq> [] \<and> \<not> tracking)"

definition clean_query :: "string \<Rightarrow> string \<Rightarrow> string" where
  "clean_query host q = join ''&'' (filter (keeps_pair host) (split_by (\<lambda>c. c = CHR ''&'') q))"

definition nonempty :: "string option \<Rightarrow> string option" where
  "nonempty q = (case q of Some s \<Rightarrow> if s = [] then None else Some s | None \<Rightarrow> None)"

definition normalize_source_url :: "url_lib \<Rightarrow> string \<Rightarrow> string option" where
  "normalize_source_url L raw =
     (case url_parse L (str_trim raw) of None \<Rightarrow> None
      | Some u0 \<Rightarrow>
          case (if u_scheme u0 = ''https'' then Some u0
                else if u_scheme u0 = ''http'' then set_scheme L u0 ''https'' else None) of
            None \<Rightarrow> None
          | Some u1 \<Rightarrow>
              if u_host u1 = None then None
              else case Option.bind (set_username L u1 []) (\<lambda>u. set_password L u None) of
                  None \<Rightarrow> None
                | Some u2 \<Rightarrow>
                    let u3 = set_fragment L u2 None;
                        host = unwrap_or (u_host u3) [];
                        u4 = set_query L u3 (nonempty (map_option (clean_query host) (u_query u3)));
                        path = trim_end_by (\<lambda>c. c = CHR ''/'') (u_path u4);
                        u5 = (if path \<noteq> [] then set_path L u4 path else u4)
                    in Some (url_print L u5))"

subsection \<open>Classification and cover\<close>

definition classify_source_url :: "url_lib \<Rightarrow> string \<Rightarrow> source_kind" where
  "classify_source_url L s =
     (case url_parse L s of None \<Rightarrow> Article
      | Some u \<Rightarrow>
          let host = map ascii_lower (unwrap_or (u_host u) []);
              on = (\<lambda>hosts. list_ex (on_domain host) hosts);
              spotify_episode = host = ''open.spotify.com'' \<and>
                (strip_prefix ''/episode/'' (u_path u) \<noteq> None \<or> strip_prefix ''/show/'' (u_path u) \<noteq> None)
          in if on VIDEO_HOSTS then Video
             else if spotify_episode \<or> on PODCAST_HOSTS then Podcast
             else if on RESEARCH_HOSTS then ResearchPaper
             else if on SOCIAL_HOSTS \<or> ''mastodon'' \<in> set (split_by (\<lambda>c. c = CHR ''.'') host) then Social
             else Article)"

definition pick_source_cover :: "source_kind \<Rightarrow> string option \<Rightarrow> string option \<Rightarrow> string option" where
  "pick_source_cover k image_url icon_url =
     (case k of
        Podcast \<Rightarrow> (case image_url of Some u \<Rightarrow> Some u | None \<Rightarrow> icon_url)
      | Video \<Rightarrow> (case image_url of Some u \<Rightarrow> Some u | None \<Rightarrow> icon_url)
      | _ \<Rightarrow> (case icon_url of Some u \<Rightarrow> Some u | None \<Rightarrow> image_url))"

subsection \<open>The laws of the url crate\<close>

text \<open>A URL the crate holds prints as visible ASCII and parses back to itself; dropping the
  credentials of an https URL with a host succeeds; each setter changes its own component (setting
  the scheme may drop a port that became the default one).\<close>

definition url_ok :: "url_lib \<Rightarrow> bool" where
  "url_ok L \<longleftrightarrow>
     (\<forall>s u. url_parse L s = Some u \<longrightarrow> url_valid L u) \<and>
     (\<forall>u. url_valid L u \<longrightarrow> url_parse L (url_print L u) = Some u \<and> graphic (url_print L u)) \<and>
     (\<forall>u u'. url_valid L u \<and> set_scheme L u ''https'' = Some u' \<longrightarrow> url_valid L u' \<and>
        (\<exists>p. u' = u\<lparr>u_scheme := ''https'', u_port := p\<rparr>)) \<and>
     (\<forall>u. url_valid L u \<and> u_host u \<noteq> None \<and> u_scheme u = ''https'' \<longrightarrow>
        set_username L u [] = Some (u\<lparr>u_username := []\<rparr>) \<and> url_valid L (u\<lparr>u_username := []\<rparr>) \<and>
        set_password L u None = Some (u\<lparr>u_password := None\<rparr>) \<and> url_valid L (u\<lparr>u_password := None\<rparr>)) \<and>
     (\<forall>u. url_valid L u \<longrightarrow>
        set_fragment L u None = u\<lparr>u_fragment := None\<rparr> \<and> url_valid L (u\<lparr>u_fragment := None\<rparr>)) \<and>
     (\<forall>u q. url_valid L u \<and> (\<forall>s. q = Some s \<longrightarrow> set s \<subseteq> set (unwrap_or (u_query u) [])) \<longrightarrow>
        set_query L u q = u\<lparr>u_query := q\<rparr> \<and> url_valid L (u\<lparr>u_query := q\<rparr>)) \<and>
     (\<forall>u. url_valid L u \<and> trim_end_by (\<lambda>c. c = CHR ''/'') (u_path u) \<noteq> [] \<longrightarrow>
        set_path L u (trim_end_by (\<lambda>c. c = CHR ''/'') (u_path u)) =
          u\<lparr>u_path := trim_end_by (\<lambda>c. c = CHR ''/'') (u_path u)\<rparr> \<and>
        url_valid L (u\<lparr>u_path := trim_end_by (\<lambda>c. c = CHR ''/'') (u_path u)\<rparr>))"

subsection \<open>Facts\<close>

lemma on_domain_iff: "on_domain host domain \<longleftrightarrow> host = domain \<or> (\<exists>sub. host = sub @ ''.'' @ domain)"
proof -
  have "(case strip_suffix domain host of None \<Rightarrow> False | Some rest \<Rightarrow> rest \<noteq> [] \<and> last rest = CHR ''.'') \<longleftrightarrow>
      (\<exists>sub. host = sub @ ''.'' @ domain)"
  proof (cases "strip_suffix domain host")
    case None
    then have "\<nexists>t. host = t @ domain" by (metis option.distinct(1) strip_suffix_Some)
    then have "\<nexists>sub. host = (sub @ ''.'') @ domain" by blast
    with None show ?thesis by simp
  next
    case (Some rest)
    then have "host = rest @ domain" by (simp add: strip_suffix_Some)
    with Some show ?thesis
      by (cases rest rule: rev_cases) auto
  qed
  then show ?thesis by (simp add: on_domain_def)
qed

lemma keeps_pair_Nil [simp]: "\<not> keeps_pair host []"
  by (simp add: keeps_pair_def query_key_def Let_def)

lemma clean_query_fields:
  fixes host q
  defines "kept \<equiv> filter (keeps_pair host) (split_by (\<lambda>c. c = CHR ''&'') q)"
  shows "clean_query host q = [] \<longleftrightarrow> kept = []"
    and "kept \<noteq> [] \<Longrightarrow> split_by (\<lambda>c. c = CHR ''&'') (clean_query host q) = kept"
proof -
  have "[] \<notin> set kept" by (auto simp: kept_def)
  then show "clean_query host q = [] \<longleftrightarrow> kept = []"
    unfolding clean_query_def kept_def [symmetric] join_empty_iff by auto
  show "kept \<noteq> [] \<Longrightarrow> split_by (\<lambda>c. c = CHR ''&'') (clean_query host q) = kept"
    unfolding clean_query_def kept_def [symmetric]
    by (rule split_by_join) (auto simp: kept_def dest: split_by_fields)
qed

lemma clean_query_kept:
  assumes "clean_query host q \<noteq> []"
  shows "list_all (keeps_pair host) (split_by (\<lambda>c. c = CHR ''&'') (clean_query host q))"
    and "clean_query host (clean_query host q) = clean_query host q"
proof -
  let ?kept = "filter (keeps_pair host) (split_by (\<lambda>c. c = CHR ''&'') q)"
  have k: "?kept \<noteq> []" using assms clean_query_fields(1) by blast
  note split = clean_query_fields(2) [OF this]
  show "list_all (keeps_pair host) (split_by (\<lambda>c. c = CHR ''&'') (clean_query host q))"
    by (simp add: split list_all_iff)
  have "clean_query host (clean_query host q) = join ''&'' (filter (keeps_pair host) ?kept)"
    by (subst clean_query_def) (simp add: split)
  then show "clean_query host (clean_query host q) = clean_query host q"
    by (simp add: clean_query_def)
qed

lemma set_clean_query: "clean_query host q \<noteq> [] \<Longrightarrow> set (clean_query host q) \<subseteq> set q"
proof -
  have *: "c \<in> set q" if "w \<in> set (split_by (\<lambda>c. c = CHR ''&'') q)" "c \<in> set w" for w c
    using split_by_fields [OF that] by blast
  have amp: "CHR ''&'' \<in> set q" if "1 < length (split_by (\<lambda>c. c = CHR ''&'') q)"
  proof (rule ccontr)
    assume "CHR ''&'' \<notin> set q"
    then have "split_by (\<lambda>c. c = CHR ''&'') q = [q]" by (intro split_by_no_sep) auto
    with that show False by simp
  qed
  show ?thesis
  proof (cases "1 < length (split_by (\<lambda>c. c = CHR ''&'') q)")
    case True
    then show ?thesis using set_join [of "''&''" "filter (keeps_pair host) (split_by (\<lambda>c. c = CHR ''&'') q)"] * amp
      by (fastforce simp: clean_query_def)
  next
    case False
    then obtain w where w: "split_by (\<lambda>c. c = CHR ''&'') q = [w]"
      by (cases "split_by (\<lambda>c. c = CHR ''&'') q") (auto simp: split_by_nonempty)
    then show ?thesis using * [of w] by (auto simp: clean_query_def)
  qed
qed

text \<open>A URL in canonical form.\<close>

definition canonical_url :: "url \<Rightarrow> bool" where
  "canonical_url u \<longleftrightarrow> u_scheme u = ''https'' \<and> u_host u \<noteq> None \<and> u_username u = [] \<and>
     u_password u = None \<and> u_fragment u = None \<and>
     (case u_query u of None \<Rightarrow> True
      | Some q \<Rightarrow> q \<noteq> [] \<and>
          list_all (keeps_pair (unwrap_or (u_host u) [])) (split_by (\<lambda>c. c = CHR ''&'') q)) \<and>
     (trim_end_by (\<lambda>c. c = CHR ''/'') (u_path u) = [] \<or>
      trim_end_by (\<lambda>c. c = CHR ''/'') (u_path u) = u_path u)"

text \<open>What the setters of the normaliser make of a URL.\<close>

definition canonicalize :: "url \<Rightarrow> url" where
  "canonicalize u =
     (let q = nonempty (map_option (clean_query (unwrap_or (u_host u) [])) (u_query u));
          path = trim_end_by (\<lambda>c. c = CHR ''/'') (u_path u)
      in u\<lparr>u_username := [], u_password := None, u_fragment := None, u_query := q,
           u_path := (if path \<noteq> [] then path else u_path u)\<rparr>)"

lemma canonical_canonicalize:
  "u_scheme u = ''https'' \<Longrightarrow> u_host u \<noteq> None \<Longrightarrow> canonical_url (canonicalize u)"
  using clean_query_kept(1)
  by (auto simp: canonical_url_def canonicalize_def nonempty_def Let_def split: option.splits)

lemma canonicalize_canonical:
  assumes "canonical_url u"
  shows "canonicalize u = u"
proof -
  have "nonempty (map_option (clean_query (unwrap_or (u_host u) [])) (u_query u)) = u_query u"
  proof (cases "u_query u")
    case (Some q)
    then have q: "q \<noteq> []" "filter (keeps_pair (unwrap_or (u_host u) [])) (split_by (\<lambda>c. c = CHR ''&'') q) =
        split_by (\<lambda>c. c = CHR ''&'') q"
      using assms by (auto simp: canonical_url_def list_all_iff intro: filter_True)
    have "join ''&'' (split_by (\<lambda>c. c = CHR ''&'') q) = q" by (rule join_split_by)
    with Some q show ?thesis by (simp add: nonempty_def clean_query_def)
  qed (simp add: nonempty_def)
  then show ?thesis using assms
    by (auto simp: canonicalize_def canonical_url_def Let_def intro!: url.equality)
qed

lemma url_ok_rules:
  assumes "url_ok L"
  shows "url_parse L s = Some u \<Longrightarrow> url_valid L u"
    and "url_valid L u \<Longrightarrow> url_parse L (url_print L u) = Some u \<and> graphic (url_print L u)"
    and "url_valid L u \<Longrightarrow> set_scheme L u ''https'' = Some u' \<Longrightarrow>
      url_valid L u' \<and> u_scheme u' = ''https''"
    and "url_valid L u \<Longrightarrow> u_host u \<noteq> None \<Longrightarrow> u_scheme u = ''https'' \<Longrightarrow>
      set_username L u [] = Some (u\<lparr>u_username := []\<rparr>) \<and> url_valid L (u\<lparr>u_username := []\<rparr>)"
    and "url_valid L u \<Longrightarrow> u_host u \<noteq> None \<Longrightarrow> u_scheme u = ''https'' \<Longrightarrow>
      set_password L u None = Some (u\<lparr>u_password := None\<rparr>) \<and> url_valid L (u\<lparr>u_password := None\<rparr>)"
    and "url_valid L u \<Longrightarrow>
      set_fragment L u None = u\<lparr>u_fragment := None\<rparr> \<and> url_valid L (u\<lparr>u_fragment := None\<rparr>)"
    and "url_valid L u \<Longrightarrow> (\<And>s. q = Some s \<Longrightarrow> set s \<subseteq> set (unwrap_or (u_query u) [])) \<Longrightarrow>
      set_query L u q = u\<lparr>u_query := q\<rparr> \<and> url_valid L (u\<lparr>u_query := q\<rparr>)"
    and "url_valid L u \<Longrightarrow> trim_end_by (\<lambda>c. c = CHR ''/'') (u_path u) \<noteq> [] \<Longrightarrow>
      set_path L u (trim_end_by (\<lambda>c. c = CHR ''/'') (u_path u)) =
        u\<lparr>u_path := trim_end_by (\<lambda>c. c = CHR ''/'') (u_path u)\<rparr> \<and>
      url_valid L (u\<lparr>u_path := trim_end_by (\<lambda>c. c = CHR ''/'') (u_path u)\<rparr>)"
proof -
  note l = assms [unfolded url_ok_def]
  note l2 = l [THEN conjunct2] note l3 = l2 [THEN conjunct2] note l4 = l3 [THEN conjunct2]
  note l5 = l4 [THEN conjunct2] note l6 = l5 [THEN conjunct2]
  show "url_parse L s = Some u \<Longrightarrow> url_valid L u" using l [THEN conjunct1] by blast
  show "url_valid L u \<Longrightarrow> url_parse L (url_print L u) = Some u \<and> graphic (url_print L u)"
    using l2 [THEN conjunct1] by blast
  show "url_valid L u \<Longrightarrow> set_scheme L u ''https'' = Some u' \<Longrightarrow>
      url_valid L u' \<and> u_scheme u' = ''https''" using l3 [THEN conjunct1] by fastforce
  show "url_valid L u \<Longrightarrow> u_host u \<noteq> None \<Longrightarrow> u_scheme u = ''https'' \<Longrightarrow>
      set_username L u [] = Some (u\<lparr>u_username := []\<rparr>) \<and> url_valid L (u\<lparr>u_username := []\<rparr>)"
    using l4 [THEN conjunct1] by blast
  show "url_valid L u \<Longrightarrow> u_host u \<noteq> None \<Longrightarrow> u_scheme u = ''https'' \<Longrightarrow>
      set_password L u None = Some (u\<lparr>u_password := None\<rparr>) \<and> url_valid L (u\<lparr>u_password := None\<rparr>)"
    using l4 [THEN conjunct1] by blast
  show "url_valid L u \<Longrightarrow>
      set_fragment L u None = u\<lparr>u_fragment := None\<rparr> \<and> url_valid L (u\<lparr>u_fragment := None\<rparr>)"
    using l5 [THEN conjunct1] by blast
  show "url_valid L u \<Longrightarrow> (\<And>s. q = Some s \<Longrightarrow> set s \<subseteq> set (unwrap_or (u_query u) [])) \<Longrightarrow>
      set_query L u q = u\<lparr>u_query := q\<rparr> \<and> url_valid L (u\<lparr>u_query := q\<rparr>)"
    using l6 [THEN conjunct1] by blast
  show "url_valid L u \<Longrightarrow> trim_end_by (\<lambda>c. c = CHR ''/'') (u_path u) \<noteq> [] \<Longrightarrow>
      set_path L u (trim_end_by (\<lambda>c. c = CHR ''/'') (u_path u)) =
        u\<lparr>u_path := trim_end_by (\<lambda>c. c = CHR ''/'') (u_path u)\<rparr> \<and>
      url_valid L (u\<lparr>u_path := trim_end_by (\<lambda>c. c = CHR ''/'') (u_path u)\<rparr>)"
    using l6 [THEN conjunct2] by blast
qed

text \<open>The tail of the normaliser on an https URL with a host.\<close>

lemma normalize_tail:
  assumes L: "url_ok L" and v: "url_valid L u" and h: "u_host u \<noteq> None" and s: "u_scheme u = ''https''"
  shows "Option.bind (set_username L u []) (\<lambda>u. set_password L u None) =
      Some (u\<lparr>u_username := [], u_password := None\<rparr>)"
    and "(let u3 = set_fragment L (u\<lparr>u_username := [], u_password := None\<rparr>) None;
             host = unwrap_or (u_host u3) [];
             u4 = set_query L u3 (nonempty (map_option (clean_query host) (u_query u3)));
             path = trim_end_by (\<lambda>c. c = CHR ''/'') (u_path u4)
         in if path \<noteq> [] then set_path L u4 path else u4) = canonicalize u"
    and "url_valid L (canonicalize u)"
proof -
  let ?u2 = "u\<lparr>u_username := [], u_password := None\<rparr>"
  note un = url_ok_rules(4) [OF L v h s]
  then have pw: "set_password L (u\<lparr>u_username := []\<rparr>) None = Some ?u2 \<and> url_valid L ?u2"
    using url_ok_rules(5) [OF L, of "u\<lparr>u_username := []\<rparr>"] h s by simp
  show "Option.bind (set_username L u []) (\<lambda>u. set_password L u None) = Some ?u2"
    using un pw by simp
  let ?u3 = "?u2\<lparr>u_fragment := None\<rparr>"
  have fr: "set_fragment L ?u2 None = ?u3" "url_valid L ?u3"
    using url_ok_rules(6) [OF L] pw by blast+
  let ?q = "nonempty (map_option (clean_query (unwrap_or (u_host u) [])) (u_query u))"
  have "set s \<subseteq> set (unwrap_or (u_query ?u3) [])" if "?q = Some s" for s
    using that set_clean_query by (auto simp: nonempty_def split: option.splits if_splits)
  then have q: "set_query L ?u3 ?q = ?u3\<lparr>u_query := ?q\<rparr>" "url_valid L (?u3\<lparr>u_query := ?q\<rparr>)"
    using url_ok_rules(7) [OF L fr(2), of ?q] by blast+
  show "(let u3 = set_fragment L ?u2 None; host = unwrap_or (u_host u3) [];
             u4 = set_query L u3 (nonempty (map_option (clean_query host) (u_query u3)));
             path = trim_end_by (\<lambda>c. c = CHR ''/'') (u_path u4)
         in if path \<noteq> [] then set_path L u4 path else u4) = canonicalize u"
    using fr q url_ok_rules(8) [OF L q(2)] by (simp add: canonicalize_def Let_def)
  show "url_valid L (canonicalize u)"
    using q url_ok_rules(8) [OF L q(2)] by (simp add: canonicalize_def Let_def)
qed

lemma normalize_https:
  assumes "url_ok L" "url_parse L (str_trim raw) = Some u" "u_scheme u = ''https''" "u_host u \<noteq> None"
  shows "normalize_source_url L raw = Some (url_print L (canonicalize u))"
proof -
  have "url_valid L u" using url_ok_rules(1) [OF assms(1,2)] .
  from normalize_tail [OF assms(1) this assms(4,3)] show ?thesis
    using assms(2-4) by (simp add: normalize_source_url_def Let_def)
qed

lemma normalize_form:
  assumes L: "url_ok L" and n: "normalize_source_url L raw = Some s"
  obtains u where "s = url_print L u" "url_parse L s = Some u" "graphic s" "canonical_url u"
proof -
  from n obtain u0 u1 where p: "url_parse L (str_trim raw) = Some u0"
    and u1: "(if u_scheme u0 = ''https'' then Some u0
        else if u_scheme u0 = ''http'' then set_scheme L u0 ''https'' else None) = Some u1"
    and h: "u_host u1 \<noteq> None"
    by (auto simp: normalize_source_url_def split: option.splits if_splits)
  have v: "url_valid L u1 \<and> u_scheme u1 = ''https''"
  proof (cases "u_scheme u0 = ''https''")
    case True
    with u1 url_ok_rules(1) [OF L p] show ?thesis by simp
  next
    case False
    with u1 have "set_scheme L u0 ''https'' = Some u1" by (simp split: if_splits)
    then show ?thesis by (rule url_ok_rules(3) [OF L url_ok_rules(1) [OF L p]])
  qed
  note t = normalize_tail [OF L v [THEN conjunct1] h v [THEN conjunct2]]
  have "normalize_source_url L raw = Some (url_print L (canonicalize u1))"
    unfolding normalize_source_url_def p option.case u1 t(1) using h
    by (simp only: t(2) [unfolded Let_def] Let_def if_False)
  with n have s: "s = url_print L (canonicalize u1)" by simp
  have c: "canonical_url (canonicalize u1)" using v h by (simp add: canonical_canonicalize)
  have r: "url_parse L s = Some (canonicalize u1)" "graphic s"
    using url_ok_rules(2) [OF L t(3)] s by simp_all
  from that [OF s r c] show ?thesis .
qed

lemma normalize_idem:
  assumes "url_ok L" "normalize_source_url L raw = Some s"
  shows "normalize_source_url L s = Some s"
proof -
  obtain u where u: "s = url_print L u" "url_parse L s = Some u" "graphic s" "canonical_url u"
    by (rule normalize_form [OF assms])
  then have "normalize_source_url L s = Some (url_print L (canonicalize u))"
    by (intro normalize_https [OF assms(1)]) (simp_all add: str_trim_graphic canonical_url_def)
  then show ?thesis using u by (simp add: canonicalize_canonical)
qed

text \<open>
  The canonical form of a link is canonical: it parses to an https URL with a host,
  without credentials, fragment, empty query or trailing slash, none of whose query pairs is a
  tracking one for that host; and normalising it again changes nothing, so two shares of a page
  that normalise alike stay alike.
\<close>

theorem normalize_source_url_canonical:
  assumes L: "url_ok L" and n: "normalize_source_url L raw = Some s"
  shows "(\<exists>u. url_parse L s = Some u \<and> canonical_url u) \<and> normalize_source_url L s = Some s"
  using normalize_form [OF assms] normalize_idem [OF assms] by metis

subsection \<open>An instance of the laws\<close>

text \<open>A URL library that spells every component out in unary, so that its printer is injective
  by construction and every combination of components is a URL.\<close>

definition unary_text :: "string \<Rightarrow> string" where
  "unary_text s = concat (map (\<lambda>c. replicate (of_char c) CHR ''1'' @ ''0'') s) @ ''.''"

definition unary_option :: "string option \<Rightarrow> string" where
  "unary_option x = (case x of None \<Rightarrow> ''-'' | Some s \<Rightarrow> ''+'' @ unary_text s)"

definition unary_print :: "url \<Rightarrow> string" where
  "unary_print u = unary_text (u_scheme u) @ unary_text (u_username u) @ unary_option (u_password u) @
     unary_option (u_host u) @ unary_option (u_port u) @ unary_text (u_path u) @
     unary_option (u_query u) @ unary_option (u_fragment u)"

definition unary_url_lib :: url_lib where
  "unary_url_lib =
     \<lparr>url_parse = (\<lambda>s. if s \<in> range unary_print then Some (inv unary_print s) else None),
      url_print = unary_print,
      set_scheme = (\<lambda>u s. Some (u\<lparr>u_scheme := s\<rparr>)),
      set_username = (\<lambda>u s. Some (u\<lparr>u_username := s\<rparr>)),
      set_password = (\<lambda>u s. Some (u\<lparr>u_password := s\<rparr>)),
      set_fragment = (\<lambda>u s. u\<lparr>u_fragment := s\<rparr>),
      set_query = (\<lambda>u s. u\<lparr>u_query := s\<rparr>),
      set_path = (\<lambda>u s. u\<lparr>u_path := s\<rparr>),
      url_valid = (\<lambda>_. True)\<rparr>"

lemma unary_digit:
  "replicate n CHR ''1'' @ CHR ''0'' # a = replicate k CHR ''1'' @ CHR ''0'' # b \<Longrightarrow> n = k \<and> a = b"
proof (induction n arbitrary: k)
  case 0
  then show ?case by (cases k) auto
next
  case (Suc n)
  then show ?case by (cases k) auto
qed

lemma unary_text_inject: "unary_text s @ x = unary_text t @ y \<longleftrightarrow> s = t \<and> x = y"
proof (induction s arbitrary: t)
  case Nil
  have "replicate k CHR ''1'' @ CHR ''0'' # b \<noteq> CHR ''.'' # a" for k a b by (cases k) auto
  then show ?case by (cases t) (auto simp: unary_text_def dest: sym)
next
  case (Cons c s)
  show ?case
  proof (cases t)
    case Nil
    have "replicate k CHR ''1'' @ CHR ''0'' # b \<noteq> CHR ''.'' # a" for k a b by (cases k) auto
    with Nil show ?thesis by (auto simp: unary_text_def)
  next
    case (Cons d t')
    have "unary_text (c # s) @ x = unary_text (d # t') @ y \<longleftrightarrow>
        replicate (of_char c) CHR ''1'' @ CHR ''0'' # unary_text s @ x =
        replicate (of_char d) CHR ''1'' @ CHR ''0'' # unary_text t' @ y"
      by (simp add: unary_text_def)
    also have "\<dots> \<longleftrightarrow> c = d \<and> unary_text s @ x = unary_text t' @ y"
      using unary_digit [of "of_char c" "unary_text s @ x" "of_char d" "unary_text t' @ y"]
      by (auto simp: of_char_eq_iff)
    finally show ?thesis using Cons.IH [of t'] Cons by simp
  qed
qed

lemma unary_option_inject: "unary_option s @ x = unary_option t @ y \<longleftrightarrow> s = t \<and> x = y"
  by (cases s; cases t) (simp_all add: unary_option_def unary_text_inject)

lemma inj_unary_print: "inj unary_print"
proof (rule injI)
  fix u v assume "unary_print u = unary_print v"
  then have "unary_print u @ [] = unary_print v @ []" by simp
  then show "u = v"
    unfolding unary_print_def append_assoc unary_text_inject unary_option_inject
    by (auto intro: url.equality)
qed

lemma graphic_append [simp]: "graphic (s @ t) \<longleftrightarrow> graphic s \<and> graphic t"
  by (simp add: graphic_def)

lemma graphic_unary: "graphic (unary_text s)" "graphic (unary_option x)"
proof -
  show "graphic (unary_text s)" for s
    by (induction s) (auto simp: unary_text_def graphic_def byte_in_def list_all_iff)
  then show "graphic (unary_option x)"
    by (cases x) (simp_all add: unary_option_def, simp_all add: graphic_def byte_in_def)
qed

lemma url_ok_unary: "url_ok unary_url_lib"
proof -
  have g: "graphic (unary_print u)" for u by (simp add: unary_print_def graphic_unary)
  have p: "\<exists>p. u\<lparr>u_scheme := ''https''\<rparr> = u\<lparr>u_scheme := ''https'', u_port := p\<rparr>" for u :: url
    by (rule exI [of _ "u_port u"]) simp
  show ?thesis
    by (simp add: url_ok_def unary_url_lib_def inv_f_f [OF inj_unary_print] g p)
qed

theorem normalize_source_url_canonical_witness:
  "\<exists>s. normalize_source_url unary_url_lib (unary_print \<lparr>u_scheme = ''http'', u_username = ''me'',
      u_password = None, u_host = Some ''youtu.be'', u_port = None, u_path = ''/x/'',
      u_query = Some ''si=1&v=2'', u_fragment = Some ''t''\<rparr>) = Some s \<and>
    normalize_source_url unary_url_lib s = Some s"
proof -
  let ?u = "\<lparr>u_scheme = ''http'', u_username = ''me'',
      u_password = None, u_host = Some ''youtu.be'', u_port = None, u_path = ''/x/'',
      u_query = Some ''si=1&v=2'', u_fragment = Some ''t''\<rparr>"
  have "graphic (unary_print ?u)" by (simp only: unary_print_def graphic_append graphic_unary)
  then have "\<exists>s. normalize_source_url unary_url_lib (unary_print ?u) = Some s"
    by (simp add: normalize_source_url_def str_trim_graphic unary_url_lib_def
        inv_f_f [OF inj_unary_print] Let_def)
  then show ?thesis using normalize_source_url_canonical [OF url_ok_unary] by blast
qed

end
