(* ===== verification/Read.thy ===== *)
theory Read
  imports Store_Invariant Crypto Source_Url
begin

text \<open>
  The read surface, \<open>src/src/sync/read.rs\<close>: the records the list, detail and search screens get,
  the gate every stored note or question text passes on its way out, and the queries over the
  store, with the two scans of \<open>store.rs\<close> only they use.  A \<open>u32\<close> count is a 32-bit word, so the
  \<open>as u32\<close> casts and the increments wrap as a release build's do.  A \<open>HashMap\<close> whose entries the
  code sorts by key before returning them is kept sorted from the start (\<open>bt_update\<close>).
\<close>

subsection \<open>Scans of the store\<close>

definition max_live_int ::
  "store \<Rightarrow> string \<Rightarrow> string \<Rightarrow> string \<times> string \<Rightarrow> db_error + int option" where
  "max_live_int st table col flt =
     (case schema_or_err table of Inl e \<Rightarrow> Inl e
      | Inr t \<Rightarrow>
          case missing_column t [col, fst flt] of
            Some c \<Rightarrow> Inl (NoSuchColumn c)
          | None \<Rightarrow>
              (case filter (\<lambda>v. v \<noteq> SNull) (map (\<lambda>r. r col)
                 (filter (\<lambda>r. is_live r \<and> matches (Some flt) r) (tables st (ts_name t)))) of
                 [] \<Rightarrow> Inr None
               | v # vs \<Rightarrow>
                   (case fold (\<lambda>a b. if sql_less b a then a else b) vs v of
                      SInteger i \<Rightarrow> Inr (Some i)
                    | _ \<Rightarrow> Inl (InvalidColumnType col))))"

text \<open>\<open>row.get\<close> at the types \<open>String\<close>, \<open>Option<String>\<close> and \<open>bool\<close>.\<close>

fun get_string :: "string \<Rightarrow> sqlval \<Rightarrow> db_error + string" where
  "get_string col (SText s) = Inr s"
| "get_string col v = Inl (InvalidColumnType col)"

fun get_opt_string :: "string \<Rightarrow> sqlval \<Rightarrow> db_error + string option" where
  "get_opt_string col SNull = Inr None"
| "get_opt_string col (SText s) = Inr (Some s)"
| "get_opt_string col v = Inl (InvalidColumnType col)"

fun get_bool :: "string \<Rightarrow> sqlval \<Rightarrow> db_error + bool" where
  "get_bool col (SInteger i) = Inr (i \<noteq> 0)"
| "get_bool col v = Inl (InvalidColumnType col)"

text \<open>\<open>ORDER BY a, b\<close>.\<close>

definition order_asc :: "string \<Rightarrow> string \<Rightarrow> sqlrow \<Rightarrow> sqlrow \<Rightarrow> bool" where
  "order_asc a b r r' \<longleftrightarrow> sql_less (r a) (r' a) \<or>
     (\<not> sql_less (r' a) (r a) \<and> \<not> sql_less (r' b) (r b))"

definition url_row :: "sqlrow \<Rightarrow> db_error + string \<times> bool \<times> string option \<times> string" where
  "url_row r =
     and_then (get_string ''id'' (r ''id'')) (\<lambda>i.
     and_then (get_bool ''deleted'' (r ''deleted'')) (\<lambda>d.
     and_then (get_opt_string ''merged_into'' (r ''merged_into'')) (\<lambda>m.
     and_then (get_string ''url'' (r ''url'')) (\<lambda>u. Inr (i, d, m, u)))))"

definition books_with_a_url :: "store \<Rightarrow> db_error + (string \<times> bool \<times> string option \<times> string) list" where
  "books_with_a_url st =
     traverse url_row (sort_by (order_asc ''created_at'' ''id'')
       (filter (\<lambda>r. r ''url'' \<noteq> SNull) (tables st ''books'')))"

subsection \<open>Fields of a row\<close>

definition is_deleted :: "row \<Rightarrow> bool" where
  "is_deleted r \<longleftrightarrow> fmlookup r ''deleted'' = Some (JBool True)"

definition string_field :: "row \<Rightarrow> string \<Rightarrow> string option" where
  "string_field r key = (case fmlookup r key of Some (JString s) \<Rightarrow> Some s | _ \<Rightarrow> None)"

definition int_field :: "row \<Rightarrow> string \<Rightarrow> int" where
  "int_field r key = unwrap_or (row_i64 r key) 0"

definition opt_int_field :: "row \<Rightarrow> string \<Rightarrow> int option" where
  "opt_int_field r key = row_i64 r key"

definition string_array_field :: "row \<Rightarrow> string \<Rightarrow> string list" where
  "string_array_field r key =
     (case fmlookup r key of Some (JArray items) \<Rightarrow> List.map_filter as_str items | _ \<Rightarrow> [])"

definition json_string_field :: "serde \<Rightarrow> row \<Rightarrow> string \<Rightarrow> string option" where
  "json_string_field J r key =
     (case fmlookup r key of None \<Rightarrow> None | Some JNull \<Rightarrow> None | Some v \<Rightarrow> Some (to_str J v))"

definition page_take :: "int \<Rightarrow> nat" where
  "page_take limit = (if limit < 0 then 2 ^ 64 - 1 else nat limit)"

subsection \<open>The decryption gates\<close>

text \<open>The plaintext, if any, and whether decryption failed.\<close>

definition decrypt_v2_bound :: "crypto \<Rightarrow> vault \<Rightarrow> row \<Rightarrow> string \<Rightarrow> string option \<times> bool" where
  "decrypt_v2_bound C v r i =
     (case string_field r ''text'' of
        None \<Rightarrow> (None, False)
      | Some t \<Rightarrow>
          if is_encrypted_v2 t
          then case vault_decrypt_note C v (Some i) t of
                 Inr plaintext \<Rightarrow> (Some plaintext, False) | Inl _ \<Rightarrow> (None, True)
          else (None, True))"

definition decrypt_note_text :: "crypto \<Rightarrow> vault \<Rightarrow> row \<Rightarrow> string \<Rightarrow> string option \<times> bool" where
  "decrypt_note_text C v r i =
     (if string_field r ''text'' = Some [] then (Some [], False) else decrypt_v2_bound C v r i)"

definition decrypt_note_text_for_archive ::
  "crypto \<Rightarrow> vault \<Rightarrow> row \<Rightarrow> string \<Rightarrow> string option \<times> bool" where
  "decrypt_note_text_for_archive C v r i =
     (case string_field r ''text'' of
        None \<Rightarrow> (None, False)
      | Some t \<Rightarrow>
          if t = [] then (Some [], False)
          else if is_encrypted_v2 t
          then case vault_decrypt_note C v (Some i) t of
                 Inr plaintext \<Rightarrow> (Some plaintext, False) | Inl _ \<Rightarrow> (None, True)
          else (None, False))"

subsection \<open>Records\<close>

record book_record =
  br_id :: string
  br_title :: "string option"
  br_author :: "string option"
  br_isbn :: "string option"
  br_cover_url :: "string option"
  br_cover_source :: "string option"
  br_cover_resolved_at :: "int option"
  br_status :: source_status
  br_kind :: source_kind
  br_url :: "string option"
  br_created_at :: int
  br_updated_at :: int
  br_note_count :: "32 word"
  br_latest_note_created_at :: "int option"

record note_record =
  nr_id :: string
  nr_book_id :: "string option"
  nr_text :: "string option"
  nr_decrypt_failed :: bool
  nr_page :: "string option"
  nr_tags :: "string list"
  nr_image_path :: "string option"
  nr_ink_crop_path :: "string option"
  nr_source :: "string option"
  nr_source_id :: "string option"
  nr_source_meta_json :: "string option"
  nr_chapter :: "string option"
  nr_content_tag :: "string option"
  nr_created_at :: int
  nr_updated_at :: int

record custom_idea_record =
  cir_id :: string
  cir_name :: "string option"
  cir_description :: "string option"
  cir_created_at :: int
  cir_updated_at :: int

record store_counts =
  sc_books :: "32 word"
  sc_notes :: "32 word"
  sc_custom_ideas :: "32 word"
  sc_active_ideas :: "32 word"

record idea_count =
  ic_idea :: string
  ic_count :: "32 word"

record collection_record =
  cr_id :: string
  cr_name :: "string option"
  cr_created_at :: int
  cr_updated_at :: int

record lens_record =
  lr_id :: string
  lr_name :: "string option"
  lr_leaf_ids :: "string list"
  lr_combinator :: "string option"
  lr_threshold :: "int option"
  lr_created_at :: int
  lr_updated_at :: int

record note_link_record =
  nlr_id :: string
  nlr_from_note_id :: string
  nlr_to_note_id :: string
  nlr_relation_type :: "string option"
  nlr_created_at :: int
  nlr_updated_at :: int

record collection_note_count =
  cnc_collection_id :: string
  cnc_count :: "32 word"

record question_record =
  qr_id :: string
  qr_text :: "string option"
  qr_decrypt_failed :: bool
  qr_status :: "string option"
  qr_tone :: "string option"
  qr_resolved_at :: "int option"
  qr_checkin_at :: "int option"
  qr_checkin_response :: "string option"
  qr_created_at :: int
  qr_updated_at :: int

record question_log_entry =
  qle_question :: question_record
  qle_note_count :: "32 word"

datatype search_doc_kind = NoteDoc | IdeaDoc

record search_doc =
  sd_kind :: search_doc_kind
  sd_ref_id :: string
  sd_title :: string
  sd_content :: string

subsection \<open>Rows to records\<close>

definition to_book_record ::
  "crypto \<Rightarrow> store \<Rightarrow> vault \<Rightarrow> row \<Rightarrow> db_error + book_record" where
  "to_book_record C st v r =
     (let i = unwrap_or (string_field r ''id'') [] in
      and_then (count_live st ''notes'' (Some (''book_id'', i))) (\<lambda>note_count.
      and_then (max_live_int st ''notes'' ''created_at'' (''book_id'', i)) (\<lambda>latest.
        Inr \<lparr>br_id = i, br_title = string_field r ''title'', br_author = string_field r ''author'',
          br_isbn = string_field r ''isbn'', br_cover_url = string_field r ''cover_url'',
          br_cover_source = string_field r ''cover_source'',
          br_cover_resolved_at = opt_int_field r ''cover_resolved_at'',
          br_status = parse_status (string_field r ''status''),
          br_kind = parse_kind (string_field r ''kind''),
          br_url = Option.bind (string_field r ''url'') (open_book_url C v i),
          br_created_at = int_field r ''created_at'', br_updated_at = int_field r ''updated_at'',
          br_note_count = word_of_int note_count, br_latest_note_created_at = latest\<rparr>)))"

definition to_note_record :: "serde \<Rightarrow> crypto \<Rightarrow> vault \<Rightarrow> row \<Rightarrow> note_record" where
  "to_note_record J C v r =
     (let i = unwrap_or (string_field r ''id'') [];
          (text, decrypt_failed) = decrypt_note_text C v r i
      in \<lparr>nr_id = i, nr_book_id = string_field r ''book_id'', nr_text = text,
          nr_decrypt_failed = decrypt_failed, nr_page = string_field r ''page'',
          nr_tags = string_array_field r ''tags'', nr_image_path = string_field r ''image_path'',
          nr_ink_crop_path = string_field r ''ink_crop_path'', nr_source = string_field r ''source'',
          nr_source_id = string_field r ''source_id'',
          nr_source_meta_json = json_string_field J r ''source_meta'',
          nr_chapter = string_field r ''chapter'', nr_content_tag = string_field r ''content_tag'',
          nr_created_at = int_field r ''created_at'', nr_updated_at = int_field r ''updated_at''\<rparr>)"

definition to_question_record :: "crypto \<Rightarrow> vault \<Rightarrow> row \<Rightarrow> question_record" where
  "to_question_record C v r =
     (let i = unwrap_or (string_field r ''id'') [];
          (text, decrypt_failed) = decrypt_v2_bound C v r i
      in \<lparr>qr_id = i, qr_text = text, qr_decrypt_failed = decrypt_failed,
          qr_status = string_field r ''status'', qr_tone = string_field r ''tone'',
          qr_resolved_at = opt_int_field r ''resolved_at'', qr_checkin_at = opt_int_field r ''checkin_at'',
          qr_checkin_response = string_field r ''checkin_response'',
          qr_created_at = int_field r ''created_at'', qr_updated_at = int_field r ''updated_at''\<rparr>)"

definition to_custom_idea_record :: "row \<Rightarrow> custom_idea_record" where
  "to_custom_idea_record r =
     \<lparr>cir_id = unwrap_or (string_field r ''id'') [], cir_name = string_field r ''name'',
      cir_description = string_field r ''description'',
      cir_created_at = int_field r ''created_at'', cir_updated_at = int_field r ''updated_at''\<rparr>"

definition to_collection_record :: "row \<Rightarrow> collection_record" where
  "to_collection_record r =
     \<lparr>cr_id = unwrap_or (string_field r ''id'') [], cr_name = string_field r ''name'',
      cr_created_at = int_field r ''created_at'', cr_updated_at = int_field r ''updated_at''\<rparr>"

definition to_note_link_record :: "row \<Rightarrow> note_link_record" where
  "to_note_link_record r =
     \<lparr>nlr_id = unwrap_or (string_field r ''id'') [],
      nlr_from_note_id = unwrap_or (string_field r ''from_note_id'') [],
      nlr_to_note_id = unwrap_or (string_field r ''to_note_id'') [],
      nlr_relation_type = string_field r ''relation_type'',
      nlr_created_at = int_field r ''created_at'', nlr_updated_at = int_field r ''updated_at''\<rparr>"

definition to_lens_record :: "row \<Rightarrow> lens_record" where
  "to_lens_record r =
     \<lparr>lr_id = unwrap_or (string_field r ''id'') [], lr_name = string_field r ''name'',
      lr_leaf_ids = string_array_field r ''leaf_ids'', lr_combinator = string_field r ''combinator'',
      lr_threshold = opt_int_field r ''threshold'',
      lr_created_at = int_field r ''created_at'', lr_updated_at = int_field r ''updated_at''\<rparr>"

subsection \<open>Books\<close>

definition list_books ::
  "serde \<Rightarrow> crypto \<Rightarrow> store \<Rightarrow> vault \<Rightarrow> int \<Rightarrow> int \<Rightarrow> db_error + book_record list" where
  "list_books J C st v limit off =
     and_then (list_live J st ''books'' None limit off) (traverse (to_book_record C st v))"

definition get_book ::
  "serde \<Rightarrow> crypto \<Rightarrow> store \<Rightarrow> vault \<Rightarrow> string \<Rightarrow> db_error + book_record option" where
  "get_book J C st v i =
     and_then (get_row J st ''books'' i) (\<lambda>row.
       case row of
         Some r \<Rightarrow> if \<not> is_deleted r then and_then (to_book_record C st v r) (\<lambda>b. Inr (Some b)) else Inr None
       | None \<Rightarrow> Inr None)"

definition MAX_MERGE_HOPS :: nat where "MAX_MERGE_HOPS = 16"

text \<open>The \<open>merged_into\<close> hops from one tombstoned match to a live book.\<close>

fun follow_merged ::
  "serde \<Rightarrow> store \<Rightarrow> nat \<Rightarrow> string option \<Rightarrow> db_error + row option" where
  "follow_merged J st 0 next = Inr None"
| "follow_merged J st (Suc n) next =
     (case next of
        None \<Rightarrow> Inr None
      | Some i \<Rightarrow>
          and_then (get_row J st ''books'' i) (\<lambda>row.
            case row of
              None \<Rightarrow> Inr None
            | Some r \<Rightarrow> if \<not> is_deleted r then Inr (Some r)
                        else follow_merged J st n (string_field r ''merged_into'')))"

fun first_survivor ::
  "serde \<Rightarrow> crypto \<Rightarrow> store \<Rightarrow> vault \<Rightarrow> string option list \<Rightarrow> db_error + book_record option" where
  "first_survivor J C st v [] = Inr None"
| "first_survivor J C st v (m # ms) =
     and_then (follow_merged J st MAX_MERGE_HOPS m) (\<lambda>found.
       case found of
         Some r \<Rightarrow> and_then (to_book_record C st v r) (\<lambda>b. Inr (Some b))
       | None \<Rightarrow> first_survivor J C st v ms)"

definition url_matches ::
  "url_lib \<Rightarrow> crypto \<Rightarrow> vault \<Rightarrow> string \<Rightarrow> string \<times> bool \<times> string option \<times> string \<Rightarrow> bool" where
  "url_matches L C v url b =
     (case b of (i, _, _, sealed) \<Rightarrow>
        Option.bind (open_book_url C v i sealed) (normalize_source_url L) = Some url)"

definition find_book_by_url ::
  "url_lib \<Rightarrow> serde \<Rightarrow> crypto \<Rightarrow> store \<Rightarrow> vault \<Rightarrow> string \<Rightarrow> db_error + book_record option" where
  "find_book_by_url L J C st v url =
     and_then (books_with_a_url st) (\<lambda>rows.
       let found = filter (url_matches L C v url) rows in
       case find (\<lambda>(_, deleted, _, _). \<not> deleted) found of
         Some (i, _) \<Rightarrow> get_book J C st v i
       | None \<Rightarrow> first_survivor J C st v (map (\<lambda>(_, _, merged_into, _). merged_into) found))"

subsection \<open>Notes\<close>

definition list_notes ::
  "serde \<Rightarrow> crypto \<Rightarrow> store \<Rightarrow> vault \<Rightarrow> string option \<Rightarrow> int \<Rightarrow> int \<Rightarrow> db_error + note_record list" where
  "list_notes J C st v book_id limit off =
     and_then (list_live J st ''notes'' (map_option (\<lambda>b. (''book_id'', b)) book_id) limit off)
       (\<lambda>rows. Inr (map (to_note_record J C v) rows))"

definition get_note ::
  "serde \<Rightarrow> crypto \<Rightarrow> store \<Rightarrow> vault \<Rightarrow> string \<Rightarrow> db_error + note_record option" where
  "get_note J C st v i =
     and_then (get_row J st ''notes'' i) (\<lambda>row.
       case row of
         Some r \<Rightarrow> Inr (if \<not> is_deleted r then Some (to_note_record J C v r) else None)
       | None \<Rightarrow> Inr None)"

text \<open>The window and the mapping every filtered note scan ends with.\<close>

definition note_page ::
  "serde \<Rightarrow> crypto \<Rightarrow> vault \<Rightarrow> (row \<Rightarrow> bool) \<Rightarrow> int \<Rightarrow> int \<Rightarrow> row list \<Rightarrow> note_record list" where
  "note_page J C v P limit off rows =
     map (to_note_record J C v) (take (page_take limit) (drop (nat (max off 0)) (filter P rows)))"

definition notes_by_idea ::
  "serde \<Rightarrow> crypto \<Rightarrow> store \<Rightarrow> vault \<Rightarrow> string \<Rightarrow> int \<Rightarrow> int \<Rightarrow> db_error + note_record list" where
  "notes_by_idea J C st v idea limit off =
     and_then (list_live J st ''notes'' None (-1) 0) (\<lambda>rows.
       Inr (note_page J C v (\<lambda>r. idea \<in> set (string_array_field r ''tags'')) limit off rows))"

definition untagged_notes ::
  "serde \<Rightarrow> crypto \<Rightarrow> store \<Rightarrow> vault \<Rightarrow> int \<Rightarrow> int \<Rightarrow> db_error + note_record list" where
  "untagged_notes J C st v limit off =
     and_then (list_live J st ''notes'' None (-1) 0) (\<lambda>rows.
       Inr (note_page J C v (\<lambda>r. string_array_field r ''tags'' = []) limit off rows))"

definition untagged_notes_count :: "serde \<Rightarrow> store \<Rightarrow> db_error + 32 word" where
  "untagged_notes_count J st =
     and_then (list_live J st ''notes'' None (-1) 0) (\<lambda>rows.
       Inr (of_nat (length (filter (\<lambda>r. string_array_field r ''tags'' = []) rows))))"

subsection \<open>Plain listings and tallies\<close>

definition list_custom_ideas :: "serde \<Rightarrow> store \<Rightarrow> int \<Rightarrow> int \<Rightarrow> db_error + custom_idea_record list" where
  "list_custom_ideas J st limit off =
     and_then (list_live J st ''custom_ideas'' None limit off) (\<lambda>rows. Inr (map to_custom_idea_record rows))"

definition list_collections :: "serde \<Rightarrow> store \<Rightarrow> int \<Rightarrow> int \<Rightarrow> db_error + collection_record list" where
  "list_collections J st limit off =
     and_then (list_live J st ''collections'' None limit off) (\<lambda>rows. Inr (map to_collection_record rows))"

definition list_lenses :: "serde \<Rightarrow> store \<Rightarrow> int \<Rightarrow> int \<Rightarrow> db_error + lens_record list" where
  "list_lenses J st limit off =
     and_then (list_live J st ''lenses'' None limit off) (\<lambda>rows. Inr (map to_lens_record rows))"

definition bump :: "string \<Rightarrow> (string \<times> 32 word) list \<Rightarrow> (string \<times> 32 word) list" where
  "bump k tally = bt_update k (\<lambda>c. unwrap_or c 0 + 1) tally"

definition tag_tally :: "serde \<Rightarrow> store \<Rightarrow> db_error + (string \<times> 32 word) list" where
  "tag_tally J st =
     and_then (list_live J st ''notes'' None (-1) 0) (\<lambda>rows.
       Inr (fold (\<lambda>r. fold bump (string_array_field r ''tags'')) rows []))"

definition active_ideas :: "serde \<Rightarrow> store \<Rightarrow> db_error + 32 word" where
  "active_ideas J st = and_then (tag_tally J st) (\<lambda>tally. Inr (of_nat (length tally)))"

definition idea_counts :: "serde \<Rightarrow> store \<Rightarrow> db_error + idea_count list" where
  "idea_counts J st =
     and_then (tag_tally J st) (\<lambda>tally.
       Inr (sort_by (\<lambda>a b. ic_idea a \<le> ic_idea b)
         (map (\<lambda>(idea, count). \<lparr>ic_idea = idea, ic_count = count\<rparr>) tally)))"

definition counts :: "serde \<Rightarrow> store \<Rightarrow> db_error + store_counts" where
  "counts J st =
     and_then (count_live st ''books'' None) (\<lambda>b.
     and_then (count_live st ''notes'' None) (\<lambda>n.
     and_then (count_live st ''custom_ideas'' None) (\<lambda>c.
     and_then (active_ideas J st) (\<lambda>a.
       Inr \<lparr>sc_books = word_of_int b, sc_notes = word_of_int n, sc_custom_ideas = word_of_int c,
            sc_active_ideas = a\<rparr>))))"

subsection \<open>Relations\<close>

definition collection_ids_for_note :: "serde \<Rightarrow> store \<Rightarrow> string \<Rightarrow> db_error + string list" where
  "collection_ids_for_note J st note_id =
     and_then (list_live J st ''collection_memberships'' (Some (''note_id'', note_id)) (-1) 0) (\<lambda>rows.
       Inr (first_seen [] (List.map_filter (\<lambda>r. string_field r ''collection_id'') rows)))"

definition note_links_for_note :: "serde \<Rightarrow> store \<Rightarrow> string \<Rightarrow> db_error + note_link_record list" where
  "note_links_for_note J st note_id =
     and_then (list_live J st ''note_links'' None (-1) 0) (\<lambda>rows.
       Inr (map to_note_link_record (filter (\<lambda>r.
         string_field r ''from_note_id'' = Some note_id \<or> string_field r ''to_note_id'' = Some note_id) rows)))"

definition note_ids_for_collection :: "serde \<Rightarrow> store \<Rightarrow> string \<Rightarrow> db_error + string list" where
  "note_ids_for_collection J st collection_id =
     and_then (list_live J st ''collection_memberships'' (Some (''collection_id'', collection_id)) (-1) 0)
       (\<lambda>rows. Inr (first_seen [] (List.map_filter (\<lambda>r. string_field r ''note_id'') rows)))"

text \<open>The ids of the live rows of a table, as the \<open>HashSet\<close> several reads build.\<close>

definition live_ids :: "serde \<Rightarrow> store \<Rightarrow> string \<Rightarrow> db_error + string list" where
  "live_ids J st table =
     and_then (list_live J st table None (-1) 0) (\<lambda>rows.
       Inr (List.map_filter (\<lambda>r. string_field r ''id'') rows))"

text \<open>The membership pairs counted: of a live note, each pair once.\<close>

definition counted_pairs :: "string list \<Rightarrow> row list \<Rightarrow> (string \<times> string) list" where
  "counted_pairs live_notes rows =
     first_seen [] (filter (\<lambda>(c, n). n \<in> set live_notes)
       (List.map_filter (\<lambda>r.
          case (string_field r ''collection_id'', string_field r ''note_id'') of
            (Some c, Some n) \<Rightarrow> Some (c, n) | _ \<Rightarrow> None) rows))"

definition collection_note_counts :: "serde \<Rightarrow> store \<Rightarrow> db_error + collection_note_count list" where
  "collection_note_counts J st =
     and_then (live_ids J st ''notes'') (\<lambda>live_notes.
     and_then (list_live J st ''collection_memberships'' None (-1) 0) (\<lambda>rows.
       Inr (sort_by (\<lambda>a b. cnc_collection_id a \<le> cnc_collection_id b)
         (map (\<lambda>(c, n). \<lparr>cnc_collection_id = c, cnc_count = n\<rparr>)
           (fold bump (map fst (counted_pairs live_notes rows)) [])))))"

subsection \<open>Questions\<close>

definition attach_row ::
  "string list \<Rightarrow> row \<Rightarrow> (string \<times> string fset) list \<Rightarrow> (string \<times> string fset) list" where
  "attach_row live_notes r out =
     (case (string_field r ''question_id'', string_field r ''note_id'') of
        (Some q, Some n) \<Rightarrow>
          if n \<in> set live_notes then bt_update q (\<lambda>ns. finsert n (unwrap_or ns {||})) out else out
      | _ \<Rightarrow> out)"

definition attachments ::
  "serde \<Rightarrow> store \<Rightarrow> string option \<Rightarrow> db_error + (string \<times> string fset) list" where
  "attachments J st only =
     and_then (live_ids J st ''notes'') (\<lambda>live_notes.
     and_then (list_live J st ''question_notes'' (map_option (\<lambda>i. (''question_id'', i)) only) (-1) 0)
       (\<lambda>rows. Inr (fold (attach_row live_notes) rows [])))"

text \<open>Active first, then newest first, then by id.\<close>

definition log_le :: "question_log_entry \<Rightarrow> question_log_entry \<Rightarrow> bool" where
  "log_le a b =
     (let qa = qle_question a; qb = qle_question b; aa = is_active (qr_status qa);
          ab = is_active (qr_status qb)
      in if aa \<noteq> ab then aa
         else if qr_created_at qa \<noteq> qr_created_at qb then qr_created_at qb < qr_created_at qa
         else qr_id qa \<le> qr_id qb)"

definition list_questions ::
  "serde \<Rightarrow> crypto \<Rightarrow> store \<Rightarrow> vault \<Rightarrow> db_error + question_log_entry list" where
  "list_questions J C st v =
     and_then (attachments J st None) (\<lambda>attached.
     and_then (list_live J st ''questions'' None (-1) 0) (\<lambda>rows.
       Inr (sort_by log_le (map (\<lambda>r.
         let question = to_question_record C v r in
         \<lparr>qle_question = question,
          qle_note_count = of_nat (case map_of attached (qr_id question) of
            None \<Rightarrow> 0 | Some ns \<Rightarrow> fcard ns)\<rparr>) rows))))"

definition get_question ::
  "serde \<Rightarrow> crypto \<Rightarrow> store \<Rightarrow> vault \<Rightarrow> string \<Rightarrow> db_error + question_record option" where
  "get_question J C st v i =
     and_then (get_row J st ''questions'' i) (\<lambda>row.
       case row of
         Some r \<Rightarrow> Inr (if \<not> is_deleted r then Some (to_question_record C v r) else None)
       | None \<Rightarrow> Inr None)"

definition newest_le :: "row \<Rightarrow> row \<Rightarrow> bool" where
  "newest_le a b =
     (if int_field a ''created_at'' \<noteq> int_field b ''created_at''
      then int_field b ''created_at'' < int_field a ''created_at''
      else case (string_field a ''id'', string_field b ''id'') of
             (None, _) \<Rightarrow> True | (Some _, None) \<Rightarrow> False | (Some x, Some y) \<Rightarrow> x \<le> y)"

definition active_question_records ::
  "serde \<Rightarrow> crypto \<Rightarrow> store \<Rightarrow> vault \<Rightarrow> db_error + question_record list" where
  "active_question_records J C st v =
     and_then (list_live J st ''questions'' None (-1) 0) (\<lambda>rows.
       Inr (map (to_question_record C v) (sort_by newest_le
         (filter (\<lambda>r. is_active (string_field r ''status'')) rows))))"

definition question_notes ::
  "serde \<Rightarrow> crypto \<Rightarrow> store \<Rightarrow> vault \<Rightarrow> string \<Rightarrow> db_error + note_record list" where
  "question_notes J C st v question_id =
     and_then (get_row J st ''questions'' question_id) (\<lambda>row.
       if (case row of Some r \<Rightarrow> is_deleted r | None \<Rightarrow> True) then Inr []
       else and_then (attachments J st (Some question_id)) (\<lambda>attached.
            and_then (list_live J st ''notes'' None (-1) 0) (\<lambda>rows.
              let ids = unwrap_or (map_of attached question_id) {||} in
              Inr (map (to_note_record J C v) (filter (\<lambda>r.
                case string_field r ''id'' of Some i \<Rightarrow> i |\<in>| ids | None \<Rightarrow> False) rows)))))"

definition unattached_notes_since ::
  "serde \<Rightarrow> crypto \<Rightarrow> store \<Rightarrow> vault \<Rightarrow> int \<Rightarrow> db_error + note_record list" where
  "unattached_notes_since J C st v since_ms =
     and_then (live_ids J st ''questions'') (\<lambda>live_questions.
     and_then (attachments J st None) (\<lambda>attached.
     and_then (list_live J st ''notes'' None (-1) 0) (\<lambda>rows.
       let homes = filter (\<lambda>(q, _). q \<in> set live_questions) attached in
       Inr (map (to_note_record J C v) (filter (\<lambda>r.
         since_ms \<le> int_field r ''created_at'' \<and>
         (case string_field r ''id'' of None \<Rightarrow> False
          | Some i \<Rightarrow> \<not> list_ex (\<lambda>(_, ns). i |\<in>| ns) homes)) rows)))))"

definition user_setting :: "serde \<Rightarrow> store \<Rightarrow> string \<Rightarrow> db_error + string option" where
  "user_setting J st key =
     and_then (get_row J st ''user_settings'' key) (\<lambda>row.
       case row of
         Some r \<Rightarrow> Inr (if \<not> is_deleted r then string_field r ''value'' else None)
       | None \<Rightarrow> Inr None)"

definition question_metas :: "serde \<Rightarrow> store \<Rightarrow> db_error + question_meta list" where
  "question_metas J st =
     and_then (list_live J st ''questions'' None (-1) 0) (\<lambda>rows.
       Inr (map (\<lambda>r. \<lparr>qm_id = unwrap_or (string_field r ''id'') [], qm_status = string_field r ''status'',
          qm_created_at = int_field r ''created_at'', qm_updated_at = int_field r ''updated_at'',
          qm_resolved_at = opt_int_field r ''resolved_at'',
          qm_checkin_at = opt_int_field r ''checkin_at''\<rparr>) rows))"

subsection \<open>This week, and the search corpus\<close>

definition WEEK_MS :: int where "WEEK_MS = 7 * 24 * 60 * 60 * 1000"

definition fresh_notes ::
  "serde \<Rightarrow> crypto \<Rightarrow> store \<Rightarrow> vault \<Rightarrow> int \<Rightarrow> db_error + note_record list" where
  "fresh_notes J C st v now_ms =
     and_then (list_live J st ''notes'' None (-1) 0) (\<lambda>rows.
       let cutoff = wrapping_sub now_ms WEEK_MS in
       Inr (filter (\<lambda>rec. \<not> (nr_decrypt_failed rec \<or> str_trim (unwrap_or (nr_text rec) []) = []))
         (map (to_note_record J C v) (filter (\<lambda>r. \<not> int_field r ''created_at'' < cutoff) rows))))"

definition notes_this_week ::
  "serde \<Rightarrow> crypto \<Rightarrow> store \<Rightarrow> vault \<Rightarrow> int \<Rightarrow> db_error + 32 word" where
  "notes_this_week J C st v now_ms =
     and_then (fresh_notes J C st v now_ms) (\<lambda>fresh. Inr (of_nat (length fresh)))"

definition recent_note ::
  "serde \<Rightarrow> crypto \<Rightarrow> store \<Rightarrow> vault \<Rightarrow> int \<Rightarrow> 64 word \<Rightarrow> db_error + note_record option" where
  "recent_note J C st v now_ms seed =
     and_then (fresh_notes J C st v now_ms) (\<lambda>fresh.
       if fresh = [] then Inr None
       else Inr (Some (fresh ! unat (seed mod of_nat (length fresh)))))"

definition note_doc :: "crypto \<Rightarrow> vault \<Rightarrow> row \<Rightarrow> search_doc option" where
  "note_doc C v r =
     (let i = unwrap_or (string_field r ''id'') [];
          (text, failed) = decrypt_note_text C v r i;
          content = str_trim (unwrap_or text [])
      in if failed \<or> content = [] then None
         else Some \<lparr>sd_kind = NoteDoc, sd_ref_id = i, sd_title = [], sd_content = content\<rparr>)"

definition idea_doc :: "row \<Rightarrow> search_doc option" where
  "idea_doc r =
     (let i = unwrap_or (string_field r ''id'') [];
          title = str_trim (unwrap_or (string_field r ''name'') []);
          content = str_trim (unwrap_or (string_field r ''description'') [])
      in if title = [] \<and> content = [] then None
         else Some \<lparr>sd_kind = IdeaDoc, sd_ref_id = i, sd_title = title, sd_content = content\<rparr>)"

definition build_search_docs :: "serde \<Rightarrow> crypto \<Rightarrow> store \<Rightarrow> vault \<Rightarrow> db_error + search_doc list" where
  "build_search_docs J C st v =
     and_then (list_live J st ''notes'' None (-1) 0) (\<lambda>notes.
     and_then (list_live J st ''custom_ideas'' None (-1) 0) (\<lambda>ideas.
       Inr (List.map_filter (note_doc C v) notes @ List.map_filter idea_doc ideas)))"

subsection \<open>What a scan returns\<close>

lemma string_field_row_str: "string_field r key = row_str r key"
  by (cases "fmlookup r key"; cases "the (fmlookup r key)") (simp_all add: string_field_def row_str_def)

text \<open>The text of a column of a stored row.\<close>

definition sql_text :: "sqlval \<Rightarrow> string option" where
  "sql_text v = (case v of SText s \<Rightarrow> Some s | _ \<Rightarrow> None)"

lemma sql_text_Some [simp]: "sql_text v = Some s \<longleftrightarrow> v = SText s"
  by (cases v) (simp_all add: sql_text_def)

lemma sql_text_SText [simp]: "sql_text (SText s) = Some s"
  by simp

lemma string_field_sql:
  "map_of (ts_columns t) c = Some CText \<Longrightarrow> string_field (row_of_sql J t r) c = sql_text (r c)"
  by (cases "r c") (simp_all add: string_field_def fmlookup_row_of_sql sql_to_json_def sql_text_def json_i64_def)

lemma is_deleted_sql:
  "desc_ok t \<Longrightarrow> is_deleted (row_of_sql J t r) \<longleftrightarrow> (\<exists>i. r ''deleted'' = SInteger i \<and> i \<noteq> 0)"
  by (cases "r ''deleted''") (simp_all add: is_deleted_def fmlookup_row_of_sql sql_to_json_def desc_ok_def)

lemma list_live_scan:
  assumes t: "table_schema table = Some t" and "has_column t ''created_at''"
    and "list_all (has_column t) (filter_columns flt)"
  obtains rs where "list_live J st table flt (-1) 0 = Inr (map (row_of_sql J t) rs)"
    and "mset rs = mset (filter (\<lambda>r. is_live r \<and> matches flt r) (tables st table))"
    and "set rs = {r \<in> set (tables st table). is_live r \<and> matches flt r}"
proof
  have "missing_column t (filter_columns flt @ [''created_at'']) = None"
    using assms(2,3) by (auto simp: missing_column_def find_None_iff list_all_iff)
  then show "list_live J st table flt (-1) 0 = Inr (map (row_of_sql J t)
      (sort_by (order_desc ''created_at'' (pk_of t)) (filter (\<lambda>r. is_live r \<and> matches flt r) (tables st table))))"
    using t table_schema_Some(1) [OF t] by (simp add: list_live_def limit_offset_def)
qed simp_all

text \<open>The descriptors the reads scan.\<close>

definition books_desc :: table_desc where "books_desc = descriptor_tables ! 0"
definition notes_desc :: table_desc where "notes_desc = descriptor_tables ! 1"
definition memberships_desc :: table_desc where "memberships_desc = descriptor_tables ! 6"
definition questions_desc :: table_desc where "questions_desc = descriptor_tables ! 8"
definition question_notes_desc :: table_desc where "question_notes_desc = descriptor_tables ! 9"
definition settings_desc :: table_desc where "settings_desc = descriptor_tables ! 10"

lemmas desc_defs = books_desc_def notes_desc_def memberships_desc_def questions_desc_def
  question_notes_desc_def settings_desc_def

lemma read_schemas:
  "table_schema ''question_notes'' = Some question_notes_desc"
  "table_schema ''collection_memberships'' = Some memberships_desc"
  "table_schema ''user_settings'' = Some (settings_desc)"
  "table_schema ''notes'' = Some notes_desc"
  "table_schema ''questions'' = Some questions_desc"
  "table_schema ''books'' = Some books_desc"
  by (simp_all add: table_schema_def schema_defs desc_defs)

lemma read_pks [simp]:
  "pk_of notes_desc = ''id''" "pk_of questions_desc = ''id''" "pk_of books_desc = ''id''"
  "pk_of question_notes_desc = ''id''" "pk_of memberships_desc = ''id''" "pk_of settings_desc = ''key''"
  by (simp_all add: schema_defs desc_defs pk_of_def)

lemma read_columns:
  "map_of (ts_columns books_desc) ''id'' = Some CText"
  "map_of (ts_columns books_desc) ''merged_into'' = Some CText"
  "map_of (ts_columns notes_desc) ''id'' = Some CText"
  "map_of (ts_columns notes_desc) ''created_at'' = Some CInt"
  "map_of (ts_columns notes_desc) ''text'' = Some CText"
  "map_of (ts_columns questions_desc) ''id'' = Some CText"
  "map_of (ts_columns question_notes_desc) ''question_id'' = Some CText"
  "map_of (ts_columns question_notes_desc) ''note_id'' = Some CText"
  "map_of (ts_columns memberships_desc) ''collection_id'' = Some CText"
  "map_of (ts_columns memberships_desc) ''note_id'' = Some CText"
  "map_of (ts_columns books_desc) ''url'' = Some CText"
  by (simp_all add: schema_defs desc_defs)

lemma read_has_column:
  "has_column books_desc ''created_at''" "has_column notes_desc ''created_at''"
  "has_column questions_desc ''created_at''" "has_column question_notes_desc ''created_at''"
  "has_column memberships_desc ''created_at''" "has_column question_notes_desc ''question_id''"
  "has_column memberships_desc ''collection_id''" "has_column notes_desc ''book_id''"
  by (simp_all add: schema_defs desc_defs has_column_def)

lemma live_not_deleted: "desc_ok t \<Longrightarrow> is_live r \<Longrightarrow> \<not> is_deleted (row_of_sql J t r)"
  by (simp add: is_deleted_sql is_live_def)

lemma set_map_filter: "set (List.map_filter f xs) = {y. \<exists>x \<in> set xs. f x = Some y}"
  by (induction xs) (auto simp: map_filter_simps split: option.splits)

text \<open>The ids of the live rows.\<close>

definition live_id_set :: "store \<Rightarrow> string \<Rightarrow> string set" where
  "live_id_set st table = {i. \<exists>r \<in> set (tables st table). is_live r \<and> r ''id'' = SText i}"

lemma live_ids_eq:
  assumes "table = ''notes'' \<or> table = ''questions''"
  obtains ids where "live_ids J st table = Inr ids" "set ids = live_id_set st table"
proof -
  obtain t where t: "table_schema table = Some t" "has_column t ''created_at''"
    "map_of (ts_columns t) ''id'' = Some CText"
    using assms read_schemas(4,5) read_has_column read_columns by blast
  obtain rs where rs: "list_live J st table None (-1) 0 = Inr (map (row_of_sql J t) rs)"
    "set rs = {r \<in> set (tables st table). is_live r \<and> matches None r}"
    using t(1,2) by (rule list_live_scan [where flt = None and J = J and st = st]) (simp add: filter_columns_def)
  then have "set rs = {r \<in> set (tables st table). is_live r}" by (simp add: matches_def)
  with that rs(1) show ?thesis
    by (simp add: live_ids_def live_id_set_def set_map_filter string_field_sql [OF t(3)] Bex_def)
qed

subsection \<open>Attachments\<close>

definition attached_to :: "store \<Rightarrow> string \<Rightarrow> string set" where
  "attached_to st q = {n \<in> live_id_set st ''notes''. \<exists>r \<in> set (tables st ''question_notes'').
     is_live r \<and> r ''question_id'' = SText q \<and> r ''note_id'' = SText n}"

lemma attach_fold:
  assumes "bt_sorted out"
  shows "bt_sorted (fold (attach_row live) rows out) \<and>
    fset (unwrap_or (map_of (fold (attach_row live) rows out) q) {||}) =
      fset (unwrap_or (map_of out q) {||}) \<union> {n \<in> set live. \<exists>r \<in> set rows.
        string_field r ''question_id'' = Some q \<and> string_field r ''note_id'' = Some n}"
  using assms
proof (induction rows arbitrary: out)
  case (Cons r rows)
  have s: "bt_sorted (attach_row live r out)"
    using Cons.prems by (auto simp: attach_row_def bt_update_sorted split: option.splits)
  have "fset (unwrap_or (map_of (attach_row live r out) q) {||}) =
      fset (unwrap_or (map_of out q) {||}) \<union> {n \<in> set live.
        string_field r ''question_id'' = Some q \<and> string_field r ''note_id'' = Some n}"
    using Cons.prems by (auto simp: attach_row_def map_of_bt_update split: option.splits)
  with Cons.IH [OF s] show ?case by auto
qed simp

lemma attachments_eq:
  assumes "only = None \<or> only = Some q"
  obtains att where "attachments J st only = Inr att" "bt_sorted att"
    "fset (unwrap_or (map_of att q) {||}) = attached_to st q"
proof -
  obtain ids where ids: "live_ids J st ''notes'' = Inr ids" "set ids = live_id_set st ''notes''"
    using live_ids_eq [of "''notes''" J st] by blast
  let ?flt = "map_option (\<lambda>i. (''question_id'', i)) only"
  obtain rs where rs: "list_live J st ''question_notes'' ?flt (-1) 0 = Inr (map (row_of_sql J question_notes_desc) rs)"
    "set rs = {r \<in> set (tables st ''question_notes''). is_live r \<and> matches ?flt r}"
    by (rule list_live_scan [OF read_schemas(1) read_has_column(4), where flt = ?flt and J = J and st = st])
      (auto simp: filter_columns_def read_has_column split: option.splits)
  let ?rows = "map (row_of_sql J question_notes_desc) rs"
  have "r ''question_id'' = SText q \<Longrightarrow> matches ?flt r" for r
    using assms by (auto simp: matches_def)
  then have "(\<exists>r \<in> set rs. r ''question_id'' = SText q \<and> r ''note_id'' = SText n) \<longleftrightarrow>
      (\<exists>r \<in> set (tables st ''question_notes''). is_live r \<and> r ''question_id'' = SText q \<and> r ''note_id'' = SText n)" for n
    unfolding rs(2) by blast
  then have "fset (unwrap_or (map_of (fold (attach_row ids) ?rows []) q) {||}) = attached_to st q"
    using attach_fold [of "[]" ids ?rows q] ids(2)
    by (simp add: attached_to_def string_field_sql read_columns)
  moreover have "attachments J st only = Inr (fold (attach_row ids) ?rows [])"
    using ids(1) rs(1) by (simp add: attachments_def)
  ultimately show ?thesis using attach_fold [of "[]" ids ?rows q] that by simp
qed

lemma pk_unique_distinct:
  assumes "pk_unique t rs"
  shows "distinct (List.map_filter (\<lambda>r. sql_text (r (pk_of t))) rs)"
proof -
  have "map SText (List.map_filter (\<lambda>r. sql_text (r (pk_of t))) rs) =
      filter (\<lambda>v. sql_text v \<noteq> None) (filter (\<lambda>v. v \<noteq> SNull) (map (\<lambda>r. r (pk_of t)) rs))"
    by (induction rs) (auto simp: map_filter_simps sql_text_def split: sqlval.splits)
  with assms have "distinct (map SText (List.map_filter (\<lambda>r. sql_text (r (pk_of t))) rs))"
    unfolding pk_unique_def by (simp only: distinct_filter)
  then show ?thesis by (simp add: distinct_map)
qed

text \<open>The notes a question's page lists are the attached ones, each once.\<close>

lemma length_filter_ids:
  assumes "distinct (List.map_filter f rs)" and "finite A" and "A \<subseteq> set (List.map_filter f rs)"
  shows "length (filter (\<lambda>r. case f r of Some i \<Rightarrow> i \<in> A | None \<Rightarrow> False) rs) = card A"
proof -
  have "List.map_filter f (filter (\<lambda>r. case f r of Some i \<Rightarrow> i \<in> A | None \<Rightarrow> False) rs) =
      filter (\<lambda>i. i \<in> A) (List.map_filter f rs)"
    by (induction rs) (auto simp: map_filter_simps split: option.splits)
  moreover have "length (List.map_filter f (filter (\<lambda>r. case f r of Some i \<Rightarrow> i \<in> A | None \<Rightarrow> False) rs)) =
      length (filter (\<lambda>r. case f r of Some i \<Rightarrow> i \<in> A | None \<Rightarrow> False) rs)"
    by (induction rs) (auto simp: map_filter_simps split: option.splits)
  moreover have "length (filter (\<lambda>i. i \<in> A) (List.map_filter f rs)) = card (set (filter (\<lambda>i. i \<in> A) (List.map_filter f rs)))"
    using assms(1) by (intro distinct_card [symmetric]) simp
  moreover have "set (filter (\<lambda>i. i \<in> A) (List.map_filter f rs)) = A" using assms(3) by auto
  ultimately show ?thesis by simp
qed

lemma store_inv_unique:
  "store_inv st \<Longrightarrow> table_schema table = Some t \<Longrightarrow> pk_unique t (tables st table)"
  using table_schema_in [of table t] table_schema_Some(1) [of table t]
  by (auto simp: store_inv_def tables_unique_def)

lemma get_row_of_table:
  assumes "store_inv st" and t: "table_schema table = Some t"
    and r: "r \<in> set (tables st table)" "r (pk_of t) = SText i"
  shows "get_row J st table i = Inr (Some (row_of_sql J t r))"
proof (cases "find (\<lambda>r. r (pk_of t) = SText i) (tables st table)")
  case None
  with r show ?thesis by (auto simp: find_None_iff)
next
  case (Some r')
  then have "r' \<in> set (tables st table) \<and> r' (pk_of t) = SText i" by (rule find_SomeD)
  with r have "r' = r" using pk_unique_at_most_one [OF store_inv_unique [OF assms(1) t]] by blast
  with Some t show ?thesis by (simp add: get_row_eq)
qed

text \<open>The scan of all live notes: its rows, with ids pairwise distinct.\<close>

lemma live_rows_scan:
  assumes "store_inv st" and t: "table_schema table = Some t" "has_column t ''created_at''" "pk_of t = ''id''"
  obtains rs where "list_live J st table None (-1) 0 = Inr (map (row_of_sql J t) rs)"
    and "set rs = {r \<in> set (tables st table). is_live r}"
    and "distinct (List.map_filter (\<lambda>r. sql_text (r ''id'')) rs)"
    and "set (List.map_filter (\<lambda>r. sql_text (r ''id'')) rs) = live_id_set st table"
proof -
  obtain rs where rs: "list_live J st table None (-1) 0 = Inr (map (row_of_sql J t) rs)"
    "mset rs = mset (filter (\<lambda>r. is_live r \<and> matches None r) (tables st table))"
    "set rs = {r \<in> set (tables st table). is_live r \<and> matches None r}"
    using t(1,2) by (rule list_live_scan [where flt = None and J = J and st = st]) (simp add: filter_columns_def)
  have mf: "mset (List.map_filter f xs) = mset (List.map_filter f ys)" if "mset xs = mset ys"
    for f :: "sqlrow \<Rightarrow> string option" and xs ys
    using that by (simp add: List.map_filter_def)
  have sub: "distinct (List.map_filter f (filter P xs))" if "distinct (List.map_filter f xs)"
    for f :: "sqlrow \<Rightarrow> string option" and P xs
    using that by (induction xs) (auto simp: map_filter_simps set_map_filter split: option.splits)
  have "distinct (List.map_filter (\<lambda>r. sql_text (r ''id'')) (tables st table))"
    using pk_unique_distinct [OF store_inv_unique [OF assms(1) t(1)]] t(3) by simp
  then have "distinct (List.map_filter (\<lambda>r. sql_text (r ''id'')) rs)"
    using sub mset_eq_imp_distinct_iff [OF mf [OF rs(2)]] by blast
  with that rs show ?thesis by (auto simp: matches_def live_id_set_def set_map_filter)
qed

lemma live_notes_scan:
  assumes "store_inv st"
  shows "\<exists>rs. list_live J st ''notes'' None (-1) 0 = Inr (map (row_of_sql J notes_desc) rs) \<and>
    set rs = {r \<in> set (tables st ''notes''). is_live r} \<and>
    distinct (List.map_filter (\<lambda>r. sql_text (r ''id'')) rs) \<and>
    set (List.map_filter (\<lambda>r. sql_text (r ''id'')) rs) = live_id_set st ''notes''"
  by (rule live_rows_scan [OF assms read_schemas(4) read_has_column(2) read_pks(1), of J]) blast

lemma live_questions_scan:
  assumes "store_inv st"
  shows "\<exists>rs. list_live J st ''questions'' None (-1) 0 = Inr (map (row_of_sql J questions_desc) rs) \<and>
    set rs = {r \<in> set (tables st ''questions''). is_live r}"
  by (rule live_rows_scan [OF assms read_schemas(5) read_has_column(3) read_pks(2), of J]) blast

lemma question_notes_eq:
  assumes inv: "store_inv st" and q: "q \<in> live_id_set st ''questions''"
  obtains ns where "question_notes J C st v q = Inr ns"
    and "set (map nr_id ns) = attached_to st q" and "length ns = card (attached_to st q)"
    and "list_all (\<lambda>n. n \<in> set (map (to_note_record J C v \<circ> row_of_sql J notes_desc)
      (filter is_live (tables st ''notes'')))) ns"
proof -
  obtain r where r: "r \<in> set (tables st ''questions'')" "is_live r" "r ''id'' = SText q"
    using q by (auto simp: live_id_set_def)
  have row: "get_row J st ''questions'' q = Inr (Some (row_of_sql J questions_desc r))"
    using get_row_of_table [OF inv read_schemas(5) r(1)] r(3) by simp
  have alive: "\<not> is_deleted (row_of_sql J questions_desc r)"
    using live_not_deleted [OF table_schema_Some(2) [OF read_schemas(5)] r(2)] .
  obtain att where att: "attachments J st (Some q) = Inr att"
    "fset (unwrap_or (map_of att q) {||}) = attached_to st q"
    using attachments_eq [of "Some q" q J st] by auto
  let ?t = "notes_desc"
  obtain rs where rs: "list_live J st ''notes'' None (-1) 0 = Inr (map (row_of_sql J ?t) rs)"
    "set rs = {r \<in> set (tables st ''notes''). is_live r}"
    "distinct (List.map_filter (\<lambda>r. sql_text (r ''id'')) rs)"
    "set (List.map_filter (\<lambda>r. sql_text (r ''id'')) rs) = live_id_set st ''notes''"
    using live_notes_scan [OF inv] by blast
  let ?hit = "\<lambda>r. case sql_text (r ''id'') of Some i \<Rightarrow> i \<in> attached_to st q | None \<Rightarrow> False"
  have sub: "attached_to st q \<subseteq> live_id_set st ''notes''" by (auto simp: attached_to_def)
  have ns: "question_notes J C st v q = Inr (map (to_note_record J C v \<circ> row_of_sql J ?t) (filter ?hit rs))"
    unfolding att(2) [symmetric] using row alive att(1) rs(1)
    by (simp add: question_notes_def Let_def filter_map o_def string_field_sql read_columns(3))
  have "length (filter ?hit rs) = card (attached_to st q)"
    using rs(3,4) sub finite_set [of "List.map_filter (\<lambda>r. sql_text (r ''id'')) rs"]
    by (intro length_filter_ids) (auto intro: finite_subset)
  moreover have "nr_id (to_note_record J C v (row_of_sql J ?t r)) = unwrap_or (sql_text (r ''id'')) []" for r
    by (simp add: to_note_record_def Let_def string_field_sql read_columns(3) split: prod.splits)
  moreover have "(\<lambda>r. unwrap_or (sql_text (r ''id'')) []) ` set (filter ?hit rs) = attached_to st q"
  proof -
    have "n \<in> (\<lambda>r. unwrap_or (sql_text (r ''id'')) []) ` set (filter ?hit rs)"
      if n: "n \<in> attached_to st q" for n
    proof -
      from n sub rs(4) obtain r where "r \<in> set rs" "r ''id'' = SText n" by (auto simp: set_map_filter)
      with n show ?thesis by (intro image_eqI [of _ _ r]) simp_all
    qed
    moreover have "unwrap_or (sql_text (r ''id'')) [] \<in> attached_to st q" if "?hit r" for r
      using that by (cases "sql_text (r ''id'')") simp_all
    ultimately show ?thesis by auto
  qed
  ultimately show ?thesis
    using rs(2) by (intro that [OF ns]) (auto simp: list_all_iff image_image o_def)
qed

lemma question_notes_ex:
  assumes "store_inv st" and "q \<in> live_id_set st ''questions''"
  shows "\<exists>ns. question_notes J C st v q = Inr ns \<and> set (map nr_id ns) = attached_to st q \<and>
    length ns = card (attached_to st q)"
  by (rule question_notes_eq [OF assms, of J C v]) blast

lemma sorted_log_le: "sorted_wrt log_le (sort_by log_le es)"
  by (rule sorted_sort_by) (auto simp: log_le_def Let_def split: if_splits)

lemma list_questions_eq:
  assumes inv: "store_inv st"
  obtains att rs where "list_questions J C st v = Inr (sort_by log_le (map (\<lambda>r.
      let question = to_question_record C v (row_of_sql J questions_desc r) in
      \<lparr>qle_question = question, qle_note_count = of_nat (case map_of att (qr_id question) of
         None \<Rightarrow> 0 | Some ns \<Rightarrow> fcard ns)\<rparr>) rs))"
    and "attachments J st None = Inr att"
    and "set rs = {r \<in> set (tables st ''questions''). is_live r}"
proof -
  obtain att where att: "attachments J st None = Inr att"
    using attachments_eq [of None "[]" J st] by auto
  obtain rs where rs: "list_live J st ''questions'' None (-1) 0 = Inr (map (row_of_sql J questions_desc) rs)"
    "set rs = {r \<in> set (tables st ''questions''). is_live r}"
    using live_questions_scan [OF inv] by blast
  show ?thesis using att rs by (intro that [OF _ att rs(2)]) (simp add: list_questions_def o_def)
qed

text \<open>A store with a question and two notes, one of them attached to it.\<close>

definition question_store :: store where
  "question_store = empty_store\<lparr>tables := (\<lambda>_. [])(
     ''notes'' := map (\<lambda>i. (\<lambda>_. SNull)(''id'' := SText i, ''created_at'' := SInteger 5,
        ''updated_at'' := SInteger 5, ''deleted'' := SInteger 0)) [''n1'', ''n2''],
     ''questions'' := [(\<lambda>_. SNull)(''id'' := SText ''q'', ''created_at'' := SInteger 3,
        ''updated_at'' := SInteger 3, ''deleted'' := SInteger 0)],
     ''question_notes'' := [(\<lambda>_. SNull)(''id'' := SText ''q:n1'', ''question_id'' := SText ''q'',
        ''note_id'' := SText ''n1'', ''created_at'' := SInteger 6, ''updated_at'' := SInteger 6,
        ''deleted'' := SInteger 0)])\<rparr>"

lemma question_store_inv: "store_inv question_store"
  unfolding question_store_def by (rule store_inv_tables)
    (simp add: schema_defs pk_unique_def pk_of_def row_typed_def is_i64_def i64_min_def i64_max_def)

lemma question_store_live:
  "live_id_set question_store ''questions'' = {''q''}" "live_id_set question_store ''notes'' = {''n1'', ''n2''}"
  by (auto simp: live_id_set_def question_store_def is_live_def)

lemma question_store_attached: "attached_to question_store ''q'' = {''n1''}"
  by (auto simp: attached_to_def question_store_live) (auto simp: question_store_def is_live_def)

text \<open>
  The question log always loads, in its order, and the number it shows beside a
  question is the length of the list that question's page opens.
\<close>

theorem question_log_counts:
  assumes inv: "store_inv st"
  shows "\<exists>es. list_questions J C st v = Inr es \<and> sorted_wrt log_le es \<and>
    (\<forall>e \<in> set es. qr_id (qle_question e) \<noteq> [] \<longrightarrow>
      (\<exists>ns. question_notes J C st v (qr_id (qle_question e)) = Inr ns \<and>
            qle_note_count e = of_nat (length ns)))"
proof -
  obtain att rs where es: "list_questions J C st v = Inr (sort_by log_le (map (\<lambda>r.
      let question = to_question_record C v (row_of_sql J questions_desc r) in
      \<lparr>qle_question = question, qle_note_count = of_nat (case map_of att (qr_id question) of
         None \<Rightarrow> 0 | Some ns \<Rightarrow> fcard ns)\<rparr>) rs))" (is "_ = Inr ?es")
    and att: "attachments J st None = Inr att"
    and rs: "set rs = {r \<in> set (tables st ''questions''). is_live r}"
    by (rule list_questions_eq [OF inv])
  have "\<exists>ns. question_notes J C st v (qr_id (qle_question e)) = Inr ns \<and> qle_note_count e = of_nat (length ns)"
    if e: "e \<in> set ?es" and i: "qr_id (qle_question e) \<noteq> []" for e
  proof -
    from e obtain r where r: "r \<in> set rs" and eq: "qle_question e = to_question_record C v (row_of_sql J questions_desc r)"
      "qle_note_count e = of_nat (case map_of att (qr_id (qle_question e)) of None \<Rightarrow> 0 | Some ns \<Rightarrow> fcard ns)"
      by (auto simp: Let_def)
    have "qr_id (qle_question e) = unwrap_or (sql_text (r ''id'')) []"
      by (simp add: eq(1) to_question_record_def Let_def string_field_sql read_columns split: prod.splits)
    with i have q: "r ''id'' = SText (qr_id (qle_question e))"
      by (cases "sql_text (r ''id'')") auto
    with r rs have live: "qr_id (qle_question e) \<in> live_id_set st ''questions''"
      by (auto simp: live_id_set_def)
    obtain ns where ns: "question_notes J C st v (qr_id (qle_question e)) = Inr ns"
      "length ns = card (attached_to st (qr_id (qle_question e)))"
      using question_notes_ex [OF inv live] by blast
    obtain att' where "attachments J st None = Inr att'"
      "fset (unwrap_or (map_of att' (qr_id (qle_question e))) {||}) = attached_to st (qr_id (qle_question e))"
      using attachments_eq [of None "qr_id (qle_question e)" J st] by auto
    with att have "fcard (unwrap_or (map_of att (qr_id (qle_question e))) {||}) = length ns"
      using ns(2) by (simp add: fcard.rep_eq)
    then have "qle_note_count e = of_nat (length ns)"
      unfolding eq(2) by (cases "map_of att (qr_id (qle_question e))") (auto simp: fcard.rep_eq)
    with ns(1) show ?thesis by blast
  qed
  with es sorted_log_le show ?thesis by blast
qed

theorem question_log_counts_witness:
  "\<exists>es. list_questions mute_serde toy_crypto question_store (new_vault toy_mk) = Inr es \<and>
     (\<forall>e \<in> set es. qr_id (qle_question e) = ''q'' \<longrightarrow> qle_note_count e = 1)"
proof -
  obtain ns where ns: "question_notes mute_serde toy_crypto question_store (new_vault toy_mk) ''q'' = Inr ns"
    "length ns = card (attached_to question_store ''q'')"
    using question_notes_ex [OF question_store_inv] question_store_live(1) by blast
  obtain es where es: "list_questions mute_serde toy_crypto question_store (new_vault toy_mk) = Inr es"
    and e: "\<forall>e \<in> set es. qr_id (qle_question e) \<noteq> [] \<longrightarrow>
      (\<exists>ns. question_notes mute_serde toy_crypto question_store (new_vault toy_mk) (qr_id (qle_question e)) = Inr ns \<and>
        qle_note_count e = of_nat (length ns))"
    using question_log_counts [OF question_store_inv, of mute_serde toy_crypto "new_vault toy_mk"] by blast
  have "qle_note_count x = 1" if "x \<in> set es" "qr_id (qle_question x) = ''q''" for x
    using e [rule_format, OF that(1)] that(2) ns by (simp add: question_store_attached)
  with es show ?thesis by blast
qed

lemma filter_image:
  "(\<And>r. g r = n \<Longrightarrow> P r \<longleftrightarrow> Q) \<Longrightarrow> n \<in> set (map g rows) \<Longrightarrow> n \<in> set (map g (filter P rows)) \<longleftrightarrow> Q"
  by auto

text \<open>
  The check-in's list of unattached notes is exactly the complement of the
  question pages: a listed note with an id appears in it when it is recent enough and no live
  question's page shows it.
\<close>

theorem unattached_is_complement:
  assumes inv: "store_inv st" and n: "list_notes J C st v None (-1) 0 = Inr notes" "n \<in> set notes" "nr_id n \<noteq> []"
  shows "\<exists>us. unattached_notes_since J C st v since_ms = Inr us \<and>
    (n \<in> set us \<longleftrightarrow> since_ms \<le> nr_created_at n \<and>
      (\<forall>q \<in> live_id_set st ''questions''. \<exists>ns. question_notes J C st v q = Inr ns \<and> nr_id n \<notin> set (map nr_id ns)))"
proof -
  obtain rs where rs: "list_live J st ''notes'' None (-1) 0 = Inr (map (row_of_sql J notes_desc) rs)"
    using live_notes_scan [OF inv] by blast
  obtain qs where qs: "live_ids J st ''questions'' = Inr qs" "set qs = live_id_set st ''questions''"
    using live_ids_eq [of "''questions''" J st] by blast
  obtain att where att: "attachments J st None = Inr att" "bt_sorted att"
    using attachments_eq [of None "[]" J st] by auto
  let ?taken = "\<lambda>i. list_ex (\<lambda>(_, ns). i |\<in>| ns) (filter (\<lambda>(q, _). q \<in> set qs) att)"
  let ?free = "\<lambda>r. since_ms \<le> int_field r ''created_at'' \<and>
    (case string_field r ''id'' of None \<Rightarrow> False | Some i \<Rightarrow> \<not> ?taken i)"
  have us: "unattached_notes_since J C st v since_ms =
      Inr (map (to_note_record J C v) (filter ?free (map (row_of_sql J notes_desc) rs)))"
    using qs(1) att(1) rs by (simp add: unattached_notes_since_def Let_def)
  have dist: "distinct (map fst att)" using att(2) by (simp add: strict_sorted_iff)
  have mo: "fset (unwrap_or (map_of att q) {||}) = attached_to st q" for q
    using attachments_eq [of None q J st] att(1) by auto
  have taken: "?taken i \<longleftrightarrow> (\<exists>q \<in> live_id_set st ''questions''. i \<in> attached_to st q)" for i
  proof -
    have "?taken i \<longleftrightarrow> (\<exists>q ns. map_of att q = Some ns \<and> q \<in> set qs \<and> i |\<in>| ns)"
      using dist by (force simp: list_ex_iff)
    also have "\<dots> \<longleftrightarrow> (\<exists>q \<in> set qs. i |\<in>| unwrap_or (map_of att q) {||})"
      by (metis fempty_iff option.exhaust unwrap_or.simps)
    finally show ?thesis using qs(2) mo by simp
  qed
  have page: "(\<exists>ns. question_notes J C st v q = Inr ns \<and> i \<notin> set (map nr_id ns)) \<longleftrightarrow> i \<notin> attached_to st q"
    if "q \<in> live_id_set st ''questions''" for q i
    using question_notes_ex [OF inv that, of J C v] by auto
  have fields: "nr_id (to_note_record J C v r) = unwrap_or (string_field r ''id'') []"
    "nr_created_at (to_note_record J C v r) = int_field r ''created_at''" for r
    by (simp_all add: to_note_record_def Let_def split: prod.splits)
  have all: "notes = map (to_note_record J C v) (map (row_of_sql J notes_desc) rs)"
    using n(1) rs by (simp add: list_notes_def)
  have "?free r \<longleftrightarrow> since_ms \<le> nr_created_at n \<and> \<not> ?taken (nr_id n)" if "to_note_record J C v r = n" for r
    using that n(3) fields [of r] by (cases "string_field r ''id''") auto
  then have "n \<in> set (map (to_note_record J C v) (filter ?free (map (row_of_sql J notes_desc) rs))) \<longleftrightarrow>
      since_ms \<le> nr_created_at n \<and> \<not> ?taken (nr_id n)"
    using n(2) [unfolded all] by (rule filter_image)
  then show ?thesis using us page by (auto simp: taken)
qed

theorem unattached_is_complement_witness:
  "\<exists>notes us. list_notes mute_serde toy_crypto question_store (new_vault toy_mk) None (-1) 0 = Inr notes \<and>
     unattached_notes_since mute_serde toy_crypto question_store (new_vault toy_mk) 0 = Inr us \<and>
     (\<forall>n \<in> set notes. nr_id n = ''n1'' \<longrightarrow> n \<notin> set us) \<and> set (map nr_id notes) = {''n1'', ''n2''}"
proof -
  obtain rs where rs: "list_live mute_serde question_store ''notes'' None (-1) 0 =
      Inr (map (row_of_sql mute_serde notes_desc) rs)"
    "set rs = {r \<in> set (tables question_store ''notes''). is_live r}"
    using live_notes_scan [OF question_store_inv] by blast
  let ?notes = "map (to_note_record mute_serde toy_crypto (new_vault toy_mk) \<circ> row_of_sql mute_serde notes_desc) rs"
  have listed: "list_notes mute_serde toy_crypto question_store (new_vault toy_mk) None (-1) 0 = Inr ?notes"
    using rs(1) by (simp add: list_notes_def)
  have ids: "set (map nr_id ?notes) = (\<lambda>r. unwrap_or (sql_text (r ''id'')) []) ` set rs"
    by (simp add: image_image to_note_record_def Let_def string_field_sql read_columns case_prod_beta)
  have rows: "set (map nr_id ?notes) = {''n1'', ''n2''}"
  proof -
    have "\<forall>r \<in> set (tables question_store ''notes''). is_live r"
      by (simp add: question_store_def is_live_def)
    then have "set rs = set (tables question_store ''notes'')" using rs(2) by blast
    then show ?thesis unfolding ids by (simp add: question_store_def)
  qed
  have "''n1'' \<in> nr_id ` set ?notes" using rows by (simp only: set_map) blast
  then obtain n1 where n1: "''n1'' = nr_id n1" "n1 \<in> set ?notes" by (rule imageE)
  then obtain us where us: "unattached_notes_since mute_serde toy_crypto question_store (new_vault toy_mk) 0 = Inr us"
    using unattached_is_complement [OF question_store_inv listed n1(2), where since_ms = 0]
    by (auto simp flip: n1(1))
  have "n \<notin> set us" if n: "n \<in> set ?notes" "nr_id n = ''n1''" for n
  proof -
    obtain ns where q: "question_notes mute_serde toy_crypto question_store (new_vault toy_mk) ''q'' = Inr ns"
      "set (map nr_id ns) = attached_to question_store ''q''"
      using question_notes_ex [OF question_store_inv] question_store_live(1) by blast
    have "nr_id n \<in> set (map nr_id ns)" unfolding q(2) question_store_attached n(2) by simp
    moreover have "nr_id n \<noteq> []" unfolding n(2) by simp
    ultimately show ?thesis
      using unattached_is_complement [OF question_store_inv listed n(1), where since_ms = 0] us q(1)
        question_store_live(1) by (metis Inr_inject insertI1)
  qed
  with listed us rows show ?thesis by blast
qed

subsection \<open>The gate\<close>

lemma decrypt_v2_opens:
  assumes C: "crypto_ok C" and k: "length k = 32"
  shows "is_encrypted_v2 t \<and> decrypt_note C k (Some i) t = Inr p \<longleftrightarrow>
    (\<exists>iv. length iv = 12 \<and> utf8_valid p \<and> t = encrypt_note C k (Some i) p iv)"
proof
  assume l: "is_encrypted_v2 t \<and> decrypt_note C k (Some i) t = Inr p"
  then obtain x where x: "t = SENTINEL_V2 @ x" by (auto simp: is_encrypted_v2_def strip_prefix_Some)
  with l have "open_payload C k True (Some i) x = Inr p" by (simp add: decrypt_note_def)
  from open_payload_sound [OF C this] x
  show "\<exists>iv. length iv = 12 \<and> utf8_valid p \<and> t = encrypt_note C k (Some i) p iv"
    by (auto simp: encrypt_note_def Let_def)
next
  assume "\<exists>iv. length iv = 12 \<and> utf8_valid p \<and> t = encrypt_note C k (Some i) p iv"
  then obtain iv where iv: "length iv = 12" "utf8_valid p" and t: "t = encrypt_note C k (Some i) p iv" by blast
  have "decrypt_note C k (Some i) t = Inr p"
    using note_box.open_seal [of "(C, k, Some i)" iv p] C k iv by (simp add: note_ok_def t)
  moreover have "is_encrypted_v2 t" by (simp add: t is_encrypted_v2_def encrypt_note_def Let_def)
  ultimately show "is_encrypted_v2 t \<and> decrypt_note C k (Some i) t = Inr p" by blast
qed

text \<open>
  Property C30.  A read shows text only from an empty note or from a payload sealed under this very
  row's id with the vault's key, and then exactly the text sealed; a question has no empty case.
  The archive carries the same text as the display, and fails on a payload only when it is a
  sealed one that does not open, so an export never blesses what the display refuses.
\<close>

theorem read_gate_bound:
  assumes C: "crypto_ok C" and k: "length (vault_mk v) = 32"
  shows "(fst (decrypt_v2_bound C v r i) = Some p \<longleftrightarrow>
       (\<exists>iv. length iv = 12 \<and> utf8_valid p \<and>
          string_field r ''text'' = Some (encrypt_note C (vault_mk v) (Some i) p iv))) \<and>
    (fst (decrypt_note_text C v r i) = Some p \<longleftrightarrow>
       (string_field r ''text'' = Some [] \<and> p = []) \<or> fst (decrypt_v2_bound C v r i) = Some p) \<and>
    fst (decrypt_note_text_for_archive C v r i) = fst (decrypt_note_text C v r i) \<and>
    (snd (decrypt_note_text_for_archive C v r i) \<longleftrightarrow>
       snd (decrypt_note_text C v r i) \<and>
       (\<exists>t. string_field r ''text'' = Some t \<and> is_encrypted_v2 t)) \<and>
    (snd (decrypt_note_text C v r i) \<longleftrightarrow>
       string_field r ''text'' \<noteq> None \<and> fst (decrypt_note_text C v r i) = None)"
proof -
  have e: "\<not> is_encrypted_v2 []" by (simp add: is_encrypted_v2_def strip_prefix_def SENTINEL_V2_def)
  note opens = decrypt_v2_opens [OF C k, of _ i p]
  show ?thesis
  proof (cases "string_field r ''text''")
    case None
    then show ?thesis
      by (simp add: decrypt_v2_bound_def decrypt_note_text_def decrypt_note_text_for_archive_def)
  next
    case (Some t)
    have "fst (decrypt_v2_bound C v r i) = Some p \<longleftrightarrow>
        is_encrypted_v2 t \<and> decrypt_note C (vault_mk v) (Some i) t = Inr p"
      using Some by (auto simp: decrypt_v2_bound_def vault_decrypt_note_def split: sum.splits)
    with opens Some e show ?thesis
      by (auto simp: decrypt_v2_bound_def decrypt_note_text_def decrypt_note_text_for_archive_def
          split: sum.splits)
  qed
qed

theorem read_gate_bound_witness:
  "fst (decrypt_note_text toy_crypto (new_vault toy_mk)
     (fmap_of_list [(''text'', JString (encrypt_note toy_crypto toy_mk (Some ''n1'') ''hi'' toy_iv))]) ''n1'') = Some ''hi''"
proof -
  let ?t = "encrypt_note toy_crypto toy_mk (Some ''n1'') ''hi'' toy_iv"
  let ?r = "fmap_of_list [(''text'', JString ?t)]"
  have "utf8_valid ''hi''" by code_simp
  moreover have "string_field ?r ''text'' = Some ?t" by (simp add: string_field_def)
  moreover have k: "length (vault_mk (new_vault toy_mk)) = 32" by (simp add: new_vault_def)
  ultimately have "\<exists>iv. length iv = 12 \<and> utf8_valid ''hi'' \<and>
      string_field ?r ''text'' = Some (encrypt_note toy_crypto (vault_mk (new_vault toy_mk)) (Some ''n1'') ''hi'' iv)"
    by (intro exI [of _ toy_iv]) (simp add: new_vault_def)
  with read_gate_bound [OF toy_crypto_ok k, of ?r "''n1''" "''hi''"] show ?thesis by blast
qed

subsection \<open>Tallies\<close>

lemma bump_fold:
  assumes "bt_sorted m"
  shows "bt_sorted (fold bump ks m) \<and> map_of (fold bump ks m) k =
    (if k \<in> set ks then Some (unwrap_or (map_of m k) 0 + of_nat (count_list ks k)) else map_of m k)"
  using assms
proof (induction ks arbitrary: m)
  case (Cons x ks)
  have s: "bt_sorted (bump x m)" using Cons.prems by (simp add: bump_def bt_update_sorted)
  show ?case using Cons.IH [OF s] Cons.prems by (auto simp: bump_def map_of_bt_update count_list_0_iff)
qed simp

lemma tally_counts:
  "bt_sorted (fold bump ks [])"
  "map_of (fold bump ks []) k = (if k \<in> set ks then Some (of_nat (count_list ks k)) else None)"
  using bump_fold [of "[]" ks k] by simp_all

lemma sort_by_id: "sorted_wrt le xs \<Longrightarrow> sort_by le xs = xs"
  by (induction xs) (simp_all add: sort_by_def insort_by_least)

lemma sort_by_keyed:
  fixes key :: "'b \<Rightarrow> 'k::linorder"
  assumes "bt_sorted m" and "\<And>k x. key (f k x) = k"
  shows "sort_by (\<lambda>a b. key a \<le> key b) (map (\<lambda>(k, x). f k x) m) = map (\<lambda>(k, x). f k x) m"
proof (rule sort_by_id)
  have "sorted_wrt (<) (map key (map (\<lambda>(k, x). f k x) m))"
    using assms by (simp add: o_def case_prod_beta)
  then show "sorted_wrt (\<lambda>a b. key a \<le> key b) (map (\<lambda>(k, x). f k x) m)"
    by (auto simp: sorted_wrt_map intro: sorted_wrt_mono_rel [rotated] order.strict_implies_order)
qed

lemma count_fst_pairs:
  assumes "distinct ps"
  shows "count_list (map fst ps) c = card {n. (c, n) \<in> set ps}"
  using assms
proof (induction ps)
  case (Cons p ps)
  obtain c' n' where p: "p = (c', n')" by (cases p)
  have fin: "finite {n. (c, n) \<in> set ps}"
    by (rule finite_subset [of _ "snd ` set ps"]) force+
  show ?case
  proof (cases "c' = c")
    case True
    then have "{n. (c, n) \<in> set (p # ps)} = insert n' {n. (c, n) \<in> set ps}" by (auto simp: p)
    with Cons True fin show ?thesis by (simp add: p)
  next
    case False
    with Cons show ?thesis by (simp add: p)
  qed
qed simp

text \<open>
  The number beside a collection is the number of its listed notes that are live,
  and a collection without one has no entry; the entries come in order of collection id.
\<close>

theorem collection_counts_agree:
  "\<exists>cs live. collection_note_counts J st = Inr cs \<and> live_ids J st ''notes'' = Inr live \<and>
    sorted_wrt (<) (map cnc_collection_id cs) \<and>
    (\<forall>c. \<exists>ids. note_ids_for_collection J st c = Inr ids \<and>
      map_of (map (\<lambda>x. (cnc_collection_id x, cnc_count x)) cs) c =
        (let listed = filter (\<lambda>i. i \<in> set live) ids
         in if listed = [] then None else Some (of_nat (length listed))))"
proof -
  obtain live where live: "live_ids J st ''notes'' = Inr live"
    using live_ids_eq [of "''notes''" J st] by blast
  have scan: "\<exists>rs. list_live J st ''collection_memberships'' flt (-1) 0 = Inr (map (row_of_sql J memberships_desc) rs) \<and>
      set rs = {r \<in> set (tables st ''collection_memberships''). is_live r \<and> matches flt r}"
    if "flt = None \<or> (\<exists>c. flt = Some (''collection_id'', c))" for flt
    by (rule list_live_scan [OF read_schemas(2) read_has_column(5), where flt = flt and J = J and st = st])
      (use that read_has_column(7) in \<open>auto simp: filter_columns_def\<close>)
  obtain rs where rs: "list_live J st ''collection_memberships'' None (-1) 0 = Inr (map (row_of_sql J memberships_desc) rs)"
    "set rs = {r \<in> set (tables st ''collection_memberships''). is_live r \<and> matches None r}"
    using scan [of None] by blast
  let ?ps = "counted_pairs live (map (row_of_sql J memberships_desc) rs)"
  let ?tally = "fold bump (map fst ?ps) []"
  let ?cs = "map (\<lambda>(c, n). \<lparr>cnc_collection_id = c, cnc_count = n\<rparr>) ?tally"
  have cs: "collection_note_counts J st = Inr ?cs"
    using live rs(1) sort_by_keyed [OF tally_counts(1) [of "map fst ?ps"], of cnc_collection_id
        "\<lambda>c n. \<lparr>cnc_collection_id = c, cnc_count = n\<rparr>"]
    by (simp add: collection_note_counts_def)
  have keys: "map (\<lambda>x. (cnc_collection_id x, cnc_count x)) ?cs = ?tally"
    by (simp add: o_def case_prod_beta)
  have ord: "sorted_wrt (<) (map cnc_collection_id ?cs)"
    using tally_counts(1) [of "map fst ?ps"] by (simp add: o_def case_prod_beta)
  have pairs: "set ?ps = {(c, n). n \<in> set live \<and> (\<exists>r \<in> set rs. r ''collection_id'' = SText c \<and> r ''note_id'' = SText n)}"
  proof -
    have both: "(case a of None \<Rightarrow> None | Some c \<Rightarrow> (case b of None \<Rightarrow> None | Some n \<Rightarrow> Some (c, n))) = Some p \<longleftrightarrow>
        a = Some (fst p) \<and> b = Some (snd p)" for a b and p :: "string \<times> string"
      by (auto split: option.splits)
    show ?thesis
      by (auto simp: counted_pairs_def set_first_seen set_map_filter string_field_sql read_columns both)
  qed
  have "\<exists>ids. note_ids_for_collection J st c = Inr ids \<and> map_of ?tally c =
      (let listed = filter (\<lambda>i. i \<in> set live) ids in if listed = [] then None else Some (of_nat (length listed)))" for c
  proof -
    obtain rc where rc: "list_live J st ''collection_memberships'' (Some (''collection_id'', c)) (-1) 0 =
        Inr (map (row_of_sql J memberships_desc) rc)"
      "set rc = {r \<in> set (tables st ''collection_memberships''). is_live r \<and> matches (Some (''collection_id'', c)) r}"
      using scan [of "Some (''collection_id'', c)"] by blast
    let ?ids = "first_seen [] (List.map_filter (\<lambda>r. string_field r ''note_id'') (map (row_of_sql J memberships_desc) rc))"
    let ?listed = "filter (\<lambda>i. i \<in> set live) ?ids"
    have listed: "set ?listed = {n. (c, n) \<in> set ?ps}"
      using rs(2) rc(2) unfolding pairs
      by (auto simp: set_first_seen set_map_filter string_field_sql read_columns matches_def)
    have "length ?listed = card {n. (c, n) \<in> set ?ps}"
      unfolding listed [symmetric]
      by (rule distinct_card [symmetric]) (simp add: distinct_first_seen)
    moreover have "distinct ?ps" by (simp add: counted_pairs_def distinct_first_seen)
    ultimately have "length ?listed = count_list (map fst ?ps) c" using count_fst_pairs by metis
    moreover have "c \<in> set (map fst ?ps) \<longleftrightarrow> ?listed \<noteq> []"
      using listed by (force simp flip: set_empty)
    ultimately have "map_of ?tally c = (if ?listed = [] then None else Some (of_nat (length ?listed)))"
      unfolding tally_counts(2) by simp
    then show ?thesis using rc(1) by (simp add: note_ids_for_collection_def Let_def)
  qed
  then have "\<forall>c. \<exists>ids. note_ids_for_collection J st c = Inr ids \<and>
      map_of (map (\<lambda>x. (cnc_collection_id x, cnc_count x)) ?cs) c =
        (let listed = filter (\<lambda>i. i \<in> set live) ids in if listed = [] then None else Some (of_nat (length listed)))"
    unfolding keys by (intro allI)
  with cs live ord show ?thesis by (intro exI [of _ ?cs] exI [of _ live] conjI)
qed

subsection \<open>Finding a shared link\<close>

lemma get_Inr [simp]:
  "get_string c v = Inr s \<longleftrightarrow> v = SText s"
  "get_bool c v = Inr b \<longleftrightarrow> (\<exists>i. v = SInteger i \<and> b = (i \<noteq> 0))"
  by (cases v; auto)+

lemma max_pick:
  assumes "list_all (\<lambda>v. \<exists>i. v = SInteger i) (v # vs)"
  shows "\<exists>i. fold (\<lambda>a b. if sql_less b a then a else b) vs v = SInteger i"
  using assms by (induction vs arbitrary: v) auto

lemma max_live_int_ok:
  assumes "store_inv st"
  shows "\<exists>m. max_live_int st ''notes'' ''created_at'' (''book_id'', i) = Inr m"
proof -
  let ?vs = "filter (\<lambda>v. v \<noteq> SNull) (map (\<lambda>r. r ''created_at'')
    (filter (\<lambda>r. is_live r \<and> matches (Some (''book_id'', i)) r) (tables st ''notes'')))"
  have name: "ts_name notes_desc = ''notes''" using table_schema_Some(1) [OF read_schemas(4)] .
  have cols: "missing_column notes_desc [''created_at'', ''book_id''] = None"
    using read_has_column(2,8) by (auto simp: missing_column_def)
  have "\<exists>i. v = SInteger i" if "v \<in> set ?vs" for v
  proof -
    from that obtain r where r: "r \<in> set (tables st ''notes'')" "v = r ''created_at''" "v \<noteq> SNull" by auto
    then have "row_typed notes_desc r"
      using assms table_schema_in [OF read_schemas(4)] table_schema_Some(1) [OF read_schemas(4)]
      by (fastforce simp: store_inv_def rows_typed_def)
    then have "sql_typed CInt v" using map_of_SomeD [OF read_columns(4)] r(2) by (auto simp: row_typed_def)
    with r(3) show ?thesis by (cases v) simp_all
  qed
  then have typed: "list_all (\<lambda>v. \<exists>i. v = SInteger i) ?vs" by (simp only: list_all_iff) blast
  show ?thesis
  proof (cases ?vs)
    case Nil
    with name cols show ?thesis by (simp add: max_live_int_def read_schemas(4))
  next
    case (Cons x xs)
    from typed max_pick [of x xs] obtain k where
      "fold (\<lambda>a b. if sql_less b a then a else b) xs x = SInteger k"
      unfolding Cons by blast
    with Cons name cols show ?thesis by (simp add: max_live_int_def read_schemas(4))
  qed
qed

lemma to_book_record_ok:
  assumes "store_inv st"
  shows "\<exists>b. to_book_record C st v r = Inr b \<and> br_id b = unwrap_or (string_field r ''id'') [] \<and>
    br_url b = Option.bind (string_field r ''url'') (open_book_url C v (unwrap_or (string_field r ''id'') []))"
proof -
  have "\<exists>n. count_live st ''notes'' (Some (''book_id'', i)) = Inr n" for i
    using read_schemas(4) read_has_column(8)
    by (simp add: count_live_def missing_column_def filter_columns_def)
  then obtain n where "count_live st ''notes'' (Some (''book_id'', unwrap_or (string_field r ''id'') [])) = Inr n" by blast
  moreover obtain k where "max_live_int st ''notes'' ''created_at'' (''book_id'', unwrap_or (string_field r ''id'') []) = Inr k"
    using max_live_int_ok [OF assms] by blast
  ultimately show ?thesis by (simp add: to_book_record_def Let_def)
qed

lemma traverse_mem:
  assumes "traverse f xs = Inr ys"
  shows "y \<in> set ys \<Longrightarrow> \<exists>x \<in> set xs. f x = Inr y" and "x \<in> set xs \<Longrightarrow> \<exists>y \<in> set ys. f x = Inr y"
proof -
  have "(\<forall>y \<in> set ys. \<exists>x \<in> set xs. f x = Inr y) \<and> (\<forall>x \<in> set xs. \<exists>y \<in> set ys. f x = Inr y)"
    using assms by (induction xs arbitrary: ys) (auto split: sum.splits)
  then show "y \<in> set ys \<Longrightarrow> \<exists>x \<in> set xs. f x = Inr y" "x \<in> set xs \<Longrightarrow> \<exists>y \<in> set ys. f x = Inr y"
    by blast+
qed

text \<open>A live match of a link: the row behind it and the book the lookup returns.\<close>

lemma live_match_found:
  assumes inv: "store_inv st" and rows: "books_with_a_url st = Inr rows"
    and z: "find (\<lambda>(_, deleted, _, _). \<not> deleted) (filter (url_matches L C v url) rows) = Some (j, d, m, s)"
  obtains b where "get_book J C st v j = Inr (Some b)" "find_book_by_url L J C st v url = Inr (Some b)"
    "br_id b = j" "br_url b = open_book_url C v j s" "Option.bind (br_url b) (normalize_source_url L) = Some url"
proof -
  have all: "traverse url_row (sort_by (order_asc ''created_at'' ''id'')
      (filter (\<lambda>r. r ''url'' \<noteq> SNull) (tables st ''books''))) = Inr rows"
    using rows by (simp add: books_with_a_url_def)
  from find_SomeD [OF z] have h: "(j, d, m, s) \<in> set rows" "\<not> d"
      "Option.bind (open_book_url C v j s) (normalize_source_url L) = Some url"
    by (auto simp: url_matches_def)
  then obtain x where x: "x \<in> set (tables st ''books'')" "url_row x = Inr (j, False, m, s)"
    using traverse_mem(1) [OF all h(1)] by auto
  then have xs: "x ''id'' = SText j" "x ''url'' = SText s" "x ''deleted'' = SInteger 0"
    by (auto simp: url_row_def and_then_Inr)
  let ?x = "row_of_sql J books_desc x"
  have "get_row J st ''books'' j = Inr (Some ?x)"
    using get_row_of_table [OF inv read_schemas(6) x(1)] xs(1) by simp
  moreover have "\<not> is_deleted ?x"
    using live_not_deleted [OF table_schema_Some(2) [OF read_schemas(6)]] xs(3) by (simp add: is_live_def)
  moreover obtain b where b: "to_book_record C st v ?x = Inr b" "br_id b = j" "br_url b = open_book_url C v j s"
    using to_book_record_ok [OF inv, of C v ?x] xs by (auto simp: string_field_sql read_columns)
  ultimately have g: "get_book J C st v j = Inr (Some b)" by (simp add: get_book_def)
  then have "find_book_by_url L J C st v url = Inr (Some b)"
    using rows z by (simp add: find_book_by_url_def Let_def)
  with that [OF g] b h(3) show ?thesis by simp
qed

text \<open>
  A link whose source is on the shelf is found: if some live book's sealed url opens
  and normalises to the link, the lookup returns a live book whose own url does.
\<close>

theorem find_book_by_url_finds:
  assumes inv: "store_inv st" and rows: "books_with_a_url st = Inr rows"
    and r: "r \<in> set (tables st ''books'')" "is_live r" "r ''id'' = SText i" "r ''url'' = SText sealed"
    and url: "Option.bind (open_book_url C v i sealed) (normalize_source_url L) = Some url"
  shows "\<exists>b. find_book_by_url L J C st v url = Inr (Some b) \<and> get_book J C st v (br_id b) = Inr (Some b) \<and>
    Option.bind (br_url b) (normalize_source_url L) = Some url"
proof -
  let ?bs = "sort_by (order_asc ''created_at'' ''id'') (filter (\<lambda>r. r ''url'' \<noteq> SNull) (tables st ''books''))"
  have all: "traverse url_row ?bs = Inr rows" using rows by (simp add: books_with_a_url_def)
  let ?hit = "filter (url_matches L C v url) rows"
  have "r \<in> set ?bs" using r by simp
  then obtain y where y: "y \<in> set rows" "url_row r = Inr y"
    using traverse_mem(2) [OF all] by blast
  then obtain m where "y = (i, False, m, sealed)"
    using r by (auto simp: url_row_def is_live_def and_then_Inr)
  with y url have "\<exists>z \<in> set ?hit. case z of (_, deleted, _, _) \<Rightarrow> \<not> deleted"
    by (auto simp: url_matches_def intro!: bexI [of _ y])
  then obtain j d m s where z: "find (\<lambda>(_, deleted, _, _). \<not> deleted) ?hit = Some (j, d, m, s)"
    by (cases "find (\<lambda>(_, deleted, _, _). \<not> deleted) ?hit") (auto simp: find_None_iff)
  from live_match_found [OF inv rows z] show ?thesis by metis
qed

text \<open>A shelf with one linked source, under a URL library that knows one URL.\<close>

definition one_url_lib :: url_lib where
  "one_url_lib = unary_url_lib\<lparr>url_parse := (\<lambda>s. if s = ''u'' then Some \<lparr>u_scheme = ''https'',
     u_username = [], u_password = None, u_host = Some ''a.b'', u_port = None, u_path = ''/'',
     u_query = None, u_fragment = None\<rparr> else None), url_print := (\<lambda>_. ''u'')\<rparr>"

definition linked_url :: string where
  "linked_url = seal_book_url toy_crypto toy_iv (new_vault toy_mk) ''b'' ''u''"

definition linked_book :: sqlrow where
  "linked_book = (\<lambda>_. SNull)(''id'' := SText ''b'', ''url'' := SText linked_url,
     ''created_at'' := SInteger 5, ''updated_at'' := SInteger 5, ''deleted'' := SInteger 0)"

definition linked_store :: store where
  "linked_store = empty_store\<lparr>tables := (\<lambda>_. [])(''books'' := [linked_book])\<rparr>"

lemma linked_store_inv: "store_inv linked_store"
  unfolding linked_store_def by (rule store_inv_tables)
    (simp add: schema_defs linked_book_def pk_unique_def pk_of_def row_typed_def is_i64_def i64_min_def i64_max_def)

theorem find_book_by_url_finds_witness:
  "\<exists>b. find_book_by_url one_url_lib mute_serde toy_crypto linked_store (new_vault toy_mk) ''u'' = Inr (Some b)"
proof -
  have "utf8_valid ''u''" by code_simp
  then have "open_book_url toy_crypto (new_vault toy_mk) ''b'' linked_url = Some ''u''"
    using note_box.open_seal [of "(toy_crypto, book_url_key toy_crypto (new_vault toy_mk), Some ''b'')" toy_iv "''u''"]
    by (simp add: open_book_url_def linked_url_def seal_book_url_def note_ok_def toy_crypto_ok
        book_url_key_length is_encrypted_v2_def encrypt_note_def Let_def)
  moreover have "str_trim ''u'' = ''u''" by (rule str_trim_graphic) (simp add: graphic_def byte_in_def)
  ultimately have "Option.bind (open_book_url toy_crypto (new_vault toy_mk) ''b'' linked_url)
      (normalize_source_url one_url_lib) = Some ''u''"
    by (simp add: normalize_source_url_def one_url_lib_def unary_url_lib_def Let_def)
  moreover have "books_with_a_url linked_store = Inr [(''b'', False, None, linked_url)]"
    by (simp add: books_with_a_url_def linked_store_def linked_book_def sort_by_def url_row_def)
  moreover have "linked_book \<in> set (tables linked_store ''books'')" "is_live linked_book"
    "linked_book ''id'' = SText ''b''" "linked_book ''url'' = SText linked_url"
    by (simp_all add: linked_store_def linked_book_def is_live_def)
  ultimately show ?thesis using find_book_by_url_finds [OF linked_store_inv] by blast
qed

end
