(* ===== verification/Signals.thy ===== *)
theory Signals
  imports Read
begin

text \<open>
  The interaction signals of a note: \<open>record_note_signal\<close>, \<open>soft_delete_signals_for_note\<close>, the
  builders of a signal row and of its tombstone and the annotation cascade of a deleted note in
  \<open>src/src/sync/mod.rs\<close>, with the importance formula of \<open>export_import/import.rs\<close>.  A finite
  \<open>f64\<close> is the rational it denotes; the rounded operations of the processor and the exponential of
  the system library are the fields of an \<open>f64_ops\<close> record.  A literal is the exact value of the
  double it denotes.  The NaN that stands for an unreadable stored importance is \<open>None\<close>.
\<close>

subsection \<open>Importance\<close>

record f64_ops =
  f_add :: "rat \<Rightarrow> rat \<Rightarrow> rat"
  f_sub :: "rat \<Rightarrow> rat \<Rightarrow> rat"
  f_mul :: "rat \<Rightarrow> rat \<Rightarrow> rat"
  f_div :: "rat \<Rightarrow> rat \<Rightarrow> rat"
  f_exp :: "rat \<Rightarrow> rat"

definition source_prior :: "string option \<Rightarrow> rat" where
  "source_prior source =
     (if source = Some ''handwritten'' \<or> source = Some ''readwise_annotation''
      then 8106479329266893 / 2 ^ 53
      else if source = Some ''share'' then 3 / 4
      else if source = Some ''manual'' then 3152519739159347 / 2 ^ 52
      else if source = Some ''image'' then 5404319552844595 / 2 ^ 53
      else if source = Some ''readwise'' then 1 / 2
      else 1 / 2)"

definition LN_2 :: rat where "LN_2 = 6243314768165359 / 2 ^ 53"

definition compute_importance :: "f64_ops \<Rightarrow> rat \<Rightarrow> int \<Rightarrow> bool \<Rightarrow> int \<Rightarrow> rat" where
  "compute_importance F prior return_visits has_annotation stitch_spawns =
     (let evidence = f_add F (f_add F (f_mul F (f64_of_int return_visits) (3602879701896397 / 2 ^ 55))
            (if has_annotation then 5404319552844595 / 2 ^ 54 else 0))
            (f_mul F (f64_of_int stitch_spawns) (1 / 2))
      in f_add F (f_mul F prior (f_exp F (f_div F (f_mul F (- LN_2) (max evidence 0)) (3 / 2)))) evidence)"

subsection \<open>Signal rows\<close>

record signal_state =
  ss_source_prior :: rat
  ss_return_visits :: int
  ss_has_annotation :: bool
  ss_stitch_spawns :: int
  ss_exposure_recency_at :: int
  ss_engagement_recency_at :: int
  ss_importance :: "rat option"

definition IMPORTANCE_EPSILON :: rat where "IMPORTANCE_EPSILON = 4835703278458517 / 2 ^ 82"

definition signals_agree :: "f64_ops \<Rightarrow> signal_state \<Rightarrow> signal_state \<Rightarrow> bool" where
  "signals_agree F a b \<longleftrightarrow>
     ss_source_prior a = ss_source_prior b \<and> ss_return_visits a = ss_return_visits b \<and>
     ss_has_annotation a = ss_has_annotation b \<and> ss_stitch_spawns a = ss_stitch_spawns b \<and>
     ss_exposure_recency_at a = ss_exposure_recency_at b \<and>
     ss_engagement_recency_at a = ss_engagement_recency_at b \<and>
     (case (ss_importance a, ss_importance b) of
        (Some x, Some y) \<Rightarrow> \<bar>f_sub F x y\<bar> \<le> IMPORTANCE_EPSILON | _ \<Rightarrow> False)"

definition row_f64 :: "row \<Rightarrow> string \<Rightarrow> rat option" where
  "row_f64 r k = Option.bind (fmlookup r k) as_f64"

definition int_or :: "row \<Rightarrow> string \<Rightarrow> int \<Rightarrow> int" where
  "int_or r field d = unwrap_or (row_i64 r field) d"

text \<open>The counters a stored row, or none, stands for.\<close>

definition stored_signals :: "f64_ops \<Rightarrow> row \<Rightarrow> bool \<Rightarrow> string option \<Rightarrow> signal_state" where
  "stored_signals F r was_live note_source =
     (let prior = unwrap_or (row_f64 r ''source_prior'') (source_prior note_source);
          visits = int_or r ''return_visits'' 0;
          annotated = (fmlookup r ''has_annotation'' = Some (JBool True));
          spawns = int_or r ''stitch_spawns'' 0
      in \<lparr>ss_source_prior = prior, ss_return_visits = visits, ss_has_annotation = annotated,
          ss_stitch_spawns = spawns,
          ss_exposure_recency_at = int_or r ''exposure_recency_at'' 0,
          ss_engagement_recency_at = int_or r ''engagement_recency_at'' 0,
          ss_importance = (case row_f64 r ''importance'' of Some i \<Rightarrow> Some i
             | None \<Rightarrow> if was_live then None else Some (compute_importance F prior visits annotated spawns))\<rparr>)"

definition signal_row :: "string \<Rightarrow> signal_state \<Rightarrow> rat \<Rightarrow> int \<Rightarrow> int \<Rightarrow> bool \<Rightarrow> row" where
  "signal_row note_id s importance created_at now deleted =
     fmap_of_list [(''note_id'', JString note_id),
       (''source_prior'', JNumber (Float (ss_source_prior s))),
       (''return_visits'', json_i64 (ss_return_visits s)),
       (''has_annotation'', JBool (ss_has_annotation s)),
       (''stitch_spawns'', json_i64 (ss_stitch_spawns s)),
       (''exposure_recency_at'', json_i64 (ss_exposure_recency_at s)),
       (''engagement_recency_at'', json_i64 (ss_engagement_recency_at s)),
       (''importance'', JNumber (Float importance)),
       (''created_at'', json_i64 created_at), (''updated_at'', json_i64 now),
       (''deleted'', JBool deleted)]"

definition importance_of :: "f64_ops \<Rightarrow> signal_state \<Rightarrow> rat" where
  "importance_of F s = compute_importance F (ss_source_prior s) (ss_return_visits s)
     (ss_has_annotation s) (ss_stitch_spawns s)"

definition stage_signal_write ::
  "f64_ops \<Rightarrow> serde \<Rightarrow> store \<Rightarrow> string \<Rightarrow> string option \<Rightarrow> int \<Rightarrow>
   (signal_state \<Rightarrow> signal_state) \<Rightarrow> db_error + row option" where
  "stage_signal_write F J st note_id note_source now mutate =
     and_then (get_row J st ''note_signals'' note_id) (\<lambda>existing.
       let was_live = (case existing of Some s \<Rightarrow> fmlookup s ''deleted'' \<noteq> Some (JBool True) | None \<Rightarrow> False);
           r = unwrap_or existing fmempty;
           before = stored_signals F r was_live note_source;
           created_at = int_or r ''created_at'' now;
           moved = mutate before;
           after = moved\<lparr>ss_importance := Some (importance_of F moved)\<rparr>
       in if was_live \<and> signals_agree F after before then Inr None
          else Inr (Some (signal_row note_id after (importance_of F moved) created_at now False)))"

definition build_signals_tombstone ::
  "f64_ops \<Rightarrow> serde \<Rightarrow> store \<Rightarrow> string \<Rightarrow> string option \<Rightarrow> int \<Rightarrow> db_error + row option" where
  "build_signals_tombstone F J st note_id note_source now =
     and_then (get_row J st ''note_signals'' note_id) (\<lambda>existing.
       if (case existing of Some s \<Rightarrow> fmlookup s ''deleted'' = Some (JBool True) | None \<Rightarrow> False)
       then Inr None
       else let r = unwrap_or existing fmempty;
                s = stored_signals F r False note_source
            in Inr (Some (signal_row note_id s (importance_of F s) (int_or r ''created_at'' now) now True)))"

subsection \<open>Recording and retiring\<close>

datatype note_signal_kind = Exposure | Engagement | ReturnVisit

definition SIGNAL_THROTTLE_MS :: int where "SIGNAL_THROTTLE_MS = 60 * 60 * 1000"

text \<open>\<open>+= 1\<close> of a release build.\<close>

definition wrapping_incr :: "int \<Rightarrow> int" where
  "wrapping_incr a = sint (word_of_int (a + 1) :: 64 word)"

definition apply_signal :: "note_signal_kind \<Rightarrow> int \<Rightarrow> signal_state \<Rightarrow> signal_state" where
  "apply_signal kind now s =
     (case kind of
        Exposure \<Rightarrow>
          if ss_exposure_recency_at s \<le> 0 \<or>
             SIGNAL_THROTTLE_MS \<le> saturating_add now (- ss_exposure_recency_at s)
          then s\<lparr>ss_exposure_recency_at := now\<rparr> else s
      | Engagement \<Rightarrow> s\<lparr>ss_engagement_recency_at := now\<rparr>
      | ReturnVisit \<Rightarrow>
          s\<lparr>ss_return_visits := wrapping_incr (ss_return_visits s), ss_exposure_recency_at := now\<rparr>)"

definition record_note_signal ::
  "f64_ops \<Rightarrow> serde \<Rightarrow> int \<Rightarrow> store \<Rightarrow> string \<Rightarrow> note_signal_kind \<Rightarrow> db_error + bool \<times> store" where
  "record_note_signal F J now st note_id kind =
     and_then (get_row J st ''notes'' note_id) (\<lambda>note.
       case note of
         None \<Rightarrow> Inr (False, st)
       | Some n \<Rightarrow>
           if is_deleted n then Inr (False, st)
           else and_then (stage_signal_write F J st note_id (string_field n ''source'') now (apply_signal kind now))
             (\<lambda>write. case write of
                None \<Rightarrow> Inr (False, st)
              | Some sig \<Rightarrow> and_then (stage_local_writes J st [(''note_signals'', note_id, sig)] now)
                  (\<lambda>st'. Inr (True, st'))))"

definition soft_delete_signals_for_note ::
  "f64_ops \<Rightarrow> serde \<Rightarrow> int \<Rightarrow> store \<Rightarrow> string \<Rightarrow> db_error + store" where
  "soft_delete_signals_for_note F J now st note_id =
     and_then (get_row J st ''notes'' note_id) (\<lambda>note.
     and_then (build_signals_tombstone F J st note_id (Option.bind note (\<lambda>n. string_field n ''source'')) now)
       (\<lambda>tomb. case tomb of
          Some t \<Rightarrow> stage_local_writes J st [(''note_signals'', note_id, t)] now
        | None \<Rightarrow> Inr st))"

subsection \<open>The annotation cascade of a deleted note\<close>

definition is_handwritten :: "string option \<Rightarrow> bool" where
  "is_handwritten rt \<longleftrightarrow> rt = None \<or> rt = Some ''handwritten_annotation''"

definition edge_tombstone :: "int \<Rightarrow> note_link_record \<Rightarrow> string \<times> string \<times> row" where
  "edge_tombstone now e =
     (''note_links'', nlr_id e, fmap_of_list [(''id'', JString (nlr_id e)),
        (''from_note_id'', JString (nlr_from_note_id e)), (''to_note_id'', JString (nlr_to_note_id e)),
        (''relation_type'', JString (unwrap_or (nlr_relation_type e) ''handwritten_annotation'')),
        (''created_at'', json_i64 (nlr_created_at e)), (''updated_at'', json_i64 now),
        (''deleted'', JBool True)])"

text \<open>The recomputed signal row of one parent that loses a margin child.\<close>

definition parent_recompute ::
  "f64_ops \<Rightarrow> serde \<Rightarrow> int \<Rightarrow> store \<Rightarrow> string list \<Rightarrow> string \<Rightarrow>
   db_error + (string \<times> string \<times> row) list" where
  "parent_recompute F J now st retiring_ids parent_id =
     and_then (get_row J st ''notes'' parent_id) (\<lambda>parent_note.
       case parent_note of
         None \<Rightarrow> Inr []
       | Some p \<Rightarrow>
           if is_deleted p then Inr []
           else and_then (note_links_for_note J st parent_id) (\<lambda>links.
                and_then (get_row J st ''note_signals'' parent_id) (\<lambda>parent_sig.
                  let has_live = list_ex (\<lambda>l. nlr_from_note_id l = parent_id \<and>
                        is_handwritten (nlr_relation_type l) \<and> nlr_id l \<notin> set retiring_ids) links
                  in if \<not> has_live \<and> parent_sig = None then Inr []
                     else and_then (stage_signal_write F J st parent_id (string_field p ''source'') now
                            (\<lambda>s. s\<lparr>ss_has_annotation := has_live\<rparr>))
                       (\<lambda>write. case write of None \<Rightarrow> Inr []
                          | Some sig \<Rightarrow> Inr [(''note_signals'', parent_id, sig)]))))"

definition stage_annotation_cascade_on_delete ::
  "f64_ops \<Rightarrow> serde \<Rightarrow> int \<Rightarrow> store \<Rightarrow> string \<Rightarrow> db_error + (string \<times> string \<times> row) list" where
  "stage_annotation_cascade_on_delete F J now st deleted_note_id =
     and_then (note_links_for_note J st deleted_note_id) (\<lambda>links.
       let retiring = filter (\<lambda>e. nlr_to_note_id e = deleted_note_id \<and> is_handwritten (nlr_relation_type e)) links;
           parents = first_seen [] (filter (\<lambda>p. p \<noteq> deleted_note_id) (map nlr_from_note_id retiring))
       in and_then (traverse (parent_recompute F J now st (map nlr_id retiring)) parents) (\<lambda>sigs.
            Inr (map (edge_tombstone now) retiring @ concat sigs)))"

definition stage_existing_live_note_patch ::
  "f64_ops \<Rightarrow> serde \<Rightarrow> store \<Rightarrow> string \<Rightarrow> row \<Rightarrow> bool \<Rightarrow> int \<Rightarrow> stage_existing_error + store" where
  "stage_existing_live_note_patch F J st record_id r retire_signals now =
     (let extra =
        (if \<not> retire_signals then Inr []
         else and_then (case row_str r ''source'' of
                  Some s \<Rightarrow> Inr (Some s)
                | None \<Rightarrow> and_then (get_row J st ''notes'' record_id) (\<lambda>n.
                    Inr (Option.bind n (\<lambda>x. string_field x ''source''))))
                (\<lambda>note_source.
              and_then (build_signals_tombstone F J st record_id note_source now) (\<lambda>tomb.
              and_then (stage_annotation_cascade_on_delete F J now st record_id) (\<lambda>cascade.
                Inr ((case tomb of None \<Rightarrow> [] | Some t \<Rightarrow> [(''note_signals'', record_id, t)]) @ cascade)))))
      in case extra of Inl e \<Rightarrow> Inl (Sql e)
         | Inr ws \<Rightarrow> stage_local_write_existing_live J st ''notes'' record_id r ws now)"

end
