(* ===== verification/Outbox.thy ===== *)
theory Outbox
  imports Store
begin

text \<open>
  The outbox collapse of \<open>src/src/sync/outbox.rs\<close>: queued mutations of one record become one
  row (last write wins per field, a delete is sticky) and a note's book id is repointed through
  the offline-merge remap.  The \<open>BTreeMap\<close> of groups is a key-sorted list, the remap (only
  looked up here) a finite map.
\<close>

subsection \<open>Definitions\<close>

record outbox_item =
  oi_id :: int
  oi_table_name :: string
  oi_record_id :: "string option"
  oi_payload :: json
  oi_created_at :: int

record collapsed =
  cl_table :: string
  cl_ids :: "int list"
  cl_payload :: row

text \<open>The private copy of the truthiness test that \<open>outbox.rs\<close> keeps.\<close>

fun outbox_truthy :: "json option \<Rightarrow> bool" where
  "outbox_truthy (Some (JBool b)) = b"
| "outbox_truthy (Some (JNumber n)) = (number_as_f64 n \<noteq> 0)"
| "outbox_truthy (Some (JString s)) = (s \<noteq> [] \<and> s \<noteq> ''false'' \<and> s \<noteq> ''0'')"
| "outbox_truthy v = False"

text \<open>The walk of \<open>resolve_book_id\<close>, with the hops that are left.\<close>

fun resolve_hops :: "nat \<Rightarrow> (string, string) fmap \<Rightarrow> string \<Rightarrow> string" where
  "resolve_hops 0 remap i = i"
| "resolve_hops (Suc n) remap i =
     (case fmlookup remap i of
        Some nxt \<Rightarrow> if nxt \<noteq> i then resolve_hops n remap nxt else i
      | None \<Rightarrow> i)"

definition resolve_book_id :: "string \<Rightarrow> (string, string) fmap \<Rightarrow> string" where
  "resolve_book_id book_id remap = resolve_hops 20 remap book_id"

definition item_record_id :: "outbox_item \<Rightarrow> string" where
  "item_record_id it =
     unwrap_or (case oi_record_id it of
         Some r \<Rightarrow> Some r
       | None \<Rightarrow> Option.bind (json_get (oi_payload it) ''id'') as_str) []"

definition item_key :: "outbox_item \<Rightarrow> string" where
  "item_key it = oi_table_name it @ '':'' @ item_record_id it"

definition merge_fields :: "row \<Rightarrow> row \<Rightarrow> row" where
  "merge_fields acc flds =
     (let sticky_deleted = outbox_truthy (fmlookup acc ''deleted'')
            \<or> outbox_truthy (fmlookup flds ''deleted'');
          merged = acc ++\<^sub>f flds
      in if sticky_deleted then fmupd ''deleted'' (JBool True) merged else merged)"

definition collapse_item :: "outbox_item \<Rightarrow> collapsed option \<Rightarrow> collapsed" where
  "collapse_item it g =
     (let g0 = (case g of Some c \<Rightarrow> c
                | None \<Rightarrow> \<lparr>cl_table = oi_table_name it, cl_ids = [], cl_payload = fmempty\<rparr>);
          g1 = g0\<lparr>cl_ids := cl_ids g0 @ [oi_id it]\<rparr>
      in case oi_payload it of
           JObject flds \<Rightarrow> g1\<lparr>cl_payload := merge_fields (cl_payload g1) flds\<rparr>
         | _ \<Rightarrow> g1)"

definition repoint :: "(string, string) fmap \<Rightarrow> collapsed \<Rightarrow> collapsed" where
  "repoint remap g =
     (if cl_table g = ''notes'' then
        case row_str (cl_payload g) ''book_id'' of
          Some book_id \<Rightarrow> g\<lparr>cl_payload :=
            fmupd ''book_id'' (JString (resolve_book_id book_id remap)) (cl_payload g)\<rparr>
        | None \<Rightarrow> g
      else g)"

definition created_le :: "outbox_item \<Rightarrow> outbox_item \<Rightarrow> bool" where
  "created_le a b \<longleftrightarrow> oi_created_at a \<le> oi_created_at b"

definition collapse_groups :: "outbox_item list \<Rightarrow> (string \<times> collapsed) list" where
  "collapse_groups its = fold (\<lambda>it. bt_update (item_key it) (collapse_item it)) its []"

definition collapse :: "outbox_item list \<Rightarrow> (string, string) fmap \<Rightarrow> collapsed list" where
  "collapse its book_id_remap =
     map (repoint book_id_remap \<circ> snd) (collapse_groups (sort_by created_le its))"

subsection \<open>Groups\<close>

lemma outbox_truthy_eq: "outbox_truthy v = truthy v"
  by (cases v rule: truthy.cases) simp_all

text \<open>The items of one record, in the order they are merged.\<close>

definition items_of :: "string \<Rightarrow> outbox_item list \<Rightarrow> outbox_item list" where
  "items_of k its = filter (\<lambda>it. item_key it = k) its"

definition group_of :: "string \<Rightarrow> outbox_item list \<Rightarrow> collapsed option" where
  "group_of k its = fold (\<lambda>it g. Some (collapse_item it g)) (items_of k its) None"

lemma collapse_groups_snoc:
  "collapse_groups (its @ [it]) = bt_update (item_key it) (collapse_item it) (collapse_groups its)"
  by (simp add: collapse_groups_def)

lemma collapse_groups_sorted: "bt_sorted (collapse_groups its)"
  by (induction its rule: rev_induct)
    (simp_all add: collapse_groups_snoc bt_update_sorted, simp add: collapse_groups_def)

lemma map_of_collapse_groups: "map_of (collapse_groups its) k = group_of k its"
proof (induction its rule: rev_induct)
  case Nil
  show ?case by (simp add: collapse_groups_def group_of_def items_of_def)
next
  case (snoc it its)
  then show ?case
    by (simp add: collapse_groups_snoc map_of_bt_update [OF collapse_groups_sorted])
      (auto simp: group_of_def items_of_def)
qed

lemma group_of_snoc:
  "group_of k (its @ [it]) =
     (if item_key it = k then Some (collapse_item it (group_of k its)) else group_of k its)"
  by (simp add: group_of_def items_of_def)

lemma group_of_None: "group_of k its = None \<longleftrightarrow> items_of k its = []"
  by (induction its rule: rev_induct)
    (auto simp: group_of_snoc, auto simp: group_of_def items_of_def)

lemma collapse_item_ids:
  "cl_ids (collapse_item it g) = (case g of Some c \<Rightarrow> cl_ids c | None \<Rightarrow> []) @ [oi_id it]"
  by (simp add: collapse_item_def Let_def split: option.splits json.splits)

lemma collapse_item_table:
  "cl_table (collapse_item it g) = (case g of Some c \<Rightarrow> cl_table c | None \<Rightarrow> oi_table_name it)"
  by (simp add: collapse_item_def Let_def split: option.splits json.splits)

lemma collapse_item_payload:
  "cl_payload (collapse_item it g) =
     (let acc = (case g of Some c \<Rightarrow> cl_payload c | None \<Rightarrow> fmempty)
      in case oi_payload it of JObject flds \<Rightarrow> merge_fields acc flds | _ \<Rightarrow> acc)"
  by (simp add: collapse_item_def Let_def split: option.splits json.splits)

lemma repoint_ids [simp]: "cl_ids (repoint remap g) = cl_ids g"
  "cl_table (repoint remap g) = cl_table g"
  by (simp_all add: repoint_def split: option.splits)

subsection \<open>What a group holds\<close>

lemma bt_update_ids:
  "mset (concat (map (\<lambda>a. cl_ids (snd a)) (bt_update k (collapse_item it) m))) =
     add_mset (oi_id it) (mset (concat (map (\<lambda>a. cl_ids (snd a)) m)))"
proof (induction k "collapse_item it" m rule: bt_update.induct)
  case (2 k k' v m)
  then show ?case by (simp add: collapse_item_ids)
qed (simp add: collapse_item_ids)

text \<open>
  Collapsing loses and duplicates nothing: the outbox ids the groups absorbed are,
  as a multiset, exactly the ids of the queued items.
\<close>

theorem collapse_ids:
  "mset (concat (map cl_ids (collapse its remap))) = mset (map oi_id its)"
proof -
  have "mset (concat (map (\<lambda>a. cl_ids (snd a)) (collapse_groups xs))) = mset (map oi_id xs)" for xs
    by (induction xs rule: rev_induct)
      (simp_all add: collapse_groups_snoc bt_update_ids, simp add: collapse_groups_def)
  moreover have "map cl_ids (collapse its remap) =
      map (\<lambda>a. cl_ids (snd a)) (collapse_groups (sort_by created_le its))"
    by (simp add: collapse_def)
  ultimately show ?thesis by (metis mset_map mset_sort_by)
qed

text \<open>The last value the items give to a field, and whether any of them deletes.\<close>

definition written :: "string \<Rightarrow> outbox_item \<Rightarrow> json option" where
  "written c it = json_get (oi_payload it) c"

definition last_write :: "string \<Rightarrow> outbox_item list \<Rightarrow> json option" where
  "last_write c its = (case find (\<lambda>it. written c it \<noteq> None) (rev its) of
     None \<Rightarrow> None | Some it \<Rightarrow> written c it)"

definition any_delete :: "outbox_item list \<Rightarrow> bool" where
  "any_delete its \<longleftrightarrow> list_ex (\<lambda>it. truthy (written ''deleted'' it)) its"

definition group_payload :: "collapsed option \<Rightarrow> row" where
  "group_payload g = (case g of Some c \<Rightarrow> cl_payload c | None \<Rightarrow> fmempty)"

lemma group_payload_field:
  "c \<noteq> ''deleted'' \<Longrightarrow> fmlookup (group_payload (group_of k its)) c = last_write c (items_of k its)"
proof (induction its rule: rev_induct)
  case Nil
  show ?case by (simp add: group_payload_def group_of_def items_of_def last_write_def)
next
  case (snoc it its)
  then show ?case
    by (cases "oi_payload it")
      (auto simp: group_of_snoc group_payload_def collapse_item_payload Let_def merge_fields_def
        json_simps items_of_def last_write_def written_def split: option.splits)
qed

lemma group_payload_deleted:
  "truthy (fmlookup (group_payload (group_of k its)) ''deleted'') \<longleftrightarrow> any_delete (items_of k its)"
proof (induction its rule: rev_induct)
  case Nil
  show ?case by (simp add: group_payload_def group_of_def items_of_def any_delete_def)
next
  case (snoc it its)
  then show ?case
    by (cases "oi_payload it")
      (auto simp: group_of_snoc group_payload_def collapse_item_payload Let_def merge_fields_def
        json_simps items_of_def any_delete_def written_def outbox_truthy_eq split: option.splits)
qed


text \<open>The queue of one record: its items by time of enqueueing, ties in enqueue order.\<close>

definition record_queue :: "string \<Rightarrow> outbox_item list \<Rightarrow> outbox_item list" where
  "record_queue k its = sort_by created_le (items_of k its)"

lemma items_of_sort: "items_of k (sort_by created_le its) = record_queue k its"
  unfolding items_of_def record_queue_def
  by (intro filter_sort_by) (auto simp: created_le_def)

lemma group_of_ids: "group_of k its = Some g \<Longrightarrow> cl_ids g = map oi_id (items_of k its)"
proof (induction its arbitrary: g rule: rev_induct)
  case (snoc it its)
  then show ?case
    using group_of_None [of k its]
    by (cases "group_of k its")
      (auto simp: group_of_snoc collapse_item_ids items_of_def split: if_splits)
qed (simp add: group_of_def items_of_def)

lemma collapse_key:
  assumes "g \<in> set (collapse its remap)"
  obtains k g0 where "group_of k (sort_by created_le its) = Some g0" "g = repoint remap g0"
proof -
  from assms obtain k g0 where "(k, g0) \<in> set (collapse_groups (sort_by created_le its))"
    "g = repoint remap g0"
    by (auto simp: collapse_def)
  moreover have "distinct (map fst (collapse_groups (sort_by created_le its)))"
    using collapse_groups_sorted strict_sorted_iff by blast
  ultimately show ?thesis
    using that map_of_is_SomeI map_of_collapse_groups by metis
qed

text \<open>
  Property C25.  Each collapsed group is one record's whole queue: it absorbs the ids of that
  queue in order; every field but the two special ones has the value of the last item that
  writes it; \<open>deleted\<close> is truthy exactly when some item deletes, so no later edit un-deletes;
  and a note's \<open>book_id\<close> is the last written one followed to its merge survivor.
\<close>

theorem collapse_last_write_wins:
  assumes "g \<in> set (collapse its remap)"
  shows "\<exists>k. let q = record_queue k its in
    q \<noteq> [] \<and> cl_ids g = map oi_id q \<and>
    (\<forall>c. c \<noteq> ''deleted'' \<and> c \<noteq> ''book_id'' \<longrightarrow> fmlookup (cl_payload g) c = last_write c q) \<and>
    (truthy (fmlookup (cl_payload g) ''deleted'') \<longleftrightarrow> any_delete q) \<and>
    fmlookup (cl_payload g) ''book_id'' =
      (case (cl_table g = ''notes'', last_write ''book_id'' q) of
         (True, Some (JString b)) \<Rightarrow> Some (JString (resolve_book_id b remap))
       | (_, v) \<Rightarrow> v)"
proof -
  from assms obtain k g0 where g0: "group_of k (sort_by created_le its) = Some g0"
    and g: "g = repoint remap g0"
    by (rule collapse_key)
  have pl: "cl_payload g0 = group_payload (group_of k (sort_by created_le its))"
    by (simp add: g0 group_payload_def)
  have flds: "fmlookup (cl_payload g0) c = last_write c (record_queue k its)" if "c \<noteq> ''deleted''" for c
    using that by (simp add: pl group_payload_field items_of_sort)
  have "truthy (fmlookup (cl_payload g0) ''deleted'') \<longleftrightarrow> any_delete (record_queue k its)"
    by (simp add: pl group_payload_deleted items_of_sort)
  moreover have "cl_ids g0 = map oi_id (record_queue k its)" "record_queue k its \<noteq> []"
    using group_of_ids [OF g0] group_of_None [of k "sort_by created_le its"] g0
    by (auto simp: items_of_sort)
  moreover have "fmlookup (cl_payload g) c = fmlookup (cl_payload g0) c" if "c \<noteq> ''book_id''" for c
    using that by (simp add: g repoint_def split: option.splits)
  moreover have "fmlookup (cl_payload g) ''book_id'' =
      (case (cl_table g = ''notes'', last_write ''book_id'' (record_queue k its)) of
         (True, Some (JString b)) \<Rightarrow> Some (JString (resolve_book_id b remap))
       | (_, v) \<Rightarrow> v)"
    using flds [of "''book_id''"]
    by (auto simp: g repoint_def row_str_def split: option.splits json.splits bool.splits)
  ultimately show ?thesis
    using flds by (intro exI [of _ k]) (simp add: Let_def g)
qed

definition two_edits :: "outbox_item list" where
  "two_edits =
     [\<lparr>oi_id = 2, oi_table_name = ''books'', oi_record_id = Some ''b'',
       oi_payload = JObject (fmap_of_list [(''deleted'', JBool False), (''title'', JString ''T'')]),
       oi_created_at = 9\<rparr>,
      \<lparr>oi_id = 1, oi_table_name = ''books'', oi_record_id = Some ''b'',
       oi_payload = JObject (fmap_of_list [(''deleted'', JBool True)]), oi_created_at = 3\<rparr>]"

theorem collapse_last_write_wins_witness:
  "\<exists>g. collapse two_edits fmempty = [g] \<and>
     (\<exists>k. let q = record_queue k two_edits in q \<noteq> [] \<and> cl_ids g = map oi_id q \<and>
       (truthy (fmlookup (cl_payload g) ''deleted'') \<longleftrightarrow> any_delete q))"
proof -
  obtain g where g: "collapse two_edits fmempty = [g]"
    by (simp add: collapse_def collapse_groups_def two_edits_def sort_by_def created_le_def
        item_key_def item_record_id_def)
  from collapse_last_write_wins [of g two_edits fmempty] g show ?thesis
    by (auto simp: Let_def)
qed

subsection \<open>Merge survivors\<close>

text \<open>One hop of the remap.\<close>

definition hop :: "(string, string) fmap \<Rightarrow> string \<Rightarrow> string" where
  "hop remap i = unwrap_or (fmlookup remap i) i"

lemma hop_fixed: "hop remap i = i \<Longrightarrow> (hop remap ^^ n) i = i"
  by (induction n) simp_all

lemma resolve_hops_funpow: "resolve_hops n remap i = (hop remap ^^ n) i"
proof (induction n remap i rule: resolve_hops.induct)
  case (2 n remap i)
  show ?case
  proof (cases "hop remap i = i")
    case True
    then have "fmlookup remap i = None \<or> fmlookup remap i = Some i"
      by (cases "fmlookup remap i") (simp_all add: hop_def)
    with hop_fixed [OF True, of "Suc n"] show ?thesis by (auto simp del: funpow.simps)
  next
    case False
    then obtain j where "fmlookup remap i = Some j" "j \<noteq> i"
      by (cases "fmlookup remap i") (auto simp: hop_def)
    moreover from this have "hop remap i = j" by (simp add: hop_def)
    ultimately show ?thesis using 2 by (simp add: funpow_Suc_right del: funpow.simps)
  qed
qed simp

text \<open>
  Property C40.  A book id is followed to the end of its merge chain: when a survivor (an id the
  remap leaves alone) is reached in at most twenty hops, that survivor is the result, and
  resolving again changes nothing.
\<close>

theorem resolve_book_id_survivor:
  assumes "(hop remap ^^ n) b = s" "n \<le> 20" "hop remap s = s"
  shows "resolve_book_id b remap = s \<and> resolve_book_id (resolve_book_id b remap) remap = s"
proof -
  have "(hop remap ^^ 20) b = (hop remap ^^ (20 - n)) ((hop remap ^^ n) b)"
    using assms(2) by (simp flip: funpow_add comp_apply [of "hop remap ^^ _"])
  with assms show ?thesis by (simp add: resolve_book_id_def resolve_hops_funpow hop_fixed)
qed

theorem resolve_book_id_survivor_witness:
  "resolve_book_id ''a'' (fmap_of_list [(''a'', ''b''), (''b'', ''c'')]) = ''c''"
  using resolve_book_id_survivor [of 2 "fmap_of_list [(''a'', ''b''), (''b'', ''c'')]" "''a''" "''c''"]
  by (simp add: hop_def numeral_2_eq_2)

end
