(* ===== verification/Push.thy ===== *)
theory Push
  imports Outbox Store_Invariant
begin

text \<open>
  The flush of \<open>src/src/sync/push.rs\<close>: collapse the queue, dispatch table by table in dependency
  order, hold back the children of a failed record, clear what succeeded.  The PostgREST sink is
  an argument: a record of its operations over a world of type \<open>'w\<close>, each returning a result
  and the next world.
\<close>

subsection \<open>The sink\<close>

record 'w sink =
  snk_upsert :: "string \<Rightarrow> string \<Rightarrow> json \<Rightarrow> 'w \<Rightarrow> (string + unit) \<times> 'w"
  snk_patch :: "string \<Rightarrow> string \<Rightarrow> string \<Rightarrow> json \<Rightarrow> 'w \<Rightarrow> (string + unit) \<times> 'w"
  snk_fetch_page :: "string \<Rightarrow> int \<Rightarrow> int \<Rightarrow> 'w \<Rightarrow> (string + json list) \<times> 'w"

subsection \<open>Tables of the wire protocol\<close>

definition BOOK_ID_REMAP_KEY :: string where "BOOK_ID_REMAP_KEY = ''bookIdRemap''"

definition on_conflict_for :: "string \<Rightarrow> string" where
  "on_conflict_for table =
     (if table = ''note_signals'' then ''note_id''
      else if table = ''user_settings'' then ''user_id,key''
      else ''id'')"

definition record_id_column :: "string \<Rightarrow> string" where
  "record_id_column table = (case table_schema table of None \<Rightarrow> ''id'' | Some t \<Rightarrow> hd (ts_pk t))"

definition required_insert_columns :: "string \<Rightarrow> string list" where
  "required_insert_columns table =
     (if table = ''books'' then [''title'', ''created_at'']
      else if table = ''notes'' then [''text'', ''created_at'']
      else if table = ''custom_ideas'' then [''name'']
      else if table = ''lenses'' then [''name'', ''created_at'']
      else if table = ''collections'' then [''name'', ''created_at'']
      else if table = ''collection_memberships'' then [''note_id'', ''collection_id'', ''created_at'']
      else if table = ''note_links'' then [''from_note_id'', ''to_note_id'', ''created_at'']
      else if table = ''note_signals'' then [''created_at'']
      else if table = ''questions'' then [''text'', ''created_at'']
      else if table = ''question_notes'' then [''question_id'', ''note_id'', ''created_at'']
      else [])"

definition fk_deps :: "string \<Rightarrow> (string \<times> string) list" where
  "fk_deps table =
     (if table = ''notes'' then [(''book_id'', ''books'')]
      else if table = ''note_links'' then [(''from_note_id'', ''notes''), (''to_note_id'', ''notes'')]
      else if table = ''collection_memberships''
        then [(''note_id'', ''notes''), (''collection_id'', ''collections'')]
      else if table = ''note_signals'' then [(''note_id'', ''notes'')]
      else if table = ''question_notes'' then [(''question_id'', ''questions''), (''note_id'', ''notes'')]
      else [])"

subsection \<open>The persisted remap\<close>

datatype flush_error = ParseRemap

definition remap_of_json :: "json \<Rightarrow> (string, string) fmap option" where
  "remap_of_json v =
     (case v of
        JObject m \<Rightarrow> if fmpred (\<lambda>_ x. as_str x \<noteq> None) m
                     then Some (fmmap (\<lambda>x. unwrap_or (as_str x) []) m) else None
      | _ \<Rightarrow> None)"

definition load_remap :: "serde \<Rightarrow> store \<Rightarrow> flush_error + (string, string) fmap" where
  "load_remap J st =
     (case meta_get st BOOK_ID_REMAP_KEY of
        None \<Rightarrow> Inr fmempty
      | Some s \<Rightarrow> (case Option.bind (from_str J s) remap_of_json of
            None \<Rightarrow> Inl ParseRemap | Some m \<Rightarrow> Inr m))"

definition persist_remap :: "serde \<Rightarrow> store \<Rightarrow> (string, string) fmap \<Rightarrow> store" where
  "persist_remap J st remap =
     meta_set st BOOK_ID_REMAP_KEY (to_str J (JObject (fmmap JString remap)))"

subsection \<open>Dispatch\<close>

definition upsert_group ::
  "'w sink \<Rightarrow> collapsed \<Rightarrow> string \<Rightarrow> 'w \<Rightarrow> (string + unit) \<times> 'w" where
  "upsert_group snk g user_id w =
     snk_upsert snk (cl_table g) (on_conflict_for (cl_table g))
       (JArray [JObject (fmupd ''user_id'' (JString user_id) (cl_payload g))]) w"

definition patch_group ::
  "'w sink \<Rightarrow> collapsed \<Rightarrow> string \<Rightarrow> string \<Rightarrow> 'w \<Rightarrow> (string + unit) \<times> 'w" where
  "patch_group snk g primary_key record_id w =
     snk_patch snk (cl_table g) primary_key record_id
       (JObject (fmdrop primary_key (cl_payload g))) w"

text \<open>The local variables of \<open>flush\<close>: the result, the failed or held record ids per table, the
  remap, and the sink's world.\<close>

record 'w flush_state =
  fl_ok :: "int list"
  fl_failed :: "int list"
  fl_held :: "string \<Rightarrow> string set"
  fl_remap :: "(string, string) fmap"
  fl_world :: 'w

definition drop_null_columns :: "row \<Rightarrow> row" where
  "drop_null_columns p =
     fold (\<lambda>col p. if fmlookup p col = Some JNull then fmdrop col p else p)
       BOOK_FILLABLE_COLUMNS p"

definition prepare_payload :: "(string, string) fmap \<Rightarrow> string \<Rightarrow> row \<Rightarrow> row" where
  "prepare_payload remap table p =
     (let p1 = (case row_str p ''book_id'' of
            Some b \<Rightarrow> fmupd ''book_id'' (JString (resolve_book_id b remap)) p
          | None \<Rightarrow> p)
      in if table = ''books'' then drop_null_columns p1 else p1)"

definition is_blocked :: "(string \<Rightarrow> string set) \<Rightarrow> string \<Rightarrow> row \<Rightarrow> bool" where
  "is_blocked held table p \<longleftrightarrow>
     list_ex (\<lambda>(fk_col, parent). case row_str p fk_col of
         Some val \<Rightarrow> val \<in> held parent | None \<Rightarrow> False) (fk_deps table)"

definition is_sparse :: "string \<Rightarrow> row \<Rightarrow> bool" where
  "is_sparse table p \<longleftrightarrow> list_ex (\<lambda>c. fmlookup p c = None) (required_insert_columns table)"

definition hold :: "string \<Rightarrow> string \<Rightarrow> int list \<Rightarrow> 'w flush_state \<Rightarrow> 'w flush_state" where
  "hold table record_id ids s =
     s\<lparr>fl_failed := fl_failed s @ ids,
       fl_held := (fl_held s)(table := insert record_id (fl_held s table))\<rparr>"

definition note_server_id :: "string \<Rightarrow> string \<Rightarrow> row \<Rightarrow> (string, string) fmap \<Rightarrow> (string, string) fmap" where
  "note_server_id table record_id p remap =
     (if table = ''books'' then
        case row_str p ''server_id'' of
          Some server_id \<Rightarrow> if server_id \<noteq> record_id then fmupd record_id server_id remap else remap
        | None \<Rightarrow> remap
      else remap)"

definition flush_group ::
  "'w sink \<Rightarrow> string \<Rightarrow> string \<Rightarrow> collapsed \<Rightarrow> 'w flush_state \<Rightarrow> 'w flush_state" where
  "flush_group snk user_id table g0 s =
     (let p = prepare_payload (fl_remap s) table (cl_payload g0);
          g = g0\<lparr>cl_payload := p\<rparr>;
          record_id = unwrap_or (row_str p (record_id_column table)) []
      in if is_blocked (fl_held s) table p then hold table record_id (cl_ids g) s
         else
           let (r, w) = (if is_sparse table p
                 then patch_group snk g (record_id_column table) record_id (fl_world s)
                 else upsert_group snk g user_id (fl_world s))
           in case r of
                Inr _ \<Rightarrow> s\<lparr>fl_ok := fl_ok s @ cl_ids g,
                           fl_remap := note_server_id table record_id p (fl_remap s), fl_world := w\<rparr>
              | Inl _ \<Rightarrow> hold table record_id (cl_ids g) (s\<lparr>fl_world := w\<rparr>))"

definition flush_table ::
  "'w sink \<Rightarrow> string \<Rightarrow> collapsed list \<Rightarrow> string \<Rightarrow> 'w flush_state \<Rightarrow> 'w flush_state" where
  "flush_table snk user_id groups table s =
     fold (flush_group snk user_id table) (filter (\<lambda>g. cl_table g = table) groups) s"

definition parse_items :: "serde \<Rightarrow> outbox_row list \<Rightarrow> outbox_item list" where
  "parse_items J raw =
     List.map_filter (\<lambda>o'. map_option (\<lambda>payload.
         \<lparr>oi_id = ob_id o', oi_table_name = ob_table o', oi_record_id = ob_record_id o',
          oi_payload = payload, oi_created_at = ob_created_at o'\<rparr>) (from_str J (ob_payload o'))) raw"

record flush_result =
  fr_ok :: "int list"
  fr_failed :: "int list"

definition flush_tables ::
  "serde \<Rightarrow> 'w sink \<Rightarrow> string \<Rightarrow> collapsed list \<Rightarrow> 'w flush_state \<times> store \<Rightarrow> 'w flush_state \<times> store" where
  "flush_tables J snk user_id groups =
     fold (\<lambda>table (s, st).
         let s' = flush_table snk user_id groups table s
         in (s', if table = ''books'' then persist_remap J st (fl_remap s') else st))
       synced_table_names"

definition flush_init :: "(string, string) fmap \<Rightarrow> 'w \<Rightarrow> 'w flush_state" where
  "flush_init remap w =
     \<lparr>fl_ok = [], fl_failed = [], fl_held = (\<lambda>_. {}), fl_remap = remap, fl_world = w\<rparr>"

definition flush ::
  "serde \<Rightarrow> 'w sink \<Rightarrow> string \<Rightarrow> store \<Rightarrow> 'w \<Rightarrow> (flush_error + flush_result) \<times> store \<times> 'w" where
  "flush J snk user_id st w =
     (case load_remap J st of
        Inl e \<Rightarrow> (Inl e, st, w)
      | Inr remap \<Rightarrow>
          let groups = collapse (parse_items J (outbox_items st)) remap;
              (s, st1) = flush_tables J snk user_id groups (flush_init remap w, st)
          in (Inr \<lparr>fr_ok = fl_ok s, fr_failed = fl_failed s\<rparr>, clear_outbox st1 (fl_ok s), fl_world s))"

subsection \<open>The loop over the tables\<close>

lemma flush_tables_fst:
  "fst (fold (\<lambda>table (s, st).
         let s' = flush_table snk user_id groups table s
         in (s', if table = ''books'' then persist_remap J st (fl_remap s') else st)) ts (s, st)) =
   fold (flush_table snk user_id groups) ts s"
  by (induction ts arbitrary: s st) (simp_all add: Let_def)

lemma flush_tables_snd:
  "\<exists>m. snd (fold (\<lambda>table (s, st).
         let s' = flush_table snk user_id groups table s
         in (s', if table = ''books'' then persist_remap J st (fl_remap s') else st)) ts (s, st)) =
   st\<lparr>meta := m\<rparr>"
proof (induction ts arbitrary: s st)
  case Nil
  show ?case by (rule exI [of _ "meta st"]) simp
next
  case (Cons t ts)
  show ?case
    using Cons [of "flush_table snk user_id groups t s"
        "if t = ''books'' then persist_remap J st (fl_remap (flush_table snk user_id groups t s)) else st"]
    by (auto simp: Let_def persist_remap_def meta_set_def)
qed

lemma flush_Inr:
  assumes "flush J snk user_id st w = (Inr r, st', w')"
  obtains remap s m where "load_remap J st = Inr remap"
    "s = fold (flush_table snk user_id (collapse (parse_items J (outbox_items st)) remap))
       synced_table_names (flush_init remap w)"
    "r = \<lparr>fr_ok = fl_ok s, fr_failed = fl_failed s\<rparr>" "w' = fl_world s"
    "st' = clear_outbox (st\<lparr>meta := m\<rparr>) (fl_ok s)"
proof -
  from assms obtain remap where remap: "load_remap J st = Inr remap"
    by (auto simp: flush_def split: sum.splits)
  let ?g = "collapse (parse_items J (outbox_items st)) remap"
  obtain s st1 where run: "flush_tables J snk user_id ?g (flush_init remap w, st) = (s, st1)"
    by (meson surj_pair)
  have s: "s = fold (flush_table snk user_id ?g) synced_table_names (flush_init remap w)"
    using run flush_tables_fst [of snk user_id ?g J synced_table_names "flush_init remap w" st]
    by (simp add: flush_tables_def)
  obtain m where "st1 = st\<lparr>meta := m\<rparr>"
    using run flush_tables_snd [of snk user_id ?g J synced_table_names "flush_init remap w" st]
    by (auto simp: flush_tables_def)
  with that [OF remap s] assms remap run show ?thesis
    by (auto simp: flush_def Let_def)
qed

subsection \<open>Accounting\<close>

lemma flush_group_ids:
  "mset (fl_ok (flush_group snk user_id t g s)) + mset (fl_failed (flush_group snk user_id t g s)) =
   mset (fl_ok s) + mset (fl_failed s) + mset (cl_ids g)"
  by (simp add: flush_group_def Let_def hold_def split: sum.splits prod.splits)

lemma flush_groups_ids:
  "mset (fl_ok (fold (flush_group snk user_id t) gs s)) +
     mset (fl_failed (fold (flush_group snk user_id t) gs s)) =
   mset (fl_ok s) + mset (fl_failed s) + mset (concat (map cl_ids gs))"
  by (induction gs arbitrary: s) (simp_all add: flush_group_ids)

lemma concat_filter_insert:
  "t \<notin> set ts \<Longrightarrow>
   mset (concat (map cl_ids (filter (\<lambda>g. cl_table g \<in> set (t # ts)) gs))) =
   mset (concat (map cl_ids (filter (\<lambda>g. cl_table g = t) gs))) +
   mset (concat (map cl_ids (filter (\<lambda>g. cl_table g \<in> set ts) gs)))"
  by (induction gs) auto

lemma flush_all_ids:
  "distinct ts \<Longrightarrow>
   mset (fl_ok (fold (flush_table snk user_id gs) ts s)) +
     mset (fl_failed (fold (flush_table snk user_id gs) ts s)) =
   mset (fl_ok s) + mset (fl_failed s) +
     mset (concat (map cl_ids (filter (\<lambda>g. cl_table g \<in> set ts) gs)))"
proof (induction ts arbitrary: s)
  case (Cons t ts)
  then show ?case
    using concat_filter_insert [of t ts gs]
    by (simp add: flush_table_def flush_groups_ids del: list.set)
qed simp

lemma group_of_table:
  "group_of k its = Some g \<Longrightarrow> \<exists>it \<in> set its. cl_table g = oi_table_name it"
proof (induction its arbitrary: g rule: rev_induct)
  case (snoc it its)
  then show ?case
    by (cases "group_of k its") (auto simp: group_of_snoc collapse_item_table split: if_splits)
qed (simp add: group_of_def items_of_def)

lemma collapse_table:
  assumes "g \<in> set (collapse its remap)"
  shows "\<exists>it \<in> set its. cl_table g = oi_table_name it"
  using assms by (rule collapse_key) (metis group_of_table repoint_ids(2) set_sort_by)

abbreviation parseable :: "serde \<Rightarrow> outbox_row \<Rightarrow> bool" where
  "parseable J o' \<equiv> from_str J (ob_payload o') \<noteq> None"

lemma parse_items_facts:
  "map oi_id (parse_items J raw) = map ob_id (filter (parseable J) raw)"
  "set (map oi_table_name (parse_items J raw)) \<subseteq> set (map ob_table raw)"
  by (induction raw) (auto simp: parse_items_def List.map_filter_simps split: option.splits)

lemma outbox_items_mset: "mset (outbox_items st) = mset (outbox st)"
  by (simp add: outbox_items_def)

lemma collapsed_ids:
  "mset (concat (map cl_ids (collapse (parse_items J (outbox_items st)) remap))) =
   mset (map ob_id (filter (parseable J) (outbox st)))"
proof -
  have "mset (map ob_id (filter (parseable J) (outbox_items st))) =
      mset (map ob_id (filter (parseable J) (outbox st)))"
    by (simp add: outbox_items_mset)
  then show ?thesis
    using parse_items_facts(1) [of J "outbox_items st"]
    by (metis collapse_ids)
qed

lemma collapsed_synced:
  assumes "outbox_ok st" "g \<in> set (collapse (parse_items J (outbox_items st)) remap)"
  shows "cl_table g \<in> set synced_table_names"
proof -
  obtain it where "it \<in> set (parse_items J (outbox_items st))" "cl_table g = oi_table_name it"
    using collapse_table [OF assms(2)] by blast
  then have "cl_table g \<in> set (map ob_table (outbox_items st))"
    using parse_items_facts(2) [of J "outbox_items st"] by auto
  then show ?thesis using assms(1) by (auto simp: outbox_items_def outbox_ok_def)
qed

lemma outbox_distinct: "outbox_ok st \<Longrightarrow> distinct (map ob_id (outbox st))"
  using strict_sorted_iff by (auto simp: outbox_ok_def)

lemma flush_ids:
  assumes ok: "outbox_ok st"
    and s: "s = fold (flush_table snk user_id (collapse (parse_items J (outbox_items st)) remap))
       synced_table_names (flush_init remap w)"
  shows "mset (fl_ok s @ fl_failed s) = mset (map ob_id (filter (parseable J) (outbox st)))"
proof -
  have "filter (\<lambda>g. cl_table g \<in> set synced_table_names)
      (collapse (parse_items J (outbox_items st)) remap) = collapse (parse_items J (outbox_items st)) remap"
    using collapsed_synced [OF ok] by (simp add: filter_id_conv)
  then show ?thesis
    using flush_all_ids [OF descriptor_names_distinct, of snk user_id
        "collapse (parse_items J (outbox_items st)) remap" "flush_init remap w"]
    by (simp add: s flush_init_def collapsed_ids)
qed


lemma flush_ids_split:
  assumes "outbox_ok st" and "flush J snk user_id st w = (Inr r, st', w')"
  shows "distinct (fr_ok r @ fr_failed r)"
    "set (fr_ok r @ fr_failed r) = ob_id ` {o' \<in> set (outbox st). parseable J o'}"
    "outbox st' = filter (\<lambda>o'. ob_id o' \<notin> set (fr_ok r)) (outbox st)" "tables st' = tables st"
proof -
  from assms(2) obtain remap s m where s: "s = fold (flush_table snk user_id
        (collapse (parse_items J (outbox_items st)) remap)) synced_table_names (flush_init remap w)"
    and r: "r = \<lparr>fr_ok = fl_ok s, fr_failed = fl_failed s\<rparr>"
    and st': "st' = clear_outbox (st\<lparr>meta := m\<rparr>) (fl_ok s)"
    by (rule flush_Inr)
  have ms: "mset (fl_ok s @ fl_failed s) = mset (map ob_id (filter (parseable J) (outbox st)))"
    using flush_ids [OF assms(1) s] .
  show "distinct (fr_ok r @ fr_failed r)"
    using outbox_distinct [OF assms(1)] mset_eq_imp_distinct_iff [OF ms]
    by (simp add: distinct_map_filter r)
  show "set (fr_ok r @ fr_failed r) = ob_id ` {o' \<in> set (outbox st). parseable J o'}"
    using mset_eq_setD [OF ms] by (simp add: r)
  show "outbox st' = filter (\<lambda>o'. ob_id o' \<notin> set (fr_ok r)) (outbox st)" "tables st' = tables st"
    by (simp_all add: r st' clear_outbox_def)
qed

lemma flush_outbox_left:
  assumes "outbox_ok st" and "flush J snk user_id st w = (Inr r, st', w')"
  shows "outbox st' = filter (\<lambda>o'. ob_id o' \<in> set (fr_failed r) \<or> \<not> parseable J o') (outbox st)"
proof -
  note fl = flush_ids_split [OF assms]
  have inj: "inj_on ob_id (set (outbox st))"
    using outbox_distinct [OF assms(1)] by (simp add: distinct_map)
  have "ob_id o' \<notin> set (fr_ok r) \<longleftrightarrow> ob_id o' \<in> set (fr_failed r) \<or> \<not> parseable J o'"
    if "o' \<in> set (outbox st)" for o'
  proof -
    have "ob_id o' \<in> set (fr_ok r) \<union> set (fr_failed r) \<longleftrightarrow> parseable J o'"
      using fl(2) that inj by (auto simp: inj_on_def)
    with fl(1) show ?thesis by auto
  qed
  then show ?thesis by (simp add: fl(3) cong: filter_cong)
qed

text \<open>
  Property C8.  A flush that returns accounts for every readable outbox row exactly once, as
  cleared or as failed, and leaves in the outbox exactly the failed rows and the rows whose
  payload does not parse; the tables are untouched.
\<close>

theorem flush_accounting:
  assumes "outbox_ok st" and "flush J snk user_id st w = (Inr r, st', w')"
  shows "distinct (fr_ok r @ fr_failed r) \<and>
    set (fr_ok r @ fr_failed r) = ob_id ` {o' \<in> set (outbox st). parseable J o'} \<and>
    outbox st' = filter (\<lambda>o'. ob_id o' \<in> set (fr_failed r) \<or> \<not> parseable J o') (outbox st) \<and>
    tables st' = tables st"
  using flush_ids_split [OF assms] flush_outbox_left [OF assms] by simp

subsection \<open>The requests of a flush\<close>

text \<open>A sink that behaves as another one and records every write request.\<close>

datatype request = Upsert string string json | Patch string string string json

definition recording :: "'w sink \<Rightarrow> ('w \<times> request list) sink" where
  "recording snk = \<lparr>
     snk_upsert = (\<lambda>table on_conflict body (w, tr).
       let (r, w') = snk_upsert snk table on_conflict body w
       in (r, w', tr @ [Upsert table on_conflict body])),
     snk_patch = (\<lambda>table pk rid body (w, tr).
       let (r, w') = snk_patch snk table pk rid body w
       in (r, w', tr @ [Patch table pk rid body])),
     snk_fetch_page = (\<lambda>table seq limit (w, tr).
       let (r, w') = snk_fetch_page snk table seq limit w in (r, w', tr))\<rparr>"

fun request_table :: "request \<Rightarrow> string" where
  "request_table (Upsert table _ _) = table"
| "request_table (Patch table _ _ _) = table"

text \<open>The value a request gives to a foreign-key column: in its body, or as the row a PATCH
  selects.\<close>

fun request_ref :: "request \<Rightarrow> string \<Rightarrow> string option" where
  "request_ref (Upsert table _ (JArray [JObject p])) col = row_str p col"
| "request_ref (Patch table pk rid (JObject p)) col =
     (if col = pk then (if rid = [] then None else Some rid) else row_str p col)"
| "request_ref _ col = None"

text \<open>The request of one unblocked group.\<close>

definition group_request :: "string \<Rightarrow> string \<Rightarrow> row \<Rightarrow> request" where
  "group_request user_id table p =
     (if is_sparse table p
      then Patch table (record_id_column table) (unwrap_or (row_str p (record_id_column table)) [])
             (JObject (fmdrop (record_id_column table) p))
      else Upsert table (on_conflict_for table)
             (JArray [JObject (fmupd ''user_id'' (JString user_id) p)]))"

definition requests :: "('w \<times> request list) flush_state \<Rightarrow> request list" where
  "requests s = snd (fl_world s)"

lemma request_table_group [simp]: "request_table (group_request user_id table p) = table"
  by (simp add: group_request_def)

lemma request_ref_group:
  assumes "request_ref (group_request user_id table p) col = Some v" "col \<noteq> ''user_id''"
  shows "row_str p col = Some v"
  using assms
  by (cases "row_str p (record_id_column table)")
    (auto simp: group_request_def json_simps row_str_def split: if_splits)

lemma prepare_payload_other:
  assumes "c \<noteq> ''book_id''" "c \<notin> set BOOK_FILLABLE_COLUMNS"
  shows "row_str (prepare_payload remap table p) c = row_str p c"
proof -
  have "fmlookup (fold (\<lambda>col p. if fmlookup p col = Some JNull then fmdrop col p else p) cols p) c
      = fmlookup p c" if "c \<notin> set cols" for cols p
    using that by (induction cols arbitrary: p) auto
  then show ?thesis
    using assms
    by (auto simp: prepare_payload_def drop_null_columns_def row_str_def Let_def split: option.splits)
qed

lemma record_id_column_cases: "record_id_column t \<in> {''id'', ''note_id'', ''key''}"
proof (cases "table_schema t")
  case (Some d)
  have "list_all (\<lambda>d. hd (ts_pk d) \<in> {''id'', ''note_id'', ''key''}) descriptor_tables"
    by (simp add: schema_defs)
  with table_schema_in [OF Some] Some show ?thesis
    by (simp add: record_id_column_def list_all_iff)
qed (simp add: record_id_column_def)

text \<open>The record id of a group, which preparing its payload leaves alone.\<close>

definition group_record_id :: "collapsed \<Rightarrow> string" where
  "group_record_id g = unwrap_or (row_str (cl_payload g) (record_id_column (cl_table g))) []"

lemma prepare_record_id:
  "row_str (prepare_payload remap t p) (record_id_column t) = row_str p (record_id_column t)"
  using record_id_column_cases [of t]
  by (intro prepare_payload_other) (auto simp: BOOK_FILLABLE_COLUMNS_def)

lemma flush_group_cases:
  fixes s :: "('w \<times> request list) flush_state" and snk :: "'w sink" and user_id :: string
  assumes "cl_table g = t"
  defines "s' \<equiv> flush_group (recording snk) user_id t g s"
    and "p \<equiv> prepare_payload (fl_remap s) t (cl_payload g)"
  obtains (held) "is_blocked (fl_held s) t p" "requests s' = requests s"
      "fl_held s' = (fl_held s)(t := insert (group_record_id g) (fl_held s t))"
      "fl_failed s' = fl_failed s @ cl_ids g"
  | (failed) "\<not> is_blocked (fl_held s) t p" "requests s' = requests s @ [group_request user_id t p]"
      "fl_held s' = (fl_held s)(t := insert (group_record_id g) (fl_held s t))"
      "fl_failed s' = fl_failed s @ cl_ids g"
  | (sent) "\<not> is_blocked (fl_held s) t p" "requests s' = requests s @ [group_request user_id t p]"
      "fl_held s' = fl_held s" "fl_failed s' = fl_failed s"
proof -
  have rid: "row_str p (record_id_column t) = row_str (cl_payload g) (record_id_column t)"
    by (simp add: p_def prepare_record_id)
  show ?thesis
  proof (cases "is_blocked (fl_held s) t p")
    case True
    then show ?thesis
      using assms(1) held rid
      by (simp add: s'_def p_def [symmetric] flush_group_def Let_def hold_def group_record_id_def
          requests_def)
  next
    case False
    obtain w tr where w: "fl_world s = (w, tr)" by fastforce
    define res where "res = (if is_sparse t p
        then snk_patch snk t (record_id_column t) (unwrap_or (row_str p (record_id_column t)) [])
               (JObject (fmdrop (record_id_column t) p)) w
        else snk_upsert snk t (on_conflict_for t)
               (JArray [JObject (fmupd ''user_id'' (JString user_id) p)]) w)"
    have s': "s' = (case fst res of
        Inr _ \<Rightarrow> s\<lparr>fl_ok := fl_ok s @ cl_ids g,
             fl_remap := note_server_id t (unwrap_or (row_str p (record_id_column t)) []) p (fl_remap s),
             fl_world := (snd res, tr @ [group_request user_id t p])\<rparr>
      | Inl _ \<Rightarrow> hold t (unwrap_or (row_str p (record_id_column t)) []) (cl_ids g)
             (s\<lparr>fl_world := (snd res, tr @ [group_request user_id t p])\<rparr>))"
    proof -
      have "(if is_sparse t p
          then patch_group (recording snk) (g\<lparr>cl_payload := p\<rparr>) (record_id_column t)
                 (unwrap_or (row_str p (record_id_column t)) []) (fl_world s)
          else upsert_group (recording snk) (g\<lparr>cl_payload := p\<rparr>) user_id (fl_world s)) =
        (fst res, snd res, tr @ [group_request user_id t p])"
        using assms(1)
        by (simp add: w res_def recording_def patch_group_def upsert_group_def group_request_def
            case_prod_beta)
      with False show ?thesis
        by (simp add: s'_def p_def [symmetric] flush_group_def Let_def split: sum.split)
    qed
    show ?thesis
      using False failed sent assms(1) rid
      by (cases "fst res") (simp_all add: s' hold_def requests_def group_record_id_def w)
  qed
qed


subsection \<open>No request refers to a record that failed in the same flush\<close>

text \<open>No table of \<open>ts\<close> has a foreign key into itself or into a later one.\<close>

fun topo_ok :: "string list \<Rightarrow> bool" where
  "topo_ok [] = True"
| "topo_ok (t # ts) = (list_all (\<lambda>(_, parent). parent \<notin> set (t # ts)) (fk_deps t) \<and> topo_ok ts)"

lemma synced_order: "topo_ok synced_table_names"
  by (simp add: synced_table_names_def schema_defs fk_deps_def)

definition refs_ok :: "('w \<times> request list) flush_state \<Rightarrow> bool" where
  "refs_ok s \<longleftrightarrow> (\<forall>c \<in> set (requests s). \<forall>(col, parent) \<in> set (fk_deps (request_table c)).
     \<forall>v. request_ref c col = Some v \<longrightarrow> v \<notin> fl_held s parent)"

definition sent_before :: "string list \<Rightarrow> ('w \<times> request list) flush_state \<Rightarrow> bool" where
  "sent_before ts s \<longleftrightarrow> (\<forall>c \<in> set (requests s). \<forall>(_, parent) \<in> set (fk_deps (request_table c)).
     parent \<notin> set ts)"

lemma fk_column_not_user_id: "(col, parent) \<in> set (fk_deps t) \<Longrightarrow> col \<noteq> ''user_id''"
  by (auto simp: fk_deps_def split: if_splits)

lemma unblocked_refs:
  assumes "\<not> is_blocked held t p" "(col, parent) \<in> set (fk_deps t)"
    "request_ref (group_request user_id t p) col = Some v"
  shows "v \<notin> held parent"
  using assms request_ref_group [OF assms(3) fk_column_not_user_id [OF assms(2)]]
  by (force simp: is_blocked_def list_ex_iff)

lemma flush_group_refs:
  assumes "cl_table g = t" "refs_ok s" "sent_before (t # ts) s" "topo_ok (t # ts)"
  shows "refs_ok (flush_group (recording snk) user_id t g s) \<and>
    sent_before (t # ts) (flush_group (recording snk) user_id t g s)"
proof -
  have t: "parent \<notin> set (t # ts)" if "(col, parent) \<in> set (fk_deps t)" for col parent
    using assms(4) that by (auto simp: list_all_iff)
  show ?thesis
  proof (cases rule: flush_group_cases [OF assms(1), where s = s and snk = snk and user_id = user_id])
    case 1
    with assms(2,3) show ?thesis
      by (fastforce simp: refs_ok_def sent_before_def)
  next
    case 2
    with assms(2,3) t unblocked_refs [OF 2(1)] show ?thesis
      by (fastforce simp: refs_ok_def sent_before_def)
  next
    case 3
    with assms(2,3) t unblocked_refs [OF 3(1)] show ?thesis
      by (fastforce simp: refs_ok_def sent_before_def)
  qed
qed

lemma flush_table_refs:
  assumes "refs_ok s" "sent_before (t # ts) s" "topo_ok (t # ts)"
  shows "refs_ok (flush_table (recording snk) user_id gs t s) \<and>
    sent_before (t # ts) (flush_table (recording snk) user_id gs t s)"
  unfolding flush_table_def
  by (rule fold_invariant [where Q = "\<lambda>g. cl_table g = t"
        and P = "\<lambda>s. refs_ok s \<and> sent_before (t # ts) s"])
    (simp_all add: assms(1,2) flush_group_refs [OF _ _ _ assms(3)])

lemma flush_all_refs:
  "refs_ok s \<Longrightarrow> sent_before ts s \<Longrightarrow> topo_ok ts \<Longrightarrow>
   refs_ok (fold (flush_table (recording snk) user_id gs) ts s)"
proof (induction ts arbitrary: s)
  case (Cons t ts)
  from flush_table_refs [OF this(2-4), of snk user_id gs] Cons(1) Cons(4) show ?case
    by (force simp: sent_before_def)
qed simp

text \<open>The held sets cover every group with an id in the failed list.\<close>

definition held_complete :: "collapsed list \<Rightarrow> 'w flush_state \<Rightarrow> bool" where
  "held_complete gs s \<longleftrightarrow> (\<forall>g \<in> set gs. set (cl_ids g) \<inter> set (fl_failed s) \<noteq> {} \<longrightarrow>
     group_record_id g \<in> fl_held s (cl_table g))"

lemma distinct_concat_share:
  assumes "distinct (concat (map f xs))" "a \<in> set xs" "b \<in> set xs" "set (f a) \<inter> set (f b) \<noteq> {}"
  shows "a = b"
  using assms by (induction xs) (auto simp: disjoint_iff)

lemma flush_group_held:
  assumes "distinct (concat (map cl_ids gs))" "g \<in> set gs" "cl_table g = t" "held_complete gs s"
  shows "held_complete gs (flush_group (recording snk) user_id t g s)"
proof -
  have same: "g' = g" if "g' \<in> set gs" "set (cl_ids g') \<inter> set (cl_ids g) \<noteq> {}" for g'
    using distinct_concat_share [OF assms(1) that(1) assms(2) that(2)] .
  show ?thesis
    using same assms(3,4)
    by (cases rule: flush_group_cases [OF assms(3), where s = s and snk = snk and user_id = user_id])
      (auto simp: held_complete_def Int_Un_distrib)
qed

lemma flush_all_held:
  assumes "distinct (concat (map cl_ids gs))" "held_complete gs s"
  shows "held_complete gs (fold (flush_table (recording snk) user_id gs) ts s)"
proof -
  have "held_complete gs (flush_table (recording snk) user_id gs t s)" if "held_complete gs s" for t s
    unfolding flush_table_def
    by (rule fold_invariant [where Q = "\<lambda>g. g \<in> set gs \<and> cl_table g = t" and P = "held_complete gs"])
      (simp_all add: that flush_group_held [OF assms(1)])
  then show ?thesis using assms(2) by (induction ts arbitrary: s) auto
qed

text \<open>
  Property C1.  Whatever the server answers, no request of a flush refers through a foreign key
  to a record whose own group failed or was held back in the same flush.
\<close>

theorem flush_never_orphans:
  assumes "outbox_ok st" and "load_remap J st = Inr remap"
    and "flush J (recording snk) user_id st (w, []) = (Inr r, st', (w', trace))"
    and "g \<in> set (collapse (parse_items J (outbox_items st)) remap)"
    and "set (cl_ids g) \<inter> set (fr_failed r) \<noteq> {}"
    and "c \<in> set trace" and "(col, cl_table g) \<in> set (fk_deps (request_table c))"
  shows "request_ref c col \<noteq> Some (group_record_id g)"
proof -
  let ?gs = "collapse (parse_items J (outbox_items st)) remap"
  from assms(3) obtain remap' s m where "load_remap J st = Inr remap'"
    and "s = fold (flush_table (recording snk) user_id
        (collapse (parse_items J (outbox_items st)) remap')) synced_table_names
        (flush_init remap' (w, []))"
    and r: "r = \<lparr>fr_ok = fl_ok s, fr_failed = fl_failed s\<rparr>" and w': "(w', trace) = fl_world s"
    by (rule flush_Inr)
  with assms(2) have s: "s = fold (flush_table (recording snk) user_id ?gs) synced_table_names
      (flush_init remap (w, []))" by simp
  have "distinct (map ob_id (filter (parseable J) (outbox st)))"
    using outbox_distinct [OF assms(1)] by (simp add: distinct_map_filter)
  then have "distinct (concat (map cl_ids ?gs))"
    using mset_eq_imp_distinct_iff [OF collapsed_ids] by blast
  then have "held_complete ?gs s"
    unfolding s by (rule flush_all_held) (simp add: held_complete_def flush_init_def)
  then have "group_record_id g \<in> fl_held s (cl_table g)"
    using assms(4,5) by (simp add: held_complete_def r)
  moreover have "refs_ok s"
    unfolding s by (rule flush_all_refs [OF _ _ synced_order])
      (simp_all add: refs_ok_def sent_before_def flush_init_def requests_def)
  moreover have "c \<in> set (requests s)" using assms(6) w' by (simp add: requests_def flip: w')
  ultimately show ?thesis using assms(7) by (fastforce simp: refs_ok_def)
qed


subsection \<open>The shape of the requests\<close>

text \<open>What PostgREST needs of a request: an upsert carries the owner and every required column, a
  PATCH selects by the local primary key and does not rewrite it.\<close>

definition request_ok :: "string \<Rightarrow> request \<Rightarrow> bool" where
  "request_ok user_id c =
     (case c of
        Upsert table on_conflict body \<Rightarrow>
          (case body of
             JArray [JObject p] \<Rightarrow> on_conflict = on_conflict_for table \<and>
               row_str p ''user_id'' = Some user_id \<and>
               list_all (\<lambda>col. fmlookup p col \<noteq> None) (required_insert_columns table)
           | _ \<Rightarrow> False)
      | Patch table pk rid body \<Rightarrow>
          (case body of
             JObject p \<Rightarrow> pk = record_id_column table \<and> fmlookup p pk = None \<and>
               required_insert_columns table \<noteq> []
           | _ \<Rightarrow> False))"

lemma group_request_ok: "request_ok user_id (group_request user_id table p)"
  by (auto simp: request_ok_def group_request_def is_sparse_def json_simps list_ex_iff list_all_iff)

text \<open>
  Every upsert a flush sends carries the user id and all the columns the table's
  insert shape requires, so PostgREST never sees a hollow row, and every PATCH selects its row by
  the local primary key without rewriting it.
\<close>

theorem flush_requests_ok:
  fixes snk :: "'w sink"
  assumes "flush J (recording snk) user_id st (w, []) = (Inr r, st', (w', trace))"
  shows "list_all (request_ok user_id) trace"
proof -
  define P :: "('w \<times> request list) flush_state \<Rightarrow> bool"
    where "P s \<longleftrightarrow> list_all (request_ok user_id) (requests s)" for s
  have grp: "P (flush_group (recording snk) user_id t g s)" if "cl_table g = t" "P s" for t g s
    using that
    by (cases rule: flush_group_cases [OF that(1), where s = s and snk = snk and user_id = user_id])
      (simp_all add: P_def group_request_ok)
  have tbl: "P (flush_table (recording snk) user_id gs t s)" if "P s" for gs t s
    unfolding flush_table_def
    by (rule fold_invariant [where Q = "\<lambda>g. cl_table g = t" and P = P]) (simp_all add: that grp)
  have "P (fold (flush_table (recording snk) user_id gs) ts s)" if "P s" for gs ts s
    by (rule fold_invariant [where Q = "\<lambda>_. True" and P = P]) (simp_all add: that tbl)
  moreover have "P (flush_init remap (w, []))" for remap
    by (simp add: P_def flush_init_def requests_def)
  moreover obtain remap s m where "s = fold (flush_table (recording snk) user_id
        (collapse (parse_items J (outbox_items st)) remap)) synced_table_names
        (flush_init remap (w, []))" "(w', trace) = fl_world s"
    using assms by (rule flush_Inr)
  ultimately show ?thesis unfolding P_def requests_def by (metis snd_conv)
qed

subsection \<open>A healthy server drains the queue\<close>

definition accepting :: "'w sink \<Rightarrow> bool" where
  "accepting snk \<longleftrightarrow> (\<forall>t c b w. \<not> isl (fst (snk_upsert snk t c b w))) \<and>
     (\<forall>t pk rid b w. \<not> isl (fst (snk_patch snk t pk rid b w)))"

lemma flush_group_accepting:
  assumes "accepting snk" "fl_failed s = []" "fl_held s = (\<lambda>_. {})"
  shows "fl_failed (flush_group snk user_id t g s) = [] \<and>
    fl_held (flush_group snk user_id t g s) = (\<lambda>_. {})"
proof -
  have "\<not> is_blocked (\<lambda>_. {}) t p" for p
    by (auto simp: is_blocked_def list_ex_iff split: option.splits)
  moreover have "\<not> isl (fst (upsert_group snk g' user_id w))" "\<not> isl (fst (patch_group snk g' pk rid w))"
    for g' pk rid w
    using assms(1) by (simp_all add: accepting_def upsert_group_def patch_group_def)
  ultimately show ?thesis
    using assms(2,3) by (auto simp: flush_group_def Let_def case_prod_beta split: sum.split)
      (metis sum.disc(1) fst_conv)+
qed

lemma flush_accepting_failed:
  fixes snk :: "'w sink"
  assumes "accepting snk" "flush J snk user_id st w = (Inr r, st', w')"
  shows "fr_failed r = []"
proof -
  define P where "P s \<longleftrightarrow> fl_failed s = [] \<and> fl_held s = (\<lambda>_. {})" for s :: "'w flush_state"
  have tbl: "P (flush_table snk user_id gs t s)" if "P s" for gs t s
    unfolding flush_table_def
    by (rule fold_invariant [where Q = "\<lambda>_. True" and P = P])
      (use that flush_group_accepting [OF assms(1)] in \<open>simp_all add: P_def\<close>)
  have "P (fold (flush_table snk user_id gs) ts (flush_init remap w))" for gs ts remap
    by (rule fold_invariant [where Q = "\<lambda>_. True" and P = P])
      (simp_all add: tbl, simp add: P_def flush_init_def)
  moreover obtain remap s m where "s = fold (flush_table snk user_id
        (collapse (parse_items J (outbox_items st)) remap)) synced_table_names (flush_init remap w)"
    "r = \<lparr>fr_ok = fl_ok s, fr_failed = fl_failed s\<rparr>"
    using assms(2) by (rule flush_Inr)
  ultimately show ?thesis by (simp add: P_def)
qed

text \<open>
  When the server accepts every write, one flush drains the queue: nothing fails,
  and the only rows left are those whose payload does not parse.
\<close>

theorem flush_drains:
  assumes "outbox_ok st" "accepting snk" "flush J snk user_id st w = (Inr r, st', w')"
  shows "fr_failed r = [] \<and> outbox st' = filter (\<lambda>o'. \<not> parseable J o') (outbox st)"
  using flush_outbox_left [OF assms(1,3)] flush_accepting_failed [OF assms(2,3)] by simp

subsection \<open>A concrete flush\<close>

text \<open>A queue of two books, a note of each and a corrupt row; the server refuses the first book.\<close>

definition demo_row :: "(string \<times> string) list \<Rightarrow> json" where
  "demo_row cs = JObject (fmap_of_list ((''created_at'', json_i64 1) # map (\<lambda>(k, v). (k, JString v)) cs))"

definition demo_serde :: serde where
  "demo_serde = \<lparr>to_str = (\<lambda>_. ''''),
     from_str = (\<lambda>s. if s = ''book a'' then Some (demo_row [(''id'', ''a''), (''title'', ''A'')])
       else if s = ''book b'' then Some (demo_row [(''id'', ''b''), (''title'', ''B'')])
       else if s = ''note a'' then Some (demo_row [(''id'', ''m''), (''book_id'', ''a''), (''text'', ''x'')])
       else if s = ''note b'' then Some (demo_row [(''id'', ''n''), (''book_id'', ''b''), (''text'', ''y'')])
       else None)\<rparr>"

definition demo_entry :: "int \<Rightarrow> string \<Rightarrow> string \<Rightarrow> string \<Rightarrow> outbox_row" where
  "demo_entry i table rid payload =
     \<lparr>ob_id = i, ob_table = table, ob_record_id = Some rid, ob_payload = payload, ob_created_at = i\<rparr>"

definition demo_queue :: store where
  "demo_queue = empty_store\<lparr>outbox :=
     [demo_entry 1 ''books'' ''a'' ''book a'', demo_entry 2 ''books'' ''b'' ''book b'',
      demo_entry 3 ''notes'' ''m'' ''note a'', demo_entry 4 ''notes'' ''n'' ''note b'',
      demo_entry 5 ''notes'' ''z'' ''corrupt''], outbox_seq := 5\<rparr>"

definition demo_sink :: "(json \<Rightarrow> bool) \<Rightarrow> nat sink" where
  "demo_sink refuse = \<lparr>
     snk_upsert = (\<lambda>_ _ b w. (if refuse b then Inl ''refused'' else Inr (), Suc w)),
     snk_patch = (\<lambda>_ _ _ _ w. (Inr (), Suc w)),
     snk_fetch_page = (\<lambda>_ _ _ w. (Inr [], w))\<rparr>"

fun title_is_a :: "json \<Rightarrow> bool" where
  "title_is_a (JArray [JObject p]) = (row_str p ''title'' = Some ''A'')"
| "title_is_a _ = False"

lemma demo_queue_ok: "outbox_ok demo_queue"
  by (simp add: outbox_ok_def demo_queue_def demo_entry_def synced_table_names_def schema_defs)

text \<open>What the flush of the demo queue returns, evaluated.\<close>

lemma demo_flush:
  obtains r st' w' trace where
    "flush demo_serde (recording (demo_sink title_is_a)) ''u'' demo_queue (0, []) = (Inr r, st', (w', trace))"
    "fr_ok r = [2, 4]" "fr_failed r = [1, 3]" "map request_table trace = [''books'', ''books'', ''notes'']"
proof -
  have "(case flush demo_serde (recording (demo_sink title_is_a)) ''u'' demo_queue (0, []) of
      (Inr r, st', (w', trace)) \<Rightarrow> fr_ok r = [2, 4] \<and> fr_failed r = [1, 3] \<and>
        map request_table trace = [''books'', ''books'', ''notes'']
     | _ \<Rightarrow> False)"
    by code_simp
  then show ?thesis by (auto split: prod.splits sum.splits intro: that)
qed

theorem flush_accounting_witness:
  "\<exists>r st' w'. flush demo_serde (recording (demo_sink title_is_a)) ''u'' demo_queue (0, []) =
       (Inr r, st', w') \<and>
     map ob_id (outbox st') = [1, 3, 5]"
proof -
  obtain r st' w' trace where fl:
    "flush demo_serde (recording (demo_sink title_is_a)) ''u'' demo_queue (0, []) =
       (Inr r, st', (w', trace))" and "fr_failed r = [1, 3]"
    by (rule demo_flush)
  with flush_accounting [OF demo_queue_ok fl]
  have "map ob_id (outbox st') = [1, 3, 5]"
    by (simp add: demo_queue_def demo_entry_def demo_serde_def)
  with fl show ?thesis by (intro exI conjI)
qed

theorem flush_never_orphans_witness:
  "\<exists>r st' w' trace c. flush demo_serde (recording (demo_sink title_is_a)) ''u'' demo_queue (0, []) =
       (Inr r, st', (w', trace)) \<and> c \<in> set trace \<and> request_table c = ''notes'' \<and>
     request_ref c ''book_id'' \<noteq> Some ''a''"
proof -
  obtain r st' w' trace where fl:
    "flush demo_serde (recording (demo_sink title_is_a)) ''u'' demo_queue (0, []) =
       (Inr r, st', (w', trace))" and fr: "fr_failed r = [1, 3]"
    and tr: "map request_table trace = [''books'', ''books'', ''notes'']"
    by (rule demo_flush)
  obtain c where c: "c \<in> set trace" "request_table c = ''notes''"
  proof -
    have "''notes'' \<in> set (map request_table trace)" unfolding tr by simp
    with that show ?thesis by auto
  qed
  have "list_ex (\<lambda>g. cl_table g = ''books'' \<and> cl_ids g = [1] \<and> group_record_id g = ''a'')
      (collapse (parse_items demo_serde (outbox_items demo_queue)) fmempty)"
    by code_simp
  then obtain g where g: "g \<in> set (collapse (parse_items demo_serde (outbox_items demo_queue)) fmempty)"
    "cl_table g = ''books''" "cl_ids g = [1]" "group_record_id g = ''a''"
    by (auto simp: list_ex_iff)
  have remap: "load_remap demo_serde demo_queue = Inr fmempty"
    by (simp add: load_remap_def demo_queue_def empty_store_def meta_get_def)
  have "request_ref c ''book_id'' \<noteq> Some (group_record_id g)"
    by (rule flush_never_orphans [OF demo_queue_ok remap fl g(1)])
      (simp_all add: g fr c fk_deps_def)
  with fl c g(4) show ?thesis by metis
qed

theorem flush_requests_ok_witness:
  "\<exists>r st' w' trace. flush demo_serde (recording (demo_sink title_is_a)) ''u'' demo_queue (0, []) =
       (Inr r, st', (w', trace)) \<and> length trace = 3 \<and> list_all (request_ok ''u'') trace"
proof -
  obtain r st' w' trace where fl:
    "flush demo_serde (recording (demo_sink title_is_a)) ''u'' demo_queue (0, []) =
       (Inr r, st', (w', trace))"
    and tr: "map request_table trace = [''books'', ''books'', ''notes'']"
    by (rule demo_flush)
  have "length trace = 3" using arg_cong [OF tr, of length] by simp
  with fl flush_requests_ok [OF fl] show ?thesis by blast
qed

theorem flush_drains_witness:
  "\<exists>r st' w'. flush demo_serde (demo_sink (\<lambda>_. False)) ''u'' demo_queue 0 = (Inr r, st', w') \<and>
     map ob_id (outbox st') = [5]"
proof -
  have "(case flush demo_serde (demo_sink (\<lambda>_. False)) ''u'' demo_queue 0 of
      (Inr r, _) \<Rightarrow> True | _ \<Rightarrow> False)"
    by code_simp
  then obtain r st' w' where fl:
    "flush demo_serde (demo_sink (\<lambda>_. False)) ''u'' demo_queue 0 = (Inr r, st', w')"
    by (auto split: prod.splits sum.splits)
  have "accepting (demo_sink (\<lambda>_. False))" by (simp add: accepting_def demo_sink_def)
  from flush_drains [OF demo_queue_ok this fl] have "map ob_id (outbox st') = [5]"
    by (simp add: demo_queue_def demo_entry_def demo_serde_def)
  with fl show ?thesis by (intro exI conjI)
qed

end
