(* ===== verification/Lww.thy ===== *)
theory Lww
  imports Braird_Prelude
begin

text \<open>
  Whole-row last-write-wins over a keyed store, stated once for every store that has a lookup and
  an overwriting insert.  The merge keeps the local row on a tie and never lets a tombstone create
  a row.  The lemmas are what convergence of a pull rests on.
\<close>

definition lww_merge ::
  "('s \<Rightarrow> 'k \<Rightarrow> 'r option) \<Rightarrow> ('r \<Rightarrow> 's \<Rightarrow> 's) \<Rightarrow> ('r \<Rightarrow> 'k) \<Rightarrow> ('r \<Rightarrow> int) \<Rightarrow> ('r \<Rightarrow> bool) \<Rightarrow>
   'r \<Rightarrow> 's \<Rightarrow> 's" where
  "lww_merge get put key stamp tomb r s =
     (case get s (key r) of
        None \<Rightarrow> if tomb r then s else put r s
      | Some l \<Rightarrow> if stamp l < stamp r then put r s else s)"

text \<open>A store with a lookup \<open>get\<close> and an insert \<open>put\<close>; \<open>norm\<close> is what a row reads back as.\<close>

locale keyed_lww =
  fixes get :: "'s \<Rightarrow> 'k \<Rightarrow> 'r option" and put :: "'r \<Rightarrow> 's \<Rightarrow> 's"
    and key :: "'r \<Rightarrow> 'k" and stamp :: "'r \<Rightarrow> int" and tomb :: "'r \<Rightarrow> bool"
    and norm :: "'r \<Rightarrow> 'r" and valid :: "'r \<Rightarrow> bool"
  assumes get_put: "valid r \<Longrightarrow> get (put r s) k = (if k = key r then Some (norm r) else get s k)"
    and stamp_norm: "valid r \<Longrightarrow> stamp (norm r) = stamp r"
begin

abbreviation merge :: "'r \<Rightarrow> 's \<Rightarrow> 's" where
  "merge \<equiv> lww_merge get put key stamp tomb"

text \<open>The lookup after a merge, on every branch.\<close>

lemma get_merge:
  "valid r \<Longrightarrow> get (merge r s) k =
     (if k = key r then
        (case get s k of
           None \<Rightarrow> if tomb r then None else Some (norm r)
         | Some l \<Rightarrow> if stamp l < stamp r then Some (norm r) else Some l)
      else get s k)"
  by (auto simp: lww_merge_def get_put split: option.splits)

lemma get_merge_cong: "valid r \<Longrightarrow> get s = get s' \<Longrightarrow> get (merge r s) = get (merge r s')"
  by (rule ext) (simp add: get_merge)

lemma stamp_mono:
  assumes "valid r" "get s k = Some l"
  shows "\<exists>l'. get (merge r s) k = Some l' \<and> stamp l \<le> stamp l'"
  using assms by (cases "k = key r") (auto simp: get_merge stamp_norm)

lemma merge_idem: "valid r \<Longrightarrow> get (merge r (merge r s)) = get (merge r s)"
  by (rule ext) (auto simp: get_merge stamp_norm split: option.splits)

lemma merge_beats:
  assumes "valid r" "get s (key r) \<noteq> None \<or> \<not> tomb r"
  shows "\<exists>l. get (merge r s) (key r) = Some l \<and> stamp r \<le> stamp l"
  using assms by (auto simp: get_merge stamp_norm split: option.splits)

lemma merge_commute:
  assumes "valid a" "valid b" "\<not> tomb a" "\<not> tomb b" "key a = key b \<Longrightarrow> stamp a \<noteq> stamp b"
  shows "get (merge a (merge b s)) = get (merge b (merge a s))"
  using assms by (intro ext) (auto simp: get_merge stamp_norm split: option.splits)

text \<open>Folding a delivery: nothing gets older, every row delivered for a present key or as a live
  row is beaten or stored, and every stored row was there or was delivered.\<close>

lemma fold_mono:
  "\<forall>r \<in> set rs. valid r \<Longrightarrow> get s k = Some l \<Longrightarrow>
   \<exists>l'. get (fold merge rs s) k = Some l' \<and> stamp l \<le> stamp l'"
proof (induction rs arbitrary: s l)
  case (Cons r rs)
  obtain l1 where "get (merge r s) k = Some l1" "stamp l \<le> stamp l1"
    using stamp_mono Cons(2,3) by (metis list.set_intros(1))
  with Cons(1) [of "merge r s" l1] Cons(2) show ?case by (auto intro: order_trans)
qed simp

lemma fold_beats:
  assumes "\<forall>r \<in> set rs. valid r" "r \<in> set rs" "get s (key r) \<noteq> None \<or> \<not> tomb r"
  shows "\<exists>l. get (fold merge rs s) (key r) = Some l \<and> stamp r \<le> stamp l"
proof -
  from assms(2) obtain xs ys where rs: "rs = xs @ r # ys" by (meson split_list)
  let ?s = "fold merge xs s"
  have "get ?s (key r) \<noteq> None \<or> \<not> tomb r"
    using fold_mono [of xs s "key r"] assms(1,3) rs by fastforce
  then obtain l where "get (merge r ?s) (key r) = Some l" "stamp r \<le> stamp l"
    using merge_beats assms(1,2) by metis
  with fold_mono [of ys "merge r ?s" "key r" l] assms(1) rs show ?thesis
    by (auto intro: order_trans)
qed

lemma fold_get_cong:
  "\<forall>r \<in> set rs. valid r \<Longrightarrow> get s = get s' \<Longrightarrow> get (fold merge rs s) = get (fold merge rs s')"
proof (induction rs arbitrary: s s')
  case (Cons r rs)
  have "valid r" using Cons(2) by simp
  from Cons(1) [OF _ get_merge_cong [OF this Cons(3)]] Cons(2) show ?case by simp
qed simp

lemma fold_source:
  "\<forall>r \<in> set rs. valid r \<Longrightarrow> get (fold merge rs s) k = Some l \<Longrightarrow>
   get s k = Some l \<or> (\<exists>r \<in> set rs. key r = k \<and> l = norm r)"
proof (induction rs arbitrary: s)
  case (Cons r rs)
  then have "get (merge r s) k = Some l \<or> (\<exists>r \<in> set rs. key r = k \<and> l = norm r)" by simp
  with Cons(2) show ?case by (auto simp: get_merge split: if_splits option.splits)
qed simp

lemma fold_absent:
  assumes "\<forall>r \<in> set rs. valid r \<and> (key r = k \<longrightarrow> tomb r)" "get s k = None"
  shows "get (fold merge rs s) k = None"
  using assms
proof (induction rs arbitrary: s)
  case (Cons r rs)
  then have "get (merge r s) k = None" by (cases "k = key r") (auto simp: get_merge)
  with Cons show ?case by simp
qed simp

end

end
