(* ===== verification/Pull.thy ===== *)
theory Pull
  imports Push Lww
begin

text \<open>
  The incremental pull of \<open>src/src/sync/pull.rs\<close>: pages by the server's change sequence, the
  whole-row last-write-wins merge with its tombstone rule, the outbox rebase, the cursor and the
  completion receipt.  The sink is the one of the flush; the \<open>Display\<close> of a database error is
  an argument (\<open>E\<close>).  A failing page leaves the store at the last row it merged.
\<close>

subsection \<open>Errors and results\<close>

definition PULL_PAGE_LIMIT :: int where "PULL_PAGE_LIMIT = 1000"

record table_failure =
  tf_table :: string
  tf_error :: string

definition show_failure :: "table_failure \<Rightarrow> string" where
  "show_failure f = tf_table f @ '' ('' @ tf_error f @ '')''"

fun join_strings :: "string \<Rightarrow> string list \<Rightarrow> string" where
  "join_strings sep [] = []"
| "join_strings sep [s] = s"
| "join_strings sep (s # ss) = s @ sep @ join_strings sep ss"

definition describe_failures :: "table_failure list \<Rightarrow> string" where
  "describe_failures fs = join_strings '', '' (map show_failure fs)"

text \<open>\<open>chars()\<close> of a UTF-8 string: every byte that is not a continuation byte starts one.\<close>

definition utf8_lead :: "char \<Rightarrow> bool" where
  "utf8_lead c \<longleftrightarrow> \<not> (128 \<le> (of_char c :: nat) \<and> (of_char c :: nat) < 192)"

definition chars_count :: "string \<Rightarrow> nat" where
  "chars_count s = length (filter utf8_lead s)"

fun take_chars :: "nat \<Rightarrow> string \<Rightarrow> string" where
  "take_chars n [] = []"
| "take_chars n (c # cs) =
     (if utf8_lead c then (case n of 0 \<Rightarrow> [] | Suc m \<Rightarrow> c # take_chars m cs)
      else c # take_chars n cs)"

definition clip_error :: "string \<Rightarrow> string" where
  "clip_error e =
     (if chars_count e \<le> 200 then e
      else take_chars 200 e @ [char_of (226 :: nat), char_of (128 :: nat), char_of (166 :: nat)])"

record superseded_edit =
  se_table :: string
  se_record_id :: string
  se_discarded_updated_at :: int
  se_winning_updated_at :: int

record table_stats =
  ts_pulled :: nat
  ts_merged :: nat
  ts_skipped_tombstones :: nat
  ts_superseded :: "superseded_edit list"

definition no_stats :: table_stats where
  "no_stats = \<lparr>ts_pulled = 0, ts_merged = 0, ts_skipped_tombstones = 0, ts_superseded = []\<rparr>"

record pull_result =
  pr_pulled :: nat
  pr_merged :: nat
  pr_skipped_tombstones :: nat
  pr_superseded :: "superseded_edit list"
  pr_failed_tables :: "table_failure list"

subsection \<open>Merging one row\<close>

definition local_stamp :: "row option \<Rightarrow> int option" where
  "local_stamp l = map_option (\<lambda>r. unwrap_or (row_i64 r ''updated_at'') 0) l"

definition should_apply :: "int \<Rightarrow> int option \<Rightarrow> bool" where
  "should_apply incoming_updated local_updated =
     (case local_updated of None \<Rightarrow> True | Some local_ts \<Rightarrow> local_ts < incoming_updated)"

definition missing_fillable :: "row option \<Rightarrow> bool" where
  "missing_fillable l =
     (case l of None \<Rightarrow> False
      | Some r \<Rightarrow> list_ex (\<lambda>col. fmlookup r col = None \<or> fmlookup r col = Some JNull)
          BOOK_FILLABLE_COLUMNS)"

definition superseded_of :: "string \<Rightarrow> string \<Rightarrow> int \<Rightarrow> (int \<times> int) list \<Rightarrow> superseded_edit list" where
  "superseded_of table i incoming_updated dropped =
     (case iter_max (map snd dropped) of
        None \<Rightarrow> []
      | Some discarded \<Rightarrow> [\<lparr>se_table = table, se_record_id = i,
          se_discarded_updated_at = discarded, se_winning_updated_at = incoming_updated\<rparr>])"

definition bump_seq :: "row \<Rightarrow> int \<Rightarrow> int" where
  "bump_seq obj page_max =
     (case row_i64 obj ''change_seq'' of Some seq \<Rightarrow> max page_max seq | None \<Rightarrow> page_max)"

type_synonym merge_state = "store \<times> table_stats \<times> int"

text \<open>One row of a page with its key: the counters and the page maximum move before the merge
  decision.  The left result is an error, with the store as it then is.\<close>

definition merge_keyed_row ::
  "serde \<Rightarrow> (db_error \<Rightarrow> string) \<Rightarrow> string \<Rightarrow> row \<Rightarrow> string \<Rightarrow> merge_state \<Rightarrow>
   string option \<times> merge_state" where
  "merge_keyed_row J E table obj i ms =
     (case ms of (st, stats, page_max) \<Rightarrow>
        let stats1 = stats\<lparr>ts_pulled := ts_pulled stats + 1\<rparr>;
            page_max1 = bump_seq obj page_max;
            incoming_updated = unwrap_or (row_i64 obj ''updated_at'') 0;
            incoming_deleted = unwrap_or (row_bool obj ''deleted'') False
        in case get_row J st table i of
             Inl e \<Rightarrow> (Some (''read local '' @ table @ '' row: '' @ E e), st, stats1, page_max1)
           | Inr l \<Rightarrow>
               if incoming_deleted \<and> local_stamp l = None
               then (None, st,
                     stats1\<lparr>ts_skipped_tombstones := ts_skipped_tombstones stats1 + 1\<rparr>, page_max1)
               else if should_apply incoming_updated (local_stamp l)
               then case apply_row_rebasing_outbox J st table obj incoming_updated of
                      Inl e \<Rightarrow> (Some (''apply a '' @ table @ '' row: '' @ E e), st, stats1, page_max1)
                    | Inr (st1, dropped) \<Rightarrow>
                        (None, st1, stats1\<lparr>ts_merged := ts_merged stats1 + 1,
                           ts_superseded := ts_superseded stats1 @
                             superseded_of table i incoming_updated dropped\<rparr>, page_max1)
               else if table = ''books'' \<and> missing_fillable l
               then (None, fill_null_book_columns st i obj, stats1, page_max1)
               else (None, st, stats1, page_max1))"

definition merge_row ::
  "serde \<Rightarrow> (db_error \<Rightarrow> string) \<Rightarrow> string \<Rightarrow> string \<Rightarrow> json \<Rightarrow> merge_state \<Rightarrow>
   string option \<times> merge_state" where
  "merge_row J E table pk v ms =
     (case as_object v of None \<Rightarrow> (None, ms)
      | Some obj \<Rightarrow>
          (case row_str obj pk of None \<Rightarrow> (None, ms)
           | Some i \<Rightarrow> merge_keyed_row J E table obj i ms))"

fun merge_rows ::
  "serde \<Rightarrow> (db_error \<Rightarrow> string) \<Rightarrow> string \<Rightarrow> string \<Rightarrow> json list \<Rightarrow> merge_state \<Rightarrow>
   string option \<times> merge_state" where
  "merge_rows J E table pk [] ms = (None, ms)"
| "merge_rows J E table pk (v # vs) ms =
     (case merge_row J E table pk v ms of
        (Some e, ms1) \<Rightarrow> (Some e, ms1)
      | (None, ms1) \<Rightarrow> merge_rows J E table pk vs ms1)"

subsection \<open>Fetching and paging\<close>

definition is_transport :: "string \<Rightarrow> bool" where
  "is_transport e \<longleftrightarrow> take (length ''transport: '') e = ''transport: ''"

definition fetch_with_retry ::
  "'w sink \<Rightarrow> string \<Rightarrow> int \<Rightarrow> int \<Rightarrow> 'w \<Rightarrow> (string + json list) \<times> 'w" where
  "fetch_with_retry snk table cursor page_size w =
     (case snk_fetch_page snk table cursor page_size w of
        (Inr rows, w1) \<Rightarrow> (Inr rows, w1)
      | (Inl first, w1) \<Rightarrow>
          if \<not> is_transport first then (Inl first, w1)
          else (case snk_fetch_page snk table cursor page_size w1 of
                  (Inr rows, w2) \<Rightarrow> (Inr rows, w2)
                | (Inl second, w2) \<Rightarrow>
                    (Inl (second @ '' (persisted after retry; first attempt: '' @
                       clip_error first @ '')''), w2)))"

text \<open>\<open>page_size as usize\<close>.\<close>

definition as_usize :: "int \<Rightarrow> nat" where
  "as_usize i = unat (word_of_int i :: 64 word)"

definition stalled :: "string \<Rightarrow> string" where
  "stalled table = ''pull '' @ table @
     '': a full page did not advance the change_seq cursor '' @
     [char_of (226 :: nat), char_of (128 :: nat), char_of (148 :: nat)] @
     '' every row is missing change_seq (server must stamp it NOT NULL, migration 0051)''"

lemma bump_seq_bounds: "m \<le> bump_seq obj m \<and> bump_seq obj m \<le> max m i64_max"
proof (cases "row_i64 obj ''change_seq''")
  case (Some q)
  then have "q \<le> i64_max" using row_i64_is_i64 by (auto simp: is_i64_def)
  with Some show ?thesis by (simp add: bump_seq_def)
qed (simp add: bump_seq_def)

lemma merge_keyed_row_seq:
  "snd (snd (snd (merge_keyed_row J E table obj i (st, stats, m)))) = bump_seq obj m"
  by (simp add: merge_keyed_row_def Let_def split: sum.split)

lemma merge_row_page_max:
  assumes "merge_row J E table pk v (st, stats, m) = (e, st', stats', m')"
  shows "m \<le> m' \<and> m' \<le> max m i64_max"
proof -
  have "m' = snd (snd (snd (merge_row J E table pk v (st, stats, m))))" by (simp add: assms)
  then show ?thesis
    using bump_seq_bounds by (simp add: merge_row_def merge_keyed_row_seq split: option.splits)
qed

lemma merge_rows_page_max:
  "merge_rows J E table pk vs (st, stats, m) = (e, st', stats', m') \<Longrightarrow>
   m \<le> m' \<and> m' \<le> max m i64_max"
proof (induction vs arbitrary: st stats m)
  case (Cons v vs)
  obtain e1 st1 stats1 m1 where r: "merge_row J E table pk v (st, stats, m) = (e1, st1, stats1, m1)"
    by (metis surj_pair)
  note m1 = merge_row_page_max [OF r]
  show ?case
  proof (cases e1)
    case None
    with Cons(2) r have "merge_rows J E table pk vs (st1, stats1, m1) = (e, st', stats', m')" by simp
    with Cons(1) m1 show ?thesis by (meson le_max_iff_disj order_trans max.bounded_iff max.cobounded1)
  next
    case (Some x)
    with Cons(2) r m1 show ?thesis by simp
  qed
qed simp

function pull_loop ::
  "serde \<Rightarrow> (db_error \<Rightarrow> string) \<Rightarrow> 'w sink \<Rightarrow> string \<Rightarrow> string \<Rightarrow> int \<Rightarrow> int \<Rightarrow> table_stats \<Rightarrow> store \<Rightarrow> 'w \<Rightarrow>
   (string + table_stats) \<times> store \<times> 'w" where
  "pull_loop J E snk table pk page_size cursor stats st w =
     (case fetch_with_retry snk table cursor page_size w of
        (Inl e, w1) \<Rightarrow> (Inl e, st, w1)
      | (Inr rows, w1) \<Rightarrow>
          (case merge_rows J E table pk rows (st, stats, cursor) of
             (Some e, st1, stats1, page_max) \<Rightarrow> (Inl e, st1, w1)
           | (None, st1, stats1, page_max) \<Rightarrow>
               let advanced = cursor < page_max;
                   st2 = (if advanced then set_seq_cursor st1 table page_max else st1)
               in if length rows < as_usize page_size
                  then (Inr stats1, mark_pull_complete st2 table, w1)
                  else if \<not> advanced then (Inl (stalled table), st2, w1)
                  else pull_loop J E snk table pk page_size page_max stats1 st2 w1))"
  by pat_completeness auto

termination
  by (relation "measure (\<lambda>(J, E, snk, table, pk, page_size, cursor, stats, st, w). nat (i64_max - cursor))")
    (auto dest!: merge_rows_page_max sym [of _ "merge_rows _ _ _ _ _ _"])

declare pull_loop.simps [simp del]

definition pull_table ::
  "serde \<Rightarrow> (db_error \<Rightarrow> string) \<Rightarrow> 'w sink \<Rightarrow> string \<Rightarrow> int \<Rightarrow> store \<Rightarrow> 'w \<Rightarrow>
   (string + table_stats) \<times> store \<times> 'w" where
  "pull_table J E snk table page_size st w =
     (case table_schema table of
        None \<Rightarrow> (Inl (''unknown synced table: '' @ table), st, w)
      | Some t \<Rightarrow>
          pull_loop J E snk table (hd (ts_pk t)) page_size
            (unwrap_or (get_seq_cursor st table) 0) no_stats st w)"

fun pull_tables ::
  "serde \<Rightarrow> (db_error \<Rightarrow> string) \<Rightarrow> 'w sink \<Rightarrow> string list \<Rightarrow> pull_result \<Rightarrow> store \<Rightarrow> 'w \<Rightarrow>
   pull_result \<times> store \<times> 'w" where
  "pull_tables J E snk [] res st w = (res, st, w)"
| "pull_tables J E snk (table # tabs) res st w =
     (case pull_table J E snk table PULL_PAGE_LIMIT st w of
        (Inr stats, st1, w1) \<Rightarrow>
          pull_tables J E snk tabs
            (res\<lparr>pr_pulled := pr_pulled res + ts_pulled stats,
                 pr_merged := pr_merged res + ts_merged stats,
                 pr_skipped_tombstones := pr_skipped_tombstones res + ts_skipped_tombstones stats,
                 pr_superseded := pr_superseded res @ ts_superseded stats\<rparr>) st1 w1
      | (Inl e, st1, w1) \<Rightarrow>
          pull_tables J E snk tabs
            (res\<lparr>pr_failed_tables := pr_failed_tables res @
                 [\<lparr>tf_table = table, tf_error = clip_error e\<rparr>]\<rparr>) st1 w1)"

definition pull ::
  "serde \<Rightarrow> (db_error \<Rightarrow> string) \<Rightarrow> 'w sink \<Rightarrow> string list \<Rightarrow> store \<Rightarrow> 'w \<Rightarrow>
   pull_result \<times> store \<times> 'w" where
  "pull J E snk tabs st w =
     pull_tables J E snk tabs
       \<lparr>pr_pulled = 0, pr_merged = 0, pr_skipped_tombstones = 0, pr_superseded = [],
        pr_failed_tables = []\<rparr> st w"

subsection \<open>The merge is last-write-wins\<close>

text \<open>The store of one table as a keyed store.  The columns a losing book row may still fill are
  outside the view.\<close>

definition row_stamp :: "row \<Rightarrow> int" where
  "row_stamp r = unwrap_or (row_i64 r ''updated_at'') 0"

definition pull_tomb :: "row \<Rightarrow> bool" where
  "pull_tomb r = unwrap_or (row_bool r ''deleted'') False"

definition pull_key :: "string \<Rightarrow> row \<Rightarrow> string" where
  "pull_key table r = unwrap_or (row_str r (record_id_column table)) []"

definition pull_valid :: "string \<Rightarrow> row \<Rightarrow> bool" where
  "pull_valid table r \<longleftrightarrow> table_schema table \<noteq> None \<and> row_str r (record_id_column table) \<noteq> None"

definition pull_view :: "string \<Rightarrow> row \<Rightarrow> row" where
  "pull_view table = fmfilter (\<lambda>c. \<not> (table = ''books'' \<and> c \<in> set BOOK_FILLABLE_COLUMNS))"

definition pull_get :: "serde \<Rightarrow> string \<Rightarrow> store \<Rightarrow> string \<Rightarrow> row option" where
  "pull_get J table st k =
     (case get_row J st table k of Inr (Some r) \<Rightarrow> Some (pull_view table r) | _ \<Rightarrow> None)"

definition pull_put :: "serde \<Rightarrow> string \<Rightarrow> row \<Rightarrow> store \<Rightarrow> store" where
  "pull_put J table r st =
     (case apply_row_rebasing_outbox J st table r (row_stamp r) of Inr (st', _) \<Rightarrow> st' | Inl _ \<Rightarrow> st)"

definition pull_norm :: "serde \<Rightarrow> string \<Rightarrow> row \<Rightarrow> row" where
  "pull_norm J table r =
     (case table_schema table of Some t \<Rightarrow> pull_view table (stored_row J t r) | None \<Rightarrow> r)"

abbreviation pull_merge :: "serde \<Rightarrow> string \<Rightarrow> row \<Rightarrow> store \<Rightarrow> store" where
  "pull_merge J table \<equiv>
     lww_merge (pull_get J table) (pull_put J table) (pull_key table) row_stamp pull_tomb"

lemma row_stamp_view [simp]: "row_stamp (pull_view table r) = row_stamp r"
  by (simp add: row_stamp_def pull_view_def row_i64_def BOOK_FILLABLE_COLUMNS_def)

lemma record_id_column_pk: "table_schema table = Some t \<Longrightarrow> record_id_column table = pk_of t"
  by (simp add: record_id_column_def pk_of_def)

lemma rebase_tables:
  assumes "apply_row_rebasing_outbox J st table r u = Inr (st', dropped)"
  obtains st1 where "apply_row J st table r = Inr st1" "tables st' = tables st1"
    "meta st' = meta st" "embeddings st' = embeddings st1"
proof -
  obtain st1 where st1: "apply_row J st table r = Inr st1" "tables st' = tables st1"
    "meta st' = meta st1" "embeddings st' = embeddings st1"
    using assms by (auto simp: apply_row_rebasing_outbox_def Let_def split: sum.splits)
  with apply_row_frame(3) [OF st1(1)] that show ?thesis by simp
qed

lemma rebase_ok:
  assumes "table_schema table = Some t"
  shows "\<exists>st' dropped. apply_row_rebasing_outbox J st table r u = Inr (st', dropped)"
  using assms apply_row_ok [OF assms, of J st r]
  by (auto simp: apply_row_rebasing_outbox_def Let_def)

interpretation pull_lww: keyed_lww "pull_get J table" "pull_put J table" "pull_key table"
  row_stamp pull_tomb "pull_norm J table" "pull_valid table" for J table
proof
  fix r :: row and s k
  assume v: "pull_valid table r"
  then obtain t i where t: "table_schema table = Some t" and i: "row_str r (pk_of t) = Some i"
    by (auto simp: pull_valid_def record_id_column_pk)
  obtain st' dropped where rb: "apply_row_rebasing_outbox J s table r (row_stamp r) = Inr (st', dropped)"
    using rebase_ok [OF t] by blast
  then obtain st1 where ap: "apply_row J s table r = Inr st1" and tabs: "tables st' = tables st1"
    by (rule rebase_tables)
  show "pull_get J table (pull_put J table r s) k =
      (if k = pull_key table r then Some (pull_norm J table r) else pull_get J table s k)"
    using get_row_frame [OF tabs, of J] get_row_apply [OF ap t i, of k] t i
    by (simp add: pull_get_def pull_put_def rb pull_key_def pull_norm_def record_id_column_pk)
  have "map_of (ts_columns t) ''updated_at'' = Some CInt"
    using table_schema_Some(2) [OF t] by (simp add: desc_ok_def)
  then show "row_stamp (pull_norm J table r) = row_stamp r"
    using stored_row_i64 by (simp add: pull_norm_def t) (simp add: row_stamp_def)
qed

text \<open>Filling a book's empty columns is invisible to the view.\<close>

lemma find_map: "find P (map f xs) = map_option f (find (\<lambda>x. P (f x)) xs)"
  by (induction xs) auto

lemma fill_column_view:
  assumes "col \<in> set BOOK_FILLABLE_COLUMNS"
  shows "pull_view ''books'' (row_of_sql J t (fill_column i col v r)) =
    pull_view ''books'' (row_of_sql J t r)"
  using assms
  by (intro fmap_ext) (auto simp: pull_view_def fmlookup_row_of_sql fill_column_def)

lemma pull_get_books:
  "pull_get J ''books'' st k = map_option (pull_view ''books'' \<circ> row_of_sql J (descriptor_tables ! 0))
     (find (\<lambda>r. r ''id'' = SText k) (tables st ''books''))"
  by (simp add: pull_get_def get_row_eq [OF books_schema] books_pk split: option.split)

lemma pull_get_fill: "pull_get J ''books'' (fill_null_book_columns st i obj) = pull_get J ''books'' st"
proof -
  have one: "pull_get J ''books'' (s\<lparr>tables := (tables s)(''books'' :=
      map (fill_column i col v) (tables s ''books''))\<rparr>) = pull_get J ''books'' s"
    if "col \<in> set BOOK_FILLABLE_COLUMNS" for s col v
    using fill_column_view [OF that] fill_column_pk [OF that]
    by (intro ext) (simp add: pull_get_books find_map option.map_comp comp_def)
  have "pull_get J ''books'' (fold (\<lambda>col s. case row_str obj col of None \<Rightarrow> s
          | Some v \<Rightarrow> s\<lparr>tables := (tables s)(''books'' :=
              map (fill_column i col v) (tables s ''books''))\<rparr>) cols st) = pull_get J ''books'' st"
    if "set cols \<subseteq> set BOOK_FILLABLE_COLUMNS" for cols
    using that by (induction cols arbitrary: st) (auto simp: one split: option.split)
  then show ?thesis by (simp add: fill_null_book_columns_def)
qed

lemma pull_get_local_stamp:
  "get_row J st table k = Inr l \<Longrightarrow> local_stamp l = map_option row_stamp (pull_get J table st k)"
  by (cases l) (simp_all add: pull_get_def local_stamp_def, simp add: row_stamp_def)

lemma merge_keyed_row_refines:
  assumes "pull_valid table obj"
  obtains st' stats' where
    "merge_keyed_row J E table obj (pull_key table obj) (st, stats, m) = (None, st', stats', bump_seq obj m)"
    "pull_get J table st' = pull_get J table (pull_merge J table obj st)" "meta st' = meta st"
proof -
  from assms obtain t where t: "table_schema table = Some t" by (auto simp: pull_valid_def)
  let ?i = "pull_key table obj" and ?u = "unwrap_or (row_i64 obj ''updated_at'') 0"
  obtain l where l: "get_row J st table ?i = Inr l" using t by (simp add: get_row_eq)
  note ls = pull_get_local_stamp [OF l]
  obtain st1 dropped where rb: "apply_row_rebasing_outbox J st table obj ?u = Inr (st1, dropped)"
    using rebase_ok [OF t] by blast
  then have put: "pull_put J table obj st = st1" by (simp add: pull_put_def row_stamp_def)
  have meta: "meta st1 = meta st" using rb by (rule rebase_tables)
  have mf: "meta (fill_null_book_columns s i r) = meta s" for s i r
    unfolding fill_null_book_columns_def
    by (rule fold_invariant [where Q = "\<lambda>_. True" and P = "\<lambda>x. meta x = meta s"])
      (simp_all split: option.split)
  show ?thesis
  proof (cases "pull_get J table st ?i")
    case None
    with ls l rb put meta that show ?thesis
      by (cases "pull_tomb obj")
        (simp_all add: merge_keyed_row_def Let_def should_apply_def lww_merge_def pull_tomb_def)
  next
    case (Some r)
    with ls l rb put meta mf that pull_get_fill show ?thesis
      by (cases "row_stamp r < ?u"; cases "table = ''books'' \<and> missing_fillable l")
        (simp_all add: merge_keyed_row_def Let_def should_apply_def lww_merge_def row_stamp_def)
  qed
qed


subsection \<open>Merging a page\<close>

text \<open>The rows of a page that can be merged: objects with their primary key.\<close>

definition keyed_object :: "string \<Rightarrow> json \<Rightarrow> row option" where
  "keyed_object table v =
     (case as_object v of None \<Rightarrow> None
      | Some obj \<Rightarrow> if row_str obj (record_id_column table) = None then None else Some obj)"

definition keyed_objects :: "string \<Rightarrow> json list \<Rightarrow> row list" where
  "keyed_objects table vs = List.map_filter (keyed_object table) vs"

lemma keyed_objects_Cons [simp]:
  "keyed_objects table [] = []"
  "keyed_objects table (v # vs) =
     (case keyed_object table v of None \<Rightarrow> [] | Some obj \<Rightarrow> [obj]) @ keyed_objects table vs"
  by (simp_all add: keyed_objects_def List.map_filter_simps split: option.split)

lemma keyed_objects_valid:
  "table_schema table \<noteq> None \<Longrightarrow> \<forall>r \<in> set (keyed_objects table vs). pull_valid table r"
  by (induction vs) (auto simp: keyed_object_def pull_valid_def split: option.splits if_splits)

lemma merge_row_refines:
  assumes t: "table_schema table = Some t"
  obtains st' stats' where
    "merge_row J E table (pk_of t) v (st, stats, m) =
       (None, st', stats', fold bump_seq (keyed_objects table [v]) m)"
    "pull_get J table st' = pull_get J table (fold (pull_merge J table) (keyed_objects table [v]) st)"
    "meta st' = meta st"
proof (cases "keyed_object table v")
  case None
  then have "merge_row J E table (pk_of t) v (st, stats, m) = (None, st, stats, m)"
    using t by (auto simp: merge_row_def keyed_object_def record_id_column_pk split: option.splits)
  with that None show ?thesis by simp
next
  case (Some obj)
  then have v: "as_object v = Some obj" and k: "row_str obj (pk_of t) = Some (pull_key table obj)"
    using t by (auto simp: keyed_object_def record_id_column_pk pull_key_def split: option.splits if_splits)
  then have "pull_valid table obj" using t by (simp add: pull_valid_def record_id_column_pk)
  then obtain st' stats' where "merge_keyed_row J E table obj (pull_key table obj) (st, stats, m) =
      (None, st', stats', bump_seq obj m)"
    "pull_get J table st' = pull_get J table (pull_merge J table obj st)" "meta st' = meta st"
    by (rule merge_keyed_row_refines)
  with that v k Some show ?thesis by (simp add: merge_row_def)
qed

lemma merge_rows_refines:
  assumes t: "table_schema table = Some t"
  shows "\<exists>st' stats'. merge_rows J E table (pk_of t) vs (st, stats, m) =
      (None, st', stats', fold bump_seq (keyed_objects table vs) m) \<and>
    pull_get J table st' = pull_get J table (fold (pull_merge J table) (keyed_objects table vs) st) \<and>
    meta st' = meta st"
proof (induction vs arbitrary: st stats m)
  case (Cons v vs)
  let ?os = "keyed_objects table [v]"
  obtain st1 stats1 where
    r: "merge_row J E table (pk_of t) v (st, stats, m) = (None, st1, stats1, fold bump_seq ?os m)"
    and g: "pull_get J table st1 = pull_get J table (fold (pull_merge J table) ?os st)"
    and mt: "meta st1 = meta st"
    using merge_row_refines [OF t] .
  obtain st' stats' where rest: "merge_rows J E table (pk_of t) vs (st1, stats1, fold bump_seq ?os m) =
      (None, st', stats', fold bump_seq (keyed_objects table vs) (fold bump_seq ?os m))"
    "pull_get J table st' = pull_get J table (fold (pull_merge J table) (keyed_objects table vs) st1)"
    "meta st' = meta st1"
    using Cons by blast
  have "pull_get J table (fold (pull_merge J table) (keyed_objects table vs) st1) =
      pull_get J table (fold (pull_merge J table) (keyed_objects table vs)
        (fold (pull_merge J table) ?os st))"
    using t g keyed_objects_valid [of table vs] by (intro pull_lww.fold_get_cong) simp_all
  with r rest mt show ?case by simp
qed simp



subsection \<open>Paging\<close>

lemma apply_row_meta:
  "apply_row J (st\<lparr>meta := x\<rparr>) table r = map_sum id (\<lambda>s. s\<lparr>meta := x\<rparr>) (apply_row J st table r)"
  by (simp add: apply_row_def Let_def insert_or_replace_def delete_embedding_def
      delete_question_embedding_def split: sum.split option.split)

lemma rebase_meta:
  "apply_row_rebasing_outbox J (st\<lparr>meta := x\<rparr>) table r u =
   map_sum id (\<lambda>(s, d). (s\<lparr>meta := x\<rparr>, d)) (apply_row_rebasing_outbox J st table r u)"
  by (simp add: apply_row_rebasing_outbox_def apply_row_meta Let_def split: sum.split)

lemma fill_meta:
  "fill_null_book_columns (st\<lparr>meta := x\<rparr>) i r = (fill_null_book_columns st i r)\<lparr>meta := x\<rparr>"
proof -
  have swap: "s\<lparr>meta := x, tables := t\<rparr> = s\<lparr>tables := t, meta := x\<rparr>" for s t by simp
  have "fold (\<lambda>col s. case row_str r col of None \<Rightarrow> s
          | Some v \<Rightarrow> s\<lparr>tables := (tables s)(''books'' := map (fill_column i col v) (tables s ''books''))\<rparr>)
        cols (st\<lparr>meta := x\<rparr>) =
      (fold (\<lambda>col s. case row_str r col of None \<Rightarrow> s
          | Some v \<Rightarrow> s\<lparr>tables := (tables s)(''books'' := map (fill_column i col v) (tables s ''books''))\<rparr>)
        cols st)\<lparr>meta := x\<rparr>" for cols
    by (induction cols arbitrary: st) (simp_all add: swap split: option.split)
  then show ?thesis by (simp add: fill_null_book_columns_def)
qed

abbreviation with_meta :: "(string \<Rightarrow> string option) \<Rightarrow> 'e \<times> merge_state \<Rightarrow> 'e \<times> merge_state" where
  "with_meta x \<equiv> (\<lambda>(e, s, stats, m). (e, s\<lparr>meta := x\<rparr>, stats, m))"

lemma merge_row_meta:
  "merge_row J E table pk v (st\<lparr>meta := x\<rparr>, stats, m) =
   with_meta x (merge_row J E table pk v (st, stats, m))"
proof -
  have "get_row J (st\<lparr>meta := x\<rparr>) = get_row J st" by (rule get_row_frame) simp
  then show ?thesis
    by (simp add: merge_row_def merge_keyed_row_def Let_def rebase_meta fill_meta
        split: option.split sum.split)
qed

lemma merge_rows_meta:
  "merge_rows J E table pk vs (st\<lparr>meta := x\<rparr>, stats, m) =
   with_meta x (merge_rows J E table pk vs (st, stats, m))"
proof (induction vs arbitrary: st stats m)
  case (Cons v vs)
  then show ?case by (auto simp: merge_row_meta split: option.split prod.split)
qed simp

lemma merge_rows_append:
  "merge_rows J E table pk (xs @ ys) ms =
     (case merge_rows J E table pk xs ms of
        (Some e, ms1) \<Rightarrow> (Some e, ms1) | (None, ms1) \<Rightarrow> merge_rows J E table pk ys ms1)"
  by (induction xs arbitrary: ms) (auto split: option.split prod.split)

text \<open>A server that answers the keyset query \<open>change_seq > c\<close>, ordered and limited.\<close>

definition json_seq :: "json \<Rightarrow> int" where
  "json_seq v = unwrap_or (Option.bind (json_get v ''change_seq'') as_i64) 0"

definition serves :: "'w sink \<Rightarrow> string \<Rightarrow> json list \<Rightarrow> bool" where
  "serves snk table rows \<longleftrightarrow> (\<forall>c l w. snk_fetch_page snk table c l w =
     (Inr (take (as_usize l) (filter (\<lambda>v. c < json_seq v) rows)), w))"

text \<open>The server's rows: every one has its key and its own place in the change sequence.\<close>

definition stamped :: "string \<Rightarrow> json list \<Rightarrow> bool" where
  "stamped table rows \<longleftrightarrow> sorted_wrt (<) (map json_seq rows) \<and>
     list_all (\<lambda>v. case keyed_object table v of None \<Rightarrow> False
        | Some obj \<Rightarrow> row_i64 obj ''change_seq'' \<noteq> None) rows"

lemma stamped_filter: "stamped table rows \<Longrightarrow> stamped table (filter P rows)"
  by (auto simp: stamped_def list_all_iff sorted_wrt_map sorted_wrt_filter)

lemma stamped_Cons:
  assumes "stamped table (v # vs)"
  obtains obj where "keyed_objects table [v] = [obj]" "bump_seq obj c = max c (json_seq v)" "stamped table vs"
    "\<forall>u \<in> set vs. json_seq v < json_seq u"
proof -
  from assms obtain obj q where "keyed_object table v = Some obj" "row_i64 obj ''change_seq'' = Some q"
    by (auto simp: stamped_def split: option.splits)
  moreover from this have "json_seq v = q"
    by (cases v) (auto simp: keyed_object_def json_seq_def row_i64_def split: if_splits option.splits)
  ultimately show ?thesis
    using assms that by (auto simp: bump_seq_def stamped_def)
qed

lemma stamped_page_max:
  "stamped table vs \<Longrightarrow> \<forall>v \<in> set vs. c < json_seq v \<Longrightarrow>
   fold bump_seq (keyed_objects table vs) c = (if vs = [] then c else json_seq (last vs))"
proof (induction vs arbitrary: c)
  case (Cons v vs)
  obtain obj where o': "keyed_objects table [v] = [obj]" "bump_seq obj c = max c (json_seq v)"
    "stamped table vs" "\<forall>u \<in> set vs. json_seq v < json_seq u"
    using stamped_Cons [OF Cons(2), of c] .
  have "keyed_objects table (v # vs) = obj # keyed_objects table vs" using o'(1) by simp
  moreover have "bump_seq obj c = json_seq v" using o'(2) Cons(3) by simp
  ultimately show ?case using Cons(1) [OF o'(3,4)] by simp
qed simp

lemma keyset_next:
  assumes "sorted_wrt (<) (map f R)" "0 < n" "n \<le> length R"
  shows "filter (\<lambda>v. f (last (take n R)) < (f v :: int)) R = drop n R"
proof -
  have tk: "take n R \<noteq> []" using assms by auto
  have s: "sorted_wrt (<) (map f (take n R) @ map f (drop n R))"
    using assms(1) by (simp flip: map_append)
  have "\<not> f (last (take n R)) < f v" if "v \<in> set (take n R)" for v
  proof -
    have "sorted_wrt (<) (map f (butlast (take n R) @ [last (take n R)]))"
      using s tk by (simp add: sorted_wrt_append)
    then have "v \<in> set (butlast (take n R)) \<Longrightarrow> f v < f (last (take n R))"
      by (simp add: sorted_wrt_append)
    moreover have "set (take n R) = insert (last (take n R)) (set (butlast (take n R)))"
      using append_butlast_last_id [OF tk] by (metis list.simps(15) rotate1.simps(2) set_rotate1)
    ultimately show ?thesis using that by auto
  qed
  moreover have "f (last (take n R)) < f v" if "v \<in> set (drop n R)" for v
    using s that last_in_set [OF tk] by (simp add: sorted_wrt_append)
  ultimately have "filter (\<lambda>v. f (last (take n R)) < f v) (take n R @ drop n R) = drop n R"
    by (simp only: filter_append) (simp add: filter_id_conv filter_False)
  then show ?thesis by simp
qed


lemma cursor_set:
  "is_i64 seq \<Longrightarrow> get_seq_cursor (set_seq_cursor st table seq) table = Some seq"
  by (simp add: get_seq_cursor_def set_seq_cursor_def meta_get_def meta_set_def meta_delete_def
      parse_i64_to_string sync_seq_key_def sync_cursor_key_def)

lemma cursor_receipt: "get_seq_cursor (mark_pull_complete st table) table' = get_seq_cursor st table'"
  by (simp add: get_seq_cursor_def mark_pull_complete_def meta_get_def meta_set_def
      sync_seq_key_def sync_pulled_key_def)

lemma receipt_set: "has_completed_pull (mark_pull_complete st table) table"
  by (simp add: has_completed_pull_def mark_pull_complete_def meta_get_def meta_set_def)

lemma cursor_cong: "meta st = meta st' \<Longrightarrow> get_seq_cursor st = get_seq_cursor st'"
  by (simp add: get_seq_cursor_def meta_get_def fun_eq_iff)

lemma set_seq_cursor_meta: "\<exists>x. set_seq_cursor st table seq = st\<lparr>meta := x\<rparr>"
  by (auto simp: set_seq_cursor_def meta_set_def meta_delete_def)

lemma mark_pull_complete_meta: "\<exists>x. mark_pull_complete st table = st\<lparr>meta := x\<rparr>"
  by (auto simp: mark_pull_complete_def meta_set_def)

lemma cursor_is_i64: "is_i64 (unwrap_or (get_seq_cursor st table) 0)"
proof (cases "get_seq_cursor st table")
  case None
  then show ?thesis by (simp add: is_i64_def i64_min_def i64_max_def)
next
  case (Some c)
  then show ?thesis
    by (auto simp: get_seq_cursor_def parse_i64_def Let_def bind_eq_Some_conv split: if_splits)
qed

lemma stamped_take: "stamped table R \<Longrightarrow> stamped table (take n R)"
  by (auto simp: stamped_def list_all_iff simp flip: take_map dest: in_set_takeD intro: sorted_wrt_take)

text \<open>One turn of the loop against a serving sink: the page, where it leaves the cursor, and what
  follows.\<close>

lemma pull_page:
  fixes page_size :: int
  assumes t: "table_schema table = Some t" and sv: "serves snk table rows" and sp: "stamped table rows"
    and c: "unwrap_or (get_seq_cursor st table) 0 = c"
  defines "R \<equiv> filter (\<lambda>v. c < json_seq v) rows"
  defines "pg \<equiv> take (as_usize page_size) R"
  obtains st2 stats2 y m2 where
    "merge_rows J E table (pk_of t) pg (st, stats, c) = (None, st2, stats2, m2)"
    "m2 = (if pg = [] then c else json_seq (last pg))"
    "unwrap_or (get_seq_cursor (st2\<lparr>meta := y\<rparr>) table) 0 = m2"
    "pull_loop J E snk table (pk_of t) page_size c stats st w =
       (if length pg < as_usize page_size
        then (Inr stats2, mark_pull_complete (st2\<lparr>meta := y\<rparr>) table, w)
        else if \<not> c < m2 then (Inl (stalled table), st2\<lparr>meta := y\<rparr>, w)
        else pull_loop J E snk table (pk_of t) page_size m2 stats2 (st2\<lparr>meta := y\<rparr>) w)"
proof -
  have fetch: "fetch_with_retry snk table c page_size w = (Inr pg, w)"
    using sv by (simp add: serves_def fetch_with_retry_def pg_def R_def)
  define m2 where "m2 = (if pg = [] then c else json_seq (last pg))"
  have above: "\<forall>v \<in> set pg. c < json_seq v" by (auto simp: pg_def R_def dest: in_set_takeD)
  have "stamped table pg" unfolding pg_def R_def by (intro stamped_take stamped_filter sp)
  then have pm: "fold bump_seq (keyed_objects table pg) c = m2"
    using above by (simp only: stamped_page_max m2_def)
  obtain st2 stats2 where pgm: "merge_rows J E table (pk_of t) pg (st, stats, c) =
      (None, st2, stats2, m2)" and mt: "meta st2 = meta st"
    using merge_rows_refines [OF t, of J E pg st stats c] unfolding pm by blast
  define st3 where "st3 = (if c < m2 then set_seq_cursor st2 table m2 else st2)"
  obtain y where y: "st3 = st2\<lparr>meta := y\<rparr>"
    using set_seq_cursor_meta [of st2 table m2]
    by (cases "c < m2") (auto simp: st3_def intro: that [of "meta st2"])
  have "unwrap_or (get_seq_cursor st3 table) 0 = m2"
  proof (cases "c < m2")
    case True
    moreover have "is_i64 m2"
      using merge_rows_page_max [OF pgm] cursor_is_i64 [of st table] c by (auto simp: is_i64_def)
    ultimately show ?thesis by (simp add: st3_def cursor_set)
  next
    case False
    with above have "m2 = c" by (auto simp: m2_def split: if_splits)
    then show ?thesis using c cursor_cong [OF mt] by (simp add: st3_def)
  qed
  moreover have "pull_loop J E snk table (pk_of t) page_size c stats st w =
       (if length pg < as_usize page_size then (Inr stats2, mark_pull_complete st3 table, w)
        else if \<not> c < m2 then (Inl (stalled table), st3, w)
        else pull_loop J E snk table (pk_of t) page_size m2 stats2 st3 w)"
    by (subst pull_loop.simps) (simp add: fetch pgm st3_def Let_def)
  ultimately show ?thesis using that [OF pgm] y m2_def by simp
qed

lemma pull_loop_pages:
  assumes t: "table_schema table = Some t" and sv: "serves snk table rows"
    and sp: "stamped table rows" and n: "0 < as_usize page_size"
  shows "unwrap_or (get_seq_cursor st table) 0 = c \<Longrightarrow>
    R = filter (\<lambda>v. c < json_seq v) rows \<Longrightarrow>
    merge_rows J E table (pk_of t) R (st, stats, c) = (None, st1, stats1, m) \<Longrightarrow>
    \<exists>x. pull_loop J E snk table (pk_of t) page_size c stats st w = (Inr stats1, st1\<lparr>meta := x\<rparr>, w) \<and>
      unwrap_or (get_seq_cursor (st1\<lparr>meta := x\<rparr>) table) 0 = m \<and>
      has_completed_pull (st1\<lparr>meta := x\<rparr>) table"
proof (induction "length R" arbitrary: R c stats st st1 rule: less_induct)
  case less
  note R = less(3) and mr = less(4)
  let ?n = "as_usize page_size"
  obtain st2 stats2 y m2 where
    pgm: "merge_rows J E table (pk_of t) (take ?n R) (st, stats, c) = (None, st2, stats2, m2)"
    and m2: "m2 = (if take ?n R = [] then c else json_seq (last (take ?n R)))"
    and cur: "unwrap_or (get_seq_cursor (st2\<lparr>meta := y\<rparr>) table) 0 = m2"
    and turn: "pull_loop J E snk table (pk_of t) page_size c stats st w =
       (if length (take ?n R) < ?n then (Inr stats2, mark_pull_complete (st2\<lparr>meta := y\<rparr>) table, w)
        else if \<not> c < m2 then (Inl (stalled table), st2\<lparr>meta := y\<rparr>, w)
        else pull_loop J E snk table (pk_of t) page_size m2 stats2 (st2\<lparr>meta := y\<rparr>) w)"
    using pull_page [OF t sv sp less(2)] unfolding R .
  show ?case
  proof (cases "length R < ?n")
    case True
    then have eq: "st1 = st2" "stats1 = stats2" "m = m2" using mr pgm by simp_all
    obtain z where z: "mark_pull_complete (st2\<lparr>meta := y\<rparr>) table = st2\<lparr>meta := z\<rparr>"
      using mark_pull_complete_meta [of "st2\<lparr>meta := y\<rparr>" table] by auto
    with True turn eq cur cursor_receipt [of "st2\<lparr>meta := y\<rparr>" table table]
      receipt_set [of "st2\<lparr>meta := y\<rparr>" table] show ?thesis
      by (intro exI [of _ z]) simp
  next
    case False
    with n have ne: "take ?n R \<noteq> []" by auto
    then have "last (take ?n R) \<in> set R" by (meson in_set_takeD last_in_set)
    then have adv: "c < m2" using ne by (simp add: m2 R)
    have "filter (\<lambda>v. m2 < json_seq v) rows = filter (\<lambda>v. m2 < json_seq v) R"
      using adv by (auto simp: R intro: filter_cong)
    also have "\<dots> = drop ?n R"
      using keyset_next [of json_seq R ?n] stamped_filter [OF sp] n False ne
      by (simp add: m2 R stamped_def)
    finally have nxt: "drop ?n R = filter (\<lambda>v. m2 < json_seq v) rows" ..
    have "merge_rows J E table (pk_of t) (take ?n R @ drop ?n R) (st, stats, c) =
        (None, st1, stats1, m)" using mr by simp
    then have "merge_rows J E table (pk_of t) (drop ?n R) (st2\<lparr>meta := y\<rparr>, stats2, m2) =
        (None, st1\<lparr>meta := y\<rparr>, stats1, m)"
      by (simp add: merge_rows_append pgm merge_rows_meta del: append_take_drop_id)
    from less(1) [OF _ cur nxt this] n False turn adv show ?thesis by auto
  qed
qed

text \<open>
  Property C2.  Paging is invisible: against a server that answers the keyset query over rows
  with distinct change sequence numbers, pulling page by page returns, never stalls, and leaves
  the tables and the outbox exactly as one merge of all the rows past the cursor would; the
  cursor ends at the last row's number and the completion receipt is set.
\<close>

theorem pull_pages_transparent:
  assumes "table_schema table = Some t" "serves snk table rows" "stamped table rows"
    "0 < as_usize page_size"
  shows "\<exists>st1 stats m x.
    merge_rows J E table (pk_of t)
      (filter (\<lambda>v. unwrap_or (get_seq_cursor st table) 0 < json_seq v) rows)
      (st, no_stats, unwrap_or (get_seq_cursor st table) 0) = (None, st1, stats, m) \<and>
    pull_table J E snk table page_size st w = (Inr stats, st1\<lparr>meta := x\<rparr>, w) \<and>
    unwrap_or (get_seq_cursor (st1\<lparr>meta := x\<rparr>) table) 0 = m \<and>
    has_completed_pull (st1\<lparr>meta := x\<rparr>) table"
proof -
  let ?c = "unwrap_or (get_seq_cursor st table) 0"
  let ?R = "filter (\<lambda>v. ?c < json_seq v) rows"
  obtain st1 stats m where "merge_rows J E table (pk_of t) ?R (st, no_stats, ?c) = (None, st1, stats, m)"
    using merge_rows_refines [OF assms(1)] by blast
  moreover from pull_loop_pages [OF assms refl refl this, of w]
  obtain x where "pull_loop J E snk table (pk_of t) page_size ?c no_stats st w =
      (Inr stats, st1\<lparr>meta := x\<rparr>, w)" "unwrap_or (get_seq_cursor (st1\<lparr>meta := x\<rparr>) table) 0 = m"
    "has_completed_pull (st1\<lparr>meta := x\<rparr>) table" by blast
  ultimately show ?thesis
    using assms(1) by (intro exI conjI) (simp_all add: pull_table_def pk_of_def)
qed


subsection \<open>Cursor and receipt against any server\<close>

lemma cursor_other:
  "table' \<noteq> table \<Longrightarrow> get_seq_cursor (set_seq_cursor st table seq) table' = get_seq_cursor st table'"
  by (simp add: get_seq_cursor_def set_seq_cursor_def meta_get_def meta_set_def meta_delete_def
      sync_seq_key_def sync_cursor_key_def)

lemma receipt_cursor:
  "has_completed_pull (set_seq_cursor st table seq) table' = has_completed_pull st table'"
  by (simp add: has_completed_pull_def set_seq_cursor_def meta_get_def meta_set_def meta_delete_def
      sync_seq_key_def sync_cursor_key_def sync_pulled_key_def)

lemma receipt_cong: "meta st = meta st' \<Longrightarrow> has_completed_pull st = has_completed_pull st'"
  by (simp add: has_completed_pull_def meta_get_def fun_eq_iff)

text \<open>How far a pull may move the bookkeeping of \<open>table\<close>, given whether it failed.\<close>

definition pull_progress :: "string \<Rightarrow> store \<Rightarrow> bool \<Rightarrow> store \<Rightarrow> bool" where
  "pull_progress table st failed st' \<longleftrightarrow>
     unwrap_or (get_seq_cursor st table) 0 \<le> unwrap_or (get_seq_cursor st' table) 0 \<and>
     has_completed_pull st' table = (\<not> failed \<or> has_completed_pull st table) \<and>
     (\<forall>table'. table' \<noteq> table \<longrightarrow> get_seq_cursor st' table' = get_seq_cursor st table')"

lemma pull_progress_meta:
  "meta st1 = meta st \<Longrightarrow> pull_progress table st1 f st' = pull_progress table st f st'"
  using cursor_cong [of st1 st] receipt_cong [of st1 st] by (simp add: pull_progress_def)

lemma pull_progress_step:
  assumes "is_i64 seq" "unwrap_or (get_seq_cursor st table) 0 < seq"
    "pull_progress table (set_seq_cursor st table seq) f st'"
  shows "pull_progress table st f st'"
  using assms by (simp add: pull_progress_def cursor_set receipt_cursor cursor_other)

lemma pull_progress_refl: "pull_progress table st True st"
  by (simp add: pull_progress_def)

lemma pull_progress_done: "pull_progress table st False (mark_pull_complete st table)"
  by (simp add: pull_progress_def receipt_set cursor_receipt)

lemma pull_loop_progress:
  fixes snk :: "'w sink"
  assumes t: "table_schema table = Some t"
  shows "unwrap_or (get_seq_cursor st table) 0 = c \<Longrightarrow>
    pull_loop J E snk table (pk_of t) page_size c stats st w = (res, st', w') \<Longrightarrow>
    pull_progress table st (isl res) st'"
proof (induction "nat (i64_max - c)" arbitrary: c stats st w rule: less_induct)
  case less
  obtain fr w1 where f: "fetch_with_retry snk table c page_size w = (fr, w1)" by (meson surj_pair)
  show ?case
  proof (cases fr)
    case (Inl e)
    with less(3) f show ?thesis by (subst (asm) pull_loop.simps) (auto simp: pull_progress_refl)
  next
    case (Inr rows)
    obtain st1 stats1 m where mr: "merge_rows J E table (pk_of t) rows (st, stats, c) = (None, st1, stats1, m)"
      and mt: "meta st1 = meta st"
      using merge_rows_refines [OF t] by blast
    note m = merge_rows_page_max [OF mr]
    have c1: "unwrap_or (get_seq_cursor st1 table) 0 = c" using less(2) cursor_cong [OF mt] by simp
    have im: "is_i64 m" using m cursor_is_i64 [of st table] less(2) by (auto simp: is_i64_def)
    have turn: "pull_loop J E snk table (pk_of t) page_size c stats st w =
        (let st2 = (if c < m then set_seq_cursor st1 table m else st1)
         in if length rows < as_usize page_size then (Inr stats1, mark_pull_complete st2 table, w1)
            else if \<not> c < m then (Inl (stalled table), st2, w1)
            else pull_loop J E snk table (pk_of t) page_size m stats1 st2 w1)"
      using f mr Inr by (subst pull_loop.simps) (simp add: Let_def)
    have "pull_progress table st1 (isl res) st'"
    proof (cases "c < m")
      case False
      with turn less(3) show ?thesis
        by (auto simp: Let_def pull_progress_refl pull_progress_done split: if_splits)
    next
      case True
      let ?st2 = "set_seq_cursor st1 table m"
      have "nat (i64_max - m) < nat (i64_max - c)" using True m by auto
      from less(1) [OF this, of ?st2 stats1 w1]
      have rec: "pull_loop J E snk table (pk_of t) page_size m stats1 ?st2 w1 = (res, st', w') \<Longrightarrow>
          pull_progress table ?st2 (isl res) st'"
        by (simp add: cursor_set [OF im])
      have "pull_progress table ?st2 (isl res) st'"
      proof (cases "length rows < as_usize page_size")
        case short: True
        then show ?thesis using turn [unfolded less(3) Let_def] True by (simp add: pull_progress_done)
      next
        case False
        have "pull_loop J E snk table (pk_of t) page_size c stats st w =
            pull_loop J E snk table (pk_of t) page_size m stats1 ?st2 w1"
          unfolding turn using True False by (simp only: Let_def simp_thms if_True if_False)
        from rec [OF trans [OF this [symmetric] less(3)]] show ?thesis .
      qed
      from pull_progress_step [OF im _ this] True c1 show ?thesis by simp
    qed
    then show ?thesis using pull_progress_meta [OF mt] by blast
  qed
qed

text \<open>
  Property C31.  Whatever the server answers, a pull of a table never moves its cursor back, never
  touches another table's cursor, and sets the completion receipt exactly when it returns
  without error (a failed pull leaves the receipt as it was).
\<close>

theorem pull_table_progress:
  assumes "pull_table J E snk table page_size st w = (res, st', w')"
  shows "pull_progress table st (isl res) st'"
proof (cases "table_schema table")
  case None
  with assms show ?thesis by (auto simp: pull_table_def pull_progress_refl)
next
  case (Some t)
  with assms show ?thesis
    by (auto simp: pull_table_def pk_of_def intro: pull_loop_progress [OF Some refl, unfolded pk_of_def])
qed

subsection \<open>The outbox after a merge\<close>

text \<open>Whether an incoming row beats what the view of the store has under its key.\<close>

definition pull_wins :: "serde \<Rightarrow> string \<Rightarrow> store \<Rightarrow> row \<Rightarrow> bool" where
  "pull_wins J table st obj =
     (case pull_get J table st (pull_key table obj) of
        None \<Rightarrow> \<not> pull_tomb obj | Some l \<Rightarrow> row_stamp l < row_stamp obj)"

lemma fill_outbox: "outbox (fill_null_book_columns st i r) = outbox st"
  unfolding fill_null_book_columns_def
  by (rule fold_invariant [where Q = "\<lambda>_. True" and P = "\<lambda>x. outbox x = outbox st"])
    (simp_all split: option.split)

lemma merge_keyed_row_wins:
  assumes v: "pull_valid table obj" and "pull_wins J table st obj"
  obtains st' dropped where
    "apply_row_rebasing_outbox J st table obj (row_stamp obj) = Inr (st', dropped)"
    "merge_keyed_row J E table obj (pull_key table obj) (st, stats, m) =
       (None, st', stats\<lparr>ts_pulled := ts_pulled stats + 1, ts_merged := ts_merged stats + 1,
          ts_superseded := ts_superseded stats @
            superseded_of table (pull_key table obj) (row_stamp obj) dropped\<rparr>, bump_seq obj m)"
proof -
  from v obtain t where t: "table_schema table = Some t" by (auto simp: pull_valid_def)
  obtain l where l: "get_row J st table (pull_key table obj) = Inr l" using t by (simp add: get_row_eq)
  obtain st' dropped where rb: "apply_row_rebasing_outbox J st table obj (row_stamp obj) = Inr (st', dropped)"
    using rebase_ok [OF t] by blast
  show ?thesis
  proof (rule that [OF rb])
    show "merge_keyed_row J E table obj (pull_key table obj) (st, stats, m) =
       (None, st', stats\<lparr>ts_pulled := ts_pulled stats + 1, ts_merged := ts_merged stats + 1,
          ts_superseded := ts_superseded stats @
            superseded_of table (pull_key table obj) (row_stamp obj) dropped\<rparr>, bump_seq obj m)"
      using assms(2) rb [unfolded row_stamp_def] l pull_get_local_stamp [OF l]
      by (cases "pull_get J table st (pull_key table obj)")
        (simp_all add: merge_keyed_row_def Let_def pull_wins_def should_apply_def pull_tomb_def
          row_stamp_def)
  qed
qed

lemma merge_keyed_row_loses:
  assumes v: "pull_valid table obj" and "\<not> pull_wins J table st obj"
    and "merge_keyed_row J E table obj (pull_key table obj) (st, stats, m) = (e, st', stats', m')"
  shows "outbox st' = outbox st \<and> ts_superseded stats' = ts_superseded stats"
proof -
  from v obtain t where t: "table_schema table = Some t" by (auto simp: pull_valid_def)
  obtain l where l: "get_row J st table (pull_key table obj) = Inr l" using t by (simp add: get_row_eq)
  with assms(2,3) pull_get_local_stamp [OF l] show ?thesis
    by (auto simp: merge_keyed_row_def Let_def pull_wins_def should_apply_def pull_tomb_def
        row_stamp_def fill_outbox split: option.splits if_splits)
qed


text \<open>A queued entry of the record whose payload carries a stamp that the incoming one reaches.\<close>

definition beaten_entry :: "serde \<Rightarrow> string \<Rightarrow> row \<Rightarrow> outbox_row \<Rightarrow> bool" where
  "beaten_entry J table obj o' \<longleftrightarrow> queued_for table (pull_key table obj) o' \<and>
     (case payload_stamp J o' of None \<Rightarrow> False | Some u \<Rightarrow> u \<le> row_stamp obj)"

lemma rebase_outbox:
  assumes v: "pull_valid table obj"
    and "apply_row_rebasing_outbox J st table obj (row_stamp obj) = Inr (st', dropped)"
  shows "outbox st' = filter (\<lambda>o'. \<not> beaten_entry J table obj o') (outbox st)"
    "map snd dropped = map (\<lambda>o'. unwrap_or (payload_stamp J o') 0)
       (filter (beaten_entry J table obj) (outbox st))"
proof -
  from v obtain t where t: "table_schema table = Some t" by (auto simp: pull_valid_def)
  have "row_str obj (pk_of t) = Some (pull_key table obj)"
    using v t by (auto simp: pull_valid_def pull_key_def record_id_column_pk)
  then have eq: "is_superseded J table (row_str obj (pk_of t)) (row_stamp obj) = beaten_entry J table obj"
    by (simp add: fun_eq_iff is_superseded_def beaten_entry_def)
  obtain st1 where ap: "apply_row J st table obj = Inr st1" using apply_row_ok [OF t] by blast
  from assms(2) show "outbox st' = filter (\<lambda>o'. \<not> beaten_entry J table obj o') (outbox st)"
    "map snd dropped = map (\<lambda>o'. unwrap_or (payload_stamp J o') 0)
       (filter (beaten_entry J table obj) (outbox st))"
    using apply_row_frame(1) [OF ap]
    by (auto simp: apply_row_rebasing_outbox_def t ap eq Let_def)
qed


subsection \<open>A pull is a run of store operations\<close>

lemma merge_row_ops:
  assumes "merge_row J E table pk v (st, stats, m) = (e, st', stats', m')"
  shows "(store_op J)\<^sup>*\<^sup>* st st'"
proof -
  have "st' = st \<or> (\<exists>r u d. apply_row_rebasing_outbox J st table r u = Inr (st', d)) \<or>
      (\<exists>i r. st' = fill_null_book_columns st i r)"
    using assms
    by (auto simp: merge_row_def merge_keyed_row_def Let_def split: option.splits sum.splits if_splits)
  then show ?thesis
    by (auto intro: op_rebase op_fill)
qed

lemma merge_rows_ops:
  "merge_rows J E table pk vs (st, stats, m) = (e, st', stats', m') \<Longrightarrow> (store_op J)\<^sup>*\<^sup>* st st'"
proof (induction vs arbitrary: st stats m)
  case (Cons v vs)
  obtain e1 st1 stats1 m1 where r: "merge_row J E table pk v (st, stats, m) = (e1, st1, stats1, m1)"
    by (metis surj_pair)
  note ops = merge_row_ops [OF r]
  show ?case
  proof (cases e1)
    case None
    with Cons r have "(store_op J)\<^sup>*\<^sup>* st1 st'" by simp
    with ops show ?thesis by (rule rtranclp_trans)
  next
    case (Some x)
    with Cons(2) r ops show ?thesis by simp
  qed
qed simp

lemma pull_loop_ops:
  fixes snk :: "'w sink"
  shows "pull_loop J E snk table pk page_size c stats st w = (res, st', w') \<Longrightarrow> (store_op J)\<^sup>*\<^sup>* st st'"
proof (induction "nat (i64_max - c)" arbitrary: c stats st w rule: less_induct)
  case less
  obtain fr w1 where f: "fetch_with_retry snk table c page_size w = (fr, w1)" by (meson surj_pair)
  show ?case
  proof (cases fr)
    case (Inl e)
    with less(2) f show ?thesis by (subst (asm) pull_loop.simps) auto
  next
    case (Inr rows)
    obtain me st1 stats1 m where mr: "merge_rows J E table pk rows (st, stats, c) = (me, st1, stats1, m)"
      by (metis surj_pair)
    note ops = merge_rows_ops [OF mr]
    define st2 where "st2 = (if c < m then set_seq_cursor st1 table m else st1)"
    have ops2: "(store_op J)\<^sup>*\<^sup>* st st2"
      using ops by (auto simp: st2_def intro: rtranclp.rtrancl_into_rtrancl op_cursor)
    have turn: "pull_loop J E snk table pk page_size c stats st w =
        (case me of Some e \<Rightarrow> (Inl e, st1, w1)
         | None \<Rightarrow> if length rows < as_usize page_size then (Inr stats1, mark_pull_complete st2 table, w1)
            else if \<not> c < m then (Inl (stalled table), st2, w1)
            else pull_loop J E snk table pk page_size m stats1 st2 w1)"
      using f mr Inr by (subst pull_loop.simps) (simp add: Let_def st2_def split: option.split)
    consider "st' = st1" | "st' = mark_pull_complete st2 table" | "st' = st2"
      | "c < m" "pull_loop J E snk table pk page_size m stats1 st2 w1 = (res, st', w')"
      using less(2) unfolding turn by (auto split: option.splits if_splits)
    then show ?thesis
    proof cases
      case 4
      have "nat (i64_max - m) < nat (i64_max - c)" using 4(1) merge_rows_page_max [OF mr] by auto
      from less(1) [OF this 4(2)] ops2 show ?thesis by auto
    qed (use ops ops2 in \<open>auto intro: rtranclp.rtrancl_into_rtrancl op_receipt\<close>)
  qed
qed

lemma pull_tables_ops:
  "pull_tables J E snk tabs res st w = (res', st', w') \<Longrightarrow> (store_op J)\<^sup>*\<^sup>* st st'"
proof (induction tabs arbitrary: res st w)
  case (Cons table tabs)
  obtain r st1 w1 where p: "pull_table J E snk table PULL_PAGE_LIMIT st w = (r, st1, w1)"
    by (metis surj_pair)
  then have "(store_op J)\<^sup>*\<^sup>* st st1"
    by (auto simp: pull_table_def intro: pull_loop_ops split: option.splits)
  moreover from Cons p have "(store_op J)\<^sup>*\<^sup>* st1 st'" by (auto split: sum.splits)
  ultimately show ?case by (rule rtranclp_trans)
qed simp

lemma flush_ops:
  assumes "flush J snk user_id st w = (r, st', w')"
  shows "(store_op J)\<^sup>*\<^sup>* st st'"
proof (cases r)
  case (Inl e)
  with assms show ?thesis by (auto simp: flush_def Let_def split: sum.splits prod.splits)
next
  case (Inr fr)
  have ops: "(store_op J)\<^sup>*\<^sup>* st0 (snd (fold (\<lambda>table (s, st).
         let s' = flush_table snk user_id groups table s
         in (s', if table = ''books'' then persist_remap J st (fl_remap s') else st)) ts (s, st0)))"
    for groups ts s st0
  proof (induction ts arbitrary: s st0)
    case (Cons t ts)
    have "(store_op J)\<^sup>*\<^sup>* st0 (persist_remap J st0 m)" for m
      by (auto simp: persist_remap_def intro: op_meta_set)
    with Cons show ?case by (auto simp: Let_def intro: rtranclp_trans)
  qed simp
  from Inr assms obtain remap s st1 where
    "flush_tables J snk user_id (collapse (parse_items J (outbox_items st)) remap)
       (flush_init remap w, st) = (s, st1)" "st' = clear_outbox st1 (fl_ok s)"
    by (auto simp: flush_def Let_def split: sum.splits prod.splits)
  with ops [of st "collapse (parse_items J (outbox_items st)) remap" synced_table_names
      "flush_init remap w"] show ?thesis
    by (auto simp: flush_tables_def intro: rtranclp.rtrancl_into_rtrancl op_clear)
qed

lemma store_ops_inv: "(store_op J)\<^sup>*\<^sup>* st st' \<Longrightarrow> store_inv st \<Longrightarrow> store_inv st'"
  by (induction rule: rtranclp_induct) (auto intro: store_op_inv)


subsection \<open>A concrete pull\<close>

definition collection_json :: "string \<Rightarrow> int \<Rightarrow> int \<Rightarrow> json" where
  "collection_json i stamp q = JObject (fmap_of_list
     [(''id'', JString i), (''name'', JString ''N''), (''created_at'', json_i64 1),
      (''updated_at'', json_i64 stamp), (''deleted'', JBool False), (''change_seq'', json_i64 q)])"

definition three_collections :: "json list" where
  "three_collections = [collection_json ''c1'' 900 1, collection_json ''c2'' 10 2, collection_json ''c3'' 20 5]"

definition serving_sink :: "json list \<Rightarrow> nat sink" where
  "serving_sink rows = \<lparr>snk_upsert = (\<lambda>_ _ _ w. (Inr (), w)), snk_patch = (\<lambda>_ _ _ _ w. (Inr (), w)),
     snk_fetch_page = (\<lambda>_ c l w. (Inr (take (as_usize l) (filter (\<lambda>v. c < json_seq v) rows)), w))\<rparr>"

definition edit_serde :: serde where
  "edit_serde = \<lparr>to_str = (\<lambda>_. []), from_str = (\<lambda>s. if s = ''edit''
     then Some (JObject (fmap_of_list [(''updated_at'', json_i64 600)])) else None)\<rparr>"

definition edited_store :: store where
  "edited_store = collection_store\<lparr>outbox :=
     [demo_entry 1 ''collections'' ''c1'' ''edit'', demo_entry 2 ''collections'' ''c2'' ''edit'']\<rparr>"

lemma three_collections_stamped: "stamped ''collections'' three_collections"
  by code_simp


theorem pull_pages_transparent_witness:
  "\<exists>st' stats. pull_table mute_serde (\<lambda>_. []) (serving_sink three_collections) ''collections'' 2
       empty_store 0 = (Inr stats, st', 0) \<and>
     unwrap_or (get_seq_cursor st' ''collections'') 0 = 5 \<and> has_completed_pull st' ''collections''"
proof -
  have sv: "serves (serving_sink three_collections) ''collections'' three_collections"
    by (simp add: serves_def serving_sink_def)
  have n: "0 < as_usize 2" by code_simp
  have c: "unwrap_or (get_seq_cursor empty_store ''collections'') 0 = 0"
    by (simp add: get_seq_cursor_def meta_get_def empty_store_def)
  have "snd (snd (snd (merge_rows mute_serde (\<lambda>_. []) ''collections'' (pk_of (descriptor_tables ! 5))
      (filter (\<lambda>v. 0 < json_seq v) three_collections) (empty_store, no_stats, 0)))) = 5"
    by code_simp
  with pull_pages_transparent [OF collections_schema(1) sv three_collections_stamped n,
      of mute_serde "\<lambda>_. []" empty_store 0] show ?thesis
    unfolding c by fastforce
qed

theorem pull_table_progress_witness:
  "pull_progress ''collections'' empty_store
     (isl (fst (pull_table mute_serde (\<lambda>_. []) (serving_sink three_collections) ''collections'' 2 empty_store 0)))
     (fst (snd (pull_table mute_serde (\<lambda>_. []) (serving_sink three_collections) ''collections'' 2 empty_store 0)))"
  by (rule pull_table_progress [of mute_serde "\<lambda>_. []" "serving_sink three_collections" _ 2 _ 0 _ _
        "snd (snd (pull_table mute_serde (\<lambda>_. []) (serving_sink three_collections) ''collections'' 2
          empty_store 0))"]) simp


end
