(* ===== verification/Http.thy ===== *)
theory Http
  imports Text_Slices Pull
begin

text \<open>
  The PostgREST client, \<open>src/src/sync/http.rs\<close>: the production sink behind the flush and the
  pull.  reqwest, the \<open>url\<close> crate and the header type are code outside the repository: they are
  the fields of an \<open>http_lib\<close> record, with a world \<open>'w\<close> for the network.  A request keeps the
  text of its URL and the pairs appended to the query apart; the percent-encoding of the pairs is
  the library's.
\<close>

subsection \<open>Requests, responses and errors\<close>

datatype http_method = POST | PATCH | GET

record http_request =
  rq_method :: http_method
  rq_url :: string
  rq_query :: "(string \<times> string) list"
  rq_headers :: "(string \<times> string) list"
  rq_body :: "json option"

text \<open>A reqwest error: whether it is a decode error, and its text.  A response is its status and
  what \<open>text()\<close> and \<open>json::<Value>()\<close> give.\<close>

type_synonym reqwest_error = "bool \<times> string"

record http_response =
  rsp_status :: nat
  rsp_text :: "reqwest_error + string"
  rsp_json :: "reqwest_error + json"

record 'w http_lib =
  http_send :: "http_request \<Rightarrow> 'w \<Rightarrow> (reqwest_error + http_response) \<times> 'w"
  header_value :: "string \<Rightarrow> string + string"
  url_error :: "string \<Rightarrow> string option"
  not_an_array :: string
  status_text :: "nat \<Rightarrow> string"

datatype client_error = PostgrestError nat string | ReqwestError bool string | OtherError string

definition em_dash :: string where "em_dash = map char_of [226, 128, 148 :: nat]"

fun show_client_error :: "client_error \<Rightarrow> string" where
  "show_client_error (PostgrestError status body) =
     ''PostgREST '' @ nat_to_string status @ '' '' @ em_dash @ '' '' @ body"
| "show_client_error (ReqwestError d e) = e"
| "show_client_error (OtherError e) = e"

definition is_success :: "nat \<Rightarrow> bool" where "is_success status \<longleftrightarrow> 200 \<le> status \<and> status < 300"

definition PATCH_CONFIRMATION_ERROR :: string where
  "PATCH_CONFIRMATION_ERROR = ''targeted patch did not affect exactly one row''"

subsection \<open>The client\<close>

record client =
  base_url :: string
  anon_key :: string
  access_token :: "string option"

datatype insecure = InsecureBaseUrl string

definition require_secure_base_url :: "string \<Rightarrow> insecure + unit" where
  "require_secure_base_url url =
     (if strip_prefix ''https://'' url \<noteq> None then Inr ()
      else case strip_prefix ''http://'' url of
          None \<Rightarrow> Inl (InsecureBaseUrl url)
        | Some rest \<Rightarrow>
            (let host = hd (split_by (\<lambda>c. c = CHR ''/'' \<or> c = CHR '':'') rest)
             in if host \<in> {''localhost'', ''127.0.0.1'', ''::1'', ''[::1]''} then Inr ()
                else Inl (InsecureBaseUrl url)))"

definition client_new :: "string \<Rightarrow> string \<Rightarrow> insecure + client" where
  "client_new url key =
     (let base = trim_end_by (\<lambda>c. c = CHR ''/'') url
      in case require_secure_base_url base of
           Inl e \<Rightarrow> Inl e
         | Inr _ \<Rightarrow> Inr \<lparr>base_url = base, anon_key = key, access_token = None\<rparr>)"

definition set_access_token :: "client \<Rightarrow> string \<Rightarrow> client" where
  "set_access_token c jwt = c\<lparr>access_token := Some jwt\<rparr>"

definition rest_url :: "client \<Rightarrow> string \<Rightarrow> string" where
  "rest_url c table = base_url c @ ''/rest/v1/'' @ table"

definition no_token :: "string \<Rightarrow> client_error" where
  "no_token op = OtherError (''no access token set '' @ em_dash @ '' call set_access_token before '' @ op)"

text \<open>The two headers every PostgREST request carries; a value the header type refuses is an
  error before anything is sent.\<close>

definition auth_headers :: "'w http_lib \<Rightarrow> client \<Rightarrow> string \<Rightarrow> string + (string \<times> string) list" where
  "auth_headers H c token =
     (case header_value H (anon_key c) of Inl e \<Rightarrow> Inl e
      | Inr key \<Rightarrow>
          case header_value H (''Bearer '' @ token) of Inl e \<Rightarrow> Inl e
          | Inr bearer \<Rightarrow> Inr [(''apikey'', key), (''authorization'', bearer)])"

text \<open>\<open>send().await?\<close> and the status check every operation makes.\<close>

definition send_checked ::
  "'w http_lib \<Rightarrow> http_request \<Rightarrow> 'w \<Rightarrow> (client_error + http_response) \<times> 'w" where
  "send_checked H rq w =
     (case http_send H rq w of
        (Inl (d, e), w1) \<Rightarrow> (Inl (ReqwestError d e), w1)
      | (Inr resp, w1) \<Rightarrow>
          if is_success (rsp_status resp) then (Inr resp, w1)
          else (Inl (PostgrestError (rsp_status resp)
                  (case rsp_text resp of Inl _ \<Rightarrow> [] | Inr body \<Rightarrow> body)), w1))"

definition post_upsert ::
  "'w http_lib \<Rightarrow> client \<Rightarrow> string \<Rightarrow> string \<Rightarrow> json \<Rightarrow> 'w \<Rightarrow> (client_error + unit) \<times> 'w" where
  "post_upsert H c table on_conflict rows w =
     (case access_token c of None \<Rightarrow> (Inl (no_token ''flush''), w)
      | Some token \<Rightarrow>
          case auth_headers H c token of Inl e \<Rightarrow> (Inl (OtherError e), w)
          | Inr hs \<Rightarrow>
              (case send_checked H \<lparr>rq_method = POST,
                      rq_url = rest_url c table @ ''?on_conflict='' @ on_conflict, rq_query = [],
                      rq_headers = hs @ [(''content-type'', ''application/json''),
                        (''Prefer'', ''resolution=merge-duplicates, return=minimal'')],
                      rq_body = Some rows\<rparr> w of
                 (Inl e, w1) \<Rightarrow> (Inl e, w1) | (Inr _, w1) \<Rightarrow> (Inr (), w1)))"

text \<open>The representation PostgREST returns must be exactly the row the patch selected.\<close>

definition confirmed :: "string \<Rightarrow> string \<Rightarrow> json \<Rightarrow> bool" where
  "confirmed primary_key record_id v =
     (case v of JArray [r] \<Rightarrow> Option.bind (json_get r primary_key) as_str = Some record_id
      | _ \<Rightarrow> False)"

definition patch_existing ::
  "serde \<Rightarrow> 'w http_lib \<Rightarrow> client \<Rightarrow> string \<Rightarrow> string \<Rightarrow> string \<Rightarrow> json \<Rightarrow> 'w \<Rightarrow> (client_error + unit) \<times> 'w" where
  "patch_existing J H c table primary_key record_id r w =
     (case access_token c of None \<Rightarrow> (Inl (no_token ''flush''), w)
      | Some token \<Rightarrow>
          case url_error H (rest_url c table) of Some e \<Rightarrow> (Inl (OtherError e), w)
          | None \<Rightarrow>
              (case auth_headers H c token of Inl e \<Rightarrow> (Inl (OtherError e), w)
               | Inr hs \<Rightarrow>
                   case send_checked H \<lparr>rq_method = PATCH, rq_url = rest_url c table,
                           rq_query = [(primary_key, ''eq.'' @ record_id), (''select'', primary_key)],
                           rq_headers = hs @ [(''content-type'', ''application/json''),
                             (''Prefer'', ''return=representation'')],
                           rq_body = Some r\<rparr> w of
                     (Inl e, w1) \<Rightarrow> (Inl e, w1)
                   | (Inr resp, w1) \<Rightarrow>
                       (case rsp_text resp of Inl (d, e) \<Rightarrow> (Inl (ReqwestError d e), w1)
                        | Inr body \<Rightarrow>
                            (case from_str J body of
                               Some v \<Rightarrow> if confirmed primary_key record_id v then (Inr (), w1)
                                 else (Inl (PostgrestError (rsp_status resp) PATCH_CONFIRMATION_ERROR), w1)
                             | None \<Rightarrow> (Inl (PostgrestError (rsp_status resp) PATCH_CONFIRMATION_ERROR), w1)))))"

text \<open>\<open>resp.json::<Vec<Value>>()\<close>: a body that is no array is a decode error.\<close>

definition json_rows :: "'w http_lib \<Rightarrow> http_response \<Rightarrow> client_error + json list" where
  "json_rows H resp =
     (case rsp_json resp of Inl (d, e) \<Rightarrow> Inl (ReqwestError d e)
      | Inr v \<Rightarrow> (case v of JArray vs \<Rightarrow> Inr vs | _ \<Rightarrow> Inl (ReqwestError True (not_an_array H))))"

text \<open>An authorised GET that reads rows.\<close>

definition get_rows ::
  "'w http_lib \<Rightarrow> client \<Rightarrow> string \<Rightarrow> string \<Rightarrow> (string \<times> string) list \<Rightarrow> 'w \<Rightarrow>
   (client_error + json list) \<times> 'w" where
  "get_rows H c token url query w =
     (case auth_headers H c token of Inl e \<Rightarrow> (Inl (OtherError e), w)
      | Inr hs \<Rightarrow>
          case send_checked H \<lparr>rq_method = GET, rq_url = url, rq_query = query, rq_headers = hs,
                  rq_body = None\<rparr> w of
            (Inl e, w1) \<Rightarrow> (Inl e, w1)
          | (Inr resp, w1) \<Rightarrow> (json_rows H resp, w1))"

definition get_page ::
  "'w http_lib \<Rightarrow> client \<Rightarrow> string \<Rightarrow> int \<Rightarrow> int \<Rightarrow> 'w \<Rightarrow> (client_error + json list) \<times> 'w" where
  "get_page H c table after_seq limit w =
     (case access_token c of None \<Rightarrow> (Inl (no_token ''pull''), w)
      | Some token \<Rightarrow>
          get_rows H c token (rest_url c table @ ''?change_seq=gt.'' @ i64_to_string after_seq @
            ''&order=change_seq.asc&limit='' @ i64_to_string limit) [] w)"

definition quoted :: "string \<Rightarrow> string" where
  "quoted i = CHR 0x22 # escape_char CHR 0x22 (escape_char CHR 0x5C i) @ [CHR 0x22]"

definition by_ids_filter :: "string list \<Rightarrow> string" where
  "by_ids_filter ids = ''in.('' @ join '','' (map quoted ids) @ '')''"

definition by_ids_url ::
  "'w http_lib \<Rightarrow> client \<Rightarrow> string \<Rightarrow> string \<Rightarrow> string list \<Rightarrow>
   string + (string \<times> (string \<times> string) list)" where
  "by_ids_url H c table primary_key ids =
     (case url_error H (rest_url c table) of Some _ \<Rightarrow> Inl ''invalid PostgREST base URL''
      | None \<Rightarrow> Inr (rest_url c table, [(primary_key, by_ids_filter ids)]))"

definition get_by_ids ::
  "'w http_lib \<Rightarrow> client \<Rightarrow> string \<Rightarrow> string \<Rightarrow> string list \<Rightarrow> 'w \<Rightarrow> (client_error + json list) \<times> 'w" where
  "get_by_ids H c table primary_key ids w =
     (case access_token c of None \<Rightarrow> (Inl (no_token ''pull''), w)
      | Some token \<Rightarrow>
          case by_ids_url H c table primary_key ids of Inl e \<Rightarrow> (Inl (OtherError e), w)
          | Inr (url, query) \<Rightarrow> get_rows H c token url query w)"

definition get_app_config ::
  "'w http_lib \<Rightarrow> client \<Rightarrow> string \<Rightarrow> 'w \<Rightarrow> (client_error + json option) \<times> 'w" where
  "get_app_config H c key w =
     (case access_token c of None \<Rightarrow> (Inl (no_token ''reading app_config''), w)
      | Some token \<Rightarrow>
          case get_rows H c token
                 (base_url c @ ''/rest/v1/app_config?key=eq.'' @ key @ ''&select=value'') [] w of
            (Inl e, w1) \<Rightarrow> (Inl e, w1)
          | (Inr [], w1) \<Rightarrow> (Inr None, w1)
          | (Inr (r # rs), w1) \<Rightarrow> (Inr (json_get r ''value''), w1))"

subsection \<open>The Open Library search\<close>

record cover_hit =
  cover_i :: "int option"
  cover_isbn :: "string option"

definition search_query :: "string \<Rightarrow> string option \<Rightarrow> (string \<times> string) list" where
  "search_query title author =
     [(''title'', title), (''limit'', ''1''), (''fields'', ''key,title,author_name,cover_i,isbn'')] @
     (case author of None \<Rightarrow> []
      | Some a \<Rightarrow> if str_trim a = [] then [] else [(''author'', str_trim a)])"

fun first_element :: "json \<Rightarrow> json option" where
  "first_element (JArray (x # xs)) = Some x"
| "first_element v = None"

definition cover_of_doc :: "json \<Rightarrow> cover_hit" where
  "cover_of_doc doc = \<lparr>
     cover_i = Option.bind (json_get doc ''cover_i'') as_i64,
     cover_isbn =
       (case Option.bind (Option.bind (json_get doc ''isbn'') first_element) as_str of
          None \<Rightarrow> None
        | Some s \<Rightarrow> if str_trim s = [] then None else Some (str_trim s))\<rparr>"

definition openlibrary_search ::
  "'w http_lib \<Rightarrow> client \<Rightarrow> string \<Rightarrow> string option \<Rightarrow> 'w \<Rightarrow> (client_error + cover_hit option) \<times> 'w" where
  "openlibrary_search H c title author w =
     (case http_send H \<lparr>rq_method = GET, rq_url = ''https://openlibrary.org/search.json'',
             rq_query = search_query title author, rq_headers = [(''accept'', ''application/json'')],
             rq_body = None\<rparr> w of
        (Inl (d, e), w1) \<Rightarrow> (Inl (ReqwestError d e), w1)
      | (Inr resp, w1) \<Rightarrow>
          if \<not> is_success (rsp_status resp)
          then (Inl (OtherError (''Open Library search HTTP '' @ status_text H (rsp_status resp) @ '': '' @
                  (case rsp_text resp of Inl _ \<Rightarrow> [] | Inr body \<Rightarrow> body))), w1)
          else case rsp_json resp of Inl (d, e) \<Rightarrow> (Inl (ReqwestError d e), w1)
            | Inr data \<Rightarrow>
                (Inr (map_option cover_of_doc (Option.bind (json_get data ''docs'') first_element)), w1))"

subsection \<open>The sink\<close>

definition map_err :: "('e \<Rightarrow> 'f) \<Rightarrow> ('e + 'a) \<times> 'w \<Rightarrow> ('f + 'a) \<times> 'w" where
  "map_err f rw = (case rw of (Inl e, w) \<Rightarrow> (Inl (f e), w) | (Inr a, w) \<Rightarrow> (Inr a, w))"

fun page_error :: "client_error \<Rightarrow> string" where
  "page_error (PostgrestError status body) = ''PostgREST '' @ nat_to_string status"
| "page_error (ReqwestError d e) = (if d then e else ''transport: '' @ e)"
| "page_error (OtherError e) = e"

definition client_sink :: "serde \<Rightarrow> 'w http_lib \<Rightarrow> client \<Rightarrow> 'w sink" where
  "client_sink J H c = \<lparr>
     snk_upsert = \<lambda>table oc rows w. map_err show_client_error (post_upsert H c table oc rows w),
     snk_patch = \<lambda>table pk rid r w. map_err show_client_error (patch_existing J H c table pk rid r w),
     snk_fetch_page = \<lambda>table after limit w. map_err page_error (get_page H c table after limit w)\<rparr>"

definition fetch_by_ids ::
  "'w http_lib \<Rightarrow> client \<Rightarrow> string \<Rightarrow> string \<Rightarrow> string list \<Rightarrow> 'w \<Rightarrow> (string + json list) \<times> 'w" where
  "fetch_by_ids H c table primary_key ids w =
     (if ids = [] then (Inr [], w)
      else map_err show_client_error (get_by_ids H c table primary_key ids w))"

definition fetch_app_config ::
  "'w http_lib \<Rightarrow> client \<Rightarrow> string \<Rightarrow> 'w \<Rightarrow> (string + json option) \<times> 'w" where
  "fetch_app_config H c key w = map_err show_client_error (get_app_config H c key w)"

definition search_cover ::
  "'w http_lib \<Rightarrow> client \<Rightarrow> string \<Rightarrow> string option \<Rightarrow> 'w \<Rightarrow> (string + cover_hit option) \<times> 'w" where
  "search_cover H c title author w = map_err show_client_error (openlibrary_search H c title author w)"

subsection \<open>The user of a token\<close>

text \<open>The base64url decoder is a parameter; \<open>Inl\<close> carries the text of its error.\<close>

definition user_id_from_jwt ::
  "serde \<Rightarrow> (string \<Rightarrow> string + string) \<Rightarrow> string \<Rightarrow> string \<Rightarrow> string + string" where
  "user_id_from_jwt J b64url json_error jwt =
     (case split_by (\<lambda>c. c = CHR ''.'') jwt of
        _ # payload # _ \<Rightarrow>
          (case b64url payload of Inl e \<Rightarrow> Inl e
           | Inr bytes \<Rightarrow>
               (case from_str J bytes of None \<Rightarrow> Inl json_error
                | Some claims \<Rightarrow>
                    (case Option.bind (json_get claims ''sub'') as_str of
                       None \<Rightarrow> Inl (''JWT has no `sub` claim'') | Some s \<Rightarrow> Inr s)))
      | _ \<Rightarrow> Inl ''malformed JWT: no payload segment'')"

subsection \<open>Which base URLs are accepted\<close>

text \<open>The text up to the first slash or colon, which the check takes for the host.\<close>

lemma takeWhile_eq_iff:
  "takeWhile (\<lambda>c. \<not> P c) rest = h \<longleftrightarrow>
   (\<exists>r. rest = h @ r \<and> (r = [] \<or> P (hd r))) \<and> (\<forall>c \<in> set h. \<not> P c)"
proof
  assume "takeWhile (\<lambda>c. \<not> P c) rest = h"
  then show "(\<exists>r. rest = h @ r \<and> (r = [] \<or> P (hd r))) \<and> (\<forall>c \<in> set h. \<not> P c)"
    using takeWhile_dropWhile_id [of "\<lambda>c. \<not> P c" rest] hd_dropWhile [of "\<lambda>c. \<not> P c" rest]
    by (metis set_takeWhileD)
next
  assume "(\<exists>r. rest = h @ r \<and> (r = [] \<or> P (hd r))) \<and> (\<forall>c \<in> set h. \<not> P c)"
  then obtain r where "rest = h @ r" "r = [] \<or> P (hd r)" "\<forall>c \<in> set h. \<not> P c" by blast
  then show "takeWhile (\<lambda>c. \<not> P c) rest = h"
    by (cases r) (simp_all add: takeWhile_append takeWhile_eq_all_conv [THEN iffD2])
qed

lemma strip_prefix_None: "strip_prefix p s = None \<longleftrightarrow> (\<forall>t. s \<noteq> p @ t)"
  by (metis not_Some_eq strip_prefix_Some)

definition loopback :: "string \<Rightarrow> bool" where
  "loopback rest \<longleftrightarrow> takeWhile (\<lambda>c. \<not> (c = CHR ''/'' \<or> c = CHR '':'')) rest
     \<in> {''localhost'', ''127.0.0.1'', ''::1'', ''[::1]''}"

lemma loopback_iff:
  "loopback rest \<longleftrightarrow> (\<exists>h r. rest = h @ r \<and> (h = ''localhost'' \<or> h = ''127.0.0.1'') \<and>
     (r = [] \<or> hd r = CHR ''/'' \<or> hd r = CHR '':''))"
proof -
  note host = takeWhile_eq_iff [of "\<lambda>c. c = CHR ''/'' \<or> c = CHR '':''" rest]
  show ?thesis
    unfolding loopback_def insert_iff host by (simp del: append_Cons append_Nil) blast
qed

lemma require_secure_iff:
  "require_secure_base_url base = Inr () \<longleftrightarrow>
   (\<exists>r. base = ''https://'' @ r) \<or>
   (\<exists>h r. base = ''http://'' @ h @ r \<and> (h = ''localhost'' \<or> h = ''127.0.0.1'') \<and>
      (r = [] \<or> hd r = CHR ''/'' \<or> hd r = CHR '':''))"
proof (cases "strip_prefix ''https://'' base")
  case None
  then have no: "\<nexists>r. base = ''https://'' @ r" by (simp add: strip_prefix_None)
  show ?thesis
  proof (cases "strip_prefix ''http://'' base")
    case None
    then have "\<nexists>r. base = ''http://'' @ r" by (simp add: strip_prefix_None)
    with no None \<open>strip_prefix ''https://'' base = None\<close> show ?thesis
      by (auto simp: require_secure_base_url_def)
  next
    case (Some rest)
    then have "base = ''http://'' @ rest" by (simp add: strip_prefix_Some)
    then have "require_secure_base_url base = Inr () \<longleftrightarrow> loopback rest"
      using None Some by (simp add: require_secure_base_url_def loopback_def hd_split_by Let_def)
    then show ?thesis using no \<open>base = ''http://'' @ rest\<close> loopback_iff [of rest] by simp
  qed
qed (auto simp: require_secure_base_url_def strip_prefix_Some)

text \<open>
  Property C36.  A client is built exactly for the base URLs that begin with \<open>https://\<close>, or with
  \<open>http://\<close> and one of \<open>localhost\<close> and \<open>127.0.0.1\<close> standing before a slash, a colon or the
  end; the two spellings of the IPv6 loopback in the list are never reached.
\<close>

theorem client_new_accepts_exactly:
  "(\<exists>c. client_new url key = Inr c) \<longleftrightarrow>
   (let base = trim_end_by (\<lambda>c. c = CHR ''/'') url
    in (\<exists>r. base = ''https://'' @ r) \<or>
       (\<exists>h r. base = ''http://'' @ h @ r \<and> (h = ''localhost'' \<or> h = ''127.0.0.1'') \<and>
          (r = [] \<or> hd r = CHR ''/'' \<or> hd r = CHR '':'')))"
proof -
  have "(\<exists>c. client_new url key = Inr c) \<longleftrightarrow>
      require_secure_base_url (trim_end_by (\<lambda>c. c = CHR ''/'') url) = Inr ()"
    by (simp add: client_new_def Let_def split: sum.split)
  also note require_secure_iff
  finally show ?thesis by (simp only: Let_def)
qed

text \<open>The colon may end a user name: a URL whose host is elsewhere passes the check, and a bracketed
  IPv6 loopback does not.\<close>

lemma client_new_userinfo:
  "client_new ''http://localhost:x@evil.example'' k =
     Inr \<lparr>base_url = ''http://localhost:x@evil.example'', anon_key = k, access_token = None\<rparr>"
proof -
  have "trim_end_by (\<lambda>c. c = CHR ''/'') ''http://localhost:x@evil.example'' =
      ''http://localhost:x@evil.example''"
    by (rule trim_end_by_id) simp
  moreover have "require_secure_base_url ''http://localhost:x@evil.example'' = Inr ()"
    unfolding require_secure_iff
    by (rule disjI2, rule exI [of _ "''localhost''"], rule exI [of _ "'':x@evil.example''"]) simp
  ultimately show ?thesis by (simp add: client_new_def)
qed

lemma client_new_ipv6:
  "client_new ''http://[::1]:54321'' k = Inl (InsecureBaseUrl ''http://[::1]:54321'')"
proof -
  have "trim_end_by (\<lambda>c. c = CHR ''/'') ''http://[::1]:54321'' = ''http://[::1]:54321''"
    by (rule trim_end_by_id) simp
  moreover have "strip_prefix ''https://'' ''http://[::1]:54321'' = None"
    by (simp add: strip_prefix_None)
  moreover have "strip_prefix ''http://'' ''http://[::1]:54321'' = Some ''[::1]:54321''"
    by (simp add: strip_prefix_Some)
  ultimately show ?thesis by (simp add: client_new_def require_secure_base_url_def)
qed

subsection \<open>Where the credentials go\<close>

text \<open>A client with a token, and a network that answers every request with an empty page.\<close>

definition test_client :: client where
  "test_client = \<lparr>base_url = ''https://db.example'', anon_key = ''anon'', access_token = Some ''jwt''\<rparr>"

definition silent_http :: "unit http_lib" where
  "silent_http = \<lparr>
     http_send = (\<lambda>rq w. (Inr \<lparr>rsp_status = 200, rsp_text = Inr ''[]'', rsp_json = Inr (JArray [])\<rparr>, w)),
     header_value = Inr, url_error = (\<lambda>_. None), not_an_array = [], status_text = nat_to_string\<rparr>"

definition test_page_request :: http_request where
  "test_page_request = \<lparr>rq_method = GET,
     rq_url = ''https://db.example/rest/v1/notes?change_seq=gt.0&order=change_seq.asc&limit=500'',
     rq_query = [], rq_headers = [(''apikey'', ''anon''), (''authorization'', ''Bearer jwt'')],
     rq_body = None\<rparr>"

text \<open>The network, recording every request.\<close>

definition recording_http :: "'w http_lib \<Rightarrow> ('w \<times> http_request list) http_lib" where
  "recording_http H = \<lparr>
     http_send = (\<lambda>rq (w, tr). let (r, w') = http_send H rq w in (r, w', tr @ [rq])),
     header_value = header_value H, url_error = url_error H, not_an_array = not_an_array H,
     status_text = status_text H\<rparr>"

text \<open>One call of the client: an operation of the sink, or one of the three other reads.\<close>

inductive client_step :: "serde \<Rightarrow> 'w http_lib \<Rightarrow> client \<Rightarrow> 'w \<Rightarrow> 'w \<Rightarrow> bool" for J H c where
  cs_upsert: "client_step J H c w (snd (snk_upsert (client_sink J H c) table oc rows w))"
| cs_patch: "client_step J H c w (snd (snk_patch (client_sink J H c) table pk rid r w))"
| cs_page: "client_step J H c w (snd (snk_fetch_page (client_sink J H c) table after limit w))"
| cs_by_ids: "client_step J H c w (snd (fetch_by_ids H c table pk ids w))"
| cs_config: "client_step J H c w (snd (fetch_app_config H c key w))"
| cs_cover: "client_step J H c w (snd (search_cover H c title author w))"

definition credential_headers :: "http_request \<Rightarrow> (string \<times> string) list" where
  "credential_headers rq = filter (\<lambda>(n, v). n = ''apikey'' \<or> n = ''authorization'') (rq_headers rq)"

definition request_guarded :: "'w http_lib \<Rightarrow> client \<Rightarrow> http_request \<Rightarrow> bool" where
  "request_guarded H c rq \<longleftrightarrow>
     credential_headers rq = [] \<and> rq_url rq = ''https://openlibrary.org/search.json'' \<or>
     (\<exists>token key bearer r. access_token c = Some token \<and>
        header_value H (anon_key c) = Inr key \<and> header_value H (''Bearer '' @ token) = Inr bearer \<and>
        credential_headers rq = [(''apikey'', key), (''authorization'', bearer)] \<and>
        rq_url rq = base_url c @ ''/rest/v1/'' @ r)"

lemmas client_ops = client_sink_def post_upsert_def patch_existing_def get_page_def get_rows_def
  get_by_ids_def by_ids_url_def get_app_config_def openlibrary_search_def fetch_by_ids_def
  fetch_app_config_def search_cover_def

lemma snd_map_err [simp]: "snd (map_err f x) = snd x"
  by (cases x) (auto simp: map_err_def split: sum.splits)

lemma recording_http_simps [simp]:
  "header_value (recording_http H) = header_value H" "url_error (recording_http H) = url_error H"
  by (simp_all add: recording_http_def)

lemma auth_headers_recording [simp]: "auth_headers (recording_http H) = auth_headers H"
  by (intro ext) (simp add: auth_headers_def split: sum.split)

lemma http_send_trace: "snd (snd (http_send (recording_http H) rq x)) = snd x @ [rq]"
  by (cases x) (simp add: recording_http_def split: prod.splits)

lemma snd_send_checked [simp]: "snd (send_checked H rq w) = snd (http_send H rq w)"
  by (simp add: send_checked_def split: prod.splits sum.splits)

lemma send_checked_world: "send_checked H rq w = (r, w1) \<Longrightarrow> w1 = snd (http_send H rq w)"
  by (metis snd_conv snd_send_checked)

lemma authorised_guarded:
  assumes "access_token c = Some token" "auth_headers H c token = Inr hs"
    and "filter (\<lambda>(n, v). n = ''apikey'' \<or> n = ''authorization'') extra = []"
  shows "request_guarded H c \<lparr>rq_method = m, rq_url = rest_url c r @ s, rq_query = q,
     rq_headers = hs @ extra, rq_body = b\<rparr>"
  using assms by (auto simp: request_guarded_def credential_headers_def rest_url_def auth_headers_def
      split: sum.splits)

text \<open>What a call adds to the trace: nothing, or one guarded request.\<close>

definition adds_guarded :: "'w http_lib \<Rightarrow> client \<Rightarrow> http_request list \<Rightarrow> http_request list \<Rightarrow> bool" where
  "adds_guarded H c tr tr' \<longleftrightarrow> tr' = tr \<or> (\<exists>rq. tr' = tr @ [rq] \<and> request_guarded H c rq)"

lemma adds_guarded_refl: "adds_guarded H c tr tr"
  by (simp add: adds_guarded_def)

lemma snd_get_rows:
  "snd (get_rows H c token url q w) = (case auth_headers H c token of Inl e \<Rightarrow> w
     | Inr hs \<Rightarrow> snd (http_send H \<lparr>rq_method = GET, rq_url = url, rq_query = q, rq_headers = hs,
         rq_body = None\<rparr> w))"
  by (auto simp: get_rows_def split: sum.splits prod.splits dest: send_checked_world)

lemma snd_post_upsert:
  "snd (post_upsert H c table oc rows w) = (case access_token c of None \<Rightarrow> w | Some token \<Rightarrow>
     case auth_headers H c token of Inl e \<Rightarrow> w
     | Inr hs \<Rightarrow> snd (http_send H \<lparr>rq_method = POST,
         rq_url = rest_url c table @ ''?on_conflict='' @ oc, rq_query = [],
         rq_headers = hs @ [(''content-type'', ''application/json''),
           (''Prefer'', ''resolution=merge-duplicates, return=minimal'')], rq_body = Some rows\<rparr> w))"
  by (auto simp: post_upsert_def split: sum.splits prod.splits option.splits dest: send_checked_world)

lemma snd_patch_existing:
  "snd (patch_existing J H c table pk rid r w) = (case access_token c of None \<Rightarrow> w | Some token \<Rightarrow>
     case url_error H (rest_url c table) of Some e \<Rightarrow> w
     | None \<Rightarrow> (case auth_headers H c token of Inl e \<Rightarrow> w
         | Inr hs \<Rightarrow> snd (http_send H \<lparr>rq_method = PATCH, rq_url = rest_url c table,
             rq_query = [(pk, ''eq.'' @ rid), (''select'', pk)],
             rq_headers = hs @ [(''content-type'', ''application/json''),
               (''Prefer'', ''return=representation'')], rq_body = Some r\<rparr> w)))"
  by (auto simp: patch_existing_def split: sum.splits prod.splits option.splits dest: send_checked_world)

lemma snd_get_app_config:
  "snd (get_app_config H c key w) = (case access_token c of None \<Rightarrow> w | Some token \<Rightarrow>
     snd (get_rows H c token (rest_url c (''app_config?key=eq.'' @ key @ ''&select=value'')) [] w))"
proof -
  have "snd (case x of (Inl e, w1) \<Rightarrow> (Inl e, w1) | (Inr [], w1) \<Rightarrow> (Inr None, w1)
      | (Inr (r # rs), w1) \<Rightarrow> (Inr (json_get r ''value''), w1)) = snd x"
    for x :: "(client_error + json list) \<times> 'a"
    by (auto split: prod.splits sum.splits list.splits)
  then show ?thesis by (simp add: get_app_config_def rest_url_def split: option.split)
qed

lemma snd_openlibrary_search:
  "snd (openlibrary_search H c title author w) = snd (http_send H \<lparr>rq_method = GET,
     rq_url = ''https://openlibrary.org/search.json'', rq_query = search_query title author,
     rq_headers = [(''accept'', ''application/json'')], rq_body = None\<rparr> w)"
  by (simp add: openlibrary_search_def split: prod.splits sum.splits)

lemma get_rows_guarded:
  "access_token c = Some token \<Longrightarrow>
   adds_guarded H c (snd x) (snd (snd (get_rows (recording_http H) c token (rest_url c r @ s) q x)))"
  using authorised_guarded [where extra = "[]"]
  by (auto simp: snd_get_rows adds_guarded_def http_send_trace split: sum.splits)

lemma client_step_guarded:
  assumes "client_step J (recording_http H) c x y"
  shows "adds_guarded H c (snd x) (snd y)"
  using assms
proof cases
  case (cs_upsert table oc rows)
  then show ?thesis
    by (auto simp: client_sink_def snd_post_upsert adds_guarded_def http_send_trace
        split: option.splits sum.splits intro: authorised_guarded)
next
  case (cs_patch table pk rid r)
  then show ?thesis
    by (auto simp: client_sink_def snd_patch_existing adds_guarded_def http_send_trace
        split: option.splits sum.splits intro: authorised_guarded [where s = "[]", simplified])
next
  case (cs_page table after limit)
  then show ?thesis
    by (cases "access_token c")
      (simp_all add: client_sink_def get_page_def get_rows_guarded adds_guarded_refl)
next
  case (cs_by_ids table pk ids)
  then show ?thesis
    by (cases "access_token c")
      (simp_all add: fetch_by_ids_def get_by_ids_def by_ids_url_def adds_guarded_refl
        get_rows_guarded [where s = "[]", simplified] split: option.split)
next
  case (cs_config key)
  then show ?thesis using get_rows_guarded [where s = "[]"]
    by (cases "access_token c") (simp_all add: fetch_app_config_def snd_get_app_config adds_guarded_refl)
next
  case (cs_cover title author)
  then show ?thesis
    by (auto simp: search_cover_def snd_openlibrary_search http_send_trace adds_guarded_def
        request_guarded_def credential_headers_def)
qed

text \<open>
  Property C39.  Whatever calls are made on a client that \<open>client_new\<close> built, and whatever the
  network answers, a request either goes to the Open Library search without credentials, or carries
  the API key and the bearer token of the session and goes below the base URL, which then begins
  with \<open>https://\<close> or with \<open>http://\<close> and a loopback name; without a token nothing but the former is
  sent.
\<close>

theorem client_requests_guarded:
  assumes "client_new url key = Inr c0" "c = c0\<lparr>access_token := tok\<rparr>"
    and "(client_step J (recording_http H) c)\<^sup>*\<^sup>* (w, []) (w', trace)"
    and "rq \<in> set trace"
  shows "request_guarded H c rq \<and>
    (credential_headers rq = [] \<or> (tok \<noteq> None \<and>
      ((\<exists>r. rq_url rq = ''https://'' @ r) \<or>
       (\<exists>h r. rq_url rq = ''http://'' @ h @ r \<and> (h = ''localhost'' \<or> h = ''127.0.0.1'') \<and>
          (hd r = CHR ''/'' \<or> hd r = CHR '':'')))))"
proof -
  have "list_all (request_guarded H c) (snd y)"
    if "(client_step J (recording_http H) c)\<^sup>*\<^sup>* (w, []) y" for y
    using that
    by (induction rule: rtranclp_induct) (auto dest!: client_step_guarded simp: adds_guarded_def)
  with assms(3,4) have g: "request_guarded H c rq" by (fastforce simp: list_all_iff)
  have sec: "require_secure_base_url (base_url c) = Inr ()"
    using assms(1,2) by (auto simp: client_new_def Let_def split: sum.splits)
  show ?thesis
  proof (cases "credential_headers rq = []")
    case False
    with g obtain r where "tok \<noteq> None" and r: "rq_url rq = base_url c @ ''/rest/v1/'' @ r"
      using assms(2) by (auto simp: request_guarded_def)
    from sec [unfolded require_secure_iff] consider
      (https) s where "base_url c = ''https://'' @ s"
      | (http) h s where "base_url c = ''http://'' @ h @ s"
        "h = ''localhost'' \<or> h = ''127.0.0.1''" "s = [] \<or> hd s = CHR ''/'' \<or> hd s = CHR '':''"
      by blast
    then show ?thesis
    proof cases
      case https
      with r g \<open>tok \<noteq> None\<close> show ?thesis by simp
    next
      case http
      then have "rq_url rq = ''http://'' @ h @ (s @ ''/rest/v1/'' @ r) \<and>
          (h = ''localhost'' \<or> h = ''127.0.0.1'') \<and>
          (hd (s @ ''/rest/v1/'' @ r) = CHR ''/'' \<or> hd (s @ ''/rest/v1/'' @ r) = CHR '':'')"
        using r by (cases s) simp_all
      with g \<open>tok \<noteq> None\<close> show ?thesis by blast
    qed
  qed (use g in simp)
qed

theorem client_requests_guarded_witness:
  "request_guarded silent_http test_client test_page_request"
proof -
  have new: "client_new ''https://db.example'' ''anon'' =
      Inr \<lparr>base_url = ''https://db.example'', anon_key = ''anon'', access_token = None\<rparr>"
    by (simp add: client_new_def require_secure_base_url_def trim_end_by_def strip_prefix_def)
  have page: "snk_fetch_page (client_sink demo_serde (recording_http silent_http) test_client)
      ''notes'' 0 500 ((), []) = (Inr [], (), [test_page_request])"
    by code_simp
  have "(client_step demo_serde (recording_http silent_http) test_client)\<^sup>*\<^sup>* ((), []) ((), [test_page_request])"
    using cs_page [of demo_serde "recording_http silent_http" test_client "((), [])" "''notes''" 0 500]
    by (simp add: page r_into_rtranclp)
  from client_requests_guarded [OF new _ this, of "Some ''jwt''" test_page_request]
  show ?thesis by (simp add: test_client_def)
qed

subsection \<open>Patches are confirmed\<close>

text \<open>
  The sink reports a targeted patch as done exactly when the request was sent with a
  token, the server answered with a success status, and the body it returned is one row whose
  primary key is the record patched; every other outcome is an error, so the queued edit is kept.
\<close>

theorem patch_confirmed_exactly:
  "(\<exists>w'. snk_patch (client_sink J H c) table pk rid r w = (Inr (), w')) \<longleftrightarrow>
   (\<exists>token hs resp body obj w'. access_token c = Some token \<and> auth_headers H c token = Inr hs \<and>
      url_error H (rest_url c table) = None \<and>
      http_send H \<lparr>rq_method = PATCH, rq_url = rest_url c table,
          rq_query = [(pk, ''eq.'' @ rid), (''select'', pk)],
          rq_headers = hs @ [(''content-type'', ''application/json''),
            (''Prefer'', ''return=representation'')], rq_body = Some r\<rparr> w = (Inr resp, w') \<and>
      200 \<le> rsp_status resp \<and> rsp_status resp < 300 \<and> rsp_text resp = Inr body \<and>
      from_str J body = Some (JArray [JObject obj]) \<and> row_str obj pk = Some rid)"
proof -
  have "Option.bind (json_get x pk) as_str = Some rid \<longleftrightarrow> (\<exists>obj. x = JObject obj \<and> row_str obj pk = Some rid)"
    for x by (cases x) (simp_all add: row_str_def)
  then have conf: "confirmed pk rid v \<longleftrightarrow> (\<exists>obj. v = JArray [JObject obj] \<and> row_str obj pk = Some rid)" for v
    by (auto simp: confirmed_def split: json.splits list.splits)
  show ?thesis
    by (auto simp: client_sink_def map_err_def patch_existing_def send_checked_def is_success_def conf
        split: option.splits sum.splits prod.splits if_splits)
qed

subsection \<open>Only transport failures are retried\<close>

definition page_request :: "client \<Rightarrow> (string \<times> string) list \<Rightarrow> string \<Rightarrow> int \<Rightarrow> int \<Rightarrow> http_request" where
  "page_request c hs table after limit = \<lparr>rq_method = GET,
     rq_url = rest_url c table @ ''?change_seq=gt.'' @ i64_to_string after @
       ''&order=change_seq.asc&limit='' @ i64_to_string limit,
     rq_query = [], rq_headers = hs, rq_body = None\<rparr>"

text \<open>The connection broke: no response, or a success whose body could not be read.\<close>

fun broke_in_transport :: "reqwest_error + http_response \<Rightarrow> bool" where
  "broke_in_transport (Inl (d, e)) = (\<not> d)"
| "broke_in_transport (Inr resp) =
     (is_success (rsp_status resp) \<and> (\<exists>e. rsp_json resp = Inl (False, e)))"

text \<open>The texts the libraries give to errors of their own do not begin like a transport error.\<close>

definition plain_errors :: "'w http_lib \<Rightarrow> bool" where
  "plain_errors H \<longleftrightarrow> \<not> is_transport (not_an_array H) \<and>
     (\<forall>rq w e. fst (http_send H rq w) = Inl (True, e) \<longrightarrow> \<not> is_transport e) \<and>
     (\<forall>rq w resp e. fst (http_send H rq w) = Inr resp \<and> rsp_json resp = Inl (True, e) \<longrightarrow>
        \<not> is_transport e)"

lemma page_error_transport:
  "is_transport (page_error e) \<longleftrightarrow> (\<exists>t. e = ReqwestError False t) \<or>
   (\<exists>t. (e = ReqwestError True t \<or> e = OtherError t) \<and> is_transport t)"
  by (cases e) (auto simp: is_transport_def)

lemma fetch_page_transport:
  assumes "access_token c = Some token" "auth_headers H c token = Inr hs" "plain_errors H"
    and "snk_fetch_page (client_sink J H c) table after limit w = (r, w')"
  shows "w' = snd (http_send H (page_request c hs table after limit) w) \<and>
    ((\<exists>e. r = Inl e \<and> is_transport e) \<longleftrightarrow>
       broke_in_transport (fst (http_send H (page_request c hs table after limit) w)))"
proof -
  obtain x w1 where x: "http_send H (page_request c hs table after limit) w = (x, w1)"
    by (meson surj_pair)
  have page: "snk_fetch_page (client_sink J H c) table after limit w =
      map_err page_error (case send_checked H (page_request c hs table after limit) w of
        (Inl e, w1) \<Rightarrow> (Inl e, w1) | (Inr resp, w1) \<Rightarrow> (json_rows H resp, w1))"
    using assms(1,2) by (simp add: client_sink_def get_page_def get_rows_def page_request_def)
  have r: "(\<exists>e. fst (map_err page_error y) = Inl e \<and> is_transport e) \<longleftrightarrow>
      (\<exists>e. fst y = Inl e \<and> is_transport (page_error e))" for y :: "(client_error + json list) \<times> 'a"
    by (cases y) (auto simp: map_err_def split: sum.splits)
  let ?y = "case send_checked H (page_request c hs table after limit) w of
        (Inl e, w1) \<Rightarrow> (Inl e, w1) | (Inr resp, w1) \<Rightarrow> (json_rows H resp, w1)"
  have "r = fst (map_err page_error ?y)" "w' = snd ?y"
    using assms(4) [unfolded page] snd_map_err [of page_error ?y] by simp_all
  moreover have "snd ?y = w1 \<and> ((\<exists>e. fst ?y = Inl e \<and> is_transport (page_error e)) \<longleftrightarrow> broke_in_transport x)"
  proof (cases x)
    case (Inl de)
    obtain d e where de: "de = (d, e)" by (cases de)
    then have "d \<Longrightarrow> \<not> is_transport e" using x Inl assms(3) by (metis (full_types) fst_conv plain_errors_def)
    then show ?thesis using x Inl de
      by (auto simp: send_checked_def page_error_transport)
  next
    case (Inr resp)
    then have "\<not> is_transport e" if "rsp_json resp = Inl (True, e)" for e
      using x that assms(3) by (metis fst_conv plain_errors_def)
    then show ?thesis using x Inr assms(3)
      by (auto simp: send_checked_def json_rows_def plain_errors_def page_error_transport
          split: sum.splits json.splits)
  qed
  ultimately show ?thesis using x r [of ?y] by simp
qed

lemma fst_http_send_recording: "fst (http_send (recording_http H) rq x) = fst (http_send H rq (fst x))"
  by (cases x) (simp add: recording_http_def split: prod.splits)

lemma plain_errors_recording: "plain_errors H \<Longrightarrow> plain_errors (recording_http H)"
  unfolding plain_errors_def fst_http_send_recording by (simp add: recording_http_def)

text \<open>
  Fetching a page through the client asks the server a second time exactly when the
  first attempt broke in transport: a refused or malformed answer, whatever its body, is never
  asked for again, and no page is asked for a third time.
\<close>

theorem page_retried_exactly:
  assumes "access_token c = Some token" "auth_headers H c token = Inr hs" "plain_errors H"
    and "fetch_with_retry (client_sink J (recording_http H) c) table cursor limit (w, []) = (r, (w', trace))"
  defines "rq \<equiv> page_request c hs table cursor limit"
  shows "trace = replicate (if broke_in_transport (fst (http_send H rq w)) then 2 else 1) rq"
proof -
  let ?snk = "client_sink J (recording_http H) c"
  have step: "snd y = snd x @ [rq] \<and>
      ((\<exists>e. r = Inl e \<and> is_transport e) \<longleftrightarrow> broke_in_transport (fst (http_send H rq (fst x))))"
    if "snk_fetch_page ?snk table cursor limit x = (r, y)" for x r y
    using fetch_page_transport [OF assms(1) _ plain_errors_recording [OF assms(3)] that]
      assms(2) http_send_trace [of H rq x] fst_http_send_recording [of H rq x] by (simp add: rq_def)
  obtain r1 y1 where f1: "snk_fetch_page ?snk table cursor limit (w, []) = (r1, y1)" by (meson surj_pair)
  obtain r2 y2 where f2: "snk_fetch_page ?snk table cursor limit y1 = (r2, y2)" by (meson surj_pair)
  show ?thesis
    using step [OF f1] step [OF f2] f1 f2 assms(4)
    by (auto simp: fetch_with_retry_def numeral_2_eq_2 split: sum.splits if_splits)
qed

theorem page_retried_exactly_witness:
  "snd (snd (fetch_with_retry (client_sink demo_serde (recording_http silent_http) test_client)
     ''notes'' 0 500 ((), []))) = [test_page_request]"
proof -
  let ?f = "fetch_with_retry (client_sink demo_serde (recording_http silent_http) test_client)
     ''notes'' 0 500 ((), [])"
  obtain r w' tr where run: "?f = (r, (w', tr))" by (metis prod_cases3)
  have a: "access_token test_client = Some ''jwt''" by (simp add: test_client_def)
  have h: "auth_headers silent_http test_client ''jwt'' =
      Inr [(''apikey'', ''anon''), (''authorization'', ''Bearer jwt'')]"
    by (simp add: auth_headers_def silent_http_def test_client_def)
  have p: "plain_errors silent_http" by (simp add: plain_errors_def silent_http_def is_transport_def)
  have q: "page_request test_client [(''apikey'', ''anon''), (''authorization'', ''Bearer jwt'')]
      ''notes'' 0 500 = test_page_request" by code_simp
  have "\<not> broke_in_transport (fst (http_send silent_http test_page_request ()))"
    by (simp add: silent_http_def)
  with page_retried_exactly [OF a h p run] run q show ?thesis by simp
qed

subsection \<open>The id filter\<close>

text \<open>A reader of PostgREST's list syntax: quoted items, a backslash before a quote or a backslash,
  commas between them.\<close>

fun read_quoted :: "string \<Rightarrow> (string \<times> string) option" where
  "read_quoted [] = None"
| "read_quoted (x # s) =
     (if x = CHR 0x22 then Some ([], s)
      else if x = CHR 0x5C
      then (case s of [] \<Rightarrow> None | y # s' \<Rightarrow> map_option (apfst ((#) y)) (read_quoted s'))
      else map_option (apfst ((#) x)) (read_quoted s))"

fun read_items :: "nat \<Rightarrow> string \<Rightarrow> string list option" where
  "read_items 0 s = None"
| "read_items (Suc n) s =
     (case s of [] \<Rightarrow> None
      | q # s1 \<Rightarrow>
          if q \<noteq> CHR 0x22 then None
          else case read_quoted s1 of
              Some (i, x # s2) \<Rightarrow>
                if x = CHR '')'' then (if s2 = [] then Some [i] else None)
                else if x = CHR '','' then map_option ((#) i) (read_items n s2)
                else None
            | _ \<Rightarrow> None)"

definition read_in_filter :: "string \<Rightarrow> string list option" where
  "read_in_filter f = Option.bind (strip_prefix ''in.('' f) (\<lambda>s. read_items (length s) s)"

lemma escape_twice:
  "escape_char CHR 0x22 (escape_char CHR 0x5C i) =
   concat (map (\<lambda>x. if x = CHR 0x22 \<or> x = CHR 0x5C then [CHR 0x5C, x] else [x]) i)"
  by (induction i) (simp_all add: escape_char_def)

lemma read_quoted_escape:
  "read_quoted (escape_char CHR 0x22 (escape_char CHR 0x5C i) @ CHR 0x22 # rest) = Some (i, rest)"
  unfolding escape_twice by (induction i) simp_all

lemma read_items_quoted:
  "read_items (Suc n) (quoted i @ x # s) =
   (if x = CHR '')'' then (if s = [] then Some [i] else None)
    else if x = CHR '','' then map_option ((#) i) (read_items n s) else None)"
  by (simp add: quoted_def read_quoted_escape)

lemma read_items_join:
  "ids \<noteq> [] \<Longrightarrow> length ids \<le> n \<Longrightarrow>
   read_items n (join '','' (map quoted ids) @ '')'') = Some ids"
proof (induction ids arbitrary: n)
  case (Cons i ids)
  then obtain m where n: "n = Suc m" by (cases n) auto
  show ?case
  proof (cases "ids = []")
    case True
    then show ?thesis by (simp add: n read_items_quoted del: read_items.simps)
  next
    case False
    then have "read_items m (join '','' (map quoted ids) @ '')'') = Some ids"
      using Cons n by simp
    with False show ?thesis by (simp add: n read_items_quoted join_Cons del: read_items.simps)
  qed
qed simp

lemma length_join_quoted: "length ids \<le> length (join '','' (map quoted ids))"
proof (induction ids)
  case (Cons i ids)
  then show ?case by (cases "ids = []") (simp_all add: join_Cons quoted_def)
qed simp

text \<open>
  The filter of a batch fetch names exactly the ids asked for: whatever quotes,
  backslashes, commas or parentheses the ids hold, PostgREST's list syntax reads the same ids back,
  so no id can widen the request.
\<close>

theorem by_ids_filter_reads_back:
  assumes "ids \<noteq> []"
  shows "read_in_filter (by_ids_filter ids) = Some ids"
  using read_items_join [OF assms] length_join_quoted [of ids]
  by (simp add: read_in_filter_def by_ids_filter_def strip_prefix_def del: read_items.simps)

theorem by_ids_filter_reads_back_witness:
  "read_in_filter (by_ids_filter [''a'', [CHR 0x22, CHR '')'', CHR 0x5C]]) =
   Some [''a'', [CHR 0x22, CHR '')'', CHR 0x5C]]"
  by (rule by_ids_filter_reads_back) simp

subsection \<open>No token, no change\<close>

lemma flush_group_refused:
  assumes "\<And>t oc b w. snk_upsert snk t oc b w = (Inl (e t), w)"
    and "\<And>t pk rid b w. snk_patch snk t pk rid b w = (Inl (e t), w)"
  shows "fl_ok (flush_group snk user_id t g s) = fl_ok s \<and> fl_world (flush_group snk user_id t g s) = fl_world s"
  by (simp add: flush_group_def Let_def hold_def upsert_group_def patch_group_def assms)

text \<open>
  A flush without an access token sends nothing and loses nothing: every readable
  edit is reported as failed and the outbox is what it was.
\<close>

theorem flush_without_token:
  assumes "outbox_ok st" "access_token c = None"
    and "flush J (client_sink J H c) user_id st w = (Inr r, st', w')"
  shows "w' = w \<and> fr_ok r = [] \<and> outbox st' = outbox st"
proof -
  let ?snk = "client_sink J H c"
  let ?e = "\<lambda>_. show_client_error (no_token ''flush'')"
  have up: "snk_upsert ?snk t oc b w = (Inl (?e t), w)" for t oc b w
    using assms(2) by (simp add: client_sink_def post_upsert_def map_err_def)
  have pa: "snk_patch ?snk t pk rid b w = (Inl (?e t), w)" for t pk rid b w
    using assms(2) by (simp add: client_sink_def patch_existing_def map_err_def)
  define P where "P s \<longleftrightarrow> fl_ok s = [] \<and> fl_world s = w" for s :: "'a flush_state"
  have tbl: "P (flush_table ?snk user_id gs t s)" if "P s" for gs t s
    unfolding flush_table_def
    by (rule fold_invariant [where Q = "\<lambda>_. True" and P = P])
      (use that flush_group_refused [where snk = ?snk and e = ?e, OF up pa] in \<open>simp_all add: P_def\<close>)
  have "P (fold (flush_table ?snk user_id gs) ts (flush_init remap w))" for gs ts remap
    by (rule fold_invariant [where Q = "\<lambda>_. True" and P = P])
      (simp_all add: tbl, simp add: P_def flush_init_def)
  moreover obtain remap s m where "s = fold (flush_table ?snk user_id
        (collapse (parse_items J (outbox_items st)) remap)) synced_table_names (flush_init remap w)"
    "r = \<lparr>fr_ok = fl_ok s, fr_failed = fl_failed s\<rparr>" "w' = fl_world s"
    "st' = clear_outbox (st\<lparr>meta := m\<rparr>) (fl_ok s)"
    using assms(3) by (rule flush_Inr)
  ultimately show ?thesis by (simp add: P_def clear_outbox_def)
qed

theorem flush_without_token_witness:
  "outbox (fst (snd (flush demo_serde (client_sink demo_serde silent_http
     (test_client\<lparr>access_token := None\<rparr>)) ''u'' demo_queue ()))) = outbox demo_queue"
proof -
  let ?f = "flush demo_serde (client_sink demo_serde silent_http
     (test_client\<lparr>access_token := None\<rparr>)) ''u'' demo_queue ()"
  obtain x st' w' where run: "?f = (x, st', w')" by (metis prod_cases3)
  have "load_remap demo_serde demo_queue = Inr fmempty"
    by (simp add: load_remap_def demo_queue_def empty_store_def meta_get_def)
  with run obtain r where "x = Inr r" by (auto simp: flush_def split: prod.splits)
  with flush_without_token [OF demo_queue_ok _ run [unfolded this]] run show ?thesis by simp
qed

end
