(* ===== verification/Engine.thy ===== *)
theory Engine
  imports Pull
begin

text \<open>
  What a sequence of store operations leaves in the outbox: every payload it queues is one the
  flush can parse.  The sync directions, the repairs and the facade are all such sequences, so
  this carries over to every run of a device.
\<close>

subsection \<open>Everything queued can be read back\<close>

text \<open>serde_json's parser accepts what its printer writes for an object.\<close>

definition serde_ok :: "serde \<Rightarrow> bool" where
  "serde_ok J \<longleftrightarrow> (\<forall>r. from_str J (to_str J (JObject r)) \<noteq> None)"

definition all_parse :: "serde \<Rightarrow> store \<Rightarrow> bool" where
  "all_parse J st \<longleftrightarrow> (\<forall>o' \<in> set (outbox st). parseable J o')"

lemma all_parse_cong: "outbox st' = outbox st \<Longrightarrow> all_parse J st' = all_parse J st"
  by (simp add: all_parse_def)

lemma all_parse_mono: "set (outbox st') \<subseteq> set (outbox st) \<Longrightarrow> all_parse J st \<Longrightarrow> all_parse J st'"
  by (auto simp: all_parse_def)

lemma all_parse_enqueue:
  "serde_ok J \<Longrightarrow> all_parse J st \<Longrightarrow> all_parse J (enqueue st table rid (to_str J (JObject r)) now)"
  by (auto simp: all_parse_def enqueue_def serde_ok_def)

lemma all_parse_drop:
  "all_parse J st \<Longrightarrow> all_parse J (snd (drop_pending_deletes_inner J st table rid))"
  by (auto simp: drop_pending_deletes_inner_def elim!: all_parse_mono [rotated])

lemma all_parse_stage_inner:
  assumes "serde_ok J" "all_parse J st" "stage_write_inner J st table rid p now = Inr st'"
  shows "all_parse J st'"
  using assms(3)
proof (rule stage_write_inner_Inr)
  fix ex c st1
  assume "apply_row J st table (unwrap_or ex fmempty ++\<^sub>f c) = Inr st1"
    and st': "st' = enqueue st1 table rid (to_str J (JObject c)) now"
  then have "all_parse J st1" using assms(2) apply_row_frame(1) all_parse_cong by metis
  then show ?thesis unfolding st' by (rule all_parse_enqueue [OF assms(1)])
qed

lemma all_parse_batch:
  "serde_ok J \<Longrightarrow> all_parse J st \<Longrightarrow> stage_batch J now ws st = Inr st' \<Longrightarrow> all_parse J st'"
proof (induction J now ws st rule: stage_batch.induct)
  case (2 J now w ws st)
  from 2(4) obtain st1 where st1: "stage_batch_entry J now w st = Inr st1"
    and rest: "stage_batch J now ws st1 = Inr st'"
    by (auto split: sum.splits)
  have "all_parse J st1"
    using st1 2(3) all_parse_drop [OF 2(3)]
    by (auto simp: stage_batch_entry_def Let_def split: prod.splits if_splits
        intro: all_parse_stage_inner [OF 2(2)])
  from 2(1) [OF st1 2(2) this rest] show ?case .
qed simp

lemma all_parse_import:
  "serde_ok J \<Longrightarrow> all_parse J st \<Longrightarrow> stage_import_batch J st ws now = Inr st' \<Longrightarrow> all_parse J st'"
proof (induction J st ws now rule: stage_import_batch.induct)
  case (2 J st w ws now)
  from 2(4) obtain st1 where ap: "apply_row J
      (snd (drop_pending_deletes_inner J st (iw_table w) (iw_record_id w)))
      (iw_table w) (iw_row w) = Inr st1"
    and rest: "stage_import_batch J (enqueue st1 (iw_table w) (iw_record_id w)
      (to_str J (JObject (iw_row w))) now) ws now = Inr st'"
    by (auto split: sum.splits)
  have "all_parse J st1"
    using all_parse_drop [OF 2(3)] all_parse_cong [OF apply_row_frame(1) [OF ap]] by blast
  from 2(1) [OF ap 2(2) all_parse_enqueue [OF 2(2) this] rest] show ?case .
qed simp

lemma all_parse_rebase:
  assumes "all_parse J st" "apply_row_rebasing_outbox J st table r upd = Inr (st', d)"
  shows "all_parse J st'"
proof -
  obtain st1 P where "apply_row J st table r = Inr st1" "outbox st' = filter P (outbox st1)"
    using assms(2) by (auto simp: apply_row_rebasing_outbox_def Let_def split: sum.splits)
  with apply_row_frame(1) [of J st table r st1] show ?thesis
    using assms(1) by (auto simp: all_parse_def)
qed

lemma all_parse_op:
  assumes "serde_ok J"
  shows "store_op J st st' \<Longrightarrow> all_parse J st \<Longrightarrow> all_parse J st'"
proof (induction rule: store_op.induct)
  case (op_apply st table r st')
  then show ?case using apply_row_frame(1) all_parse_cong by blast
next
  case (op_rebase st table r upd st' dropped)
  then show ?case using all_parse_rebase by blast
next
  case (op_stage st table rid r now st')
  then show ?case using all_parse_stage_inner [OF assms] by (auto simp: stage_local_write_def)
next
  case (op_stage_batch st ws now st')
  then show ?case
    by (auto simp: stage_local_writes_def intro: all_parse_batch [OF assms] split: if_splits)
next
  case (op_stage_live st table rid r ws now st')
  then show ?case
    by (auto simp: stage_local_write_existing_live_def split: sum.splits option.splits if_splits
        intro: all_parse_batch [OF assms] all_parse_stage_inner [OF assms])
next
  case (op_resurrect st table rid r now st')
  then show ?case
    using all_parse_stage_inner [OF assms all_parse_drop] by (simp add: stage_local_write_resurrecting_def)
next
  case (op_import st iws now st')
  then show ?case using all_parse_import [OF assms] by blast
next
  case (op_fill st i r)
  then show ?case using all_parse_cong [OF fill_outbox] by blast
qed (auto simp: all_parse_def clear_outbox_def meta_set_def meta_delete_def set_seq_cursor_def
    mark_pull_complete_def delete_embedding_def delete_question_embedding_def
    delete_embeddings_not_matching_def sweep_orphan_embeddings_def Let_def
    upsert_embedding_if_current_def upsert_question_embedding_if_current_def)

lemma all_parse_ops:
  assumes "serde_ok J" "(store_op J)\<^sup>*\<^sup>* empty_store st"
  shows "all_parse J st"
  using assms(2)
  by (induction rule: rtranclp_induct)
    (auto intro: all_parse_op [OF assms(1)], simp add: all_parse_def empty_store_def)

end
