(* ===== verification/Reconcile.thy ===== *)
theory Reconcile
  imports Signals Http Engine
begin

text \<open>
  The passes that run after a pull and the merge operations the host calls,
  \<open>src/src/sync/reconcile.rs\<close>.  A pass stages its writes one by one, so an error in the middle
  leaves what was staged: every operation returns its outcome together with the store.  The
  messages it logs are left out, the messages it returns are kept, with the text of a SQLite error
  given by \<open>E\<close>.  The clock is an argument: \<open>now\<close> where the code reads it once, and a function from
  the position in the loop where it reads it again for every row, so that nothing is assumed about
  two readings.  The server and Open Library are the three calls of a \<open>repair_sink\<close>.
\<close>

subsection \<open>Shared pieces\<close>

record 'w repair_sink =
  rs_fetch_by_ids :: "string \<Rightarrow> string \<Rightarrow> string list \<Rightarrow> 'w \<Rightarrow> (string + json list) \<times> 'w"
  rs_fetch_app_config :: "string \<Rightarrow> 'w \<Rightarrow> (string + json option) \<times> 'w"
  rs_search_cover :: "string \<Rightarrow> string option \<Rightarrow> 'w \<Rightarrow> (string + cover_hit option) \<times> 'w"

record reconcile_result =
  rr_books_backfilled :: nat
  rr_notes_rehomed :: nat
  rr_notes_detached :: nat
  rr_ideas_created :: nat
  rr_dupes_collapsed :: nat
  rr_signals_retired :: nat
  rr_covers_resolved :: nat

definition OPENLIBRARY_EGRESS_KEY :: string where "OPENLIBRARY_EGRESS_KEY = ''openlibrary_egress''"
definition COVER_SEARCH_BUDGET_PER_PASS :: nat where "COVER_SEARCH_BUDGET_PER_PASS = 10"
definition COVERS_BASE :: string where "COVERS_BASE = ''https://covers.openlibrary.org/b''"
definition MERGED_BOOK_IDS_KEY :: string where "MERGED_BOOK_IDS_KEY = ''mergedBookIds''"

text \<open>The accessors of this file: a missing value reads as empty, or as zero.\<close>

definition str_of :: "row \<Rightarrow> string \<Rightarrow> string" where
  "str_of r key = unwrap_or (row_str r key) []"

definition i64_of :: "row \<Rightarrow> string \<Rightarrow> int" where
  "i64_of r key = unwrap_or (row_i64 r key) 0"

definition array_of :: "row \<Rightarrow> string \<Rightarrow> json list option" where
  "array_of r key = (case fmlookup r key of Some (JArray vs) \<Rightarrow> Some vs | _ \<Rightarrow> None)"

definition has_value :: "row \<Rightarrow> string \<Rightarrow> bool" where
  "has_value r key \<longleftrightarrow> (case fmlookup r key of None \<Rightarrow> False | Some v \<Rightarrow> \<not> is_null v)"

text \<open>A staged write that propagates its error, and one that is skipped on an error.\<close>

definition stage_or_fail ::
  "serde \<Rightarrow> (db_error \<Rightarrow> string) \<Rightarrow> string \<Rightarrow> string \<Rightarrow> string \<Rightarrow> row \<Rightarrow> int \<Rightarrow> store \<Rightarrow> store \<times> string option" where
  "stage_or_fail J E context table rid r now st =
     (case stage_local_write J st table rid r now of
        Inr st' \<Rightarrow> (st', None) | Inl e \<Rightarrow> (st, Some (context @ E e)))"

definition stage_or_skip ::
  "serde \<Rightarrow> string \<Rightarrow> string \<Rightarrow> row \<Rightarrow> int \<Rightarrow> store \<Rightarrow> store \<times> bool" where
  "stage_or_skip J table rid r now st =
     (case stage_local_write J st table rid r now of Inr st' \<Rightarrow> (st', True) | Inl e \<Rightarrow> (st, False))"

text \<open>A loop that stops at its first error, keeping the state it reached.\<close>

fun try_each :: "('a \<Rightarrow> 's \<Rightarrow> 's \<times> 'e option) \<Rightarrow> 'a list \<Rightarrow> 's \<Rightarrow> 's \<times> 'e option" where
  "try_each f [] s = (s, None)"
| "try_each f (x # xs) s =
     (case f x s of (s', Some e) \<Rightarrow> (s', Some e) | (s', None) \<Rightarrow> try_each f xs s')"

definition mapped_list ::
  "serde \<Rightarrow> (db_error \<Rightarrow> string) \<Rightarrow> string \<Rightarrow> store \<Rightarrow> string \<Rightarrow> (string \<times> string) option \<Rightarrow> string + row list" where
  "mapped_list J E context st table flt =
     (case list_live J st table flt (-1) 0 of Inl e \<Rightarrow> Inl (context @ E e) | Inr rows \<Rightarrow> Inr rows)"

subsection \<open>Books referenced but absent\<close>

definition missing_book_ids :: "serde \<Rightarrow> store \<Rightarrow> row list \<Rightarrow> string list" where
  "missing_book_ids J st notes =
     sort (remdups (filter (\<lambda>b. get_row J st ''books'' b = Inr None)
       (List.map_filter (\<lambda>r. row_str r ''book_id'') notes)))"

definition apply_fetched_book :: "serde \<Rightarrow> json \<Rightarrow> store \<times> nat \<Rightarrow> store \<times> nat" where
  "apply_fetched_book J v s =
     (case as_object v of None \<Rightarrow> s
      | Some obj \<Rightarrow> (case apply_row J (fst s) ''books'' obj of Inr st' \<Rightarrow> (st', Suc (snd s)) | Inl e \<Rightarrow> s))"

definition reconcile_books ::
  "serde \<Rightarrow> (db_error \<Rightarrow> string) \<Rightarrow> 'w repair_sink \<Rightarrow> store \<Rightarrow> 'w \<Rightarrow> (string + nat) \<times> store \<times> 'w" where
  "reconcile_books J E snk st w =
     (case mapped_list J E ''list notes: '' st ''notes'' None of Inl e \<Rightarrow> (Inl e, st, w)
      | Inr notes \<Rightarrow>
          let ids = missing_book_ids J st notes in
          if ids = [] then (Inr 0, st, w)
          else case rs_fetch_by_ids snk ''books'' ''id'' ids w of
              (Inl e, w') \<Rightarrow> (Inl e, st, w')
            | (Inr fetched, w') \<Rightarrow>
                let (st', n) = fold (apply_fetched_book J) fetched (st, 0) in (Inr n, st', w'))"

subsection \<open>Stranded notes\<close>

datatype survivor_liveness = Live | Deleted | Absent

definition next_survivor :: "(string, string) fmap \<Rightarrow> string \<Rightarrow> row option \<Rightarrow> string option" where
  "next_survivor remap i row =
     (case Option.bind row (\<lambda>r. row_str r ''merged_into'') of
        Some s \<Rightarrow> if s \<noteq> [] then Some s else fmlookup remap i
      | None \<Rightarrow> fmlookup remap i)"

fun walk_survivor ::
  "serde \<Rightarrow> store \<Rightarrow> (string, string) fmap \<Rightarrow> nat \<Rightarrow> string \<Rightarrow> row option \<Rightarrow> db_error + string \<times> row option" where
  "walk_survivor J st remap 0 i row = Inr (i, row)"
| "walk_survivor J st remap (Suc n) i row =
     (case next_survivor remap i row of
        Some nxt \<Rightarrow>
          if nxt \<noteq> i
          then and_then (get_row J st ''books'' nxt) (\<lambda>row'. walk_survivor J st remap n nxt row')
          else Inr (i, row)
      | None \<Rightarrow> Inr (i, row))"

definition liveness_of :: "row option \<Rightarrow> survivor_liveness" where
  "liveness_of row = (case row of Some r \<Rightarrow> if is_deleted r then Deleted else Live | None \<Rightarrow> Absent)"

definition resolve_survivor ::
  "serde \<Rightarrow> store \<Rightarrow> string \<Rightarrow> row \<Rightarrow> (string, string) fmap \<Rightarrow> db_error + string \<times> survivor_liveness" where
  "resolve_survivor J st start_id start_row remap =
     and_then (walk_survivor J st remap 20 start_id (Some start_row)) (\<lambda>(i, row). Inr (i, liveness_of row))"

definition load_merged_book_ids ::
  "serde \<Rightarrow> store \<Rightarrow> string + (string, string) fmap" where
  "load_merged_book_ids J st =
     (case meta_get st MERGED_BOOK_IDS_KEY of
        None \<Rightarrow> Inr fmempty
      | Some s \<Rightarrow> (case Option.bind (from_str J s) remap_of_json of
            None \<Rightarrow> Inl ''parse merged book ids'' | Some m \<Rightarrow> Inr m))"

definition save_merged_book_ids :: "serde \<Rightarrow> store \<Rightarrow> (string, string) fmap \<Rightarrow> store" where
  "save_merged_book_ids J st remap =
     meta_set st MERGED_BOOK_IDS_KEY (to_str J (JObject (fmmap JString remap)))"

text \<open>The patch that moves a note to another book: its content tag is stale and cleared.\<close>

definition rehome_patch :: "string \<Rightarrow> json \<Rightarrow> int \<Rightarrow> row" where
  "rehome_patch note_id book now =
     fmap_of_list [(''id'', JString note_id), (''book_id'', book), (''content_tag'', JNull),
       (''updated_at'', json_i64 now)]"

record stranded_state =
  sn_store :: store
  sn_rehomed :: nat
  sn_detached :: nat

definition rehome_stranded ::
  "serde \<Rightarrow> (string, string) fmap \<Rightarrow> (nat \<Rightarrow> int) \<Rightarrow> nat \<times> row \<Rightarrow> stranded_state \<Rightarrow> stranded_state" where
  "rehome_stranded J remap clk ir s =
     (case ir of (i, r) \<Rightarrow>
        case row_str r ''book_id'' of None \<Rightarrow> s
        | Some book_id \<Rightarrow>
            (case get_row J (sn_store s) ''books'' book_id of
               Inr (Some book) \<Rightarrow>
                 if \<not> is_deleted book then s
                 else let note_id = str_of r ''id'' in
                   (case resolve_survivor J (sn_store s) book_id book remap of
                      Inl e \<Rightarrow> s
                    | Inr (survivor, Live) \<Rightarrow>
                        (case stage_local_write J (sn_store s) ''notes'' note_id
                                (rehome_patch note_id (JString survivor) (clk (2 * i))) (clk (2 * i + 1)) of
                           Inr st' \<Rightarrow> s\<lparr>sn_store := st', sn_rehomed := Suc (sn_rehomed s)\<rparr>
                         | Inl e \<Rightarrow> s)
                    | Inr (_, Deleted) \<Rightarrow>
                        (case apply_row J (sn_store s) ''notes''
                                (fmupd ''content_tag'' JNull (fmupd ''book_id'' JNull r)) of
                           Inr st' \<Rightarrow> s\<lparr>sn_store := st', sn_detached := Suc (sn_detached s)\<rparr>
                         | Inl e \<Rightarrow> s)
                    | Inr (_, Absent) \<Rightarrow> s)
             | _ \<Rightarrow> s))"

definition reconcile_stranded_notes ::
  "serde \<Rightarrow> (db_error \<Rightarrow> string) \<Rightarrow> (nat \<Rightarrow> int) \<Rightarrow> store \<Rightarrow> (string + nat \<times> nat) \<times> store" where
  "reconcile_stranded_notes J E clk st =
     (case load_merged_book_ids J st of Inl e \<Rightarrow> (Inl e, st)
      | Inr remap \<Rightarrow>
          (case mapped_list J E ''list notes: '' st ''notes'' None of Inl e \<Rightarrow> (Inl e, st)
           | Inr notes \<Rightarrow>
               let s = fold (rehome_stranded J remap clk) (enumerate 0 notes)
                         \<lparr>sn_store = st, sn_rehomed = 0, sn_detached = 0\<rparr>
               in (Inr (sn_rehomed s, sn_detached s), sn_store s)))"

subsection \<open>Tags dropped from the canon\<close>

definition GREAT_IDEAS :: "string list" where
  "GREAT_IDEAS =
    [''Attention'', ''Memory'', ''Learning'', ''Reasoning'', ''Judgment'', ''Creativity'',
     ''Curiosity'', ''Intuition'', ''Bias'', ''Uncertainty'', ''Expertise'', ''Teachability'',
     ''Identity'', ''Emotion'', ''Motivation'', ''Habit'', ''Discipline'', ''Anxiety'',
     ''Resilience'', ''Purpose'', ''Authenticity'', ''Vulnerability'', ''Desire'',
     ''Consciousness'', ''Acceptance'', ''Self-Compassion'', ''Sufficiency'', ''Truth'',
     ''Evidence'', ''Explanation'', ''Language'', ''Narrative'', ''Models'', ''Information'',
     ''Complexity'', ''Emergence'', ''Systems'', ''Causation'', ''Probability'',
     ''Understanding'', ''Externalized Cognition'', ''Decision'', ''Strategy'', ''Risk'',
     ''Mastery'', ''Failure'', ''Innovation'', ''Feedback'', ''Incentives'', ''Leadership'',
     ''Collaboration'', ''Productivity'', ''Decision Quality'', ''Positioning'', ''Justice'',
     ''Freedom'', ''Equality'', ''Power'', ''Authority'', ''Institutions'', ''Markets'',
     ''Inequality'', ''Democracy'', ''Trust'', ''Status'', ''Conflict'', ''Cooperation'',
     ''Representation'', ''Restitution'', ''Love'', ''Friendship'', ''Community'', ''Care'',
     ''Empathy'', ''Obligation'', ''Morality'', ''Virtue'', ''Forgiveness'', ''Time'',
     ''Change'', ''Progress'', ''History'', ''Growth'', ''Entropy'', ''Cycles'', ''Future'',
     ''Nature'', ''Life'', ''Evolution'', ''Energy'', ''Beauty'', ''Art'', ''Play'',
     ''Wonder'', ''Suffering'', ''Death'', ''the Sacred'']"

definition str_lower :: "text_lib \<Rightarrow> string \<Rightarrow> string" where
  "str_lower U s = utf8_encode (to_lowercase U (utf8_decode s))"

definition great_ideas_lowercase :: "text_lib \<Rightarrow> string list" where
  "great_ideas_lowercase U = map (str_lower U) GREAT_IDEAS"

definition ascii_alphanumeric :: "char \<Rightarrow> bool" where
  "ascii_alphanumeric c \<longleftrightarrow> byte_in 48 57 c \<or> byte_in 65 90 c \<or> byte_in 97 122 c"

definition preserved_custom_idea_id :: "text_lib \<Rightarrow> string \<Rightarrow> string \<Rightarrow> string" where
  "preserved_custom_idea_id U user_id name =
     ''cidea_sur597_'' @ user_id @ ''_'' @
       join ''_'' (filter (\<lambda>s. s \<noteq> []) (split_by (\<lambda>c. \<not> ascii_alphanumeric c) (str_lower U name)))"

definition idea_row :: "string \<Rightarrow> string \<Rightarrow> int \<Rightarrow> row" where
  "idea_row i name now =
     fmap_of_list [(''id'', JString i), (''name'', JString name), (''description'', JString []),
       (''created_at'', json_i64 now), (''updated_at'', json_i64 now), (''deleted'', JBool False)]"

record tags_state =
  tg_store :: store
  tg_known :: "string list"
  tg_created :: nat

definition preserve_tag ::
  "serde \<Rightarrow> text_lib \<Rightarrow> string \<Rightarrow> (nat \<Rightarrow> int) \<Rightarrow> nat \<times> json \<Rightarrow> tags_state \<Rightarrow> tags_state" where
  "preserve_tag J U user_id clk it s =
     (case as_str (snd it) of None \<Rightarrow> s
      | Some name \<Rightarrow>
          let lower = str_lower U name; i = preserved_custom_idea_id U user_id name; now = clk (fst it) in
          if lower \<in> set (great_ideas_lowercase U) \<or> lower \<in> set (tg_known s) then s
          else case get_row J (tg_store s) ''custom_ideas'' i of
              Inl e \<Rightarrow> s
            | Inr (Some _) \<Rightarrow> s\<lparr>tg_known := lower # tg_known s\<rparr>
            | Inr None \<Rightarrow>
                (case stage_local_write J (tg_store s) ''custom_ideas'' i (idea_row i name now) now of
                   Inr st' \<Rightarrow> \<lparr>tg_store = st', tg_known = lower # tg_known s, tg_created = Suc (tg_created s)\<rparr>
                 | Inl e \<Rightarrow> s))"

definition reconcile_dropped_tags ::
  "serde \<Rightarrow> (db_error \<Rightarrow> string) \<Rightarrow> text_lib \<Rightarrow> (nat \<Rightarrow> int) \<Rightarrow> store \<Rightarrow> string \<Rightarrow> (string + nat) \<times> store" where
  "reconcile_dropped_tags J E U clk st user_id =
     (case mapped_list J E ''list custom ideas: '' st ''custom_ideas'' None of Inl e \<Rightarrow> (Inl e, st)
      | Inr ideas \<Rightarrow>
          (case mapped_list J E ''list notes: '' st ''notes'' None of Inl e \<Rightarrow> (Inl e, st)
           | Inr notes \<Rightarrow>
               let known = map (str_lower U) (List.map_filter (\<lambda>r. row_str r ''name'') ideas);
                   tags = concat (map (\<lambda>r. unwrap_or (array_of r ''tags'') []) notes);
                   s = fold (preserve_tag J U user_id clk) (enumerate 0 tags)
                         \<lparr>tg_store = st, tg_known = known, tg_created = 0\<rparr>
               in (Inr (tg_created s), tg_store s)))"

subsection \<open>Missing content tags\<close>

definition heal_tag :: "serde \<Rightarrow> crypto \<Rightarrow> text_lib \<Rightarrow> vault \<Rightarrow> row \<Rightarrow> store \<times> nat \<Rightarrow> store \<times> nat" where
  "heal_tag J C U v r s =
     (if str_of r ''content_tag'' \<noteq> [] then s
      else case decrypt_note_text C v r (str_of r ''id'') of
          (Some plaintext, False) \<Rightarrow>
            (case apply_row J (fst s) ''notes'' (fmupd ''content_tag''
                    (JString (vault_content_tag C U v plaintext (row_str r ''book_id''))) r) of
               Inr st' \<Rightarrow> (st', Suc (snd s)) | Inl e \<Rightarrow> s)
        | _ \<Rightarrow> s)"

definition reconcile_heal_content_tags ::
  "serde \<Rightarrow> (db_error \<Rightarrow> string) \<Rightarrow> crypto \<Rightarrow> text_lib \<Rightarrow> store \<Rightarrow> vault \<Rightarrow> (string + nat) \<times> store" where
  "reconcile_heal_content_tags J E C U st v =
     (case mapped_list J E ''list notes: '' st ''notes'' None of Inl e \<Rightarrow> (Inl e, st)
      | Inr notes \<Rightarrow> let (st', n) = fold (heal_tag J C U v) notes (st, 0) in (Inr n, st'))"

subsection \<open>Merging duplicate notes\<close>

text \<open>The survivor's tags, then the losers' that are new.\<close>

definition union_tags :: "row \<Rightarrow> row list \<Rightarrow> json list" where
  "union_tags survivor losers =
     (let own = unwrap_or (array_of survivor ''tags'') [];
          others = concat (map (\<lambda>l. List.map_filter as_str (unwrap_or (array_of l ''tags'') [])) losers)
      in own @ map JString (first_seen (List.map_filter as_str own) others))"

definition survivor_patch :: "row \<Rightarrow> row list \<Rightarrow> int \<Rightarrow> row" where
  "survivor_patch survivor losers now =
     (let base = fmap_of_list [(''id'', JString (str_of survivor ''id'')),
            (''tags'', JArray (union_tags survivor losers)), (''updated_at'', json_i64 now)]
      in if has_value survivor ''image_path'' then base
         else case find (\<lambda>l. has_value l ''image_path'') losers of
             None \<Rightarrow> base
           | Some donor \<Rightarrow> fmupd ''image_path'' (unwrap_or (fmlookup donor ''image_path'') JNull) base)"

definition edge_key :: "string \<Rightarrow> string \<Rightarrow> string \<Rightarrow> string" where
  "edge_key a b rel = a @ ''|'' @ b @ ''|'' @ rel"

definition touches :: "string list \<Rightarrow> row \<Rightarrow> bool" where
  "touches loser_ids e \<longleftrightarrow>
     str_of e ''from_note_id'' \<in> set loser_ids \<or> str_of e ''to_note_id'' \<in> set loser_ids"

definition edge_patch :: "row \<Rightarrow> int \<Rightarrow> string \<Rightarrow> string \<Rightarrow> row" where
  "edge_patch e now a b =
     fmap_of_list [(''id'', JString (str_of e ''id'')),
       (''relation_type'', JString (str_of e ''relation_type'')),
       (''created_at'', unwrap_or (fmlookup e ''created_at'') (json_i64 now)),
       (''updated_at'', json_i64 now),
       (''from_note_id'', JString a), (''to_note_id'', JString b)]"

definition repoint_edge ::
  "serde \<Rightarrow> (db_error \<Rightarrow> string) \<Rightarrow> string \<Rightarrow> string list \<Rightarrow> int \<Rightarrow> row \<Rightarrow>
   store \<times> string list \<Rightarrow> (store \<times> string list) \<times> string option" where
  "repoint_edge J E sid loser_ids now e s =
     (if \<not> touches loser_ids e then (s, None)
      else
        let from0 = str_of e ''from_note_id''; to0 = str_of e ''to_note_id'';
            a = (if from0 \<in> set loser_ids then sid else from0);
            b = (if to0 \<in> set loser_ids then sid else to0);
            key = edge_key a b (str_of e ''relation_type'');
            eid = str_of e ''id'';
            drop_it = (a = b \<or> key \<in> set (snd s));
            patch = (if drop_it then fmupd ''deleted'' (JBool True) (edge_patch e now from0 to0)
                     else edge_patch e now a b);
            seen = (if drop_it then snd s else key # snd s);
            (st', err) = stage_or_fail J E (''repoint edge '' @ eid @ '': '') ''note_links'' eid patch now (fst s)
        in ((st', seen), err))"

definition repoint_note_links ::
  "serde \<Rightarrow> (db_error \<Rightarrow> string) \<Rightarrow> store \<Rightarrow> string \<Rightarrow> string list \<Rightarrow> int \<Rightarrow> store \<times> string option" where
  "repoint_note_links J E st sid loser_ids now =
     (case mapped_list J E ''list note_links: '' st ''note_links'' None of Inl e \<Rightarrow> (st, Some e)
      | Inr rows \<Rightarrow>
          let edges = sort_by (\<lambda>a b. str_of a ''id'' \<le> str_of b ''id'') rows;
              seen = map (\<lambda>e. edge_key (str_of e ''from_note_id'') (str_of e ''to_note_id'')
                 (str_of e ''relation_type'')) (filter (\<lambda>e. \<not> touches loser_ids e) edges);
              ((st', _), err) = try_each (repoint_edge J E sid loser_ids now) edges (st, seen)
          in (st', err))"

definition tombstone_patch :: "string \<Rightarrow> int \<Rightarrow> row" where
  "tombstone_patch i now =
     fmap_of_list [(''id'', JString i), (''deleted'', JBool True), (''updated_at'', json_i64 now)]"

definition membership_row :: "string \<Rightarrow> string \<Rightarrow> string \<Rightarrow> int \<Rightarrow> int \<Rightarrow> row" where
  "membership_row smid sid cid created_at now =
     fmap_of_list [(''id'', JString smid), (''note_id'', JString sid), (''collection_id'', JString cid),
       (''created_at'', json_i64 created_at), (''updated_at'', json_i64 now), (''deleted'', JBool False)]"

definition repoint_membership ::
  "serde \<Rightarrow> (db_error \<Rightarrow> string) \<Rightarrow> string \<Rightarrow> string list \<Rightarrow> int \<Rightarrow> row \<Rightarrow>
   store \<times> string list \<Rightarrow> (store \<times> string list) \<times> string option" where
  "repoint_membership J E sid loser_ids now m s =
     (if str_of m ''note_id'' \<notin> set loser_ids then (s, None)
      else
        let mid = str_of m ''id''; cid = str_of m ''collection_id'' in
        case stage_or_fail J E (''tombstone membership '' @ mid @ '': '') ''collection_memberships'' mid
               (tombstone_patch mid now) now (fst s) of
          (st1, Some e) \<Rightarrow> ((st1, snd s), Some e)
        | (st1, None) \<Rightarrow>
            if cid \<in> set (snd s) then ((st1, snd s), None)
            else let smid = cid @ '':'' @ sid in
              (case get_row J st1 ''collection_memberships'' smid of
                 Inl e \<Rightarrow> ((st1, cid # snd s), Some (''get membership '' @ smid @ '': '' @ E e))
               | Inr existing \<Rightarrow>
                   let created = unwrap_or (Option.bind existing (\<lambda>r. row_i64 r ''created_at'')) now;
                       (st2, err) = stage_or_fail J E (''survivor membership '' @ smid @ '': '')
                         ''collection_memberships'' smid (membership_row smid sid cid created now) now st1
                   in ((st2, cid # snd s), err)))"

definition repoint_memberships ::
  "serde \<Rightarrow> (db_error \<Rightarrow> string) \<Rightarrow> store \<Rightarrow> string \<Rightarrow> string list \<Rightarrow> int \<Rightarrow> store \<times> string option" where
  "repoint_memberships J E st sid loser_ids now =
     (case mapped_list J E ''list collection_memberships: '' st ''collection_memberships'' None of
        Inl e \<Rightarrow> (st, Some e)
      | Inr ms \<Rightarrow>
          let own = map (\<lambda>m. str_of m ''collection_id'') (filter (\<lambda>m. str_of m ''note_id'' = sid) ms);
              ((st', _), err) = try_each (repoint_membership J E sid loser_ids now) ms (st, own)
          in (st', err))"

definition soft_delete_loser :: "serde \<Rightarrow> int \<Rightarrow> string \<Rightarrow> store \<times> nat \<Rightarrow> store \<times> nat" where
  "soft_delete_loser J now lid s =
     (let (st', ok) = stage_or_skip J ''notes'' lid (tombstone_patch lid now) now (fst s)
      in (st', if ok then Suc (snd s) else snd s))"

definition merge_into_survivor ::
  "serde \<Rightarrow> (db_error \<Rightarrow> string) \<Rightarrow> int \<Rightarrow> store \<Rightarrow> row \<Rightarrow> row list \<Rightarrow> (string + nat) \<times> store" where
  "merge_into_survivor J E now st survivor losers =
     (let sid = str_of survivor ''id'';
          loser_ids = sort (remdups (map (\<lambda>l. str_of l ''id'') losers))
      in case stage_or_fail J E (''stage survivor '' @ sid @ '': '') ''notes'' sid
                (survivor_patch survivor losers now) now st of
           (st1, Some e) \<Rightarrow> (Inl e, st1)
         | (st1, None) \<Rightarrow>
             (case repoint_note_links J E st1 sid loser_ids now of
                (st2, Some e) \<Rightarrow> (Inl e, st2)
              | (st2, None) \<Rightarrow>
                  (case repoint_memberships J E st2 sid loser_ids now of
                     (st3, Some e) \<Rightarrow> (Inl e, st3)
                   | (st3, None) \<Rightarrow>
                       let (st4, n) = fold (soft_delete_loser J now) loser_ids (st3, 0) in (Inr n, st4))))"

subsection \<open>Finding duplicates\<close>

definition push_group :: "'k::linorder \<Rightarrow> 'a \<Rightarrow> ('k \<times> 'a list) list \<Rightarrow> ('k \<times> 'a list) list" where
  "push_group k x m = bt_update k (\<lambda>xs. unwrap_or xs [] @ [x]) m"

definition stored_tag_groups :: "row list \<Rightarrow> (string \<times> row list) list" where
  "stored_tag_groups notes =
     fold (\<lambda>r m. if str_of r ''content_tag'' \<noteq> [] then push_group (str_of r ''content_tag'') r m else m) notes []"

text \<open>The tag a note clusters on: rederived from the text that opens under its own id.\<close>

definition derived_tag :: "crypto \<Rightarrow> text_lib \<Rightarrow> vault \<Rightarrow> row \<Rightarrow> string option" where
  "derived_tag C U v r =
     map_option (\<lambda>plaintext. vault_content_tag C U v plaintext (row_str r ''book_id''))
       (fst (decrypt_v2_bound C v r (str_of r ''id'')))"

definition derived_groups :: "crypto \<Rightarrow> text_lib \<Rightarrow> vault \<Rightarrow> row list \<Rightarrow> (string \<times> row list) list" where
  "derived_groups C U v notes =
     fold (\<lambda>r m. case derived_tag C U v r of None \<Rightarrow> m | Some tag \<Rightarrow> push_group tag r m)
       (concat (filter (\<lambda>g. 2 \<le> length g) (map snd (stored_tag_groups notes)))) []"

definition survivor_le :: "row \<Rightarrow> row \<Rightarrow> bool" where
  "survivor_le a b =
     (let ta = length (unwrap_or (array_of a ''tags'') []); tb = length (unwrap_or (array_of b ''tags'') [])
      in if ta \<noteq> tb then tb < ta
         else if i64_of a ''created_at'' \<noteq> i64_of b ''created_at''
         then i64_of a ''created_at'' < i64_of b ''created_at''
         else str_of a ''id'' \<le> str_of b ''id'')"

definition collapse_cluster ::
  "serde \<Rightarrow> (db_error \<Rightarrow> string) \<Rightarrow> (nat \<Rightarrow> int) \<Rightarrow> nat \<times> row list \<Rightarrow> store \<times> nat \<Rightarrow> store \<times> nat" where
  "collapse_cluster J E clk ic s =
     (case sort_by survivor_le (snd ic) of
        survivor # l # ls \<Rightarrow>
          (case merge_into_survivor J E (clk (fst ic)) (fst s) survivor (l # ls) of
             (Inr n, st') \<Rightarrow> (st', snd s + n) | (Inl e, st') \<Rightarrow> (st', snd s))
      | _ \<Rightarrow> s)"

definition reconcile_content_dupes ::
  "serde \<Rightarrow> (db_error \<Rightarrow> string) \<Rightarrow> crypto \<Rightarrow> text_lib \<Rightarrow> (nat \<Rightarrow> int) \<Rightarrow> store \<Rightarrow> vault \<Rightarrow>
   (string + nat) \<times> store" where
  "reconcile_content_dupes J E C U clk st v =
     (case mapped_list J E ''list notes: '' st ''notes'' None of Inl e \<Rightarrow> (Inl e, st)
      | Inr notes \<Rightarrow>
          let (st', n) = fold (collapse_cluster J E clk)
                (enumerate 0 (map snd (derived_groups C U v notes))) (st, 0)
          in (Inr n, st'))"

subsection \<open>Signals of deleted notes\<close>

definition retire_signal ::
  "f64_ops \<Rightarrow> serde \<Rightarrow> (db_error \<Rightarrow> string) \<Rightarrow> int \<Rightarrow> row \<Rightarrow> store \<times> nat \<Rightarrow> (store \<times> nat) \<times> string option" where
  "retire_signal F J E now sig s =
     (case row_str sig ''note_id'' of None \<Rightarrow> (s, None)
      | Some note_id \<Rightarrow>
          (case get_row J (fst s) ''notes'' note_id of
             Inl e \<Rightarrow> (s, Some (E e))
           | Inr None \<Rightarrow> (s, None)
           | Inr (Some note) \<Rightarrow>
               if \<not> is_deleted note then (s, None)
               else (case build_signals_tombstone F J (fst s) note_id (row_str note ''source'') now of
                       Inr (Some tomb) \<Rightarrow>
                         (case stage_local_write J (fst s) ''note_signals'' note_id tomb now of
                            Inr st' \<Rightarrow> ((st', Suc (snd s)), None) | Inl e \<Rightarrow> (s, None))
                     | _ \<Rightarrow> (s, None))))"

definition reconcile_note_signals ::
  "f64_ops \<Rightarrow> serde \<Rightarrow> (db_error \<Rightarrow> string) \<Rightarrow> int \<Rightarrow> store \<Rightarrow> (string + nat) \<times> store" where
  "reconcile_note_signals F J E now st =
     (case mapped_list J E [] st ''note_signals'' None of Inl e \<Rightarrow> (Inl e, st)
      | Inr sigs \<Rightarrow>
          (case try_each (retire_signal F J E now) sigs (st, 0) of
             ((st', n), None) \<Rightarrow> (Inr n, st') | ((st', n), Some e) \<Rightarrow> (Inl e, st')))"

subsection \<open>Book covers\<close>

definition egress_enabled :: "'w repair_sink \<Rightarrow> 'w \<Rightarrow> bool \<times> 'w" where
  "egress_enabled snk w =
     (case rs_fetch_app_config snk OPENLIBRARY_EGRESS_KEY w of
        (r, w') \<Rightarrow>
          (unwrap_or (Option.bind (Option.bind (case r of Inr v \<Rightarrow> v | Inl _ \<Rightarrow> None)
              (\<lambda>v. json_get v ''enabled'')) as_bool) True, w'))"

datatype cover_outcome = Hit string | Miss | Outage

definition ascii_digit :: "char \<Rightarrow> bool" where "ascii_digit c \<longleftrightarrow> byte_in 48 57 c"

definition isbn_upper :: "char \<Rightarrow> char" where
  "isbn_upper c = (if c = CHR ''x'' then CHR ''X'' else c)"

definition normalize_isbn :: "string option \<Rightarrow> string option" where
  "normalize_isbn raw =
     (case raw of None \<Rightarrow> None
      | Some s \<Rightarrow>
          let cleaned = map isbn_upper (filter (\<lambda>c. ascii_digit c \<or> c = CHR ''x'' \<or> c = CHR ''X'') s);
              is_isbn10 = length cleaned = 10 \<and> list_all ascii_digit (take 9 cleaned) \<and>
                (ascii_digit (cleaned ! 9) \<or> cleaned ! 9 = CHR ''X'');
              is_isbn13 = length cleaned = 13 \<and> list_all ascii_digit cleaned
          in if is_isbn10 \<or> is_isbn13 then Some cleaned else None)"

definition cover_url_from_isbn :: "string \<Rightarrow> string" where
  "cover_url_from_isbn isbn = COVERS_BASE @ ''/isbn/'' @ isbn @ ''-M.jpg?default=false''"

definition cover_url_from_cover_id :: "int \<Rightarrow> string" where
  "cover_url_from_cover_id c = COVERS_BASE @ ''/id/'' @ i64_to_string c @ ''-M.jpg?default=false''"

text \<open>The guards: a manual cover, a source that is no book, a cover already there, and a prior
  attempt since the last edit are all left alone.\<close>

definition wants_cover :: "row \<Rightarrow> bool" where
  "wants_cover book \<longleftrightarrow>
     str_of book ''cover_source'' \<noteq> ''manual'' \<and>
     (row_str book ''kind'' = None \<or> row_str book ''kind'' = Some ''book'') \<and>
     \<not> has_value book ''cover_url'' \<and>
     (case row_i64 book ''cover_resolved_at'' of None \<Rightarrow> True
      | Some resolved_at \<Rightarrow> resolved_at < i64_of book ''updated_at'')"

definition search_outcome :: "string + cover_hit option \<Rightarrow> cover_outcome" where
  "search_outcome r =
     (case r of
        Inl e \<Rightarrow> Outage
      | Inr None \<Rightarrow> Miss
      | Inr (Some hit) \<Rightarrow>
          (case (cover_i hit, normalize_isbn (cover_isbn hit)) of
             (Some c, _) \<Rightarrow> Hit (cover_url_from_cover_id c)
           | (None, Some healed) \<Rightarrow> Hit (cover_url_from_isbn healed)
           | (None, None) \<Rightarrow> Miss))"

text \<open>The outcome for one book; none when the search budget is spent.\<close>

definition cover_outcome_of ::
  "'w repair_sink \<Rightarrow> row \<Rightarrow> nat \<Rightarrow> 'w \<Rightarrow> cover_outcome option \<times> nat \<times> 'w" where
  "cover_outcome_of snk book budget w =
     (case normalize_isbn (row_str book ''isbn'') of
        Some isbn \<Rightarrow> (Some (Hit (cover_url_from_isbn isbn)), budget, w)
      | None \<Rightarrow>
          let title = str_trim (str_of book ''title'') in
          if title = [] then (Some Miss, budget, w)
          else if budget = 0 then (None, budget, w)
          else case rs_search_cover snk title (row_str book ''author'') w of
              (r, w') \<Rightarrow> (Some (search_outcome r), budget - 1, w'))"

definition cover_patch :: "string \<Rightarrow> cover_outcome \<Rightarrow> int \<Rightarrow> row option" where
  "cover_patch i out now =
     (case out of
        Hit url \<Rightarrow> Some (fmap_of_list [(''id'', JString i), (''cover_url'', JString url),
          (''cover_source'', JString ''openlibrary''), (''cover_resolved_at'', json_i64 now),
          (''updated_at'', json_i64 now)])
      | Miss \<Rightarrow> Some (fmap_of_list [(''id'', JString i), (''cover_resolved_at'', json_i64 now),
          (''updated_at'', json_i64 now)])
      | Outage \<Rightarrow> None)"

record 'w covers_state =
  cv_store :: store
  cv_resolved :: nat
  cv_budget :: nat
  cv_world :: 'w

definition resolve_cover ::
  "serde \<Rightarrow> 'w repair_sink \<Rightarrow> (nat \<Rightarrow> int) \<Rightarrow> nat \<times> row \<Rightarrow> 'w covers_state \<Rightarrow> 'w covers_state" where
  "resolve_cover J snk clk ib s =
     (case ib of (i, book) \<Rightarrow>
        if \<not> wants_cover book then s
        else
          let bid = str_of book ''id''; now = clk i;
              (out, budget, w) = cover_outcome_of snk book (cv_budget s) (cv_world s);
              s' = s\<lparr>cv_budget := budget, cv_world := w\<rparr>
          in case Option.bind out (\<lambda>out. cover_patch bid out now) of
               None \<Rightarrow> s'
             | Some patch \<Rightarrow>
                 let (st', ok) = stage_or_skip J ''books'' bid patch now (cv_store s)
                 in s'\<lparr>cv_store := st', cv_resolved := (if ok then Suc (cv_resolved s) else cv_resolved s)\<rparr>)"

definition reconcile_covers ::
  "serde \<Rightarrow> (db_error \<Rightarrow> string) \<Rightarrow> 'w repair_sink \<Rightarrow> (nat \<Rightarrow> int) \<Rightarrow> store \<Rightarrow> 'w \<Rightarrow>
   (string + nat) \<times> store \<times> 'w" where
  "reconcile_covers J E snk clk st w =
     (case egress_enabled snk w of
        (False, w1) \<Rightarrow> (Inr 0, st, w1)
      | (True, w1) \<Rightarrow>
          (case mapped_list J E ''list books: '' st ''books'' None of Inl e \<Rightarrow> (Inl e, st, w1)
           | Inr books \<Rightarrow>
               let s = fold (resolve_cover J snk clk) (enumerate 0 books)
                     \<lparr>cv_store = st, cv_resolved = 0, cv_budget = COVER_SEARCH_BUDGET_PER_PASS, cv_world = w1\<rparr>
               in (Inr (cv_resolved s), cv_store s, cv_world s)))"

subsection \<open>The whole pass\<close>

text \<open>The clock of each pass: the readings of one pass say nothing about those of another.\<close>

record pass_clocks =
  pc_stranded :: "nat \<Rightarrow> int"
  pc_tags :: "nat \<Rightarrow> int"
  pc_dupes :: "nat \<Rightarrow> int"
  pc_signals :: int
  pc_covers :: "nat \<Rightarrow> int"

record env =
  env_serde :: serde
  env_show :: "db_error \<Rightarrow> string"
  env_crypto :: crypto
  env_text :: text_lib
  env_f64 :: f64_ops

definition or_zero :: "(string + nat) \<Rightarrow> nat" where
  "or_zero r = (case r of Inr n \<Rightarrow> n | Inl _ \<Rightarrow> 0)"

definition reconcile ::
  "env \<Rightarrow> 'w repair_sink \<Rightarrow> pass_clocks \<Rightarrow> string \<Rightarrow> vault \<Rightarrow> store \<Rightarrow> 'w \<Rightarrow>
   (string + reconcile_result) \<times> store \<times> 'w" where
  "reconcile V snk clk user_id v st w =
     (let J = env_serde V; E = env_show V; C = env_crypto V; U = env_text V in
      case reconcile_books J E snk st w of
        (Inl e, st1, w1) \<Rightarrow> (Inl e, st1, w1)
      | (Inr backfilled, st1, w1) \<Rightarrow>
          (case reconcile_stranded_notes J E (pc_stranded clk) st1 of
             (Inl e, st2) \<Rightarrow> (Inl e, st2, w1)
           | (Inr (rehomed, detached), st2) \<Rightarrow>
               let (ideas, st3) = reconcile_dropped_tags J E U (pc_tags clk) st2 user_id;
                   (_, st4) = reconcile_heal_content_tags J E C U st3 v;
                   (dupes, st5) = reconcile_content_dupes J E C U (pc_dupes clk) st4 v;
                   (sigs, st6) = reconcile_note_signals (env_f64 V) J E (pc_signals clk) st5;
                   (covers, st7, w2) = reconcile_covers J E snk (pc_covers clk) st6 w1
               in (Inr \<lparr>rr_books_backfilled = backfilled, rr_notes_rehomed = rehomed,
                     rr_notes_detached = detached, rr_ideas_created = or_zero ideas,
                     rr_dupes_collapsed = or_zero dupes, rr_signals_retired = or_zero sigs,
                     rr_covers_resolved = or_zero covers\<rparr>, st7, w2)))"

subsection \<open>Merging books\<close>

record note_book_assignment =
  nba_note_id :: string
  nba_prior_book_id :: "string option"

record book_merge_undo =
  bmu_survivor_id :: string
  bmu_loser_ids :: "string list"
  bmu_survivor_prior_created_at :: "int option"
  bmu_reassignments :: "note_book_assignment list"

definition clean_loser_ids :: "string \<Rightarrow> string list \<Rightarrow> string list" where
  "clean_loser_ids survivor_id loser_ids =
     first_seen [] (filter (\<lambda>i. i \<noteq> [] \<and> i \<noteq> survivor_id) loser_ids)"

definition live_row :: "row option \<Rightarrow> row option" where
  "live_row r = (case r of Some x \<Rightarrow> if is_deleted x then None else Some x | None \<Rightarrow> None)"

text \<open>The rehoming loop over the notes of one loser.\<close>

definition rehome_note ::
  "serde \<Rightarrow> (db_error \<Rightarrow> string) \<Rightarrow> string \<Rightarrow> int \<Rightarrow> row \<Rightarrow> store \<Rightarrow> store \<times> string option" where
  "rehome_note J E survivor_id now note st =
     (let note_id = str_of note ''id'' in
      stage_or_fail J E (''merge_books: rehome note '' @ note_id @ '': '') ''notes'' note_id
        (rehome_patch note_id (JString survivor_id) now) now st)"

record book_merge_state =
  mg_store :: store
  mg_undo :: book_merge_undo
  mg_earliest :: int
  mg_tombstone :: "(string \<times> row) list"

definition merge_loser ::
  "serde \<Rightarrow> (db_error \<Rightarrow> string) \<Rightarrow> string \<Rightarrow> (string, string) fmap \<Rightarrow> int \<Rightarrow> string \<Rightarrow> book_merge_state \<Rightarrow>
   book_merge_state \<times> string option" where
  "merge_loser J E survivor_id prior_map now lid s =
     (case get_row J (mg_store s) ''books'' lid of
        Inl e \<Rightarrow> (s, Some (''merge_books: get loser '' @ lid @ '': '' @ E e))
      | Inr row \<Rightarrow>
          (case live_row row of None \<Rightarrow> (s, None)
           | Some loser \<Rightarrow>
               let resumed = (fmlookup prior_map lid \<noteq> None); u = mg_undo s;
                   s1 = s\<lparr>mg_earliest := min (mg_earliest s) (i64_of loser ''created_at'')\<rparr>
               in case mapped_list J E (''merge_books: list notes for '' @ lid @ '': '') (mg_store s) ''notes''
                         (Some (''book_id'', lid)) of
                    Inl e \<Rightarrow> (s1, Some e)
                  | Inr notes \<Rightarrow>
                      (case try_each (rehome_note J E survivor_id now) notes (mg_store s) of
                         (st', Some e) \<Rightarrow> (s1\<lparr>mg_store := st'\<rparr>, Some e)
                       | (st', None) \<Rightarrow>
                           (s1\<lparr>mg_store := st', mg_tombstone := mg_tombstone s @ [(lid, loser)],
                               mg_undo := (if resumed then u
                                 else u\<lparr>bmu_loser_ids := bmu_loser_ids u @ [lid],
                                        bmu_reassignments := bmu_reassignments u @
                                          map (\<lambda>n. \<lparr>nba_note_id = str_of n ''id'', nba_prior_book_id = Some lid\<rparr>) notes\<rparr>)\<rparr>,
                            None))))"

definition tombstone_loser ::
  "serde \<Rightarrow> (db_error \<Rightarrow> string) \<Rightarrow> string \<Rightarrow> int \<Rightarrow> string \<times> row \<Rightarrow> store \<Rightarrow> store \<times> string option" where
  "tombstone_loser J E survivor_id now lr st =
     (case lr of (lid, loser) \<Rightarrow>
        stage_or_fail J E (''merge_books: tombstone loser '' @ lid @ '': '') ''books'' lid
          (fmupd ''updated_at'' (json_i64 now) (fmupd ''merged_into'' (JString survivor_id)
            (fmupd ''deleted'' (JBool True) loser))) now st)"

definition merge_books ::
  "serde \<Rightarrow> (db_error \<Rightarrow> string) \<Rightarrow> int \<Rightarrow> store \<Rightarrow> string \<Rightarrow> string list \<Rightarrow> (string + book_merge_undo) \<times> store" where
  "merge_books J E now st survivor_id loser_ids =
     (let losers = clean_loser_ids survivor_id loser_ids;
          undo0 = \<lparr>bmu_survivor_id = survivor_id, bmu_loser_ids = [], bmu_survivor_prior_created_at = None,
                   bmu_reassignments = []\<rparr>
      in if survivor_id = [] then (Inl ''merge_books: empty survivor id'', st)
         else if losers = [] then (Inr undo0, st)
         else case get_row J st ''books'' survivor_id of
             Inl e \<Rightarrow> (Inl (''merge_books: get survivor '' @ survivor_id @ '': '' @ E e), st)
           | Inr row \<Rightarrow>
               (case live_row row of
                  None \<Rightarrow> (Inl (''merge_books: survivor '' @ survivor_id @ '' not found or deleted''), st)
                | Some survivor \<Rightarrow>
                    (case load_merged_book_ids J st of Inl e \<Rightarrow> (Inl e, st)
                     | Inr prior_map \<Rightarrow>
                         if resolve_book_id survivor_id prior_map \<in> set losers
                         then (Inl (''merge_books: redirect cycle '' @ em_dash @ '' survivor '' @ survivor_id @
                                 '' already resolves to loser '' @ resolve_book_id survivor_id prior_map), st)
                         else
                           let created = i64_of survivor ''created_at'';
                               remap = fold (\<lambda>lid m. fmupd lid survivor_id m) losers prior_map;
                               st1 = save_merged_book_ids J st remap
                           in (case try_each (merge_loser J E survivor_id prior_map now) losers
                                  \<lparr>mg_store = st1, mg_undo = undo0\<lparr>bmu_survivor_prior_created_at := Some created\<rparr>,
                                   mg_earliest = created, mg_tombstone = []\<rparr> of
                                 (s, Some e) \<Rightarrow> (Inl e, mg_store s)
                               | (s, None) \<Rightarrow>
                                   if mg_tombstone s = [] then (Inr (mg_undo s), mg_store s)
                                   else (case stage_or_fail J E ''merge_books: stage survivor created_at: '' ''books''
                                            survivor_id (fmupd ''updated_at'' (json_i64 now)
                                              (fmupd ''created_at'' (json_i64 (mg_earliest s)) survivor)) now (mg_store s) of
                                       (st2, Some e) \<Rightarrow> (Inl e, st2)
                                     | (st2, None) \<Rightarrow>
                                         (case try_each (tombstone_loser J E survivor_id now) (mg_tombstone s) st2 of
                                            (st3, Some e) \<Rightarrow> (Inl e, st3)
                                          | (st3, None) \<Rightarrow> (Inr (mg_undo s), st3)))))))"

subsection \<open>Undoing a merge, merging chosen notes\<close>

definition restore_note ::
  "serde \<Rightarrow> (db_error \<Rightarrow> string) \<Rightarrow> int \<Rightarrow> note_book_assignment \<Rightarrow> store \<Rightarrow> store \<times> string option" where
  "restore_note J E now r st =
     stage_or_fail J E (''unmerge_books: restore note '' @ nba_note_id r @ '': '') ''notes'' (nba_note_id r)
       (rehome_patch (nba_note_id r) (case nba_prior_book_id r of None \<Rightarrow> JNull | Some b \<Rightarrow> JString b) now) now st"

text \<open>The stored row, or a row that carries the id alone.\<close>

definition stored_or_id :: "string \<Rightarrow> row option \<Rightarrow> row" where
  "stored_or_id i r = unwrap_or r (fmap_of_list [(''id'', JString i)])"

definition resurrect_loser ::
  "serde \<Rightarrow> (db_error \<Rightarrow> string) \<Rightarrow> int \<Rightarrow> string \<Rightarrow> store \<Rightarrow> store \<times> string option" where
  "resurrect_loser J E now lid st =
     (case get_row J st ''books'' lid of
        Inl e \<Rightarrow> (st, Some (''unmerge_books: get loser '' @ lid @ '': '' @ E e))
      | Inr row \<Rightarrow>
          (case stage_local_write_resurrecting J st ''books'' lid
                  (fmupd ''updated_at'' (json_i64 now) (fmupd ''merged_into'' JNull
                    (fmupd ''deleted'' (JBool False) (stored_or_id lid row)))) now of
             Inr st' \<Rightarrow> (st', None)
           | Inl e \<Rightarrow> (st, Some (''unmerge_books: resurrect loser '' @ lid @ '': '' @ E e))))"

text \<open>The ids a map redirects to a survivor, in key order, but for those being undone.\<close>

definition still_merged :: "(string, string) fmap \<Rightarrow> book_merge_undo \<Rightarrow> string list" where
  "still_merged remap u =
     sorted_list_of_fset (ffilter (\<lambda>lid. fmlookup remap lid = Some (bmu_survivor_id u) \<and>
       lid \<notin> set (bmu_loser_ids u)) (fmdom remap))"

definition lower_earliest ::
  "serde \<Rightarrow> (db_error \<Rightarrow> string) \<Rightarrow> store \<Rightarrow> string \<Rightarrow> int \<Rightarrow> int \<times> string option" where
  "lower_earliest J E st lid earliest =
     (case get_row J st ''books'' lid of
        Inl e \<Rightarrow> (earliest, Some (''unmerge_books: get still-merged loser '' @ lid @ '': '' @ E e))
      | Inr None \<Rightarrow> (earliest, None)
      | Inr (Some b) \<Rightarrow> (min earliest (i64_of b ''created_at''), None))"

definition restore_survivor ::
  "serde \<Rightarrow> (db_error \<Rightarrow> string) \<Rightarrow> int \<Rightarrow> (string, string) fmap \<Rightarrow> book_merge_undo \<Rightarrow> store \<Rightarrow>
   store \<times> string option" where
  "restore_survivor J E now remap u st =
     (case bmu_survivor_prior_created_at u of None \<Rightarrow> (st, None)
      | Some prev \<Rightarrow>
          (case try_each (lower_earliest J E st) (still_merged remap u) prev of
             (_, Some e) \<Rightarrow> (st, Some e)
           | (earliest, None) \<Rightarrow>
               (case get_row J st ''books'' (bmu_survivor_id u) of
                  Inl e \<Rightarrow> (st, Some (''unmerge_books: get survivor '' @ bmu_survivor_id u @ '': '' @ E e))
                | Inr row \<Rightarrow>
                    stage_or_fail J E ''unmerge_books: restore survivor created_at: '' ''books'' (bmu_survivor_id u)
                      (fmupd ''updated_at'' (json_i64 now) (fmupd ''created_at'' (json_i64 earliest)
                        (stored_or_id (bmu_survivor_id u) row))) now st)))"

definition prune_redirects :: "book_merge_undo \<Rightarrow> (string, string) fmap \<Rightarrow> (string, string) fmap" where
  "prune_redirects u remap =
     fold (\<lambda>lid m. if fmlookup m lid = Some (bmu_survivor_id u) then fmdrop lid m else m) (bmu_loser_ids u) remap"

definition unmerge_books ::
  "serde \<Rightarrow> (db_error \<Rightarrow> string) \<Rightarrow> int \<Rightarrow> store \<Rightarrow> book_merge_undo \<Rightarrow> (string + unit) \<times> store" where
  "unmerge_books J E now st u =
     (if bmu_loser_ids u = [] then (Inr (), st)
      else case try_each (restore_note J E now) (bmu_reassignments u) st of
          (st1, Some e) \<Rightarrow> (Inl e, st1)
        | (st1, None) \<Rightarrow>
            (case try_each (resurrect_loser J E now) (bmu_loser_ids u) st1 of
               (st2, Some e) \<Rightarrow> (Inl e, st2)
             | (st2, None) \<Rightarrow>
                 (case load_merged_book_ids J st2 of
                    Inl e \<Rightarrow> (Inl e, st2)
                  | Inr remap \<Rightarrow>
                      (case restore_survivor J E now remap u st2 of
                         (st3, Some e) \<Rightarrow> (Inl e, st3)
                       | (st3, None) \<Rightarrow> (Inr (), save_merged_book_ids J st3 (prune_redirects u remap))))))"

definition live_note_or_fail ::
  "serde \<Rightarrow> (db_error \<Rightarrow> string) \<Rightarrow> store \<Rightarrow> string \<Rightarrow> string \<Rightarrow> string + row" where
  "live_note_or_fail J E st role i =
     (case get_row J st ''notes'' i of
        Inl e \<Rightarrow> Inl (''merge_content_duplicates: get '' @ role @ '' '' @ i @ '': '' @ E e)
      | Inr row \<Rightarrow>
          (case live_row row of
             None \<Rightarrow> Inl (''merge_content_duplicates: '' @ role @ '' note '' @ i @ '' not found or deleted'')
           | Some n \<Rightarrow> Inr n))"

definition same_cluster :: "row \<Rightarrow> row list \<Rightarrow> string \<Rightarrow> string option" where
  "same_cluster survivor losers survivor_id =
     (let tag = str_of survivor ''content_tag'' in
      if tag = [] then Some (''merge_content_duplicates: survivor note '' @ survivor_id @
        '' has no content_tag (an exact merge requires a shared cluster; set allow_cross_cluster for a fuzzy merge)'')
      else case find (\<lambda>l. str_of l ''content_tag'' \<noteq> tag) losers of
          None \<Rightarrow> None
        | Some l \<Rightarrow> Some (''merge_content_duplicates: loser note '' @ str_of l ''id'' @
            '' is not in the survivor's content_tag cluster (set allow_cross_cluster for a fuzzy merge)''))"

definition merge_content_duplicates ::
  "serde \<Rightarrow> (db_error \<Rightarrow> string) \<Rightarrow> int \<Rightarrow> store \<Rightarrow> string \<Rightarrow> string list \<Rightarrow> bool \<Rightarrow> (string + nat) \<times> store" where
  "merge_content_duplicates J E now st survivor_id loser_ids allow_cross_cluster =
     (let ids = clean_loser_ids survivor_id loser_ids in
      if survivor_id = [] then (Inl ''merge_content_duplicates: empty survivor id'', st)
      else if ids = [] then (Inr 0, st)
      else case live_note_or_fail J E st ''survivor'' survivor_id of Inl e \<Rightarrow> (Inl e, st)
         | Inr survivor \<Rightarrow>
             (case traverse (live_note_or_fail J E st ''loser'') ids of Inl e \<Rightarrow> (Inl e, st)
              | Inr losers \<Rightarrow>
                  (case (if allow_cross_cluster then None else same_cluster survivor losers survivor_id) of
                     Some e \<Rightarrow> (Inl e, st)
                   | None \<Rightarrow> merge_into_survivor J E now st survivor losers)))"

subsection \<open>Pull, repair, push\<close>

definition no_repairs :: reconcile_result where
  "no_repairs = \<lparr>rr_books_backfilled = 0, rr_notes_rehomed = 0, rr_notes_detached = 0,
     rr_ideas_created = 0, rr_dupes_collapsed = 0, rr_signals_retired = 0, rr_covers_resolved = 0\<rparr>"

definition repair ::
  "env \<Rightarrow> 'w repair_sink \<Rightarrow> pass_clocks \<Rightarrow> string \<Rightarrow> vault \<Rightarrow> store \<Rightarrow> 'w \<Rightarrow> reconcile_result \<times> store \<times> 'w" where
  "repair V rsk clk user_id v st w =
     (case reconcile V rsk clk user_id v st w of
        (Inr r, st', w') \<Rightarrow> (r, st', w') | (Inl e, st', w') \<Rightarrow> (no_repairs, st', w'))"

datatype sync_failure = PullFailed string | FlushFailed flush_error

definition pull_then_flush ::
  "env \<Rightarrow> 'w sink \<Rightarrow> 'w repair_sink \<Rightarrow> pass_clocks \<Rightarrow> string \<Rightarrow> string list \<Rightarrow> vault \<Rightarrow> store \<Rightarrow> 'w \<Rightarrow>
   (sync_failure + pull_result \<times> reconcile_result \<times> flush_result) \<times> store \<times> 'w" where
  "pull_then_flush V snk rsk clk user_id tabs v st w =
     (case pull (env_serde V) (env_show V) snk tabs st w of
        (pulled, st1, w1) \<Rightarrow>
          if pr_failed_tables pulled \<noteq> []
          then (Inl (PullFailed (''pull failed for '' @ describe_failures (pr_failed_tables pulled) @ '' '' @ em_dash @
                 '' aborting flush so a stale edit can't re-push over a newer server row (SUR-736); retry sync'')), st1, w1)
          else (case repair V rsk clk user_id v st1 w1 of
                  (r, st2, w2) \<Rightarrow>
                    (case flush (env_serde V) snk user_id st2 w2 of
                       (Inl e, st3, w3) \<Rightarrow> (Inl (FlushFailed e), st3, w3)
                     | (Inr f, st3, w3) \<Rightarrow> (Inr (pulled, r, f), st3, w3))))"

subsection \<open>What every repair keeps\<close>

text \<open>A relation between stores that the four writes of this file respect is respected by every
  pass and every merge.\<close>

locale repair_closed =
  fixes J :: serde and R :: "store \<Rightarrow> store \<Rightarrow> bool"
  assumes refl: "R st st"
    and trans: "R st st' \<Longrightarrow> R st' st'' \<Longrightarrow> R st st''"
    and stage: "stage_local_write J st table rid r now = Inr st' \<Longrightarrow> R st st'"
    and resurrect: "stage_local_write_resurrecting J st table rid r now = Inr st' \<Longrightarrow> R st st'"
    and apply_row: "apply_row J st table r = Inr st' \<Longrightarrow> R st st'"
    and save: "R st (save_merged_book_ids J st remap)"
begin

lemma fold_closed: "(\<And>x s. R (g s) (g (f x s))) \<Longrightarrow> R (g s) (g (fold f xs s))"
  by (induction xs arbitrary: s) (auto intro: refl trans)

lemma try_each_closed: "(\<And>x s. R (g s) (g (fst (f x s)))) \<Longrightarrow> R (g s) (g (fst (try_each f xs s)))"
proof (induction xs arbitrary: s)
  case (Cons x xs)
  obtain s' o' where fx: "f x s = (s', o')" by (cases "f x s")
  with Cons(2) [of s x] have "R (g s) (g s')" by simp
  then show ?case using Cons(1) [OF Cons(2), of s'] fx by (cases o') (auto intro: trans)
qed (simp add: refl)

lemma stage_or_fail_closed: "R st (fst (stage_or_fail J E c table rid r now st))"
  by (auto simp: stage_or_fail_def refl intro: stage split: sum.splits)

lemma stage_or_skip_closed: "R st (fst (stage_or_skip J table rid r now st))"
  by (auto simp: stage_or_skip_def refl intro: stage split: sum.splits)

lemma books_closed: "R st (fst (snd (reconcile_books J E snk st w)))"
proof -
  have "R (fst s) (fst (apply_fetched_book J v s))" for v s
    by (auto simp: apply_fetched_book_def refl intro: apply_row split: option.splits sum.splits)
  then have "R st (fst (fold (apply_fetched_book J) vs (st, 0)))" for vs
    using fold_closed [of fst "apply_fetched_book J" "(st, 0)" vs] by simp
  then show ?thesis
    by (auto simp: reconcile_books_def Let_def refl split: sum.splits prod.splits)
      (metis fst_conv)
qed

lemma stranded_closed: "R st (snd (reconcile_stranded_notes J E clk st))"
proof -
  have "R (sn_store s) (sn_store (rehome_stranded J remap clk x s))" for remap x s
    by (cases x) (auto simp: rehome_stranded_def Let_def refl intro: stage apply_row
        split: option.splits sum.splits survivor_liveness.splits)
  then have "R st (sn_store (fold (rehome_stranded J remap clk) xs \<lparr>sn_store = st, sn_rehomed = 0, sn_detached = 0\<rparr>))"
    for remap xs
    using fold_closed [of sn_store "rehome_stranded J remap clk"
        "\<lparr>sn_store = st, sn_rehomed = 0, sn_detached = 0\<rparr>" xs] by simp
  then show ?thesis by (simp add: reconcile_stranded_notes_def Let_def refl split: sum.splits)
qed

lemma tags_closed: "R st (snd (reconcile_dropped_tags J E U clk st user_id))"
proof -
  have "R (tg_store s) (tg_store (preserve_tag J U user_id clk x s))" for x s
    by (auto simp: preserve_tag_def Let_def refl intro: stage split: option.splits sum.splits)
  then have "R st (tg_store (fold (preserve_tag J U user_id clk) xs \<lparr>tg_store = st, tg_known = ks, tg_created = 0\<rparr>))"
    for ks xs
    using fold_closed [of tg_store "preserve_tag J U user_id clk"
        "\<lparr>tg_store = st, tg_known = ks, tg_created = 0\<rparr>" xs] by simp
  then show ?thesis by (simp add: reconcile_dropped_tags_def Let_def refl split: sum.splits)
qed

lemma heal_closed: "R st (snd (reconcile_heal_content_tags J E C U st v))"
proof -
  have "R (fst s) (fst (heal_tag J C U v r s))" for r s
    by (auto simp: heal_tag_def refl intro: apply_row split: option.splits sum.splits prod.splits bool.splits)
  then have "R st (fst (fold (heal_tag J C U v) rs (st, 0)))" for rs
    using fold_closed [of fst "heal_tag J C U v" "(st, 0)" rs] by simp
  then show ?thesis
    by (auto simp: reconcile_heal_content_tags_def Let_def refl split: sum.splits prod.splits) (metis fst_conv)
qed

lemma links_closed: "R st (fst (repoint_note_links J E st sid ids now))"
proof -
  have "R (fst s) (fst (fst (repoint_edge J E sid ids now e s)))" for e s
    using stage_or_fail_closed by (simp add: repoint_edge_def Let_def refl case_prod_beta)
  then have "R st (fst (fst (try_each (repoint_edge J E sid ids now) es (st, seen))))" for es seen
    using try_each_closed [of fst "repoint_edge J E sid ids now" "(st, seen)" es] by simp
  then show ?thesis by (simp add: repoint_note_links_def Let_def refl case_prod_beta split: sum.splits)
qed

lemma memberships_closed: "R st (fst (repoint_memberships J E st sid ids now))"
proof -
  have step: "R (fst s) (fst (fst (repoint_membership J E sid ids now m s)))" for m s
  proof -
    obtain st1 e1 where s1: "stage_or_fail J E (''tombstone membership '' @ str_of m ''id'' @ '': '')
        ''collection_memberships'' (str_of m ''id'') (tombstone_patch (str_of m ''id'') now) now (fst s) = (st1, e1)"
      by (metis surj_pair)
    have r1: "R (fst s) st1"
      using stage_or_fail_closed [of "fst s" E "''tombstone membership '' @ str_of m ''id'' @ '': ''"
          "''collection_memberships''" "str_of m ''id''" "tombstone_patch (str_of m ''id'') now" now]
      unfolding s1 by simp
    have "R (fst s) (fst (stage_or_fail J E c t i r now st1))" for c t i r
      using trans [OF r1 stage_or_fail_closed] .
    with r1 show ?thesis
      unfolding repoint_membership_def Let_def s1 prod.case
      by (cases e1) (auto simp: refl case_prod_beta split: sum.splits)
  qed
  then have "R st (fst (fst (try_each (repoint_membership J E sid ids now) es (st, seen))))" for es seen
    using try_each_closed [of fst "repoint_membership J E sid ids now" "(st, seen)" es] by simp
  then show ?thesis by (simp add: repoint_memberships_def Let_def refl case_prod_beta split: sum.splits)
qed

lemma merge_closed: "R st (snd (merge_into_survivor J E now st survivor losers))"
proof -
  let ?sid = "str_of survivor ''id''" and ?ids = "sort (remdups (map (\<lambda>l. str_of l ''id'') losers))"
  obtain st1 e1 where s1: "stage_or_fail J E (''stage survivor '' @ ?sid @ '': '') ''notes'' ?sid
      (survivor_patch survivor losers now) now st = (st1, e1)" by (metis surj_pair)
  obtain st2 e2 where s2: "repoint_note_links J E st1 ?sid ?ids now = (st2, e2)" by (metis surj_pair)
  obtain st3 e3 where s3: "repoint_memberships J E st2 ?sid ?ids now = (st3, e3)" by (metis surj_pair)
  have r1: "R st st1" using stage_or_fail_closed s1 by (metis fst_conv)
  have r2: "R st st2" using trans [OF r1] links_closed s2 by (metis fst_conv)
  have r3: "R st st3" using trans [OF r2] memberships_closed s3 by (metis fst_conv)
  have "R (fst s) (fst (soft_delete_loser J now i s))" for i s
    using stage_or_skip_closed by (simp add: soft_delete_loser_def case_prod_beta)
  then have r4: "R st (fst (fold (soft_delete_loser J now) ?ids (st3, 0)))"
    using trans [OF r3] fold_closed [of fst "soft_delete_loser J now" "(st3, 0)" ?ids] by simp
  show ?thesis
    unfolding merge_into_survivor_def Let_def s1 prod.case s2 s3 using r1 r2 r3 r4
    by (cases e1; cases e2; cases e3) (simp_all add: s2 s3 case_prod_beta)
qed

lemma dupes_closed: "R st (snd (reconcile_content_dupes J E C U clk st v))"
proof -
  have "R (fst s) (fst (collapse_cluster J E clk x s))" for x s
    using merge_closed [of "fst s" E "clk (fst x)"]
    by (auto simp: collapse_cluster_def refl split: list.splits sum.splits prod.splits) (metis snd_conv)+
  then have "R st (fst (fold (collapse_cluster J E clk) xs (st, 0)))" for xs
    using fold_closed [of fst "collapse_cluster J E clk" "(st, 0)" xs] by simp
  then show ?thesis
    by (simp add: reconcile_content_dupes_def Let_def refl case_prod_beta split: sum.splits)
qed

lemma signals_closed: "R st (snd (reconcile_note_signals F J E now st))"
proof -
  have "R (fst s) (fst (fst (retire_signal F J E now x s)))" for x s
    by (auto simp: retire_signal_def refl intro: stage split: option.splits sum.splits)
  then have "R st (fst (fst (try_each (retire_signal F J E now) xs (st, 0))))" for xs
    using try_each_closed [of fst "retire_signal F J E now" "(st, 0)" xs] by simp
  then show ?thesis
    by (auto simp: reconcile_note_signals_def refl split: sum.splits prod.splits option.splits) (metis fst_conv)+
qed

lemma covers_closed: "R st (fst (snd (reconcile_covers J E snk clk st w)))"
proof -
  have "R (cv_store s) (cv_store (resolve_cover J snk clk x s))" for x s
    using stage_or_skip_closed
    by (auto simp: resolve_cover_def Let_def refl case_prod_beta split: option.splits)
  then have "R st (cv_store (fold (resolve_cover J snk clk) xs
      \<lparr>cv_store = st, cv_resolved = 0, cv_budget = b, cv_world = w1\<rparr>))" for xs b w1
    using fold_closed [of cv_store "resolve_cover J snk clk"
        "\<lparr>cv_store = st, cv_resolved = 0, cv_budget = b, cv_world = w1\<rparr>" xs] by simp
  then show ?thesis
    by (auto simp: reconcile_covers_def Let_def refl split: sum.splits prod.splits bool.splits)
qed

lemma reconcile_closed:
  assumes "J = env_serde V"
  shows "R st (fst (snd (reconcile V snk clk user_id v st w)))"
proof -
  let ?E = "env_show V" and ?C = "env_crypto V" and ?U = "env_text V"
  obtain b st1 w1 where s1: "reconcile_books J ?E snk st w = (b, st1, w1)" by (metis surj_pair)
  obtain n st2 where s2: "reconcile_stranded_notes J ?E (pc_stranded clk) st1 = (n, st2)" by (metis surj_pair)
  obtain i st3 where s3: "reconcile_dropped_tags J ?E ?U (pc_tags clk) st2 user_id = (i, st3)" by (metis surj_pair)
  obtain h st4 where s4: "reconcile_heal_content_tags J ?E ?C ?U st3 v = (h, st4)" by (metis surj_pair)
  obtain d st5 where s5: "reconcile_content_dupes J ?E ?C ?U (pc_dupes clk) st4 v = (d, st5)" by (metis surj_pair)
  obtain g st6 where s6: "reconcile_note_signals (env_f64 V) J ?E (pc_signals clk) st5 = (g, st6)" by (metis surj_pair)
  obtain c st7 w2 where s7: "reconcile_covers J ?E snk (pc_covers clk) st6 w1 = (c, st7, w2)" by (metis surj_pair)
  have r1: "R st st1" using books_closed s1 by (metis fst_conv snd_conv)
  have r2: "R st st2" using trans [OF r1] stranded_closed s2 by (metis snd_conv)
  have r3: "R st st3" using trans [OF r2] tags_closed s3 by (metis snd_conv)
  have r4: "R st st4" using trans [OF r3] heal_closed s4 by (metis snd_conv)
  have r5: "R st st5" using trans [OF r4] dupes_closed s5 by (metis snd_conv)
  have r6: "R st st6" using trans [OF r5] signals_closed s6 by (metis snd_conv)
  have "R st st7" using trans [OF r6] covers_closed s7 by (metis fst_conv snd_conv)
  with r1 r2 show ?thesis
    unfolding reconcile_def Let_def assms [symmetric] s1 s2 s3 s4 s5 s6 s7 prod.case
    by (auto simp: s2 s3 s4 s5 s6 s7 split: sum.splits prod.splits)
qed

lemma merge_loser_closed: "R (mg_store s) (mg_store (fst (merge_loser J E sid prior now lid s)))"
proof -
  have "R st (fst (rehome_note J E sid now n st))" for n st
    using stage_or_fail_closed by (simp add: rehome_note_def Let_def)
  then have "R st (fst (try_each (rehome_note J E sid now) ns st))" for ns st
    using try_each_closed [of "\<lambda>x. x" "rehome_note J E sid now" st ns] by simp
  then show ?thesis
    by (auto simp: merge_loser_def Let_def refl split: sum.splits option.splits prod.splits) (metis fst_conv)+
qed

lemma merge_books_closed: "R st (snd (merge_books J E now st sid lids))"
proof -
  let ?losers = "clean_loser_ids sid lids"
  have tomb: "R st (fst (try_each (tombstone_loser J E sid now) ts st))" for ts st
    using try_each_closed [of "\<lambda>x. x" "tombstone_loser J E sid now" st ts] stage_or_fail_closed
    by (simp add: tombstone_loser_def case_prod_beta)
  have step: "R st (mg_store (fst (try_each (merge_loser J E sid prior now) ?losers
      \<lparr>mg_store = save_merged_book_ids J st remap, mg_undo = u, mg_earliest = c, mg_tombstone = []\<rparr>)))" for prior remap u c
    using trans [OF save try_each_closed [of mg_store "merge_loser J E sid prior now"
        "\<lparr>mg_store = save_merged_book_ids J st remap, mg_undo = u, mg_earliest = c, mg_tombstone = []\<rparr>" ?losers,
        OF merge_loser_closed, simplified]] .
  show ?thesis
  proof (cases "\<exists>row survivor prior. get_row J st ''books'' sid = Inr row \<and> live_row row = Some survivor \<and>
      load_merged_book_ids J st = Inr prior")
    case False
    then show ?thesis by (auto simp: merge_books_def Let_def refl split: sum.splits option.splits)
  next
    case True
    then obtain row survivor prior where row: "get_row J st ''books'' sid = Inr row"
      and sv: "live_row row = Some survivor" and prior: "load_merged_book_ids J st = Inr prior" by blast
    let ?u = "\<lparr>bmu_survivor_id = sid, bmu_loser_ids = [], bmu_survivor_prior_created_at = None,
        bmu_reassignments = []\<rparr>\<lparr>bmu_survivor_prior_created_at := Some (i64_of survivor ''created_at'')\<rparr>"
    obtain s e where te: "try_each (merge_loser J E sid prior now) ?losers
        \<lparr>mg_store = save_merged_book_ids J st (fold (\<lambda>lid m. fmupd lid sid m) ?losers prior), mg_undo = ?u,
         mg_earliest = i64_of survivor ''created_at'', mg_tombstone = []\<rparr> = (s, e)" by (metis surj_pair)
    have rs: "R st (mg_store s)" using step te by (metis fst_conv)
    obtain st2 e2 where sf: "stage_or_fail J E ''merge_books: stage survivor created_at: '' ''books'' sid
        (fmupd ''updated_at'' (json_i64 now) (fmupd ''created_at'' (json_i64 (mg_earliest s)) survivor)) now (mg_store s) = (st2, e2)"
      by (metis surj_pair)
    have r2: "R st st2" using trans [OF rs stage_or_fail_closed] sf by (metis fst_conv)
    obtain st3 e3 where tt: "try_each (tombstone_loser J E sid now) (mg_tombstone s) st2 = (st3, e3)" by (metis surj_pair)
    have "R st st3" using trans [OF r2 tomb] tt by (metis fst_conv)
    with rs r2 show ?thesis
      unfolding merge_books_def Let_def row prior sum.case sv option.case te prod.case sf tt
      by (cases e; cases e2; cases e3) (simp_all add: refl tt)
  qed
qed

lemma unmerge_books_closed: "R st (snd (unmerge_books J E now st u))"
proof -
  obtain st1 e1 where s1: "try_each (restore_note J E now) (bmu_reassignments u) st = (st1, e1)" by (metis surj_pair)
  obtain st2 e2 where s2: "try_each (resurrect_loser J E now) (bmu_loser_ids u) st1 = (st2, e2)" by (metis surj_pair)
  have r1: "R st st1"
    using try_each_closed [of "\<lambda>x. x" "restore_note J E now" st "bmu_reassignments u"] stage_or_fail_closed s1
    by (simp add: restore_note_def)
  have "R x (fst (resurrect_loser J E now i x))" for i x
    by (auto simp: resurrect_loser_def refl intro: resurrect split: sum.splits)
  then have r2: "R st st2"
    using try_each_closed [of "\<lambda>x. x" "resurrect_loser J E now" st1 "bmu_loser_ids u"] s2 trans [OF r1] by simp
  have r3: "R st (fst (restore_survivor J E now remap u st2))" for remap
    using trans [OF r2 stage_or_fail_closed] r2
    by (auto simp: restore_survivor_def split: option.splits sum.splits prod.splits)
  then show ?thesis
    using r1 r2 trans [OF r3 save]
    by (cases e1; cases e2)
      (auto simp: unmerge_books_def s1 s2 refl split: sum.splits prod.splits option.splits, (metis fst_conv)+)
qed

lemma merge_duplicates_closed: "R st (snd (merge_content_duplicates J E now st sid lids cross))"
  using merge_closed
  by (auto simp: merge_content_duplicates_def Let_def refl split: sum.splits option.splits)

end

text \<open>First instance: every repair is a sequence of operations of the store.\<close>

interpretation repair_ops: repair_closed J "(store_op J)\<^sup>*\<^sup>*" for J
  by unfold_locales
    (auto simp: save_merged_book_ids_def intro: store_op.intros rtranclp_trans r_into_rtranclp)

text \<open>Second instance: no repair touches a key of the sync state but the merge map, so none moves
  a cursor or forges a completion receipt.\<close>

interpretation repair_meta: repair_closed J
  "\<lambda>st st'. \<forall>k. k \<noteq> MERGED_BOOK_IDS_KEY \<longrightarrow> meta st' k = meta st k" for J
proof
  fix st table rid r now st'
  show "stage_local_write J st table rid r now = Inr st' \<Longrightarrow> \<forall>k. k \<noteq> MERGED_BOOK_IDS_KEY \<longrightarrow> meta st' k = meta st k"
    unfolding stage_local_write_def by (erule stage_write_inner_Inr) (auto simp: enqueue_def dest: apply_row_frame(3))
  show "stage_local_write_resurrecting J st table rid r now = Inr st' \<Longrightarrow>
      \<forall>k. k \<noteq> MERGED_BOOK_IDS_KEY \<longrightarrow> meta st' k = meta st k"
    unfolding stage_local_write_resurrecting_def
    by (erule stage_write_inner_Inr) (auto simp: enqueue_def drop_pending_deletes_inner_def dest: apply_row_frame(3))
qed (auto simp: save_merged_book_ids_def meta_set_def dest: apply_row_frame(3))

end
