(* ===== verification/Store_View.thy ===== *)
theory Store_View
  imports Reconcile
begin

text \<open>
  A view of the store by record id, through which the properties of the repairs are stated: the
  row, a text column and the deleted flag of a record, and what a staged write and a scan do in
  terms of it.
\<close>

subsection \<open>Loops that succeed\<close>

lemma stage_or_fail_None:
  "stage_or_fail J E c table rid r now st = (st', None) \<longleftrightarrow> stage_local_write J st table rid r now = Inr st'"
  by (simp add: stage_or_fail_def split: sum.splits)

lemma try_each_Cons_None:
  "try_each f (x # xs) s = (s', None) \<longleftrightarrow> (\<exists>s1. f x s = (s1, None) \<and> try_each f xs s1 = (s', None))"
  by (auto split: prod.splits option.splits)

subsection \<open>A view by record id\<close>

definition row_at :: "serde \<Rightarrow> store \<Rightarrow> string \<Rightarrow> string \<Rightarrow> row option" where
  "row_at J st table i = (case get_row J st table i of Inr r \<Rightarrow> r | Inl _ \<Rightarrow> None)"

definition text_at :: "serde \<Rightarrow> store \<Rightarrow> string \<Rightarrow> string \<Rightarrow> string \<Rightarrow> string option" where
  "text_at J st table i c = Option.bind (row_at J st table i) (\<lambda>r. row_str r c)"

definition live_at :: "serde \<Rightarrow> store \<Rightarrow> string \<Rightarrow> string \<Rightarrow> bool" where
  "live_at J st table i \<longleftrightarrow> (\<exists>r. row_at J st table i = Some r \<and> \<not> is_deleted r)"

definition dead_at :: "serde \<Rightarrow> store \<Rightarrow> string \<Rightarrow> string \<Rightarrow> bool" where
  "dead_at J st table i \<longleftrightarrow> (\<exists>r. row_at J st table i = Some r \<and> is_deleted r)"

text \<open>The scans want \<open>deleted = 0\<close>, so a NULL flag is neither dead nor listed.\<close>

definition flag_at :: "serde \<Rightarrow> store \<Rightarrow> string \<Rightarrow> string \<Rightarrow> json option" where
  "flag_at J st table i = Option.bind (row_at J st table i) (\<lambda>r. fmlookup r ''deleted'')"

lemmas view_defs = text_at_def live_at_def dead_at_def flag_at_def

lemma get_row_at: "table_schema table = Some t \<Longrightarrow> get_row J st table i = Inr (row_at J st table i)"
  by (simp add: row_at_def get_row_eq)

lemma row_at_frame: "tables st' = tables st \<Longrightarrow> row_at J st' = row_at J st"
  using get_row_frame [of st' st J] by (intro ext) (simp add: row_at_def)

lemma view_cong:
  "row_at J st' table i = row_at J st table i \<Longrightarrow>
   text_at J st' table i = text_at J st table i \<and> live_at J st' table i = live_at J st table i \<and>
   dead_at J st' table i = dead_at J st table i \<and> flag_at J st' table i = flag_at J st table i"
  by (simp add: view_defs fun_eq_iff)

lemma row_at_typed:
  assumes "store_inv st" "table_schema table = Some t" "row_at J st table i = Some r"
    and "map_of (ts_columns t) c = Some ty"
  shows "\<exists>sv. fmlookup r c = Some (sql_to_json J sv ty) \<and> sql_typed ty sv"
proof -
  have "get_row J st table i = Inr (Some r)" using get_row_at [OF assms(2)] assms(3) by metis
  with assms(1,2,4) show ?thesis
    by (metis get_row_typed store_inv_def)
qed

lemma row_at_flag:
  assumes "store_inv st" "table_schema table = Some t" "row_at J st table i = Some r"
  shows "fmlookup r ''deleted'' \<in> {Some JNull, Some (JBool True), Some (JBool False)}"
proof -
  have "map_of (ts_columns t) ''deleted'' = Some CBool"
    using table_schema_Some(2) [OF assms(2)] by (simp add: desc_ok_def)
  from row_at_typed [OF assms this] obtain sv where
    "fmlookup r ''deleted'' = Some (sql_to_json J sv CBool)" "sql_typed CBool sv" by blast
  then show ?thesis by (cases sv) (auto simp: sql_to_json_def)
qed

lemma row_at_pk:
  assumes "table_schema table = Some t" "row_at J st table i = Some r"
  shows "fmlookup r (pk_of t) = Some (JString i)"
proof -
  have "map_of (ts_columns t) (pk_of t) = Some CText"
    using table_schema_Some(2) [OF assms(1)] by (simp add: desc_ok_def)
  moreover obtain sr where "find (\<lambda>r. r (pk_of t) = SText i) (tables st table) = Some sr" "r = row_of_sql J t sr"
    using assms by (auto simp: row_at_def get_row_eq [OF assms(1)])
  ultimately show ?thesis
    by (auto simp: fmlookup_row_of_sql sql_to_json_def dest: find_SomeD)
qed

text \<open>What a staged write does to the view.\<close>

definition keeps_flag :: "row \<Rightarrow> bool" where
  "keeps_flag p \<longleftrightarrow> fmlookup p ''deleted'' \<in> {None, Some JNull, Some (JBool True), Some (JBool False)}"

lemma stage_view:
  assumes inv: "store_inv st" and ok: "stage_write_inner J st table rid p now = Inr st'"
    and t: "table_schema table = Some t" and pk: "fmlookup p (pk_of t) = Some (JString rid)"
  shows "(tb, i) \<noteq> (table, rid) \<Longrightarrow> row_at J st' tb i = row_at J st tb i"
    and "map_of (ts_columns t) c = Some CText \<Longrightarrow> c \<noteq> ''updated_at'' \<Longrightarrow>
      text_at J st' table rid c = (case fmlookup p c of Some v \<Rightarrow> as_str v | None \<Rightarrow> text_at J st table rid c)"
    and "keeps_flag p \<Longrightarrow> flag_at J st' table rid =
      (case fmlookup p ''deleted'' of Some v \<Rightarrow> Some v
       | None \<Rightarrow> Some (unwrap_or (flag_at J st table rid) JNull))"
    and "\<exists>r. row_at J st' table rid = Some r"
    and "store_inv st'" "meta st' = meta st"
proof -
  obtain ex p' where ex: "get_row J st table rid = Inr ex" and cl: "clamp_partial table rid ex p = Inr p'"
    and new: "get_row J st' table rid = Inr (Some (stored_row J t (unwrap_or ex fmempty ++\<^sub>f p')))"
    and same: "\<And>i. i \<noteq> rid \<Longrightarrow> get_row J st' table i = get_row J st table i"
    and other: "\<And>table' i. table' \<noteq> table \<Longrightarrow> get_row J st' table' i = get_row J st table' i"
    and m: "meta st' = meta st"
    using stage_write_inner_effect [OF ok t pk] by metis
  have old: "row_at J st table rid = ex" by (simp add: row_at_def ex)
  show "row_at J st' tb i = row_at J st tb i" if "(tb, i) \<noteq> (table, rid)"
    using that same other by (cases "tb = table") (simp_all add: row_at_def)
  show "text_at J st' table rid c = (case fmlookup p c of Some v \<Rightarrow> as_str v | None \<Rightarrow> text_at J st table rid c)"
    if c: "map_of (ts_columns t) c = Some CText" "c \<noteq> ''updated_at''"
    using clamp_partial_other [OF cl c(2)]
    by (cases ex; cases "fmlookup p c")
      (simp_all add: text_at_def row_at_def new ex stored_row_text [OF c(1)], simp_all add: row_str_def json_simps)
  show "flag_at J st' table rid = (case fmlookup p ''deleted'' of Some v \<Rightarrow> Some v
       | None \<Rightarrow> Some (unwrap_or (flag_at J st table rid) JNull))"
    if "keeps_flag p"
  proof -
    have p': "fmlookup p' ''deleted'' = fmlookup p ''deleted''" using clamp_partial_other [OF cl] by simp
    have d: "map_of (ts_columns t) ''deleted'' = Some CBool"
      using table_schema_Some(2) [OF t] by (simp add: desc_ok_def)
    have fl: "v \<in> {JNull, JBool True, JBool False} \<Longrightarrow> sql_to_json J (json_to_sql J (Some v) CBool) CBool = v" for v
      by (auto simp: json_to_sql_def sql_to_json_def)
    have nl: "sql_to_json J (json_to_sql J None CBool) CBool = JNull" by (simp add: json_to_sql_def sql_to_json_def)
    have ext: "ex = Some r \<Longrightarrow> fmlookup r ''deleted'' \<in> {Some JNull, Some (JBool True), Some (JBool False)}" for r
      using row_at_flag [OF inv t] old by blast
    show ?thesis
    proof (cases "fmlookup p ''deleted''")
      case None
      then show ?thesis
        using ext by (cases ex) (auto simp: flag_at_def row_at_def new ex fmlookup_stored_row d p' nl fl json_simps)
    next
      case (Some v)
      with that have "v \<in> {JNull, JBool True, JBool False}" by (auto simp: keeps_flag_def)
      with Some show ?thesis by (simp add: flag_at_def row_at_def new fmlookup_stored_row d p' fl json_simps)
    qed
  qed
  show "\<exists>r. row_at J st' table rid = Some r" by (simp add: row_at_def new)
  show "store_inv st'" using inv ok by (rule store_inv_stage_inner)
  show "meta st' = meta st" by (rule m)
qed

lemma dead_at_flag: "dead_at J st table i \<longleftrightarrow> flag_at J st table i = Some (JBool True)"
  by (cases "row_at J st table i") (simp_all add: view_defs is_deleted_def)

lemma live_at_iff: "live_at J st table i \<longleftrightarrow> (\<exists>r. row_at J st table i = Some r) \<and> \<not> dead_at J st table i"
  by (auto simp: view_defs)

subsection \<open>Keyed tables\<close>

text \<open>Every row of a table has an id: SQLite itself would admit NULL in the key column.\<close>

definition keyed :: "string \<Rightarrow> store \<Rightarrow> bool" where
  "keyed table st \<longleftrightarrow> (\<forall>t. table_schema table = Some t \<longrightarrow>
     (\<forall>r \<in> set (tables st table). \<exists>i. r (pk_of t) = SText i))"

lemmas merge_schemas = read_schemas(4,6)

lemma merge_columns:
  "map_of (ts_columns notes_desc) ''id'' = Some CText" "map_of (ts_columns notes_desc) ''book_id'' = Some CText"
  "map_of (ts_columns notes_desc) ''content_tag'' = Some CText"
  "map_of (ts_columns books_desc) ''merged_into'' = Some CText" "map_of (ts_columns books_desc) ''id'' = Some CText"
  by (simp_all add: schema_defs desc_defs)

lemma note_flag: "map_of (ts_columns notes_desc) ''deleted'' = Some CBool"
  by (simp add: schema_defs desc_defs)

lemma keyed_stage:
  assumes "keyed tb st" "stage_write_inner J st table rid p now = Inr st'"
    and t: "table_schema table = Some t" and pk: "fmlookup p (pk_of t) = Some (JString rid)"
  shows "keyed tb st'"
  using assms(2)
proof (rule stage_write_inner_Inr)
  fix ex p' st1
  assume cl: "clamp_partial table rid ex p = Inr p'"
    and ap: "apply_row J st table (unwrap_or ex fmempty ++\<^sub>f p') = Inr st1"
    and st': "st' = enqueue st1 table rid (to_str J (JObject p')) now"
  have "row_str (unwrap_or ex fmempty ++\<^sub>f p') (pk_of t) = Some rid"
    by (rule merged_pk [OF table_schema_Some(2) [OF t] cl pk])
  with sql_of_row_pk [OF table_schema_Some(2) [OF t], of J "unwrap_or ex fmempty ++\<^sub>f p'"] assms(1) t
  show ?thesis
    by (auto simp: st' keyed_def enqueue_def apply_row_tables [OF ap t])
qed

lemma row_str_sql:
  "map_of (ts_columns t) c = Some CText \<Longrightarrow> row_str (row_of_sql J t r) c = Some s \<longleftrightarrow> r c = SText s"
  using string_field_sql [of t c J r] string_field_row_str [of "row_of_sql J t r" c] sql_text_Some [of "r c" s] by metis

lemma str_of_sql:
  "map_of (ts_columns t) ''id'' = Some CText \<Longrightarrow> r ''id'' = SText i \<Longrightarrow> str_of (row_of_sql J t r) ''id'' = i"
  using row_str_sql [of t "''id''" J r i] by (simp add: str_of_def)

text \<open>The unlimited scan of a keyed table: the listed rows, each once, by its id.\<close>

lemma scan_live:
  assumes "store_inv st" "keyed table st" "table_schema table = Some t" "has_column t ''created_at''" "pk_of t = ''id''"
  shows "\<exists>ns. list_live J st table None (-1) 0 = Inr ns \<and> distinct (map (\<lambda>n. str_of n ''id'') ns) \<and>
    (\<forall>n \<in> set ns. row_at J st table (str_of n ''id'') = Some n \<and> fmlookup n ''deleted'' = Some (JBool False))"
proof -
  have ok: "desc_ok t" using assms(3) by (rule table_schema_Some)
  then have col: "map_of (ts_columns t) ''id'' = Some CText" "map_of (ts_columns t) ''deleted'' = Some CBool"
    using assms(5) by (auto simp: desc_ok_def)
  obtain rs where l: "list_live J st table None (-1) 0 = Inr (map (row_of_sql J t) rs)"
    and rs: "set rs = {r \<in> set (tables st table). is_live r}"
    and ds: "distinct (List.map_filter (\<lambda>r. sql_text (r ''id'')) rs)"
    by (rule live_rows_scan [OF assms(1,3-5), of J])
  have key: "\<exists>i. r ''id'' = SText i" if "r \<in> set rs" for r
    using that rs assms(2,3,5) by (auto simp: keyed_def)
  have "sql_text (r ''id'') = Some (str_of (row_of_sql J t r) ''id'')" if "r \<in> set rs" for r
    using key [OF that] str_of_sql [OF col(1), of r _ J] by (metis sql_text_SText)
  then have "List.map_filter (\<lambda>r. sql_text (r ''id'')) rs = map (\<lambda>r. str_of (row_of_sql J t r) ''id'') rs"
    by (induction rs) (simp_all add: map_filter_simps del: sql_text_Some)
  with ds have "distinct (map (\<lambda>n. str_of n ''id'') (map (row_of_sql J t) rs))" by (simp add: comp_def)
  moreover have "row_at J st table (str_of (row_of_sql J t r) ''id'') = Some (row_of_sql J t r) \<and>
      fmlookup (row_of_sql J t r) ''deleted'' = Some (JBool False)" if r: "r \<in> set rs" for r
  proof -
    obtain i where i: "r ''id'' = SText i" using key [OF r] by blast
    have "get_row J st table i = Inr (Some (row_of_sql J t r))"
      using get_row_of_table [OF assms(1,3), of r i J] r rs i assms(5) by auto
    with i str_of_sql [OF col(1), of r i J] r rs show ?thesis
      by (simp add: row_at_def fmlookup_row_of_sql col sql_to_json_def is_live_def)
  qed
  ultimately show ?thesis using l by auto
qed

subsection \<open>The notes of a book\<close>

definition notes_on :: "serde \<Rightarrow> store \<Rightarrow> string \<Rightarrow> string set" where
  "notes_on J st b = {i. flag_at J st ''notes'' i = Some (JBool False) \<and> text_at J st ''notes'' i ''book_id'' = Some b}"

text \<open>A live note is one the table holds, by its id.\<close>

lemma live_note_rows:
  assumes "store_inv st"
  shows "flag_at J st ''notes'' i = Some (JBool False) \<and> text_at J st ''notes'' i ''book_id'' = Some b \<longleftrightarrow>
    (\<exists>r \<in> set (tables st ''notes''). is_live r \<and> r ''book_id'' = SText b \<and> r ''id'' = SText i)" (is "?l = ?r")
proof
  assume ?l
  then obtain sr where f: "find (\<lambda>r. r ''id'' = SText i) (tables st ''notes'') = Some sr"
    and fl: "fmlookup (row_of_sql J notes_desc sr) ''deleted'' = Some (JBool False)"
    and bk: "row_str (row_of_sql J notes_desc sr) ''book_id'' = Some b"
    by (cases "find (\<lambda>r. r ''id'' = SText i) (tables st ''notes'')")
      (auto simp: text_at_def flag_at_def row_at_def get_row_eq [OF merge_schemas(1)])
  have sr: "sr \<in> set (tables st ''notes'')" "sr ''id'' = SText i" using find_SomeD [OF f] by auto
  have "is_live sr"
    using fl by (cases "sr ''deleted''") (auto simp: is_live_def fmlookup_row_of_sql note_flag sql_to_json_def)
  moreover have "sr ''book_id'' = SText b"
    using bk row_str_sql [OF merge_columns(2)] by blast
  ultimately show ?r using sr by blast
next
  assume ?r
  then obtain r where r: "r \<in> set (tables st ''notes'')" "is_live r" "r ''book_id'' = SText b" "r ''id'' = SText i" by blast
  have "row_at J st ''notes'' i = Some (row_of_sql J notes_desc r)"
    using get_row_of_table [OF assms merge_schemas(1) r(1)] r(4) by (simp add: row_at_def)
  with r(2,3) show ?l
    using row_str_sql [OF merge_columns(2), of J r b]
    by (simp add: text_at_def flag_at_def fmlookup_row_of_sql note_flag sql_to_json_def is_live_def)
qed

lemma list_book_notes:
  assumes "store_inv st" "keyed ''notes'' st"
  shows "\<exists>ns. list_live J st ''notes'' (Some (''book_id'', b)) (-1) 0 = Inr ns \<and>
    (\<lambda>n. str_of n ''id'') ` set ns = notes_on J st b"
proof -
  have cols: "has_column notes_desc ''created_at''" "list_all (has_column notes_desc) (filter_columns (Some (''book_id'', b)))"
    by (simp_all add: has_column_def filter_columns_def schema_defs desc_defs)
  obtain rs where l: "list_live J st ''notes'' (Some (''book_id'', b)) (-1) 0 = Inr (map (row_of_sql J notes_desc) rs)"
    and rs: "set rs = {r \<in> set (tables st ''notes''). is_live r \<and> matches (Some (''book_id'', b)) r}"
    by (rule list_live_scan [OF merge_schemas(1) cols, of J st])
  have i: "str_of (row_of_sql J notes_desc r) ''id'' = i" if "r ''id'' = SText i" for r i
    using row_str_sql [OF merge_columns(1), of J r i] that by (simp add: str_of_def)
  have "(\<lambda>n. str_of n ''id'') ` set (map (row_of_sql J notes_desc) rs) = notes_on J st b"
  proof (rule set_eqI)
    fix x
    have "x \<in> notes_on J st b \<longleftrightarrow> (\<exists>r \<in> set rs. r ''id'' = SText x)"
      using live_note_rows [OF assms(1), of J x b] by (auto simp: notes_on_def rs matches_def)
    also have "\<dots> \<longleftrightarrow> x \<in> (\<lambda>n. str_of n ''id'') ` set (map (row_of_sql J notes_desc) rs)"
    proof
      assume "\<exists>r \<in> set rs. r ''id'' = SText x"
      then obtain r where r: "r \<in> set rs" "r ''id'' = SText x" by blast
      have "x = str_of (row_of_sql J notes_desc r) ''id''" using i [of r x] r(2) by simp
      then show "x \<in> (\<lambda>n. str_of n ''id'') ` set (map (row_of_sql J notes_desc) rs)"
        using r(1) by (simp add: image_image image_iff) blast
    next
      assume "x \<in> (\<lambda>n. str_of n ''id'') ` set (map (row_of_sql J notes_desc) rs)"
      then obtain r where r: "r \<in> set rs" "x = str_of (row_of_sql J notes_desc r) ''id''" by auto
      then obtain y where "r ''id'' = SText y" using assms(2) rs merge_schemas(1) by (auto simp: keyed_def)
      with r(2) i [of r y] have "r ''id'' = SText x" by simp
      with r(1) show "\<exists>r \<in> set rs. r ''id'' = SText x" by blast
    qed
    finally show "x \<in> (\<lambda>n. str_of n ''id'') ` set (map (row_of_sql J notes_desc) rs) \<longleftrightarrow> x \<in> notes_on J st b" by simp
  qed
  with l show ?thesis by blast
qed

subsection \<open>The types of what is read\<close>

definition json_typed :: "col_type \<Rightarrow> json \<Rightarrow> bool" where
  "json_typed ty v \<longleftrightarrow> v = JNull \<or>
     (case ty of CText \<Rightarrow> \<exists>s. v = JString s | CInt \<Rightarrow> \<exists>i. is_i64 i \<and> v = json_i64 i | CBool \<Rightarrow> \<exists>b. v = JBool b
      | CReal \<Rightarrow> \<exists>f. v = JNumber (Float f) | CJson \<Rightarrow> True)"

lemma sql_to_json_typed: "sql_typed ty x \<Longrightarrow> json_typed ty (sql_to_json J x ty)"
  by (cases x; cases ty) (auto simp: sql_to_json_def json_typed_def split: if_splits)

lemma row_of_sql_typed:
  assumes "desc_ok t" "row_typed t r" "(c, ty) \<in> set (ts_columns t)"
  shows "\<exists>v. fmlookup (row_of_sql J t r) c = Some v \<and> json_typed ty v"
proof -
  have "map_of (ts_columns t) c = Some ty" using assms(1,3) by (simp add: desc_ok_def)
  moreover have "sql_typed ty (r c)" using assms(2,3) by (auto simp: row_typed_def)
  ultimately show ?thesis by (simp add: fmlookup_row_of_sql sql_to_json_typed)
qed

end
