(* ===== verification/Book_Merge.thy ===== *)
theory Book_Merge
  imports Store_View
begin

text \<open>
  What a merge of books leaves behind and what undoing it restores: the notes of the losing books
  stand on the survivor, the losers are tombstones that point at it, and the undo token brings
  every note and every loser back.
\<close>

subsection \<open>Rehoming\<close>

definition merge_ready :: "store \<Rightarrow> bool" where
  "merge_ready st \<longleftrightarrow> store_inv st \<and> keyed ''notes'' st"

lemma merge_ready_meta [simp]: "merge_ready (st\<lparr>meta := m\<rparr>) = merge_ready st"
  by (simp add: merge_ready_def keyed_def)

text \<open>A note standing on another book, live as before, its stale tag gone.\<close>

definition rehomed :: "serde \<Rightarrow> string option \<Rightarrow> store \<Rightarrow> store \<Rightarrow> string \<Rightarrow> bool" where
  "rehomed J b st st' i \<longleftrightarrow>
     text_at J st' ''notes'' i ''book_id'' = b \<and> text_at J st' ''notes'' i ''content_tag'' = None \<and>
     flag_at J st' ''notes'' i = Some (unwrap_or (flag_at J st ''notes'' i) JNull)"

lemma stage_rehome:
  assumes "merge_ready st"
    and ok: "stage_local_write J st ''notes'' i (rehome_patch i b stamp) now = Inr st'"
    and b: "b = JNull \<or> b = JString s"
  shows "rehomed J (as_str b) st st' i" "(tb, k) \<noteq> (''notes'', i) \<Longrightarrow> row_at J st' tb k = row_at J st tb k"
    "merge_ready st'" "meta st' = meta st"
proof -
  have inv: "store_inv st" "keyed ''notes'' st" using assms(1) by (simp_all add: merge_ready_def)
  have ok': "stage_write_inner J st ''notes'' i (rehome_patch i b stamp) now = Inr st'"
    using ok by (simp add: stage_local_write_def)
  have p: "fmlookup (rehome_patch i b stamp) (pk_of notes_desc) = Some (JString i)"
    "fmlookup (rehome_patch i b stamp) ''book_id'' = Some b"
    "fmlookup (rehome_patch i b stamp) ''content_tag'' = Some JNull"
    "fmlookup (rehome_patch i b stamp) ''deleted'' = None"
    by (simp_all add: rehome_patch_def fmlookup_of_list)
  note v = stage_view [OF inv(1) ok' merge_schemas(1) p(1)]
  show "rehomed J (as_str b) st st' i"
    using v(2) [OF merge_columns(2)] v(2) [OF merge_columns(3)] v(3) p
    by (simp add: rehomed_def keeps_flag_def)
  show "(tb, k) \<noteq> (''notes'', i) \<Longrightarrow> row_at J st' tb k = row_at J st tb k" by (rule v(1))
  show "merge_ready st'"
    using v(5) keyed_stage [OF inv(2) ok' merge_schemas(1) p(1)] by (simp add: merge_ready_def)
  show "meta st' = meta st" by (rule v(6))
qed

text \<open>The invariant of both rehoming loops: the records of \<open>I\<close> are rehomed to \<open>f\<close>, all else is
  as it was.\<close>

definition moved :: "serde \<Rightarrow> (string \<Rightarrow> string option) \<Rightarrow> string set \<Rightarrow> store \<Rightarrow> store \<Rightarrow> bool" where
  "moved J f I st st' \<longleftrightarrow>
     merge_ready st' \<and> meta st' = meta st \<and>
     (\<forall>tb k. tb \<noteq> ''notes'' \<or> k \<notin> I \<longrightarrow> row_at J st' tb k = row_at J st tb k) \<and>
     (\<forall>i \<in> I. rehomed J (f i) st st' i)"

lemma moved_refl: "merge_ready st \<Longrightarrow> moved J f {} st st"
  by (simp add: moved_def)

lemma rehomed_cong:
  "row_at J st'' ''notes'' i = row_at J st' ''notes'' i \<Longrightarrow> rehomed J b st st'' i = rehomed J b st st' i"
  using view_cong [of J st'' "''notes''" i st'] by (simp add: rehomed_def)

lemma rehomed_trans:
  "flag_at J st' ''notes'' i = Some (unwrap_or (flag_at J st ''notes'' i) JNull) \<or>
     row_at J st' ''notes'' i = row_at J st ''notes'' i \<Longrightarrow>
   rehomed J b st' st'' i \<Longrightarrow> rehomed J b st st'' i"
  using view_cong [of J st' "''notes''" i st] by (auto simp: rehomed_def)

lemma moved_trans:
  assumes "moved J f I st st'" "moved J f K st' st''"
  shows "moved J f (I \<union> K) st st''"
proof -
  have "rehomed J (f i) st st'' i" if "i \<in> I \<union> K" for i
  proof (cases "i \<in> K")
    case True
    then have "rehomed J (f i) st' st'' i" using assms(2) by (simp add: moved_def)
    then show ?thesis
      by (rule rehomed_trans [rotated]) (use assms(1) in \<open>auto simp: moved_def rehomed_def\<close>)
  next
    case False
    then have "row_at J st'' ''notes'' i = row_at J st' ''notes'' i" using assms(2) by (simp add: moved_def)
    moreover have "rehomed J (f i) st st' i" using False that assms(1) by (simp add: moved_def)
    ultimately show ?thesis using rehomed_cong by metis
  qed
  with assms show ?thesis by (auto simp: moved_def)
qed

lemma rehome_notes:
  "merge_ready st \<Longrightarrow> try_each (rehome_note J E sid now) ns st = (st', None) \<Longrightarrow>
   moved J (\<lambda>_. Some sid) ((\<lambda>n. str_of n ''id'') ` set ns) st st'"
proof (induction ns arbitrary: st)
  case Nil
  then show ?case by (simp add: moved_refl)
next
  case (Cons n ns)
  let ?i = "str_of n ''id''"
  from Cons.prems(2) obtain st1 where
    ok: "stage_local_write J st ''notes'' ?i (rehome_patch ?i (JString sid) now) now = Inr st1"
    and rest: "try_each (rehome_note J E sid now) ns st1 = (st', None)"
    unfolding try_each_Cons_None by (auto simp: rehome_note_def Let_def stage_or_fail_None)
  note one = stage_rehome [OF Cons.prems(1) ok, of sid, simplified]
  have "moved J (\<lambda>_. Some sid) {?i} st st1" using one by (auto simp: moved_def)
  from moved_trans [OF this Cons.IH [OF one(3) rest]] show ?case by simp
qed

subsection \<open>The losers\<close>

lemma moved_other_table: "moved J f I st st' \<Longrightarrow> tb \<noteq> ''notes'' \<Longrightarrow> row_at J st' tb = row_at J st tb"
  by (auto simp: moved_def)

lemma live_at_cong: "row_at J st' table = row_at J st table \<Longrightarrow> live_at J st' table = live_at J st table"
  by (simp add: live_at_def fun_eq_iff)

lemma notes_on_moved:
  assumes "moved J (\<lambda>_. Some sid) (notes_on J st lid) st st1" "l \<noteq> lid" "l \<noteq> sid"
  shows "notes_on J st1 l = notes_on J st l"
proof (rule set_eqI)
  fix i
  show "i \<in> notes_on J st1 l \<longleftrightarrow> i \<in> notes_on J st l"
  proof (cases "i \<in> notes_on J st lid")
    case True
    then have "text_at J st1 ''notes'' i ''book_id'' = Some sid" "text_at J st ''notes'' i ''book_id'' = Some lid"
      using assms(1) by (auto simp: moved_def rehomed_def notes_on_def)
    with assms(2,3) show ?thesis by (auto simp: notes_on_def)
  next
    case False
    then have "row_at J st1 ''notes'' i = row_at J st ''notes'' i" using assms(1) by (simp add: moved_def)
    from view_cong [OF this] show ?thesis by (simp add: notes_on_def)
  qed
qed

definition assignments :: "serde \<Rightarrow> store \<Rightarrow> string list \<Rightarrow> note_book_assignment set" where
  "assignments J st ls =
     (\<Union>l \<in> set ls. (\<lambda>i. \<lparr>nba_note_id = i, nba_prior_book_id = Some l\<rparr>) ` notes_on J st l)"

text \<open>The losers a merge works on, and those it records for the undo.\<close>

definition live_losers :: "serde \<Rightarrow> store \<Rightarrow> string list \<Rightarrow> string list" where
  "live_losers J st ls = filter (live_at J st ''books'') ls"

definition fresh_losers :: "serde \<Rightarrow> (string, string) fmap \<Rightarrow> store \<Rightarrow> string list \<Rightarrow> string list" where
  "fresh_losers J prior st ls = filter (\<lambda>l. fmlookup prior l = None) (live_losers J st ls)"

definition merged_losers ::
  "serde \<Rightarrow> string \<Rightarrow> (string, string) fmap \<Rightarrow> string list \<Rightarrow> book_merge_state \<Rightarrow> book_merge_state \<Rightarrow> bool" where
  "merged_losers J sid prior ls s s' \<longleftrightarrow>
     (let st = mg_store s; L = live_losers J st ls; F = fresh_losers J prior st ls in
      moved J (\<lambda>_. Some sid) (\<Union>l \<in> set L. notes_on J st l) st (mg_store s') \<and>
      mg_tombstone s' = mg_tombstone s @ map (\<lambda>l. (l, the (row_at J st ''books'' l))) L \<and>
      bmu_survivor_id (mg_undo s') = bmu_survivor_id (mg_undo s) \<and>
      bmu_survivor_prior_created_at (mg_undo s') = bmu_survivor_prior_created_at (mg_undo s) \<and>
      bmu_loser_ids (mg_undo s') = bmu_loser_ids (mg_undo s) @ F \<and>
      set (bmu_reassignments (mg_undo s')) = set (bmu_reassignments (mg_undo s)) \<union> assignments J st F)"

lemma merge_loser_step:
  assumes "merge_ready (mg_store s)" "merge_loser J E sid prior now lid s = (s', None)"
  shows "merged_losers J sid prior [lid] s s'"
proof -
  let ?st = "mg_store s"
  obtain row where row: "get_row J ?st ''books'' lid = Inr row" and ra: "row_at J ?st ''books'' lid = row"
    using get_row_at [OF merge_schemas(2)] by blast
  show ?thesis
  proof (cases "live_row row")
    case None
    then have dead: "\<not> live_at J ?st ''books'' lid"
      using ra by (auto simp: live_at_def live_row_def split: option.splits if_splits)
    have "s' = s" using assms(2) row None by (simp add: merge_loser_def)
    with dead assms(1) show ?thesis
      by (simp add: merged_losers_def live_losers_def fresh_losers_def assignments_def Let_def moved_refl)
  next
    case (Some loser)
    then have lr: "row = Some loser" and live: "live_at J ?st ''books'' lid"
      using ra by (auto simp: live_at_def live_row_def split: option.splits if_splits)
    obtain ns where ns: "list_live J ?st ''notes'' (Some (''book_id'', lid)) (-1) 0 = Inr ns"
      and ids: "(\<lambda>n. str_of n ''id'') ` set ns = notes_on J ?st lid"
      using list_book_notes assms(1) by (metis merge_ready_def)
    obtain st' o' where te: "try_each (rehome_note J E sid now) ns ?st = (st', o')" by (metis surj_pair)
    have ml: "mapped_list J E c ?st ''notes'' (Some (''book_id'', lid)) = Inr ns" for c
      by (simp add: mapped_list_def ns)
    note eqs = merge_loser_def row Some ml te Let_def sum.case option.case prod.case
    have o': "o' = None" using assms(2) unfolding eqs by (cases o') simp_all
    from te have mv: "moved J (\<lambda>_. Some sid) (notes_on J ?st lid) ?st st'"
      using rehome_notes [OF assms(1)] ids unfolding o' by metis
    have asg: "set (map (\<lambda>n. \<lparr>nba_note_id = str_of n ''id'', nba_prior_book_id = Some lid\<rparr>) ns) =
        assignments J ?st [lid]"
      using ids by (auto simp: assignments_def)
    have L: "live_losers J ?st [lid] = [lid]" using live by (simp add: live_losers_def)
    from assms(2) show ?thesis
      unfolding eqs o' using mv asg ra [unfolded lr] L
      by (cases "fmlookup prior lid") (auto simp: merged_losers_def fresh_losers_def Let_def assignments_def)
  qed
qed

lemma merged_losers_append:
  assumes a: "merged_losers J sid prior ks s s1" and b: "merged_losers J sid prior ls s1 s2"
    and fresh: "\<And>l. l \<in> set ls \<Longrightarrow> notes_on J (mg_store s1) l = notes_on J (mg_store s) l"
  shows "merged_losers J sid prior (ks @ ls) s s2"
proof -
  have bk: "row_at J (mg_store s1) ''books'' = row_at J (mg_store s) ''books''"
    using a moved_other_table by (auto simp: merged_losers_def Let_def)
  have lv: "live_losers J (mg_store s1) ls = live_losers J (mg_store s) ls"
    using live_at_cong [OF bk] by (simp add: live_losers_def)
  then have fr: "fresh_losers J prior (mg_store s1) ls = fresh_losers J prior (mg_store s) ls"
    by (simp add: fresh_losers_def)
  have sub: "set (live_losers J (mg_store s) ls) \<subseteq> set ls" "set (fresh_losers J prior (mg_store s) ls) \<subseteq> set ls"
    by (auto simp: live_losers_def fresh_losers_def)
  have un: "(\<Union>l \<in> set (live_losers J (mg_store s) ls). notes_on J (mg_store s1) l) =
      (\<Union>l \<in> set (live_losers J (mg_store s) ls). notes_on J (mg_store s) l)"
    using fresh sub by auto
  have asg: "assignments J (mg_store s1) (fresh_losers J prior (mg_store s) ls) =
      assignments J (mg_store s) (fresh_losers J prior (mg_store s) ls)"
    unfolding assignments_def by (intro SUP_cong refl) (use fresh sub in auto)
  have split: "live_losers J st (ks @ ls) = live_losers J st ks @ live_losers J st ls"
    "fresh_losers J prior st (ks @ ls) = fresh_losers J prior st ks @ fresh_losers J prior st ls"
    "assignments J st (xs @ ys) = assignments J st xs \<union> assignments J st ys" for st xs ys
    by (auto simp: live_losers_def fresh_losers_def assignments_def)
  from a b show ?thesis
    unfolding merged_losers_def Let_def lv fr un asg bk split
    using moved_trans by (simp add: Un_assoc) blast
qed

lemma merge_losers:
  assumes "merge_ready (mg_store s)" "try_each (merge_loser J E sid prior now) ls s = (s', None)"
    and "sid \<notin> set ls" "distinct ls"
  shows "merged_losers J sid prior ls s s'"
  using assms
proof (induction ls arbitrary: s)
  case Nil
  then show ?case
    by (simp add: merged_losers_def live_losers_def fresh_losers_def assignments_def Let_def moved_refl)
next
  case (Cons lid ls)
  from Cons.prems(2) obtain s1 where one: "merge_loser J E sid prior now lid s = (s1, None)"
    and rest: "try_each (merge_loser J E sid prior now) ls s1 = (s', None)"
    unfolding try_each_Cons_None by blast
  note step = merge_loser_step [OF Cons.prems(1) one]
  have r1: "merge_ready (mg_store s1)" using step by (simp add: merged_losers_def Let_def moved_def)
  have fresh: "notes_on J (mg_store s1) l = notes_on J (mg_store s) l" if "l \<in> set ls" for l
  proof (cases "live_at J (mg_store s) ''books'' lid")
    case True
    then have "moved J (\<lambda>_. Some sid) (notes_on J (mg_store s) lid) (mg_store s) (mg_store s1)"
      using step by (simp add: merged_losers_def live_losers_def Let_def)
    then show ?thesis by (rule notes_on_moved) (use that Cons.prems(3,4) in auto)
  next
    case False
    then have "moved J (\<lambda>_. Some sid) {} (mg_store s) (mg_store s1)"
      using step by (simp add: merged_losers_def live_losers_def Let_def)
    then have "row_at J (mg_store s1) ''notes'' i = row_at J (mg_store s) ''notes'' i" for i
      by (simp add: moved_def)
    from view_cong [OF this] show ?thesis by (simp add: notes_on_def)
  qed
  have "merged_losers J sid prior ([lid] @ ls) s s'"
    by (rule merged_losers_append [OF step Cons.IH [OF r1 rest] fresh]) (use Cons.prems(3,4) in auto)
  then show ?case by simp
qed

subsection \<open>The whole merge\<close>

lemma stage_book:
  assumes "merge_ready st" "stage_local_write J st ''books'' i p now = Inr st'" "fmlookup p ''id'' = Some (JString i)"
  shows "(tb, k) \<noteq> (''books'', i) \<Longrightarrow> row_at J st' tb k = row_at J st tb k"
    and "fmlookup p ''merged_into'' = Some v \<Longrightarrow> text_at J st' ''books'' i ''merged_into'' = as_str v"
    and "fmlookup p ''deleted'' = Some f \<Longrightarrow> f \<in> {JNull, JBool True, JBool False} \<Longrightarrow>
      flag_at J st' ''books'' i = Some f"
    and "merge_ready st'" "meta st' = meta st"
proof -
  have inv: "store_inv st" "keyed ''notes'' st" using assms(1) by (simp_all add: merge_ready_def)
  have ok: "stage_write_inner J st ''books'' i p now = Inr st'" using assms(2) by (simp add: stage_local_write_def)
  have pk: "fmlookup p (pk_of books_desc) = Some (JString i)" using assms(3) by simp
  note v = stage_view [OF inv(1) ok merge_schemas(2) pk]
  show "(tb, k) \<noteq> (''books'', i) \<Longrightarrow> row_at J st' tb k = row_at J st tb k" by (rule v(1))
  show "fmlookup p ''merged_into'' = Some v \<Longrightarrow> text_at J st' ''books'' i ''merged_into'' = as_str v"
    using v(2) [OF merge_columns(4)] by simp
  show "flag_at J st' ''books'' i = Some f"
    if "fmlookup p ''deleted'' = Some f" "f \<in> {JNull, JBool True, JBool False}"
    using v(3) that by (auto simp: keeps_flag_def)
  show "merge_ready st'" using v(5) keyed_stage [OF inv(2) ok merge_schemas(2) pk] by (simp add: merge_ready_def)
  show "meta st' = meta st" by (rule v(6))
qed

definition tombstoned :: "serde \<Rightarrow> string \<Rightarrow> string set \<Rightarrow> store \<Rightarrow> store \<Rightarrow> bool" where
  "tombstoned J sid L st st' \<longleftrightarrow>
     merge_ready st' \<and> meta st' = meta st \<and>
     (\<forall>tb k. tb \<noteq> ''books'' \<or> k \<notin> L \<longrightarrow> row_at J st' tb k = row_at J st tb k) \<and>
     (\<forall>l \<in> L. dead_at J st' ''books'' l \<and> text_at J st' ''books'' l ''merged_into'' = Some sid)"

lemma tombstone_losers:
  "merge_ready st \<Longrightarrow> try_each (tombstone_loser J E sid now) ts st = (st', None) \<Longrightarrow>
   \<forall>(l, r) \<in> set ts. fmlookup r ''id'' = Some (JString l) \<Longrightarrow> tombstoned J sid (fst ` set ts) st st'"
proof (induction ts arbitrary: st)
  case Nil
  then show ?case by (simp add: tombstoned_def)
next
  case (Cons lr ts)
  obtain l r where lr: "lr = (l, r)" by (cases lr)
  let ?p = "fmupd ''updated_at'' (json_i64 now) (fmupd ''merged_into'' (JString sid) (fmupd ''deleted'' (JBool True) r))"
  from Cons.prems(2) obtain st1 where ok: "stage_local_write J st ''books'' l ?p now = Inr st1"
    and rest: "try_each (tombstone_loser J E sid now) ts st1 = (st', None)"
    unfolding try_each_Cons_None by (auto simp: tombstone_loser_def lr stage_or_fail_None)
  have pk: "fmlookup ?p ''id'' = Some (JString l)" using Cons.prems(3) by (simp add: lr)
  note b = stage_book [OF Cons.prems(1) ok pk]
  have IH: "tombstoned J sid (fst ` set ts) st1 st'" using Cons.IH [OF b(4) rest] Cons.prems(3) by simp
  have here: "dead_at J st1 ''books'' l" "text_at J st1 ''books'' l ''merged_into'' = Some sid"
    using b(2) [of "JString sid"] b(3) [of "JBool True"] by (simp_all add: dead_at_flag)
  have "dead_at J st' ''books'' l \<and> text_at J st' ''books'' l ''merged_into'' = Some sid"
  proof (cases "l \<in> fst ` set ts")
    case True
    with IH show ?thesis unfolding tombstoned_def by blast
  next
    case False
    then have "row_at J st' ''books'' l = row_at J st1 ''books'' l" using IH by (simp add: tombstoned_def)
    from view_cong [OF this] here show ?thesis by simp
  qed
  with IH b(1,5) show ?case by (auto simp: tombstoned_def lr)
qed

lemma clean_losers:
  "sid \<notin> set (clean_loser_ids sid lids)" "distinct (clean_loser_ids sid lids)"
  "l \<in> set (clean_loser_ids sid lids) \<longleftrightarrow> l \<in> set lids \<and> l \<noteq> [] \<and> l \<noteq> sid"
  by (auto simp: clean_loser_ids_def set_first_seen distinct_first_seen)

text \<open>The states a merge that returns goes through: the redirects are saved, the losers' notes are
  moved, the survivor is staged, the losers are tombstoned.\<close>

definition merge_trace ::
  "serde \<Rightarrow> store \<Rightarrow> string \<Rightarrow> string list \<Rightarrow> book_merge_undo \<Rightarrow> store \<Rightarrow>
   (string, string) fmap \<Rightarrow> book_merge_state \<Rightarrow> book_merge_state \<Rightarrow> store \<Rightarrow> bool" where
  "merge_trace J st sid ls u st' prior s s' st2 \<longleftrightarrow>
     load_merged_book_ids J st = Inr prior \<and> live_at J st ''books'' sid \<and>
     mg_store s = save_merged_book_ids J st (fold (\<lambda>lid m. fmupd lid sid m) ls prior) \<and>
     bmu_survivor_id (mg_undo s) = sid \<and> bmu_loser_ids (mg_undo s) = [] \<and> bmu_reassignments (mg_undo s) = [] \<and>
     bmu_survivor_prior_created_at (mg_undo s) \<noteq> None \<and>
     merged_losers J sid prior ls s s' \<and> mg_undo s' = u \<and>
     (\<forall>tb k. (tb, k) \<noteq> (''books'', sid) \<longrightarrow> row_at J st2 tb k = row_at J (mg_store s') tb k) \<and>
     live_at J st2 ''books'' sid \<and> meta st2 = meta (mg_store s') \<and>
     tombstoned J sid (set (live_losers J st ls)) st2 st'"

lemma merge_books_stages:
  assumes "merge_ready st" "merge_books J E now st sid lids = (Inr u, st')"
    and l: "l \<in> set (clean_loser_ids sid lids)" "live_at J st ''books'' l"
  shows "\<exists>prior s s' st2. merge_trace J st sid (clean_loser_ids sid lids) u st' prior s s' st2"
proof -
  let ?ls = "clean_loser_ids sid lids"
  obtain row where row: "get_row J st ''books'' sid = Inr row" and ra: "row_at J st ''books'' sid = row"
    using get_row_at [OF merge_schemas(2)] by blast
  have ne: "?ls \<noteq> []" using l(1) by auto
  from assms(2) ne obtain sv prior where sv: "live_row row = Some sv" and prior: "load_merged_book_ids J st = Inr prior"
    by (auto simp: merge_books_def Let_def row split: if_splits option.splits sum.splits)
  have rs: "row = Some sv" and live: "live_at J st ''books'' sid"
    using sv ra by (auto simp: live_row_def live_at_def split: option.splits if_splits)
  let ?remap = "fold (\<lambda>lid m. fmupd lid sid m) ?ls prior"
  define s where "s = \<lparr>mg_store = save_merged_book_ids J st ?remap, mg_undo =
      \<lparr>bmu_survivor_id = sid, bmu_loser_ids = [], bmu_survivor_prior_created_at = None,
        bmu_reassignments = []\<rparr>\<lparr>bmu_survivor_prior_created_at := Some (i64_of sv ''created_at'')\<rparr>,
     mg_earliest = i64_of sv ''created_at'', mg_tombstone = []\<rparr>"
  obtain s' e where te: "try_each (merge_loser J E sid prior now) ?ls s = (s', e)" by (metis surj_pair)
  let ?p = "fmupd ''updated_at'' (json_i64 now) (fmupd ''created_at'' (json_i64 (mg_earliest s')) sv)"
  obtain st2 e2 where sf: "stage_or_fail J E ''merge_books: stage survivor created_at: '' ''books'' sid ?p now
      (mg_store s') = (st2, e2)" by (metis surj_pair)
  obtain st3 e3 where tt: "try_each (tombstone_loser J E sid now) (mg_tombstone s') st2 = (st3, e3)" by (metis surj_pair)
  note eqs = merge_books_def Let_def row prior sum.case sv option.case s_def [symmetric] te prod.case sf tt
  have e: "e = None" using assms(2) ne unfolding eqs by (cases e) (auto split: if_splits)
  have tb: "tables (mg_store s) = tables st" by (simp add: s_def save_merged_book_ids_def meta_set_def)
  note ra_s = row_at_frame [OF tb, of J]
  have rd: "merge_ready (mg_store s)"
    using assms(1) by (simp add: s_def save_merged_book_ids_def meta_set_def)
  have ml: "merged_losers J sid prior ?ls s s'"
    using merge_losers [OF rd _ clean_losers(1,2)] te unfolding e by blast
  have L: "live_losers J (mg_store s) ?ls = live_losers J st ?ls"
    using live_at_cong [of J "mg_store s" "''books''" st] ra_s by (simp add: live_losers_def)
  have tomb: "mg_tombstone s' = map (\<lambda>l. (l, the (row_at J st ''books'' l))) (live_losers J st ?ls)"
    using ml by (simp add: merged_losers_def Let_def L ra_s) (simp add: s_def)
  have tne: "mg_tombstone s' \<noteq> []" using l by (auto simp: tomb live_losers_def filter_empty_conv)
  have e2: "e2 = None" using assms(2) ne tne unfolding eqs e by (cases e2) (auto split: if_splits)
  have e3: "e3 = None" and u: "mg_undo s' = u" and st3: "st3 = st'"
    using assms(2) ne tne unfolding eqs e e2 by (cases e3; auto split: if_splits)+
  have rd': "merge_ready (mg_store s')" using ml by (simp add: merged_losers_def Let_def moved_def)
  have pk: "fmlookup ?p ''id'' = Some (JString sid)"
    using row_at_pk [OF merge_schemas(2), of J st sid sv] ra rs by simp
  note b = stage_book [OF rd' _ pk, of J now st2]
  have ok2: "stage_local_write J (mg_store s') ''books'' sid ?p now = Inr st2"
    using sf unfolding e2 stage_or_fail_None .
  have "row_at J st ''books'' sid = Some sv" "store_inv st"
    using ra rs assms(1) by (simp_all add: merge_ready_def)
  then have "fmlookup sv ''deleted'' \<in> {Some JNull, Some (JBool True), Some (JBool False)}"
    using row_at_flag [OF _ merge_schemas(2)] by blast
  moreover have "\<not> is_deleted sv" using sv by (simp add: live_row_def rs split: if_splits)
  ultimately have "fmlookup sv ''deleted'' = Some JNull \<or> fmlookup sv ''deleted'' = Some (JBool False)"
    by (auto simp: is_deleted_def)
  then have "\<exists>f. flag_at J st2 ''books'' sid = Some f \<and> f \<noteq> JBool True"
    using b(3) [OF ok2] by (auto simp: is_deleted_def)
  then have live2: "live_at J st2 ''books'' sid"
    by (auto simp: live_at_def flag_at_def is_deleted_def bind_eq_Some_conv)
  have keys: "\<forall>(l, r) \<in> set (mg_tombstone s'). fmlookup r ''id'' = Some (JString l)"
    using row_at_pk [OF merge_schemas(2), of J st] by (auto simp: tomb live_losers_def live_at_def)
  have "tombstoned J sid (fst ` set (mg_tombstone s')) st2 st'"
    using tombstone_losers [OF b(4) [OF ok2] _ keys] tt unfolding e3 st3 by blast
  then have "tombstoned J sid (set (live_losers J st ?ls)) st2 st'" by (simp add: tomb image_image)
  then show ?thesis
    using prior live ml u b(1,5) [OF ok2] live2
    by (intro exI [of _ prior] exI [of _ s] exI [of _ s'] exI [of _ st2]) (simp add: merge_trace_def s_def)
qed

text \<open>What the states of a merge amount to, loser by loser and note by note.\<close>

lemma merge_books_effect:
  assumes "merge_ready st" "merge_books J E now st sid lids = (Inr u, st')"
    and l: "l \<in> set (clean_loser_ids sid lids)" "live_at J st ''books'' l"
  shows "live_at J st' ''books'' sid" "dead_at J st' ''books'' l"
    "text_at J st' ''books'' l ''merged_into'' = Some sid"
    "\<And>i b. i \<in> notes_on J st b \<Longrightarrow>
       i \<in> notes_on J st' (if b \<in> set (live_losers J st (clean_loser_ids sid lids)) then sid else b)"
    "\<And>i. (\<forall>b \<in> set (live_losers J st (clean_loser_ids sid lids)). i \<notin> notes_on J st b) \<Longrightarrow>
       row_at J st' ''notes'' i = row_at J st ''notes'' i"
    "\<And>b. b \<notin> insert sid (set (live_losers J st (clean_loser_ids sid lids))) \<Longrightarrow>
       row_at J st' ''books'' b = row_at J st ''books'' b"
    "merge_ready st'"
proof -
  let ?ls = "clean_loser_ids sid lids"
  let ?L = "live_losers J st ?ls"
  obtain prior s s' st2 where "merge_trace J st sid ?ls u st' prior s s' st2"
    using merge_books_stages [OF assms] by blast
  then have ms: "mg_store s = save_merged_book_ids J st (fold (\<lambda>lid m. fmupd lid sid m) ?ls prior)"
    and ml: "merged_losers J sid prior ?ls s s'"
    and fr: "\<forall>tb k. (tb, k) \<noteq> (''books'', sid) \<longrightarrow> row_at J st2 tb k = row_at J (mg_store s') tb k"
    and lv: "live_at J st2 ''books'' sid" and tomb: "tombstoned J sid (set ?L) st2 st'"
    unfolding merge_trace_def by blast+
  have "tables (mg_store s) = tables st" by (simp add: ms save_merged_book_ids_def meta_set_def)
  note ra_s = row_at_frame [OF this, of J]
  have no: "notes_on J (mg_store s) = notes_on J st"
    by (intro ext) (simp add: notes_on_def flag_at_def text_at_def ra_s)
  have L: "live_losers J (mg_store s) ?ls = ?L"
    using live_at_cong [of J "mg_store s" "''books''" st] ra_s by (simp add: live_losers_def)
  have mv: "moved J (\<lambda>_. Some sid) (\<Union>b \<in> set ?L. notes_on J st b) (mg_store s) (mg_store s')"
    using ml by (simp add: merged_losers_def Let_def L no)
  have nt: "row_at J st' ''notes'' = row_at J (mg_store s') ''notes''"
  proof
    fix k
    have "row_at J st' ''notes'' k = row_at J st2 ''notes'' k" using tomb by (simp add: tombstoned_def)
    also have "\<dots> = row_at J (mg_store s') ''notes'' k" using fr by simp
    finally show "row_at J st' ''notes'' k = row_at J (mg_store s') ''notes'' k" .
  qed
  have sid: "sid \<notin> set ?L" using clean_losers(1) by (auto simp: live_losers_def)
  show "live_at J st' ''books'' sid"
    using lv sid tomb by (simp add: tombstoned_def live_at_def)
  have lL: "l \<in> set ?L" using l by (simp add: live_losers_def)
  then show "dead_at J st' ''books'' l" "text_at J st' ''books'' l ''merged_into'' = Some sid"
    using tomb by (simp_all add: tombstoned_def)
  show same: "row_at J st' ''notes'' i = row_at J st ''notes'' i" if "\<forall>b \<in> set ?L. i \<notin> notes_on J st b" for i
    using mv that by (simp add: nt moved_def ra_s)
  show "i \<in> notes_on J st' (if b \<in> set ?L then sid else b)" if i: "i \<in> notes_on J st b" for i b
  proof (cases "b \<in> set ?L")
    case True
    with i mv have "rehomed J (Some sid) (mg_store s) (mg_store s') i" by (auto simp: moved_def)
    moreover have "flag_at J (mg_store s) ''notes'' i = Some (JBool False)"
      using i by (simp add: notes_on_def flag_at_def ra_s)
    ultimately show ?thesis
      using True by (simp add: rehomed_def notes_on_def text_at_def flag_at_def nt)
  next
    case False
    have "i \<notin> notes_on J st b'" if "b' \<in> set ?L" for b' using i False that by (auto simp: notes_on_def)
    then have "row_at J st' ''notes'' i = row_at J st ''notes'' i" using same by blast
    from view_cong [OF this] i False show ?thesis by (simp add: notes_on_def)
  qed
  show "row_at J st' ''books'' b = row_at J st ''books'' b" if "b \<notin> insert sid (set ?L)" for b
    using that tomb fr moved_other_table [OF mv, of "''books''"] ra_s by (simp add: tombstoned_def)
  show "merge_ready st'" using tomb by (simp add: tombstoned_def)
qed

lemma on_merged_book:
  assumes "merge_ready st" "merge_books J E now st sid lids = (Inr u, st')"
    and l: "l \<in> set (clean_loser_ids sid lids)" "live_at J st ''books'' l"
  shows "notes_on J st' l = {}"
proof -
  note eff = merge_books_effect [OF assms]
  let ?L = "live_losers J st (clean_loser_ids sid lids)"
  have lL: "l \<in> set ?L" and ne: "l \<noteq> sid" using l clean_losers(3) by (auto simp: live_losers_def)
  have "i \<notin> notes_on J st' l" for i
  proof (cases "\<exists>b \<in> set ?L. i \<in> notes_on J st b")
    case True
    then have "i \<in> notes_on J st' sid" using eff(4) by (metis (full_types))
    with ne show ?thesis by (auto simp: notes_on_def)
  next
    case False
    then have "row_at J st' ''notes'' i = row_at J st ''notes'' i" using eff(5) by blast
    from view_cong [OF this] False lL show ?thesis by (auto simp: notes_on_def)
  qed
  then show ?thesis by blast
qed

text \<open>
  Property C6.  A merge of books that returns is complete: the survivor is live, every losing book
  that was live is a tombstone pointing at the survivor, no live note is left on it, every one of
  its notes is on the survivor, and the notes of other books and the other books are as before.
\<close>

theorem merge_books_rehomes:
  assumes "store_inv st" "keyed ''notes'' st" "merge_books J E now st sid lids = (Inr u, st')"
    and "l \<in> set lids" "l \<noteq> []" "l \<noteq> sid" "live_at J st ''books'' l"
  shows "live_at J st' ''books'' sid \<and> dead_at J st' ''books'' l \<and>
    text_at J st' ''books'' l ''merged_into'' = Some sid \<and>
    list_live J st' ''notes'' (Some (''book_id'', l)) (-1) 0 = Inr [] \<and>
    notes_on J st l \<subseteq> notes_on J st' sid \<and>
    (\<forall>b. b \<notin> set lids \<longrightarrow> notes_on J st b \<subseteq> notes_on J st' b) \<and>
    (\<forall>b. b \<notin> insert sid (set lids) \<longrightarrow> row_at J st' ''books'' b = row_at J st ''books'' b)"
proof -
  let ?ls = "clean_loser_ids sid lids"
  have rd: "merge_ready st" using assms(1,2) by (simp add: merge_ready_def)
  have l: "l \<in> set ?ls" using assms(4-6) clean_losers(3) by blast
  note eff = merge_books_effect [OF rd assms(3) l assms(7)]
  have sub: "set (live_losers J st ?ls) \<subseteq> set lids" using clean_losers(3) by (auto simp: live_losers_def)
  have lL: "l \<in> set (live_losers J st ?ls)" using l assms(7) by (simp add: live_losers_def)
  obtain ns where ns: "list_live J st' ''notes'' (Some (''book_id'', l)) (-1) 0 = Inr ns"
    and ids: "(\<lambda>n. str_of n ''id'') ` set ns = notes_on J st' l"
    using list_book_notes eff(7) by (metis merge_ready_def)
  have "ns = []" using ids on_merged_book [OF rd assms(3) l assms(7)] by simp
  moreover have "notes_on J st l \<subseteq> notes_on J st' sid" using eff(4) [of _ l] lL by auto
  moreover have "notes_on J st b \<subseteq> notes_on J st' b" if "b \<notin> set lids" for b
  proof
    fix i
    assume "i \<in> notes_on J st b"
    from eff(4) [OF this] sub that show "i \<in> notes_on J st' b" by (auto split: if_splits)
  qed
  moreover have "row_at J st' ''books'' b = row_at J st ''books'' b" if "b \<notin> insert sid (set lids)" for b
    using eff(6) [of b] sub that by blast
  ultimately show ?thesis using eff(1-3) ns by blast
qed

subsection \<open>Undoing a merge\<close>

lemma restore_notes:
  "merge_ready st \<Longrightarrow> try_each (restore_note J E now) rs st = (st', None) \<Longrightarrow>
   \<forall>r \<in> set rs. nba_prior_book_id r = f (nba_note_id r) \<Longrightarrow> moved J f (nba_note_id ` set rs) st st'"
proof (induction rs arbitrary: st)
  case Nil
  then show ?case by (simp add: moved_refl)
next
  case (Cons r rs)
  let ?i = "nba_note_id r" and ?b = "case nba_prior_book_id r of None \<Rightarrow> JNull | Some b \<Rightarrow> JString b"
  from Cons.prems(2) obtain st1 where
    ok: "stage_local_write J st ''notes'' ?i (rehome_patch ?i ?b now) now = Inr st1"
    and rest: "try_each (restore_note J E now) rs st1 = (st', None)"
    unfolding try_each_Cons_None restore_note_def stage_or_fail_None by blast
  have b: "?b = JNull \<or> ?b = JString (the (nba_prior_book_id r))" "as_str ?b = f ?i"
    using Cons.prems(3) by (cases "nba_prior_book_id r"; simp)+
  note one = stage_rehome [OF Cons.prems(1) ok b(1)]
  have "moved J f {?i} st st1" using one b(2) by (auto simp: moved_def)
  from moved_trans [OF this Cons.IH [OF one(3) rest]] Cons.prems(3) show ?case by simp
qed

text \<open>Only the books of a set differ.\<close>

definition books_differ :: "serde \<Rightarrow> string set \<Rightarrow> store \<Rightarrow> store \<Rightarrow> bool" where
  "books_differ J B st st' \<longleftrightarrow>
     merge_ready st' \<and> (\<forall>tb k. tb \<noteq> ''books'' \<or> k \<notin> B \<longrightarrow> row_at J st' tb k = row_at J st tb k)"

lemma stored_or_id_pk:
  "fmlookup (stored_or_id i (row_at J st ''books'' i)) ''id'' = Some (JString i)"
  using row_at_pk [OF merge_schemas(2), of J st i] by (cases "row_at J st ''books'' i")
    (simp_all add: stored_or_id_def fmlookup_of_list)

lemma resurrect_losers:
  "merge_ready st \<Longrightarrow> try_each (resurrect_loser J E now) ls st = (st', None) \<Longrightarrow>
   books_differ J (set ls) st st' \<and>
   (\<forall>l \<in> set ls. live_at J st' ''books'' l \<and> text_at J st' ''books'' l ''merged_into'' = None)"
proof (induction ls arbitrary: st)
  case Nil
  then show ?case by (simp add: books_differ_def)
next
  case (Cons l ls)
  let ?p = "fmupd ''updated_at'' (json_i64 now) (fmupd ''merged_into'' JNull
      (fmupd ''deleted'' (JBool False) (stored_or_id l (row_at J st ''books'' l))))"
  let ?st0 = "snd (drop_pending_deletes_inner J st ''books'' l)"
  from Cons.prems(2) obtain st1 where
    ok: "stage_local_write_resurrecting J st ''books'' l ?p now = Inr st1"
    and rest: "try_each (resurrect_loser J E now) ls st1 = (st', None)"
    unfolding try_each_Cons_None resurrect_loser_def get_row_at [OF merge_schemas(2)] sum.case
    by (auto split: sum.splits)
  have tb: "tables ?st0 = tables st" by (simp add: drop_pending_deletes_inner_def)
  note ra = row_at_frame [OF tb, of J]
  have rd: "merge_ready ?st0"
    using Cons.prems(1) tb store_inv_drop_pending by (simp add: merge_ready_def keyed_def)
  have ok': "stage_local_write J ?st0 ''books'' l ?p now = Inr st1"
    using ok by (simp add: stage_local_write_def stage_local_write_resurrecting_def)
  note b = stage_book [OF rd ok', simplified, OF stored_or_id_pk]
  have here: "live_at J st1 ''books'' l" "text_at J st1 ''books'' l ''merged_into'' = None"
    using b(3) [of "JBool False"] b(2) [of JNull]
    by (auto simp: live_at_def flag_at_def is_deleted_def bind_eq_Some_conv)
  have IH: "books_differ J (set ls) st1 st'"
    "\<forall>k \<in> set ls. live_at J st' ''books'' k \<and> text_at J st' ''books'' k ''merged_into'' = None"
    using Cons.IH [OF b(4) rest] by auto
  have "live_at J st' ''books'' l \<and> text_at J st' ''books'' l ''merged_into'' = None"
  proof (cases "l \<in> set ls")
    case False
    then have "row_at J st' ''books'' l = row_at J st1 ''books'' l" using IH(1) by (simp add: books_differ_def)
    from view_cong [OF this] here show ?thesis by simp
  qed (use IH(2) in blast)
  with IH b(1) ra show ?case by (auto simp: books_differ_def)
qed

lemma restore_survivor_view:
  assumes "merge_ready st" "restore_survivor J E now remap u st = (st', None)"
  shows "books_differ J {bmu_survivor_id u} st st'"
proof (cases "bmu_survivor_prior_created_at u")
  case None
  with assms show ?thesis by (simp add: restore_survivor_def books_differ_def)
next
  case (Some prev)
  let ?i = "bmu_survivor_id u"
  obtain c o' where te: "try_each (lower_earliest J E st) (still_merged remap u) prev = (c, o')" by (metis surj_pair)
  let ?p = "fmupd ''updated_at'' (json_i64 now) (fmupd ''created_at'' (json_i64 c)
      (stored_or_id ?i (row_at J st ''books'' ?i)))"
  have "stage_local_write J st ''books'' ?i ?p now = Inr st'"
    using assms(2) unfolding restore_survivor_def Some option.case te prod.case
      get_row_at [OF merge_schemas(2)] sum.case
    by (cases o') (simp_all add: stage_or_fail_None)
  note b = stage_book [OF assms(1) this, simplified, OF stored_or_id_pk]
  show ?thesis using b(1,4) by (auto simp: books_differ_def)
qed

text \<open>What an undo that returns does to the store.\<close>

lemma unmerge_books_effect:
  assumes "merge_ready st" "unmerge_books J E now st u = (Inr (), st')" "bmu_loser_ids u \<noteq> []"
    and "\<forall>r \<in> set (bmu_reassignments u). nba_prior_book_id r = f (nba_note_id r)"
    and "bmu_survivor_id u \<notin> set (bmu_loser_ids u)"
  shows "\<exists>st1. moved J f (nba_note_id ` set (bmu_reassignments u)) st st1 \<and>
    row_at J st' ''notes'' = row_at J st1 ''notes'' \<and>
    (\<forall>l \<in> set (bmu_loser_ids u). live_at J st' ''books'' l \<and> text_at J st' ''books'' l ''merged_into'' = None)"
proof -
  obtain st1 e1 where s1: "try_each (restore_note J E now) (bmu_reassignments u) st = (st1, e1)" by (metis surj_pair)
  obtain st2 e2 where s2: "try_each (resurrect_loser J E now) (bmu_loser_ids u) st1 = (st2, e2)" by (metis surj_pair)
  obtain m where m: "load_merged_book_ids J st2 = m" by blast
  note eqs = unmerge_books_def s1 s2 m prod.case
  have e: "e1 = None" "e2 = None" "\<exists>remap. m = Inr remap"
    using assms(2,3) unfolding eqs by (cases e1; cases e2; cases m; simp add: s2 m)+
  then obtain remap where mr: "m = Inr remap" by blast
  obtain st3 e3 where s3: "restore_survivor J E now remap u st2 = (st3, e3)" by (metis surj_pair)
  have e3: "e3 = None" and st': "st' = save_merged_book_ids J st3 (prune_redirects u remap)"
    using assms(2,3) unfolding eqs by (cases e3; simp add: s2 m mr e s3)+
  have mv: "moved J f (nba_note_id ` set (bmu_reassignments u)) st st1"
    using restore_notes [OF assms(1) _ assms(4)] s1 e(1) by blast
  then have rd1: "merge_ready st1" by (simp add: moved_def)
  have b2: "books_differ J (set (bmu_loser_ids u)) st1 st2"
    and l2: "\<forall>l \<in> set (bmu_loser_ids u). live_at J st2 ''books'' l \<and> text_at J st2 ''books'' l ''merged_into'' = None"
    using resurrect_losers [OF rd1] s2 e(2) by blast+
  have b3: "books_differ J {bmu_survivor_id u} st2 st3"
    by (rule restore_survivor_view [of st2 J E now remap u st3]) (use b2 s3 e3 in \<open>simp_all add: books_differ_def\<close>)
  have "tables st' = tables st3" by (simp add: st' save_merged_book_ids_def meta_set_def)
  note ra = row_at_frame [OF this, of J]
  have "row_at J st' ''notes'' = row_at J st1 ''notes''"
    using b2 b3 unfolding ra by (intro ext) (simp add: books_differ_def)
  moreover have "live_at J st' ''books'' l \<and> text_at J st' ''books'' l ''merged_into'' = None"
    if l: "l \<in> set (bmu_loser_ids u)" for l
  proof -
    have "l \<noteq> bmu_survivor_id u" using l assms(5) by auto
    then have "row_at J st' ''books'' l = row_at J st2 ''books'' l"
      using b3 by (simp add: ra books_differ_def)
    from view_cong [OF this] l2 l show ?thesis by simp
  qed
  ultimately show ?thesis using mv by blast
qed

lemma merge_undo_token:
  assumes "merge_ready st" "merge_books J E now st sid lids = (Inr u, st')"
    and prior: "load_merged_book_ids J st = Inr prior"
    and l: "l \<in> set (clean_loser_ids sid lids)" "live_at J st ''books'' l"
  shows "bmu_survivor_id u = sid" "bmu_loser_ids u = fresh_losers J prior st (clean_loser_ids sid lids)"
    "set (bmu_reassignments u) = assignments J st (fresh_losers J prior st (clean_loser_ids sid lids))"
proof -
  let ?ls = "clean_loser_ids sid lids"
  obtain p s s' st2 where tr: "merge_trace J st sid ?ls u st' p s s' st2"
    using merge_books_stages [OF assms(1,2) l] by blast
  then have p: "p = prior" and ms: "mg_store s = save_merged_book_ids J st (fold (\<lambda>lid m. fmupd lid sid m) ?ls prior)"
    using prior by (auto simp: merge_trace_def)
  have "tables (mg_store s) = tables st" by (simp add: ms save_merged_book_ids_def meta_set_def)
  note ra = row_at_frame [OF this, of J]
  have fl: "fresh_losers J prior (mg_store s) ls = fresh_losers J prior st ls" for ls
    using live_at_cong [of J "mg_store s" "''books''" st] ra by (simp add: fresh_losers_def live_losers_def)
  have as: "assignments J (mg_store s) ls = assignments J st ls" for ls
    by (simp add: assignments_def notes_on_def flag_at_def text_at_def ra)
  have "merged_losers J sid prior ?ls s s'" "bmu_survivor_id (mg_undo s) = sid" "bmu_loser_ids (mg_undo s) = []"
    "bmu_reassignments (mg_undo s) = []" "mg_undo s' = u"
    using tr unfolding merge_trace_def p by blast+
  then show "bmu_survivor_id u = sid" "bmu_loser_ids u = fresh_losers J prior st ?ls"
    "set (bmu_reassignments u) = assignments J st (fresh_losers J prior st ?ls)"
    by (simp_all add: merged_losers_def Let_def fl as)
qed


subsection \<open>A shelf to merge\<close>

definition flat_serde :: serde where
  "flat_serde = \<lparr>to_str = (\<lambda>_. ''x''), from_str = (\<lambda>_. Some (JObject fmempty))\<rparr>"

definition shelf_row :: "(string \<times> sqlval) list \<Rightarrow> sqlrow" where
  "shelf_row vs = fold (\<lambda>(c, v) r. r(c := v)) vs ((\<lambda>_. SNull)(''created_at'' := SInteger 5,
     ''updated_at'' := SInteger 5, ''deleted'' := SInteger 0))"

definition shelf_store :: store where
  "shelf_store = empty_store\<lparr>tables := (\<lambda>_. [])(
     ''books'' := [shelf_row [(''id'', SText ''s'')], shelf_row [(''id'', SText ''l'')]],
     ''notes'' := [shelf_row [(''id'', SText ''n1''), (''book_id'', SText ''l'')],
                   shelf_row [(''id'', SText ''n2''), (''book_id'', SText ''s'')]])\<rparr>"

lemma shelf_store_inv: "store_inv shelf_store"
  unfolding shelf_store_def by (rule store_inv_tables)
    (simp add: schema_defs shelf_row_def pk_unique_def pk_of_def row_typed_def is_i64_def i64_min_def i64_max_def)

lemma shelf_keyed: "keyed ''notes'' shelf_store"
  by (simp add: keyed_def merge_schemas shelf_store_def shelf_row_def)

lemma shelf_live: "live_at flat_serde shelf_store ''books'' ''l''"
proof -
  have "case row_at flat_serde shelf_store ''books'' ''l'' of Some r \<Rightarrow> \<not> is_deleted r | None \<Rightarrow> False"
    by code_simp
  then show ?thesis by (simp add: live_at_def split: option.splits)
qed

lemma shelf_on: "''n1'' \<in> notes_on flat_serde shelf_store ''l''"
proof -
  have "flag_at flat_serde shelf_store ''notes'' ''n1'' = Some (JBool False) \<and>
      text_at flat_serde shelf_store ''notes'' ''n1'' ''book_id'' = Some ''l''"
    by code_simp
  then show ?thesis by (simp add: notes_on_def)
qed

definition shelf_merge :: "(string + book_merge_undo) \<times> store" where
  "shelf_merge = merge_books flat_serde (\<lambda>_. []) 9 shelf_store ''s'' [''l'']"

lemma shelf_merges: "\<exists>u st'. shelf_merge = (Inr u, st')"
proof -
  have "case shelf_merge of (Inr u, _) \<Rightarrow> True | _ \<Rightarrow> False" by code_simp
  then show ?thesis by (auto split: prod.splits sum.splits)
qed

theorem merge_books_rehomes_witness:
  "\<exists>u st'. merge_books flat_serde (\<lambda>_. []) 9 shelf_store ''s'' [''l''] = (Inr u, st') \<and>
     ''n1'' \<in> notes_on flat_serde st' ''s'' \<and> dead_at flat_serde st' ''books'' ''l''"
proof -
  obtain u st' where m: "merge_books flat_serde (\<lambda>_. []) 9 shelf_store ''s'' [''l''] = (Inr u, st')"
    using shelf_merges by (auto simp: shelf_merge_def)
  have "''l'' \<in> set [''l'']" "''l'' \<noteq> []" "''l'' \<noteq> ''s''" by simp_all
  from merge_books_rehomes [OF shelf_store_inv shelf_keyed m this shelf_live] shelf_on m show ?thesis by blast
qed


end
