(* ===== verification/Repairs.thy ===== *)
theory Repairs
  imports Book_Merge
begin

text \<open>
  What the passes after a pull may and may not touch: the cover pass spends at most its budget and
  leaves the books it is not entitled to alone, the stranded-note pass moves notes onto live books
  only, and the duplicate pass never retires the last copy of a text.
\<close>

subsection \<open>Staged writes and tables\<close>

lemma stage_other_table:
  assumes "stage_local_write J st table rid p now = Inr st'" "tb \<noteq> table"
  shows "row_at J st' tb = row_at J st tb"
proof -
  have "stage_write_inner J st table rid p now = Inr st'" using assms(1) by (simp add: stage_local_write_def)
  then show ?thesis
  proof (rule stage_write_inner_Inr)
    fix ex p' st1
    assume ap: "apply_row J st table (unwrap_or ex fmempty ++\<^sub>f p') = Inr st1"
      and st': "st' = enqueue st1 table rid (to_str J (JObject p')) now"
    show ?thesis using get_row_apply_other [OF ap assms(2)] by (intro ext) (simp add: row_at_def st')
  qed
qed

lemma store_inv_stage: "store_inv st \<Longrightarrow> stage_local_write J st table rid p now = Inr st' \<Longrightarrow> store_inv st'"
  by (simp add: stage_local_write_def store_inv_stage_inner)

subsection \<open>Covers\<close>

lemma cover_outcome_spends:
  assumes "\<forall>t a w. calls (snd (rs_search_cover snk t a w)) \<le> Suc (calls w)"
  shows "calls (snd (snd (cover_outcome_of snk book budget w))) + fst (snd (cover_outcome_of snk book budget w))
    \<le> calls w + (budget :: nat)"
proof -
  obtain r w' where s: "rs_search_cover snk (str_trim (str_of book ''title'')) (row_str book ''author'') w = (r, w')"
    by (metis surj_pair)
  then have "calls w' \<le> Suc (calls w)" using assms by (metis snd_conv)
  then show ?thesis using s by (auto simp: cover_outcome_of_def Let_def split: option.splits)
qed

lemma resolve_cover_spends:
  assumes "\<forall>t a w. calls (snd (rs_search_cover snk t a w)) \<le> Suc (calls w)"
  shows "calls (cv_world (resolve_cover J snk clk ib s)) + cv_budget (resolve_cover J snk clk ib s)
    \<le> calls (cv_world s) + cv_budget s"
proof (cases ib)
  case (Pair i book)
  obtain out b w where o': "cover_outcome_of snk book (cv_budget s) (cv_world s) = (out, b, w)" by (metis surj_pair)
  then have "calls w + b \<le> calls (cv_world s) + cv_budget s"
    using cover_outcome_spends [OF assms, of book "cv_budget s" "cv_world s"] by simp
  then show ?thesis
    by (simp add: resolve_cover_def Pair Let_def o' case_prod_beta split: option.splits)
qed

lemma covers_spend:
  assumes "\<forall>t a w. calls (snd (rs_search_cover snk t a w)) \<le> Suc (calls w)"
  shows "calls (cv_world (fold (resolve_cover J snk clk) xs s)) \<le> calls (cv_world s) + cv_budget s"
proof -
  have "calls (cv_world (fold (resolve_cover J snk clk) xs s)) + cv_budget (fold (resolve_cover J snk clk) xs s)
      \<le> calls (cv_world s) + cv_budget s"
    by (induction xs arbitrary: s) (auto intro: order_trans resolve_cover_spends [OF assms])
  then show ?thesis by simp
qed

text \<open>
  Property C34.  A cover pass asks Open Library at most ten times, whatever the shelf holds and
  whatever the answers are; with the switch off it asks nothing and writes nothing.
\<close>

theorem cover_pass_bounded:
  assumes "\<forall>t a w. calls (snd (rs_search_cover snk t a w)) \<le> Suc (calls w)"
    and "\<forall>k w. calls (snd (rs_fetch_app_config snk k w)) = calls w"
    and "reconcile_covers J E snk clk st w = (res, st', w')"
  shows "calls w' \<le> calls w + 10 \<and> (\<not> fst (egress_enabled snk w) \<longrightarrow> calls w' = calls w \<and> st' = st \<and> res = Inr 0)"
proof -
  obtain on w1 where eg: "egress_enabled snk w = (on, w1)" by (metis surj_pair)
  have w1: "calls w1 = calls w"
    using eg assms(2) by (auto simp: egress_enabled_def split: prod.splits) (metis snd_conv)+
  show ?thesis
    using assms(3) w1 covers_spend [OF assms(1), of J clk _ "\<lparr>cv_store = st, cv_resolved = 0,
        cv_budget = COVER_SEARCH_BUDGET_PER_PASS, cv_world = w1\<rparr>"]
    by (auto simp: reconcile_covers_def eg Let_def COVER_SEARCH_BUDGET_PER_PASS_def
        split: bool.splits sum.splits)
qed

lemma stage_cover:
  assumes "store_inv st" "cover_patch i out now = Some p" "stage_or_skip J ''books'' i p now st = (st', ok)"
  shows "(tb, k) \<noteq> (''books'', i) \<Longrightarrow> row_at J st' tb k = row_at J st tb k" "store_inv st'"
proof -
  have pk: "fmlookup p (pk_of books_desc) = Some (JString i)"
    using assms(2) by (cases out) (auto simp: cover_patch_def fmlookup_of_list)
  show "row_at J st' tb k = row_at J st tb k" if "(tb, k) \<noteq> (''books'', i)"
  proof (cases ok)
    case True
    then have "stage_write_inner J st ''books'' i p now = Inr st'"
      using assms(3) by (auto simp: stage_or_skip_def stage_local_write_def split: sum.splits)
    from stage_view(1) [OF assms(1) this merge_schemas(2) pk that] show ?thesis .
  qed (use assms(3) in \<open>auto simp: stage_or_skip_def split: sum.splits\<close>)
  show "store_inv st'"
    using assms(1,3) store_inv_stage by (auto simp: stage_or_skip_def split: sum.splits)
qed

lemma resolve_cover_scope:
  assumes "store_inv (cv_store s)" "\<not> (wants_cover book \<and> tb = ''books'' \<and> k = str_of book ''id'')"
  shows "row_at J (cv_store (resolve_cover J snk clk (i, book) s)) tb k = row_at J (cv_store s) tb k"
proof (cases "wants_cover book")
  case True
  obtain out b w where o': "cover_outcome_of snk book (cv_budget s) (cv_world s) = (out, b, w)" by (metis surj_pair)
  show ?thesis
  proof (cases "Option.bind out (\<lambda>out. cover_patch (str_of book ''id'') out (clk i))")
    case None
    then show ?thesis by (simp add: resolve_cover_def Let_def o')
  next
    case (Some p)
    then obtain out' where p: "cover_patch (str_of book ''id'') out' (clk i) = Some p" by (auto simp: bind_eq_Some_conv)
    obtain st' ok where ss: "stage_or_skip J ''books'' (str_of book ''id'') p (clk i) (cv_store s) = (st', ok)"
      by (metis surj_pair)
    from stage_cover(1) [OF assms(1) p ss, of tb k] assms(2) True Some ss show ?thesis
      by (auto simp: resolve_cover_def Let_def o')
  qed
qed (simp add: resolve_cover_def)

lemma resolve_cover_inv:
  assumes "store_inv (cv_store s)"
  shows "store_inv (cv_store (resolve_cover J snk clk (i, book) s))"
proof -
  obtain out b w where o': "cover_outcome_of snk book (cv_budget s) (cv_world s) = (out, b, w)" by (metis surj_pair)
  show ?thesis
    using assms by (auto simp: resolve_cover_def Let_def o' stage_or_skip_def split: option.splits prod.splits sum.splits
        intro: store_inv_stage)
qed

lemma covers_scope:
  "store_inv (cv_store s) \<Longrightarrow> \<not> (tb = ''books'' \<and> (\<exists>b \<in> set (map snd xs). wants_cover b \<and> k = str_of b ''id'')) \<Longrightarrow>
   row_at J (cv_store (fold (resolve_cover J snk clk) xs s)) tb k = row_at J (cv_store s) tb k"
proof (induction xs arbitrary: s)
  case (Cons x xs)
  obtain i book where x: "x = (i, book)" by (cases x)
  have "row_at J (cv_store (resolve_cover J snk clk x s)) tb k = row_at J (cv_store s) tb k"
    using Cons.prems resolve_cover_scope [of s book tb k] by (auto simp: x)
  with Cons.IH [OF resolve_cover_inv [OF Cons.prems(1), of J snk clk i book]] Cons.prems(2) show ?case
    by (simp add: x)
qed simp

text \<open>
  The cover pass writes only to books that want a cover: a manual cover, a source
  that is no book, a book that has a cover, one that was tried since its last edit and every other
  table are left exactly as they are.
\<close>

theorem cover_pass_scope:
  assumes "store_inv st" "keyed ''books'' st" "reconcile_covers J E snk clk st w = (res, st', w')"
    and "tb \<noteq> ''books'' \<or> (\<forall>b. row_at J st ''books'' i = Some b \<longrightarrow> \<not> wants_cover b)"
  shows "row_at J st' tb i = row_at J st tb i"
proof -
  obtain on w1 where eg: "egress_enabled snk w = (on, w1)" by (metis surj_pair)
  obtain bs where bs: "list_live J st ''books'' None (-1) 0 = Inr bs"
    and rows: "\<forall>b \<in> set bs. row_at J st ''books'' (str_of b ''id'') = Some b"
    using scan_live [OF assms(1,2) merge_schemas(2) read_has_column(1) read_pks(3)] by blast
  let ?s = "\<lparr>cv_store = st, cv_resolved = 0, cv_budget = COVER_SEARCH_BUDGET_PER_PASS, cv_world = w1\<rparr>"
  have "\<not> (tb = ''books'' \<and> (\<exists>b \<in> set (map snd (enumerate 0 bs)). wants_cover b \<and> i = str_of b ''id''))"
    using assms(4) rows by auto
  from covers_scope [of ?s tb "enumerate 0 bs" i J snk clk, OF _ this] assms(1)
  have "row_at J (cv_store (fold (resolve_cover J snk clk) (enumerate 0 bs) ?s)) tb i = row_at J st tb i" by simp
  then show ?thesis
    using assms(3) by (cases on) (auto simp: reconcile_covers_def eg mapped_list_def bs Let_def)
qed

definition asking_sink :: "nat repair_sink" where
  "asking_sink = \<lparr>rs_fetch_by_ids = (\<lambda>_ _ _ w. (Inr [], w)), rs_fetch_app_config = (\<lambda>_ w. (Inr None, w)),
     rs_search_cover = (\<lambda>_ _ w. (Inr None, Suc w))\<rparr>"

theorem cover_pass_bounded_witness:
  "snd (snd (reconcile_covers flat_serde (\<lambda>_. []) asking_sink (\<lambda>_. 9) shelf_store 3)) \<le> 3 + 10"
proof -
  obtain res st' w' where r: "reconcile_covers flat_serde (\<lambda>_. []) asking_sink (\<lambda>_. 9) shelf_store 3 = (res, st', w')"
    by (metis surj_pair)
  have "\<forall>t a w. (\<lambda>w. w) (snd (rs_search_cover asking_sink t a w)) \<le> Suc ((\<lambda>w. w) w)"
    "\<forall>k w. (\<lambda>w. w) (snd (rs_fetch_app_config asking_sink k w)) = (\<lambda>w. w) w"
    by (simp_all add: asking_sink_def)
  from cover_pass_bounded [OF this r] r show ?thesis by simp
qed

definition manual_store :: store where
  "manual_store = empty_store\<lparr>tables := (\<lambda>_. [])(
     ''books'' := [shelf_row [(''id'', SText ''m''), (''cover_source'', SText ''manual'')], shelf_row [(''id'', SText ''b'')]])\<rparr>"

lemma manual_store_inv: "store_inv manual_store"
  unfolding manual_store_def by (rule store_inv_tables)
    (simp add: schema_defs shelf_row_def pk_unique_def pk_of_def row_typed_def is_i64_def i64_min_def i64_max_def)

theorem cover_pass_scope_witness:
  "row_at flat_serde (fst (snd (reconcile_covers flat_serde (\<lambda>_. []) asking_sink (\<lambda>_. 9) manual_store 3))) ''books'' ''m'' =
   row_at flat_serde manual_store ''books'' ''m''"
proof -
  obtain res st' w' where r: "reconcile_covers flat_serde (\<lambda>_. []) asking_sink (\<lambda>_. 9) manual_store 3 = (res, st', w')"
    by (metis surj_pair)
  have k: "keyed ''books'' manual_store" by (simp add: keyed_def merge_schemas manual_store_def shelf_row_def)
  have "case row_at flat_serde manual_store ''books'' ''m'' of None \<Rightarrow> False | Some b \<Rightarrow> \<not> wants_cover b" by code_simp
  then have "''books'' \<noteq> ''books'' \<or> (\<forall>b. row_at flat_serde manual_store ''books'' ''m'' = Some b \<longrightarrow> \<not> wants_cover b)"
    by (simp split: option.splits)
  from cover_pass_scope [OF manual_store_inv k r this] r show ?thesis by simp
qed

subsection \<open>Stranded notes\<close>

lemma walk_survivor_row:
  "walk_survivor J st remap n i row = Inr (i', row') \<Longrightarrow> row = row_at J st ''books'' i \<Longrightarrow>
   row' = row_at J st ''books'' i'"
proof (induction n arbitrary: i row)
  case (Suc n)
  then show ?case
    by (auto simp: get_row_at [OF merge_schemas(2)] split: option.splits if_splits)
qed auto

lemma survivor_liveness:
  assumes "row_at J st ''books'' b = Some book" "resolve_survivor J st b book remap = Inr (sv, L)"
  shows "L = Live \<longleftrightarrow> live_at J st ''books'' sv"
proof -
  obtain row where w: "walk_survivor J st remap 20 b (Some book) = Inr (sv, row)" and L: "L = liveness_of row"
    using assms(2) by (auto simp: resolve_survivor_def and_then_Inr)
  from walk_survivor_row [OF w] assms(1) have "row = row_at J st ''books'' sv" by simp
  then show ?thesis by (auto simp: L liveness_of_def live_at_def split: option.splits)
qed

lemma walk_survivor_cong:
  "row_at J st' ''books'' = row_at J st ''books'' \<Longrightarrow> walk_survivor J st' remap n i row = walk_survivor J st remap n i row"
  by (induction n arbitrary: i row) (simp_all add: get_row_at [OF merge_schemas(2)] split: option.splits)

lemma resolve_survivor_cong:
  "row_at J st' ''books'' = row_at J st ''books'' \<Longrightarrow> resolve_survivor J st' b bk remap = resolve_survivor J st b bk remap"
  unfolding resolve_survivor_def by (simp only: walk_survivor_cong [of J st' st])

text \<open>Where a note belongs: none when it stays, otherwise its new book or no book.\<close>

definition stranded_home :: "serde \<Rightarrow> (string, string) fmap \<Rightarrow> store \<Rightarrow> row \<Rightarrow> string option option" where
  "stranded_home J remap st r =
     (case row_str r ''book_id'' of None \<Rightarrow> None
      | Some b \<Rightarrow>
          (case row_at J st ''books'' b of None \<Rightarrow> None
           | Some book \<Rightarrow>
               if \<not> is_deleted book then None
               else (case resolve_survivor J st b book remap of
                       Inr (sv, Live) \<Rightarrow> Some (Some sv) | Inr (_, Deleted) \<Rightarrow> Some None | _ \<Rightarrow> None)))"

lemma stranded_home_cong:
  "row_at J st' ''books'' = row_at J st ''books'' \<Longrightarrow> stranded_home J remap st' r = stranded_home J remap st r"
  unfolding stranded_home_def by (simp only: resolve_survivor_cong [of J st' st])

lemma rehome_stranded_eq:
  "rehome_stranded J remap clk (k, r) s =
     (case stranded_home J remap (sn_store s) r of
        None \<Rightarrow> s
      | Some (Some sv) \<Rightarrow>
          (case stage_local_write J (sn_store s) ''notes'' (str_of r ''id'')
                  (rehome_patch (str_of r ''id'') (JString sv) (clk (2 * k))) (clk (2 * k + 1)) of
             Inr st' \<Rightarrow> s\<lparr>sn_store := st', sn_rehomed := Suc (sn_rehomed s)\<rparr> | Inl e \<Rightarrow> s)
      | Some None \<Rightarrow>
          (case apply_row J (sn_store s) ''notes'' (fmupd ''content_tag'' JNull (fmupd ''book_id'' JNull r)) of
             Inr st' \<Rightarrow> s\<lparr>sn_store := st', sn_detached := Suc (sn_detached s)\<rparr> | Inl e \<Rightarrow> s))"
proof (cases "row_str r ''book_id''")
  case (Some b)
  show ?thesis
  proof (cases "row_at J (sn_store s) ''books'' b")
    case None
    with Some show ?thesis by (simp add: rehome_stranded_def stranded_home_def get_row_at [OF merge_schemas(2)])
  next
    case (Some book)
    with \<open>row_str r ''book_id'' = Some b\<close> show ?thesis
      unfolding rehome_stranded_def stranded_home_def get_row_at [OF merge_schemas(2)] Let_def
      by (cases "resolve_survivor J (sn_store s) b book remap") (simp_all split: prod.split survivor_liveness.split)
  qed
qed (simp add: rehome_stranded_def stranded_home_def)

text \<open>What the pass owes a note: its new home, unless the write is refused for want of a newer
  stamp.\<close>

definition settled ::
  "serde \<Rightarrow> (string, string) fmap \<Rightarrow> store \<Rightarrow> store \<Rightarrow> row \<Rightarrow> string \<Rightarrow> bool" where
  "settled J remap st st' r i \<longleftrightarrow>
     (case stranded_home J remap st r of
        None \<Rightarrow> row_at J st' ''notes'' i = row_at J st ''notes'' i
      | Some h \<Rightarrow>
          text_at J st' ''notes'' i ''book_id'' = h \<and> flag_at J st' ''notes'' i = Some (JBool False) \<or>
          h \<noteq> None \<and> row_at J st' ''notes'' i = row_at J st ''notes'' i \<and>
          stored_stamp J st ''notes'' i = i64_max)"

lemma detach_note:
  assumes rd: "merge_ready st" and r: "row_at J st ''notes'' i = Some r" "fmlookup r ''deleted'' = Some (JBool False)"
    and ap: "apply_row J st ''notes'' (fmupd ''content_tag'' JNull (fmupd ''book_id'' JNull r)) = Inr st'"
  shows "text_at J st' ''notes'' i ''book_id'' = None" "flag_at J st' ''notes'' i = Some (JBool False)"
    "(tb, k) \<noteq> (''notes'', i) \<Longrightarrow> row_at J st' tb k = row_at J st tb k" "merge_ready st'"
proof -
  let ?p = "fmupd ''content_tag'' JNull (fmupd ''book_id'' JNull r)"
  have k: "row_str ?p (pk_of notes_desc) = Some i"
    using row_at_pk [OF merge_schemas(1) r(1)] by (simp add: row_str_def)
  note get = get_row_apply [OF ap merge_schemas(1) k]
  have at: "row_at J st' ''notes'' i = Some (stored_row J notes_desc ?p)" by (simp add: row_at_def get)
  show "text_at J st' ''notes'' i ''book_id'' = None"
    by (simp add: text_at_def at stored_row_text [OF merge_columns(2)]) (simp add: row_str_def)
  show "flag_at J st' ''notes'' i = Some (JBool False)"
    using r(2) by (simp add: flag_at_def at fmlookup_stored_row note_flag json_to_sql_def sql_to_json_def)
  show "(tb, k) \<noteq> (''notes'', i) \<Longrightarrow> row_at J st' tb k = row_at J st tb k"
    using get get_row_apply_other [OF ap] by (cases "tb = ''notes''") (auto simp: row_at_def)
  have "store_inv st'" using store_inv_apply ap rd by (auto simp: merge_ready_def)
  moreover have "sql_of_row J notes_desc ?p ''id'' = SText i"
    using sql_of_row_pk [OF table_schema_Some(2) [OF merge_schemas(1)], of J ?p] k by simp
  then have "keyed ''notes'' st'"
    using rd by (auto simp: merge_ready_def keyed_def merge_schemas apply_row_tables [OF ap merge_schemas(1)])
  ultimately show "merge_ready st'" by (simp add: merge_ready_def)
qed

lemma rehome_stranded_step:
  assumes rd: "merge_ready (sn_store s)"
    and r: "row_at J (sn_store s) ''notes'' (str_of r ''id'') = Some r" "fmlookup r ''deleted'' = Some (JBool False)"
    and st'_def: "st' = sn_store (rehome_stranded J remap clk (k, r) s)"
  shows "merge_ready st' \<and> settled J remap (sn_store s) st' r (str_of r ''id'') \<and>
    (\<forall>tb i. (tb, i) \<noteq> (''notes'', str_of r ''id'') \<longrightarrow> row_at J st' tb i = row_at J (sn_store s) tb i)"
proof -
  let ?st = "sn_store s" and ?i = "str_of r ''id''"
  note eq = st'_def rehome_stranded_eq
  show ?thesis
  proof (cases "stranded_home J remap ?st r")
    case None
    with rd show ?thesis by (simp add: eq settled_def)
  next
    case (Some h)
    show ?thesis
    proof (cases h)
      case None
      obtain st1 where ap: "apply_row J ?st ''notes'' (fmupd ''content_tag'' JNull (fmupd ''book_id'' JNull r)) = Inr st1"
        using apply_row_ok [OF merge_schemas(1)] by blast
      have "st' = st1" by (simp add: eq Some None ap)
      with detach_note [OF rd r ap] show ?thesis by (simp add: settled_def Some None)
    next
      case (Some sv)
      let ?p = "rehome_patch ?i (JString sv) (clk (2 * k))"
      show ?thesis
      proof (cases "stage_local_write J ?st ''notes'' ?i ?p (clk (2 * k + 1))")
        case (Inl e)
        have "st' = ?st"
          unfolding eq \<open>stranded_home J remap ?st r = Some h\<close> Some option.case Inl by simp
        moreover have "stored_stamp J ?st ''notes'' ?i = i64_max"
          using Inl stage_write_inner_succeeds [OF merge_schemas(1), of ?p J ?st ?i "clk (2 * k + 1)"]
          by (auto simp: stage_local_write_def)
        ultimately show ?thesis
          using rd by (simp add: settled_def \<open>stranded_home J remap ?st r = Some h\<close> Some)
      next
        case (Inr st1)
        have st1: "st' = st1"
          unfolding eq \<open>stranded_home J remap ?st r = Some h\<close> Some option.case Inr by simp
        note one = stage_rehome [OF rd Inr, of sv, simplified]
        have "flag_at J ?st ''notes'' ?i = Some (JBool False)" using r by (simp add: flag_at_def)
        with one(1) have "text_at J st1 ''notes'' ?i ''book_id'' = Some sv" "flag_at J st1 ''notes'' ?i = Some (JBool False)"
          by (simp_all add: rehomed_def)
        with one(2,3) show ?thesis
          by (simp add: st1 settled_def \<open>stranded_home J remap ?st r = Some h\<close> Some)
      qed
    qed
  qed
qed

lemma settled_cong:
  assumes "row_at J st' ''notes'' i = row_at J st1 ''notes'' i" "row_at J st0 ''notes'' i = row_at J st ''notes'' i"
    "row_at J st0 ''books'' = row_at J st ''books''"
  shows "settled J remap st0 st1 r i \<Longrightarrow> settled J remap st st' r i"
proof -
  have "stored_stamp J st0 ''notes'' i = stored_stamp J st ''notes'' i"
    using assms(2) by (simp add: stored_stamp_def get_row_at [OF merge_schemas(1)])
  then show "settled J remap st0 st1 r i \<Longrightarrow> settled J remap st st' r i"
    using view_cong [OF assms(1)] assms(1,2)
    by (auto simp: settled_def stranded_home_cong [OF assms(3)] split: option.splits)
qed

lemma rehome_stranded_all:
  assumes "merge_ready (sn_store s)" "distinct (map (\<lambda>x. str_of (snd x) ''id'') xs)"
    and "\<forall>x \<in> set xs. row_at J (sn_store s) ''notes'' (str_of (snd x) ''id'') = Some (snd x) \<and>
      fmlookup (snd x) ''deleted'' = Some (JBool False)"
    and st'_def: "st' = sn_store (fold (rehome_stranded J remap clk) xs s)"
  shows "row_at J st' ''books'' = row_at J (sn_store s) ''books'' \<and>
    (\<forall>x \<in> set xs. settled J remap (sn_store s) st' (snd x) (str_of (snd x) ''id'')) \<and>
    (\<forall>i. i \<notin> (\<lambda>x. str_of (snd x) ''id'') ` set xs \<longrightarrow> row_at J st' ''notes'' i = row_at J (sn_store s) ''notes'' i)"
  unfolding st'_def using assms(1-3)
proof (induction xs arbitrary: s)
  case (Cons x xs)
  let ?s1 = "rehome_stranded J remap clk x s" and ?i = "str_of (snd x) ''id''"
  let ?st = "sn_store s" and ?st1 = "sn_store ?s1"
  let ?st' = "sn_store (fold (rehome_stranded J remap clk) xs ?s1)"
  have "merge_ready ?st1 \<and> settled J remap ?st ?st1 (snd x) ?i \<and>
      (\<forall>tb i. (tb, i) \<noteq> (''notes'', ?i) \<longrightarrow> row_at J ?st1 tb i = row_at J ?st tb i)"
    using rehome_stranded_step [OF Cons.prems(1), of J "snd x" ?st1 remap clk "fst x"] Cons.prems(3) by simp
  then have rd1: "merge_ready ?st1" and here: "settled J remap ?st ?st1 (snd x) ?i"
    and other: "\<And>tb i. (tb, i) \<noteq> (''notes'', ?i) \<Longrightarrow> row_at J ?st1 tb i = row_at J ?st tb i" by blast+
  have bk: "row_at J ?st1 ''books'' = row_at J ?st ''books''" using other by (intro ext) simp
  have "?i \<notin> (\<lambda>x. str_of (snd x) ''id'') ` set xs" using Cons.prems(2) by simp
  then have ni: "str_of (snd y) ''id'' \<noteq> ?i" if "y \<in> set xs" for y
    using imageI [OF that, of "\<lambda>x. str_of (snd x) ''id''"] by metis
  have rows: "\<forall>y \<in> set xs. row_at J ?st1 ''notes'' (str_of (snd y) ''id'') = Some (snd y) \<and>
      fmlookup (snd y) ''deleted'' = Some (JBool False)"
    using Cons.prems(3) other ni by simp
  have ds: "distinct (map (\<lambda>x. str_of (snd x) ''id'') xs)" using Cons.prems(2) by simp
  note IH = Cons.IH [OF rd1 ds rows]
  have "row_at J ?st' ''notes'' ?i = row_at J ?st1 ''notes'' ?i"
    using IH Cons.prems(2) by auto
  from settled_cong [OF this refl refl here] have "settled J remap ?st ?st' (snd x) ?i" .
  moreover have "settled J remap ?st ?st' (snd y) (str_of (snd y) ''id'')" if y: "y \<in> set xs" for y
    by (rule settled_cong [OF refl other bk]) (use IH y ni [OF y] in auto)
  ultimately show ?case using IH bk other by auto
qed simp

lemma stranded_pass:
  assumes "store_inv st" "keyed ''notes'' st" "load_merged_book_ids J st = Inr remap"
    and "reconcile_stranded_notes J E clk st = (res, st')"
  shows "\<exists>ns. list_live J st ''notes'' None (-1) 0 = Inr ns \<and>
    (\<forall>r \<in> set ns. row_at J st ''notes'' (str_of r ''id'') = Some r \<and> settled J remap st st' r (str_of r ''id'')) \<and>
    (\<forall>i. i \<notin> (\<lambda>r. str_of r ''id'') ` set ns \<longrightarrow> row_at J st' ''notes'' i = row_at J st ''notes'' i) \<and>
    row_at J st' ''books'' = row_at J st ''books''"
proof -
  have rd: "merge_ready st" using assms(1,2) by (simp add: merge_ready_def)
  obtain ns where ns: "list_live J st ''notes'' None (-1) 0 = Inr ns" and ds: "distinct (map (\<lambda>n. str_of n ''id'') ns)"
    and rows: "\<forall>n \<in> set ns. row_at J st ''notes'' (str_of n ''id'') = Some n \<and> fmlookup n ''deleted'' = Some (JBool False)"
    using scan_live [OF assms(1,2) merge_schemas(1) read_has_column(2) read_pks(1)] by blast
  let ?s = "\<lparr>sn_store = st, sn_rehomed = 0, sn_detached = 0\<rparr>" and ?xs = "enumerate 0 ns"
  have st': "st' = sn_store (fold (rehome_stranded J remap clk) ?xs ?s)"
    using assms(3,4) by (simp add: reconcile_stranded_notes_def mapped_list_def ns Let_def)
  have ids: "map (\<lambda>x. str_of (snd x) ''id'') ?xs = map (\<lambda>n. str_of n ''id'') ns"
    by (simp flip: map_map [unfolded comp_def, of "\<lambda>n. str_of n ''id''" snd])
  have snds: "snd ` set ?xs = set ns" using map_snd_enumerate [of 0 ns] by (metis set_map)
  have "\<forall>x \<in> set ?xs. snd x \<in> set ns" using snds by blast
  then have rx: "\<forall>x \<in> set ?xs. row_at J (sn_store ?s) ''notes'' (str_of (snd x) ''id'') = Some (snd x) \<and>
      fmlookup (snd x) ''deleted'' = Some (JBool False)" using rows by simp
  have all: "row_at J st' ''books'' = row_at J st ''books'' \<and>
      (\<forall>x \<in> set ?xs. settled J remap st st' (snd x) (str_of (snd x) ''id'')) \<and>
      (\<forall>i. i \<notin> (\<lambda>x. str_of (snd x) ''id'') ` set ?xs \<longrightarrow> row_at J st' ''notes'' i = row_at J st ''notes'' i)"
    using rehome_stranded_all [of ?s, OF _ _ rx st'] rd ds by (simp add: ids)
  have set: "settled J remap st st' r (str_of r ''id'')" if "r \<in> set ns" for r
  proof -
    have "r \<in> snd ` set ?xs" using that snds by blast
    then obtain x where "x \<in> set ?xs" "snd x = r" by blast
    with all show ?thesis by blast
  qed
  have out: "row_at J st' ''notes'' i = row_at J st ''notes'' i" if "i \<notin> (\<lambda>r. str_of r ''id'') ` set ns" for i
  proof -
    have "(\<lambda>x. str_of (snd x) ''id'') ` set ?xs = (\<lambda>r. str_of r ''id'') ` set ns"
      using arg_cong [OF ids, of set] by simp
    with that all show ?thesis by (simp only:) blast
  qed
  show ?thesis using ns rows set out all by (intro exI [of _ ns]) blast
qed


text \<open>A note on a tombstone that points at a live book.\<close>

definition stranded_store :: store where
  "stranded_store = empty_store\<lparr>tables := (\<lambda>_. [])(
     ''books'' := [shelf_row [(''id'', SText ''s'')],
                   shelf_row [(''id'', SText ''l''), (''merged_into'', SText ''s''), (''deleted'', SInteger 1)]],
     ''notes'' := [shelf_row [(''id'', SText ''n1''), (''book_id'', SText ''l'')]])\<rparr>"

lemma stranded_store_inv: "store_inv stranded_store"
  unfolding stranded_store_def by (rule store_inv_tables)
    (simp add: schema_defs shelf_row_def pk_unique_def pk_of_def row_typed_def is_i64_def i64_min_def i64_max_def)


subsection \<open>Groups\<close>

lemma push_group_concat:
  "mset (concat (map snd (push_group k x m))) = add_mset x (mset (concat (map snd m)))"
proof -
  have "mset (concat (map snd (bt_update k (\<lambda>xs. unwrap_or xs [] @ [x]) m))) = add_mset x (mset (concat (map snd m)))"
    by (induction k "\<lambda>xs. unwrap_or xs [] @ [x]" m rule: bt_update.induct) auto
  then show ?thesis by (simp add: push_group_def)
qed

definition group_by :: "('a \<Rightarrow> 'k::linorder option) \<Rightarrow> 'a list \<Rightarrow> ('k \<times> 'a list) list \<Rightarrow> ('k \<times> 'a list) list" where
  "group_by f xs m = fold (\<lambda>x m. case f x of None \<Rightarrow> m | Some k \<Rightarrow> push_group k x m) xs m"

lemma group_by_members:
  "\<forall>(k, g) \<in> set m. \<forall>x \<in> set g. f x = Some k \<Longrightarrow> \<forall>(k, g) \<in> set (group_by f xs m). \<forall>x \<in> set g. f x = Some k"
proof -
  have push: "\<forall>(k, g) \<in> set m. \<forall>x \<in> set g. f x = Some k \<Longrightarrow> f x = Some k' \<Longrightarrow>
      \<forall>(k, g) \<in> set (push_group k' x m). \<forall>x \<in> set g. f x = Some k" for k' x m
    unfolding push_group_def
    by (induction k' "\<lambda>xs. unwrap_or xs [] @ [x]" m rule: bt_update.induct) (auto split: if_splits)
  show "\<forall>(k, g) \<in> set m. \<forall>x \<in> set g. f x = Some k \<Longrightarrow>
      \<forall>(k, g) \<in> set (group_by f xs m). \<forall>x \<in> set g. f x = Some k"
    unfolding group_by_def
  proof (induction xs arbitrary: m)
    case (Cons y ys)
    show ?case
    proof (cases "f y")
      case (Some k)
      from Cons.IH [OF push [OF Cons.prems Some]] show ?thesis by (simp add: Some)
    qed (use Cons.IH [OF Cons.prems] in simp)
  qed simp
qed

lemma group_by_concat:
  "mset (concat (map snd (group_by f xs m))) = mset (filter (\<lambda>x. f x \<noteq> None) xs) + mset (concat (map snd m))"
  unfolding group_by_def by (induction xs arbitrary: m) (auto simp: push_group_concat split: option.splits)

lemma distinct_groups: "distinct xs \<Longrightarrow> distinct (concat (map snd (group_by f xs [])))"
  using group_by_concat [of f xs "[]"] mset_eq_imp_distinct_iff [of "concat (map snd (group_by f xs []))" "filter (\<lambda>x. f x \<noteq> None) xs"]
  by simp

lemma set_groups: "set (concat (map snd (group_by f xs []))) \<subseteq> set xs"
proof -
  have "set (concat (map snd (group_by f xs []))) = set (filter (\<lambda>x. f x \<noteq> None) xs)"
    using group_by_concat [of f xs "[]"] mset_eq_setD [of "concat (map snd (group_by f xs []))" "filter (\<lambda>x. f x \<noteq> None) xs"]
    by simp
  then show ?thesis by auto
qed

lemma distinct_concat_filter: "distinct (concat gs) \<Longrightarrow> distinct (concat (filter P gs))"
  by (induction gs) auto

text \<open>The clusters of the duplicate pass: disjoint, of scanned notes, one derived tag each.\<close>

lemma stored_groups_eq:
  "stored_tag_groups notes' = group_by (\<lambda>r. if str_of r ''content_tag'' \<noteq> [] then Some (str_of r ''content_tag'') else None) notes' []"
  unfolding stored_tag_groups_def group_by_def by (rule fold_cong) auto

lemma clusters:
  assumes "distinct ns" and gs_def: "gs = map snd (derived_groups C U v ns)"
  shows "distinct (concat gs)" "set (concat gs) \<subseteq> set ns"
    "g \<in> set gs \<Longrightarrow> \<exists>tag. \<forall>n \<in> set g. derived_tag C U v n = Some tag"
proof -
  let ?ys = "concat (filter (\<lambda>g. 2 \<le> length g) (map snd (stored_tag_groups ns)))"
  have dg: "derived_groups C U v ns = group_by (derived_tag C U v) ?ys []"
    by (simp add: derived_groups_def group_by_def)
  have "distinct ?ys" unfolding stored_groups_eq using distinct_groups [OF assms(1)] by (rule distinct_concat_filter)
  then show "distinct (concat gs)" unfolding gs_def dg by (rule distinct_groups)
  have "set ?ys \<subseteq> set ns" using set_groups unfolding stored_groups_eq by fastforce
  then show "set (concat gs) \<subseteq> set ns" using set_groups [of "derived_tag C U v" ?ys] unfolding gs_def dg by blast
  show "\<exists>tag. \<forall>n \<in> set g. derived_tag C U v n = Some tag" if "g \<in> set gs"
  proof -
    have "g \<in> snd ` set (group_by (derived_tag C U v) ?ys [])" using that by (simp only: gs_def dg set_map)
    then obtain k where "(k, g) \<in> set (group_by (derived_tag C U v) ?ys [])" by auto
    with group_by_members [of "[]" "derived_tag C U v" ?ys] show ?thesis by fastforce
  qed
qed

subsection \<open>Merging one cluster\<close>

lemma try_each_keeps: "(\<And>x s. P s \<Longrightarrow> P (fst (f x s))) \<Longrightarrow> P s \<Longrightarrow> P (fst (try_each f xs s))"
proof (induction xs arbitrary: s)
  case (Cons x xs)
  obtain s' o' where fx: "f x s = (s', o')" by (cases "f x s")
  with Cons.prems(1) [OF Cons.prems(2), of x] have "P s'" by simp
  with Cons.IH [OF Cons.prems(1)] fx show ?case by (cases o') auto
qed simp

text \<open>The notes are those of \<open>st0\<close>.\<close>

definition notes_as :: "serde \<Rightarrow> store \<Rightarrow> store \<Rightarrow> bool" where
  "notes_as J st0 st \<longleftrightarrow> store_inv st \<and> row_at J st ''notes'' = row_at J st0 ''notes''"

lemma notes_as_stage: "notes_as J st0 st \<Longrightarrow> table \<noteq> ''notes'' \<Longrightarrow> notes_as J st0 (fst (stage_or_fail J E c table i r now st))"
  using stage_other_table [of J st table i r now _ "''notes''"] store_inv_stage [of st J table i r now]
  by (auto simp: notes_as_def stage_or_fail_def split: sum.splits)

lemma notes_as_links: "notes_as J st0 st \<Longrightarrow> notes_as J st0 (fst (repoint_note_links J E st sid ids now))"
proof -
  assume st: "notes_as J st0 st"
  have "notes_as J st0 (fst s) \<Longrightarrow> notes_as J st0 (fst (fst (repoint_edge J E sid ids now e s)))" for e s
    using notes_as_stage [of J st0 "fst s" "''note_links''"] by (simp add: repoint_edge_def Let_def case_prod_beta)
  then have "notes_as J st0 (fst (fst (try_each (repoint_edge J E sid ids now) es (st, seen))))" for es seen
    using try_each_keeps [of "\<lambda>s. notes_as J st0 (fst s)" "repoint_edge J E sid ids now" "(st, seen)" es] st by simp
  then show ?thesis using st by (simp add: repoint_note_links_def Let_def case_prod_beta split: sum.splits)
qed

lemma notes_as_memberships: "notes_as J st0 st \<Longrightarrow> notes_as J st0 (fst (repoint_memberships J E st sid ids now))"
proof -
  assume st: "notes_as J st0 st"
  have step: "notes_as J st0 (fst (fst (repoint_membership J E sid ids now m s)))" if s: "notes_as J st0 (fst s)" for m s
  proof -
    obtain st1 e1 where s1: "stage_or_fail J E (''tombstone membership '' @ str_of m ''id'' @ '': '')
        ''collection_memberships'' (str_of m ''id'') (tombstone_patch (str_of m ''id'') now) now (fst s) = (st1, e1)"
      by (metis surj_pair)
    have "notes_as J st0 (fst (stage_or_fail J E (''tombstone membership '' @ str_of m ''id'' @ '': '')
        ''collection_memberships'' (str_of m ''id'') (tombstone_patch (str_of m ''id'') now) now (fst s)))"
      by (rule notes_as_stage [OF s]) simp
    then have r1: "notes_as J st0 st1" unfolding s1 by simp
    have "notes_as J st0 (fst (stage_or_fail J E c ''collection_memberships'' i r now st1))" for c i r
      using notes_as_stage [OF r1] by simp
    with r1 s show ?thesis
      unfolding repoint_membership_def Let_def s1 prod.case
      by (cases e1) (auto simp: case_prod_beta split: sum.splits)
  qed
  have "notes_as J st0 (fst (fst (try_each (repoint_membership J E sid ids now) es (st, seen))))" for es seen
    using try_each_keeps [of "\<lambda>s. notes_as J st0 (fst s)" "repoint_membership J E sid ids now" "(st, seen)" es] st step by simp
  then show ?thesis using st by (simp add: repoint_memberships_def Let_def case_prod_beta split: sum.splits)
qed

lemma soft_delete_scope:
  "store_inv (fst s) \<Longrightarrow> store_inv (fst (fold (soft_delete_loser J now) ids s)) \<and>
   (\<forall>i. i \<notin> set ids \<longrightarrow> row_at J (fst (fold (soft_delete_loser J now) ids s)) ''notes'' i = row_at J (fst s) ''notes'' i)"
proof (induction ids arbitrary: s)
  case (Cons l ids)
  let ?p = "tombstone_patch l now"
  have pk: "fmlookup ?p (pk_of notes_desc) = Some (JString l)" by (simp add: tombstone_patch_def fmlookup_of_list)
  have one: "store_inv (fst (soft_delete_loser J now l s)) \<and>
      (\<forall>i. i \<noteq> l \<longrightarrow> row_at J (fst (soft_delete_loser J now l s)) ''notes'' i = row_at J (fst s) ''notes'' i)"
  proof (cases "stage_local_write J (fst s) ''notes'' l ?p now")
    case (Inr st1)
    then have "stage_write_inner J (fst s) ''notes'' l ?p now = Inr st1" by (simp add: stage_local_write_def)
    note v = stage_view [OF Cons.prems this merge_schemas(1) pk]
    have "fst (soft_delete_loser J now l s) = st1" by (simp add: soft_delete_loser_def stage_or_skip_def Inr)
    with v(1) v(5) show ?thesis by simp
  qed (use Cons.prems in \<open>simp add: soft_delete_loser_def stage_or_skip_def\<close>)
  then show ?case using Cons.IH [of "soft_delete_loser J now l s"] by simp
qed simp

lemma survivor_patch_keys:
  "fmlookup (survivor_patch sv losers now) ''id'' = Some (JString (str_of sv ''id''))"
  "fmlookup (survivor_patch sv losers now) ''deleted'' = None"
  by (simp_all add: survivor_patch_def Let_def fmlookup_of_list split: option.splits)

lemma merge_survivor_scope:
  assumes inv: "store_inv st" and fl: "flag_at J st ''notes'' (str_of sv ''id'') = Some (JBool False)"
    and sid: "str_of sv ''id'' \<notin> (\<lambda>l. str_of l ''id'') ` set losers"
    and m: "merge_into_survivor J E now st sv losers = (res, st')"
  shows "store_inv st' \<and> flag_at J st' ''notes'' (str_of sv ''id'') = Some (JBool False) \<and>
    (\<forall>i. i \<notin> insert (str_of sv ''id'') ((\<lambda>l. str_of l ''id'') ` set losers) \<longrightarrow> row_at J st' ''notes'' i = row_at J st ''notes'' i)"
proof -
  let ?sid = "str_of sv ''id''" and ?ids = "sort (remdups (map (\<lambda>l. str_of l ''id'') losers))"
  let ?p = "survivor_patch sv losers now"
  obtain st1 e1 where s1: "stage_or_fail J E (''stage survivor '' @ ?sid @ '': '') ''notes'' ?sid ?p now st = (st1, e1)"
    by (metis surj_pair)
  obtain st2 e2 where s2: "repoint_note_links J E st1 ?sid ?ids now = (st2, e2)" by (metis surj_pair)
  obtain st3 e3 where s3: "repoint_memberships J E st2 ?sid ?ids now = (st3, e3)" by (metis surj_pair)
  have first: "store_inv st1 \<and> flag_at J st1 ''notes'' ?sid = Some (JBool False) \<and>
      (\<forall>i. i \<noteq> ?sid \<longrightarrow> row_at J st1 ''notes'' i = row_at J st ''notes'' i)"
  proof (cases e1)
    case None
    then have "stage_write_inner J st ''notes'' ?sid ?p now = Inr st1"
      using s1 by (simp only: stage_or_fail_None stage_local_write_def)
    note v = stage_view [OF inv this merge_schemas(1), simplified, OF survivor_patch_keys(1)]
    show ?thesis using v(1,3,5) fl survivor_patch_keys(2) by (simp add: keeps_flag_def)
  next
    case (Some e)
    then have "st1 = st" using s1 by (auto simp: stage_or_fail_def split: sum.splits)
    with inv fl show ?thesis by simp
  qed
  have n2: "notes_as J st1 st2" using notes_as_links [of J st1 st1] first s2 by (metis fst_conv notes_as_def)
  have n3: "notes_as J st1 st3" using notes_as_memberships [OF n2] s3 by (metis fst_conv)
  obtain st4 n where s4: "fold (soft_delete_loser J now) ?ids (st3, 0) = (st4, n)" by (metis surj_pair)
  have four: "store_inv st4 \<and> (\<forall>i. i \<notin> (\<lambda>l. str_of l ''id'') ` set losers \<longrightarrow> row_at J st4 ''notes'' i = row_at J st3 ''notes'' i)"
    using soft_delete_scope [of "(st3, 0 :: nat)" J now ?ids] n3 by (simp add: s4 notes_as_def)
  have st': "st' \<in> {st1, st2, st3, st4}"
    using m unfolding merge_into_survivor_def Let_def s1 prod.case
    by (cases e1; cases e2; cases e3) (auto simp: s2 s3 s4)
  have same: "\<forall>i. i \<notin> (\<lambda>l. str_of l ''id'') ` set losers \<longrightarrow> row_at J st' ''notes'' i = row_at J st1 ''notes'' i"
    and inv': "store_inv st'"
    using st' n2 n3 four first by (auto simp: notes_as_def)
  from same sid have "row_at J st' ''notes'' ?sid = row_at J st1 ''notes'' ?sid" by blast
  from view_cong [OF this] first same inv' show ?thesis by auto
qed

text \<open>One cluster: only its notes change, and each that dies leaves another of them listed.\<close>

lemma collapse_cluster_scope:
  assumes "store_inv (fst s)" "distinct (map (\<lambda>n. str_of n ''id'') g)"
    and "\<forall>n \<in> set g. flag_at J (fst s) ''notes'' (str_of n ''id'') = Some (JBool False)"
    and st'_def: "st' = fst (collapse_cluster J E clk (k, g) s)"
  shows "store_inv st' \<and>
    (\<forall>i. i \<notin> (\<lambda>n. str_of n ''id'') ` set g \<longrightarrow> row_at J st' ''notes'' i = row_at J (fst s) ''notes'' i) \<and>
    (\<forall>n \<in> set g. dead_at J st' ''notes'' (str_of n ''id'') \<longrightarrow>
       (\<exists>m \<in> set g. str_of m ''id'' \<noteq> str_of n ''id'' \<and> flag_at J st' ''notes'' (str_of m ''id'') = Some (JBool False)))"
proof (cases "\<exists>sv l ls. sort_by survivor_le g = sv # l # ls")
  case False
  then have "st' = fst s" unfolding st'_def collapse_cluster_def by (auto split: list.splits)
  with assms(1,3) show ?thesis by (simp add: dead_at_flag)
next
  case True
  then obtain sv l ls where g: "sort_by survivor_le g = sv # l # ls" by blast
  have "mset (map (\<lambda>n. str_of n ''id'') (sv # l # ls)) = mset (map (\<lambda>n. str_of n ''id'') g)"
    using mset_sort_by [of survivor_le g] unfolding g mset_map by simp
  then have ds: "distinct (map (\<lambda>n. str_of n ''id'') (sv # l # ls))"
    using assms(2) mset_eq_imp_distinct_iff by blast
  have sg: "set g = insert sv (set (l # ls))" using set_sort_by [of survivor_le g] by (simp add: g)
  obtain res st1 where m: "merge_into_survivor J E (clk k) (fst s) sv (l # ls) = (res, st1)" by (metis surj_pair)
  have st1: "st' = st1" unfolding st'_def collapse_cluster_def by (cases res) (simp_all add: g m)
  have sid: "str_of sv ''id'' \<notin> (\<lambda>l. str_of l ''id'') ` set (l # ls)" using ds by simp
  have "flag_at J (fst s) ''notes'' (str_of sv ''id'') = Some (JBool False)" using assms(3) sg by blast
  from merge_survivor_scope [OF assms(1) this sid m] have sc: "store_inv st'"
    "flag_at J st' ''notes'' (str_of sv ''id'') = Some (JBool False)"
    "\<forall>i. i \<notin> (\<lambda>n. str_of n ''id'') ` set g \<longrightarrow> row_at J st' ''notes'' i = row_at J (fst s) ''notes'' i"
    by (auto simp: st1 sg)
  have "str_of sv ''id'' \<noteq> str_of n ''id''" if "dead_at J st' ''notes'' (str_of n ''id'')" for n
    using sc(2) that by (auto simp: dead_at_flag)
  with sc sg show ?thesis by blast
qed

lemma collapse_all:
  assumes "store_inv (fst s)" "distinct (map (\<lambda>n. str_of n ''id'') (concat (map snd xs)))"
    and "\<forall>n \<in> set (concat (map snd xs)). flag_at J (fst s) ''notes'' (str_of n ''id'') = Some (JBool False)"
    and st'_def: "st' = fst (fold (collapse_cluster J E clk) xs s)"
  shows "(\<forall>i. i \<notin> (\<lambda>n. str_of n ''id'') ` set (concat (map snd xs)) \<longrightarrow> row_at J st' ''notes'' i = row_at J (fst s) ''notes'' i) \<and>
    (\<forall>x \<in> set xs. \<forall>n \<in> set (snd x). dead_at J st' ''notes'' (str_of n ''id'') \<longrightarrow>
       (\<exists>m \<in> set (snd x). str_of m ''id'' \<noteq> str_of n ''id'' \<and> flag_at J st' ''notes'' (str_of m ''id'') = Some (JBool False)))"
  unfolding st'_def using assms(1-3)
proof (induction xs arbitrary: s)
  case (Cons x xs)
  let ?id = "\<lambda>n. str_of n ''id''" and ?s1 = "collapse_cluster J E clk x s"
  let ?rest = "concat (map snd xs)" and ?st' = "fst (fold (collapse_cluster J E clk) xs ?s1)"
  have ds: "distinct (map ?id (snd x))" "distinct (map ?id ?rest)"
    and disj: "?id ` set (snd x) \<inter> ?id ` set ?rest = {}"
    using Cons.prems(2) by (simp_all only: list.map concat.simps map_append distinct_append set_map)
  have "store_inv (fst ?s1) \<and>
      (\<forall>i. i \<notin> ?id ` set (snd x) \<longrightarrow> row_at J (fst ?s1) ''notes'' i = row_at J (fst s) ''notes'' i) \<and>
      (\<forall>n \<in> set (snd x). dead_at J (fst ?s1) ''notes'' (?id n) \<longrightarrow>
         (\<exists>m \<in> set (snd x). ?id m \<noteq> ?id n \<and> flag_at J (fst ?s1) ''notes'' (?id m) = Some (JBool False)))"
    using collapse_cluster_scope [OF Cons.prems(1) ds(1), of J "fst ?s1" E clk "fst x"] Cons.prems(3) by simp
  then have inv: "store_inv (fst ?s1)"
    and out: "\<And>i. i \<notin> ?id ` set (snd x) \<Longrightarrow> row_at J (fst ?s1) ''notes'' i = row_at J (fst s) ''notes'' i"
    and here: "\<And>n. n \<in> set (snd x) \<Longrightarrow> dead_at J (fst ?s1) ''notes'' (?id n) \<Longrightarrow>
       \<exists>m \<in> set (snd x). ?id m \<noteq> ?id n \<and> flag_at J (fst ?s1) ''notes'' (?id m) = Some (JBool False)"
    by blast+
  have "flag_at J (fst ?s1) ''notes'' (?id n) = Some (JBool False)" if "n \<in> set ?rest" for n
  proof -
    have "?id n \<notin> ?id ` set (snd x)" using disj imageI [OF that, of ?id] by blast
    from view_cong [OF out [OF this]] Cons.prems(3) that show ?thesis by simp
  qed
  note IH = Cons.IH [OF inv ds(2) ballI [OF this]]
  have kept: "row_at J ?st' ''notes'' (?id n) = row_at J (fst ?s1) ''notes'' (?id n)" if "n \<in> set (snd x)" for n
    using IH disj imageI [OF that, of ?id] by blast
  have "\<exists>m \<in> set (snd x). ?id m \<noteq> ?id n \<and> flag_at J ?st' ''notes'' (?id m) = Some (JBool False)"
    if n: "n \<in> set (snd x)" "dead_at J ?st' ''notes'' (?id n)" for n
  proof -
    have "dead_at J (fst ?s1) ''notes'' (?id n)" using n(2) view_cong [OF kept [OF n(1)]] by simp
    from here [OF n(1) this] obtain m where m: "m \<in> set (snd x)" "?id m \<noteq> ?id n"
      "flag_at J (fst ?s1) ''notes'' (?id m) = Some (JBool False)" by blast
    with view_cong [OF kept [OF m(1)]] show ?thesis by auto
  qed
  moreover have "row_at J ?st' ''notes'' i = row_at J (fst s) ''notes'' i" if "i \<notin> ?id ` set (concat (map snd (x # xs)))" for i
  proof -
    have "i \<notin> ?id ` set (snd x)" "i \<notin> ?id ` set ?rest" using that by (simp_all add: image_Un)
    with IH out show ?thesis by metis
  qed
  ultimately show ?case using IH by simp
qed simp

text \<open>
  Property C26.  The duplicate pass never loses a text: every note it deletes opened under its own
  id, and another note that was stored with the same content tag, derived from its own opened text
  and book, is still listed afterwards.
\<close>

theorem duplicates_keep_a_copy:
  assumes "store_inv st" "keyed ''notes'' st" "reconcile_content_dupes J E C U clk st v = (res, st')"
    and "dead_at J st' ''notes'' i" "\<not> dead_at J st ''notes'' i"
  shows "\<exists>n m tag. row_at J st ''notes'' i = Some n \<and> row_at J st ''notes'' (str_of m ''id'') = Some m \<and>
    str_of m ''id'' \<noteq> i \<and> derived_tag C U v n = Some tag \<and> derived_tag C U v m = Some tag \<and>
    flag_at J st' ''notes'' (str_of m ''id'') = Some (JBool False)"
proof -
  let ?id = "\<lambda>n. str_of n ''id''"
  obtain ns where ns: "list_live J st ''notes'' None (-1) 0 = Inr ns" and ds: "distinct (map ?id ns)"
    and rows: "\<forall>n \<in> set ns. row_at J st ''notes'' (?id n) = Some n \<and> fmlookup n ''deleted'' = Some (JBool False)"
    using scan_live [OF assms(1,2) merge_schemas(1) read_has_column(2) read_pks(1)] by blast
  define gs where "gs = map snd (derived_groups C U v ns)"
  let ?xs = "enumerate 0 gs"
  have dn: "distinct ns" using ds by (simp add: distinct_map)
  note cl = clusters [OF dn gs_def]
  have "inj_on ?id (set ns)" using ds by (simp add: distinct_map)
  then have "inj_on ?id (set (concat gs))" using cl(2) by (rule inj_on_subset)
  then have dc: "distinct (map ?id (concat (map snd ?xs)))" using cl(1) by (simp add: distinct_map)
  have fl: "\<forall>n \<in> set (concat (map snd ?xs)). flag_at J (fst (st, 0 :: nat)) ''notes'' (?id n) = Some (JBool False)"
    using rows cl(2) by (auto simp: flag_at_def simp del: set_concat)
  have st': "st' = fst (fold (collapse_cluster J E clk) ?xs (st, 0))"
    using assms(3) by (simp add: reconcile_content_dupes_def mapped_list_def ns Let_def gs_def [symmetric] case_prod_beta)
  have all: "(\<forall>k. k \<notin> ?id ` set (concat (map snd ?xs)) \<longrightarrow> row_at J st' ''notes'' k = row_at J st ''notes'' k) \<and>
    (\<forall>x \<in> set ?xs. \<forall>n \<in> set (snd x). dead_at J st' ''notes'' (?id n) \<longrightarrow>
       (\<exists>m \<in> set (snd x). ?id m \<noteq> ?id n \<and> flag_at J st' ''notes'' (?id m) = Some (JBool False)))"
    using collapse_all [OF _ dc fl st'] assms(1) by simp
  have "row_at J st' ''notes'' i \<noteq> row_at J st ''notes'' i" using assms(4,5) by (auto simp: dead_at_def)
  then have "i \<in> ?id ` set (concat (map snd ?xs))" using all by blast
  then obtain n where n: "n \<in> set (concat gs)" "i = ?id n" by auto
  then obtain g where g: "g \<in> set gs" "n \<in> set g" by auto
  have "g \<in> snd ` set ?xs" using g(1) map_snd_enumerate [of 0 gs] by (metis set_map)
  then obtain x where x: "x \<in> set ?xs" "snd x = g" by blast
  have "dead_at J st' ''notes'' (?id n)" using assms(4) n(2) by simp
  then obtain m where m: "m \<in> set g" "?id m \<noteq> i" "flag_at J st' ''notes'' (?id m) = Some (JBool False)"
    using all x g(2) n(2) by blast
  obtain tag where tag: "\<forall>n \<in> set g. derived_tag C U v n = Some tag" using cl(3) [OF g(1)] by blast
  have "n \<in> set ns" "m \<in> set ns" using cl(2) g(1) g(2) m(1) by auto
  with rows n(2) m tag g(2) show ?thesis by metis
qed

text \<open>Two notes of one text; the text library maps every text to one tag.\<close>

definition twin_row :: "string \<Rightarrow> sqlrow" where
  "twin_row i = shelf_row [(''id'', SText i), (''content_tag'', SText ''t''),
     (''text'', SText (vault_encrypt_note toy_crypto toy_iv (new_vault toy_mk) (Some i) ''hi''))]"

definition twin_store :: store where
  "twin_store = empty_store\<lparr>tables := (\<lambda>_. [])(''notes'' := [twin_row ''a'', twin_row ''b''])\<rparr>"

definition twin_pass :: store where
  "twin_pass = snd (reconcile_content_dupes flat_serde (\<lambda>_. []) toy_crypto blank_text (\<lambda>_. 9) twin_store (new_vault toy_mk))"

lemma twin_store_inv: "store_inv twin_store"
proof -
  have "\<exists>s. twin_row i = shelf_row [(''id'', SText i), (''content_tag'', SText ''t''), (''text'', SText s)]" for i
    by (auto simp: twin_row_def)
  then obtain f where f: "\<And>i. twin_row i = shelf_row [(''id'', SText i), (''content_tag'', SText ''t''), (''text'', SText (f i))]"
    by metis
  show ?thesis
    unfolding twin_store_def f by (rule store_inv_tables)
      (simp add: schema_defs shelf_row_def pk_unique_def pk_of_def row_typed_def is_i64_def i64_min_def i64_max_def)
qed

lemma twin_flags:
  "flag_at flat_serde twin_pass ''notes'' ''a'' = Some (JBool True) \<and> flag_at flat_serde twin_store ''notes'' ''a'' = Some (JBool False) \<or>
   flag_at flat_serde twin_pass ''notes'' ''b'' = Some (JBool True) \<and> flag_at flat_serde twin_store ''notes'' ''b'' = Some (JBool False)"
  by code_simp

theorem duplicates_keep_a_copy_witness:
  "\<exists>i m. dead_at flat_serde twin_pass ''notes'' i \<and> str_of m ''id'' \<noteq> i \<and>
     flag_at flat_serde twin_pass ''notes'' (str_of m ''id'') = Some (JBool False)"
proof -
  obtain res where r: "reconcile_content_dupes flat_serde (\<lambda>_. []) toy_crypto blank_text (\<lambda>_. 9) twin_store
      (new_vault toy_mk) = (res, twin_pass)"
    by (metis twin_pass_def prod.collapse)
  have k: "keyed ''notes'' twin_store"
    by (simp add: keyed_def merge_schemas twin_store_def twin_row_def shelf_row_def)
  obtain i where i: "dead_at flat_serde twin_pass ''notes'' i" "\<not> dead_at flat_serde twin_store ''notes'' i"
    using twin_flags by (auto simp: dead_at_flag)
  from duplicates_keep_a_copy [OF twin_store_inv k r i] i show ?thesis by blast
qed

end
