(* ===== verification/Facade.thy ===== *)
theory Facade
  imports Reconcile
begin

text \<open>
  The write side of the sync engine, \<open>SyncEngine\<close> in \<open>src/src/sync/mod.rs\<close>: the drafts a host
  hands in, the partial rows they become and the staging call each ends in; the prompt settings;
  and the three sync calls.  A draft is a record with the fields of the source.  Where a method
  reads the clock twice (once for the row, once for the outbox) it has two stamps, \<open>now\<close> and
  \<open>queued\<close>; the bytes a sealing draws are an argument.  The mutex of the store is the state being
  one argument; a method that releases and retakes it is written as the sequence of its parts.
\<close>

subsection \<open>Errors and partial rows\<close>

datatype sync_error =
    StoreError string
  | FlushError string
  | InvalidImport string
  | PatchTargetMissing
  | EmbedderNotRegistered
  | EmbedError string

definition store_err :: "env \<Rightarrow> db_error \<Rightarrow> sync_error" where
  "store_err V e = StoreError (env_show V e)"

text \<open>\<open>.map_err(store_err)\<close>.\<close>

definition stored :: "env \<Rightarrow> db_error + 'a \<Rightarrow> sync_error + 'a" where
  "stored V r = (case r of Inl e \<Rightarrow> Inl (store_err V e) | Inr x \<Rightarrow> Inr x)"

definition insert_opt :: "string \<Rightarrow> json option \<Rightarrow> row \<Rightarrow> row" where
  "insert_opt key val r = (case val of None \<Rightarrow> r | Some v \<Rightarrow> fmupd key v r)"

definition clearable_columns :: "string \<Rightarrow> string list" where
  "clearable_columns table =
     (if table = ''books'' then [''isbn'', ''cover_url'', ''cover_source'', ''cover_resolved_at'']
      else if table = ''notes''
      then [''book_id'', ''chapter'', ''image_path'', ''ink_crop_path'', ''source_id'']
      else [])"

fun apply_clears :: "string \<Rightarrow> string list \<Rightarrow> row \<Rightarrow> sync_error + row" where
  "apply_clears table [] r = Inr r"
| "apply_clears table (field # rest) r =
     (if field \<notin> set (clearable_columns table)
      then Inl (StoreError (''a column requested for clearing is not clearable on '' @ table))
      else if field |\<in>| fmdom r
      then Inl (StoreError (''a '' @ table @ '' column is both set and cleared '' @ em_dash @
             '' pass a value or clear it, not both''))
      else apply_clears table rest (fmupd field JNull r))"

definition stage_write :: "env \<Rightarrow> int \<Rightarrow> store \<Rightarrow> string \<Rightarrow> string \<Rightarrow> row \<Rightarrow> sync_error + store" where
  "stage_write V queued st table record_id r =
     stored V (stage_local_write (env_serde V) st table record_id r queued)"

subsection \<open>Books\<close>

record book_upsert =
  bu_id :: string
  bu_title :: string
  bu_author :: "string option"
  bu_isbn :: "string option"
  bu_cover_url :: "string option"
  bu_cover_source :: "string option"
  bu_cover_resolved_at :: "int option"
  bu_status :: "source_status option"
  bu_kind :: "source_kind option"
  bu_url :: "string option"
  bu_created_at :: int
  bu_deleted :: bool
  bu_clear_nullable_fields :: "string list"

definition book_url_error :: sync_error where
  "book_url_error = StoreError ''book url is not an http(s) URL''"

definition draft_url :: "url_lib \<Rightarrow> string option \<Rightarrow> sync_error + string option" where
  "draft_url L url =
     (case url of None \<Rightarrow> Inr None
      | Some raw \<Rightarrow> (case normalize_source_url L raw of None \<Rightarrow> Inl book_url_error | Some u \<Rightarrow> Inr (Some u)))"

definition book_row :: "int \<Rightarrow> book_upsert \<Rightarrow> row" where
  "book_row now d =
     insert_opt ''author'' (map_option JString (bu_author d))
     (insert_opt ''isbn'' (map_option JString (bu_isbn d))
     (insert_opt ''cover_url'' (map_option JString (bu_cover_url d))
     (insert_opt ''cover_source'' (map_option JString (bu_cover_source d))
     (insert_opt ''cover_resolved_at'' (map_option json_i64 (bu_cover_resolved_at d))
     (fmap_of_list [(''id'', JString (bu_id d)), (''title'', JString (bu_title d)),
        (''created_at'', json_i64 (bu_created_at d)), (''updated_at'', json_i64 now),
        (''deleted'', JBool (bu_deleted d))])))))"

text \<open>A stored link that does not open under this vault is no link.\<close>

definition has_url :: "crypto \<Rightarrow> vault \<Rightarrow> string \<Rightarrow> row option \<Rightarrow> bool" where
  "has_url C v i existing =
     (case Option.bind existing (\<lambda>r. row_str r ''url'') of None \<Rightarrow> False
      | Some sealed \<Rightarrow> open_book_url C v i sealed \<noteq> None)"

definition stage_book ::
  "env \<Rightarrow> url_lib \<Rightarrow> string \<Rightarrow> int \<Rightarrow> int \<Rightarrow> vault \<Rightarrow> store \<Rightarrow> book_upsert \<Rightarrow> sync_error + store" where
  "stage_book V L iv now queued v st d =
     and_then (draft_url L (bu_url d)) (\<lambda>url.
     and_then (apply_clears ''books'' (bu_clear_nullable_fields d) (book_row now d)) (\<lambda>r.
     and_then (stored V (get_row (env_serde V) st ''books'' (bu_id d))) (\<lambda>existing.
       let status = (case bu_status d of Some s \<Rightarrow> Some s
             | None \<Rightarrow> if existing = None then Some ToRead else None);
           r1 = insert_opt ''kind'' (map_option (JString \<circ> kind_value) (bu_kind d))
             (insert_opt ''status'' (map_option (JString \<circ> status_value) status) r);
           r2 = (if has_url (env_crypto V) v (bu_id d) existing then r1
             else insert_opt ''url'' (map_option (\<lambda>u. JString (seal_book_url (env_crypto V) iv v (bu_id d) u)) url) r1)
       in stored V (stage_local_write (env_serde V) st ''books'' (bu_id d) r2 queued))))"

definition enqueue_book ::
  "env \<Rightarrow> url_lib \<Rightarrow> string \<Rightarrow> int \<Rightarrow> int \<Rightarrow> vault \<Rightarrow> store \<Rightarrow> book_upsert \<Rightarrow> sync_error + store" where
  "enqueue_book V L iv now queued v st d = stage_book V L iv now queued v st d"

definition find_or_create_book_by_url ::
  "env \<Rightarrow> url_lib \<Rightarrow> string \<Rightarrow> int \<Rightarrow> int \<Rightarrow> vault \<Rightarrow> store \<Rightarrow> book_upsert \<Rightarrow>
   (sync_error + book_record) \<times> store" where
  "find_or_create_book_by_url V L iv now queued v st d =
     (if bu_deleted d then (Inl (StoreError ''find_or_create_book_by_url needs a live draft''), st)
      else case Option.bind (bu_url d) (normalize_source_url L) of
          None \<Rightarrow> (Inl book_url_error, st)
        | Some url \<Rightarrow>
            (case find_book_by_url L (env_serde V) (env_crypto V) st v url of
               Inl e \<Rightarrow> (Inl (store_err V e), st)
             | Inr (Some found) \<Rightarrow> (Inr found, st)
             | Inr None \<Rightarrow>
                 (case stage_book V L iv now queued v st d of
                    Inl e \<Rightarrow> (Inl e, st)
                  | Inr st' \<Rightarrow>
                      (case get_book (env_serde V) (env_crypto V) st' v (bu_id d) of
                         Inl e \<Rightarrow> (Inl (store_err V e), st')
                       | Inr None \<Rightarrow> (Inl (StoreError ''book missing after staging''), st')
                       | Inr (Some b) \<Rightarrow> (Inr b, st')))))"

subsection \<open>Notes\<close>

record note_upsert =
  nu_id :: string
  nu_book_id :: "string option"
  nu_plaintext :: "string option"
  nu_page :: "string option"
  nu_tags :: "string list"
  nu_source :: "string option"
  nu_source_id :: "string option"
  nu_source_meta_json :: "string option"
  nu_chapter :: "string option"
  nu_image_path :: "string option"
  nu_ink_crop_path :: "string option"
  nu_created_at :: int
  nu_deleted :: bool
  nu_clear_nullable_fields :: "string list"

definition parse_source_meta :: "serde \<Rightarrow> string option \<Rightarrow> sync_error + json option" where
  "parse_source_meta J meta_json =
     (case meta_json of None \<Rightarrow> Inr None
      | Some s \<Rightarrow>
          (case from_str J s of
             None \<Rightarrow> Inl (StoreError ''source_meta_json is not valid JSON'')
           | Some v \<Rightarrow> if as_object v = None then Inl (StoreError ''source_meta_json must be a JSON object'')
                       else Inr (Some v)))"

definition note_row :: "int \<Rightarrow> json option \<Rightarrow> note_upsert \<Rightarrow> row" where
  "note_row now source_meta d =
     insert_opt ''book_id'' (map_option JString (nu_book_id d))
     (insert_opt ''page'' (map_option JString (nu_page d))
     (insert_opt ''source_id'' (map_option JString (nu_source_id d))
     (insert_opt ''source_meta'' source_meta
     (insert_opt ''chapter'' (map_option JString (nu_chapter d))
     (insert_opt ''image_path'' (map_option JString (nu_image_path d))
     (insert_opt ''ink_crop_path'' (map_option JString (nu_ink_crop_path d))
     (fmap_of_list [(''id'', JString (nu_id d)), (''tags'', JArray (map JString (nu_tags d))),
        (''updated_at'', json_i64 now), (''deleted'', JBool (nu_deleted d))])))))))"

text \<open>The columns of a full write: the sealed text, the tag of the plaintext, the source.\<close>

definition sealed_row :: "env \<Rightarrow> string \<Rightarrow> vault \<Rightarrow> note_upsert \<Rightarrow> string \<Rightarrow> row \<Rightarrow> row" where
  "sealed_row V iv v d plaintext r =
     fmupd ''created_at'' (json_i64 (nu_created_at d))
     (fmupd ''source'' (JString (unwrap_or (nu_source d) ''manual''))
     (fmupd ''content_tag'' (JString (vault_content_tag (env_crypto V) (env_text V) v plaintext (nu_book_id d)))
     (fmupd ''text'' (JString (vault_encrypt_note (env_crypto V) iv v (Some (nu_id d)) plaintext)) r)))"

text \<open>Everything a full write of a deleted note stages: the note, its signals, its cascade.\<close>

definition delete_writes ::
  "env \<Rightarrow> int \<Rightarrow> store \<Rightarrow> string \<Rightarrow> row \<Rightarrow> db_error + (string \<times> string \<times> row) list" where
  "delete_writes V now st i r =
     and_then (build_signals_tombstone (env_f64 V) (env_serde V) st i (row_str r ''source'') now) (\<lambda>tomb.
     and_then (stage_annotation_cascade_on_delete (env_f64 V) (env_serde V) now st i) (\<lambda>cascade.
       Inr ((''notes'', i, r) # (case tomb of None \<Rightarrow> [] | Some t \<Rightarrow> [(''note_signals'', i, t)]) @ cascade)))"

definition patched :: "env \<Rightarrow> stage_existing_error + store \<Rightarrow> sync_error + store" where
  "patched V r =
     (case r of Inl TargetMissing \<Rightarrow> Inl PatchTargetMissing | Inl (Sql e) \<Rightarrow> Inl (store_err V e)
      | Inr st \<Rightarrow> Inr st)"

definition enqueue_note ::
  "env \<Rightarrow> string \<Rightarrow> int \<Rightarrow> int \<Rightarrow> vault \<Rightarrow> store \<Rightarrow> note_upsert \<Rightarrow> sync_error + store" where
  "enqueue_note V iv now queued v st d =
     and_then (parse_source_meta (env_serde V) (nu_source_meta_json d)) (\<lambda>source_meta.
     and_then (apply_clears ''notes'' (nu_clear_nullable_fields d) (note_row now source_meta d)) (\<lambda>r.
       case nu_plaintext d of
         Some plaintext \<Rightarrow>
           let full = sealed_row V iv v d plaintext r
           in if nu_deleted d
              then and_then (stored V (delete_writes V now st (nu_id d) full))
                     (\<lambda>writes. stored V (stage_local_writes (env_serde V) st writes now))
              else stage_write V queued st ''notes'' (nu_id d) full
       | None \<Rightarrow>
           if nu_book_id d \<noteq> None \<or> ''book_id'' \<in> set (nu_clear_nullable_fields d)
           then Inl (StoreError ''plaintext-free note patches cannot change book_id'')
           else patched V (stage_existing_live_note_patch (env_f64 V) (env_serde V) st (nu_id d)
                  (insert_opt ''source'' (map_option JString (nu_source d)) r) (nu_deleted d) now)))"

subsection \<open>Ideas, links, lenses, collections\<close>

definition enqueue_custom_idea ::
  "env \<Rightarrow> int \<Rightarrow> int \<Rightarrow> store \<Rightarrow> string \<Rightarrow> string \<Rightarrow> string option \<Rightarrow> int \<Rightarrow> bool \<Rightarrow> sync_error + store" where
  "enqueue_custom_idea V now queued st i name description created_at deleted =
     stage_write V queued st ''custom_ideas'' i (fmap_of_list [(''id'', JString i), (''name'', JString name),
       (''description'', JString (unwrap_or description [])), (''created_at'', json_i64 created_at),
       (''updated_at'', json_i64 now), (''deleted'', JBool deleted)])"

definition enqueue_note_link ::
  "env \<Rightarrow> int \<Rightarrow> int \<Rightarrow> store \<Rightarrow> string \<Rightarrow> string \<Rightarrow> string \<Rightarrow> string option \<Rightarrow> int \<Rightarrow> bool \<Rightarrow>
   sync_error + store" where
  "enqueue_note_link V now queued st i from_note_id to_note_id relation_type created_at deleted =
     stage_write V queued st ''note_links'' i (fmap_of_list [(''id'', JString i),
       (''from_note_id'', JString from_note_id), (''to_note_id'', JString to_note_id),
       (''relation_type'', JString (unwrap_or relation_type ''handwritten_annotation'')),
       (''created_at'', json_i64 created_at), (''updated_at'', json_i64 now), (''deleted'', JBool deleted)])"

definition enqueue_lens ::
  "env \<Rightarrow> int \<Rightarrow> int \<Rightarrow> store \<Rightarrow> string \<Rightarrow> string \<Rightarrow> string list \<Rightarrow> string option \<Rightarrow> int option \<Rightarrow> int \<Rightarrow> bool \<Rightarrow>
   sync_error + store" where
  "enqueue_lens V now queued st i name leaf_ids combinator threshold created_at deleted =
     stage_write V queued st ''lenses'' i (fmap_of_list [(''id'', JString i), (''name'', JString name),
       (''leaf_ids'', JArray (map JString leaf_ids)), (''combinator'', JString (unwrap_or combinator ''AND'')),
       (''threshold'', json_i64 (unwrap_or threshold 100)), (''created_at'', json_i64 created_at),
       (''updated_at'', json_i64 now), (''deleted'', JBool deleted)])"

definition enqueue_collection ::
  "env \<Rightarrow> int \<Rightarrow> int \<Rightarrow> store \<Rightarrow> string \<Rightarrow> string \<Rightarrow> int \<Rightarrow> bool \<Rightarrow> sync_error + store" where
  "enqueue_collection V now queued st i name created_at deleted =
     stage_write V queued st ''collections'' i (fmap_of_list [(''id'', JString i), (''name'', JString name),
       (''created_at'', json_i64 created_at), (''updated_at'', json_i64 now), (''deleted'', JBool deleted)])"

text \<open>The two pair tables: a removal keeps the stored birth stamp and its delete is sticky, an
  addition drops the queued removal first.\<close>

definition stage_pair ::
  "env \<Rightarrow> int \<Rightarrow> store \<Rightarrow> string \<Rightarrow> string \<Rightarrow> row \<Rightarrow> bool \<Rightarrow> sync_error + store" where
  "stage_pair V now st table i r deleted =
     (if deleted
      then and_then (stored V (get_row (env_serde V) st table i)) (\<lambda>existing.
             stored V (stage_local_write (env_serde V) st table i
               (insert_opt ''created_at'' (map_option json_i64
                  (Option.bind existing (\<lambda>x. row_i64 x ''created_at''))) r) now))
      else stored V (stage_local_write_resurrecting (env_serde V) st table i r now))"

definition enqueue_collection_membership ::
  "env \<Rightarrow> int \<Rightarrow> store \<Rightarrow> string \<Rightarrow> string \<Rightarrow> int \<Rightarrow> bool \<Rightarrow> sync_error + store" where
  "enqueue_collection_membership V now st note_id collection_id created_at deleted =
     (let i = membership_id collection_id note_id in
      stage_pair V now st ''collection_memberships'' i (fmap_of_list [(''id'', JString i),
        (''note_id'', JString note_id), (''collection_id'', JString collection_id),
        (''created_at'', json_i64 created_at), (''updated_at'', json_i64 now), (''deleted'', JBool deleted)]) deleted)"

record question_note =
  qn_question_id :: string
  qn_note_id :: string
  qn_deleted :: bool

definition enqueue_question_note :: "env \<Rightarrow> int \<Rightarrow> store \<Rightarrow> question_note \<Rightarrow> sync_error + store" where
  "enqueue_question_note V now st d =
     (let i = question_note_id (qn_question_id d) (qn_note_id d) in
      stage_pair V now st ''question_notes'' i (fmap_of_list [(''id'', JString i),
        (''question_id'', JString (qn_question_id d)), (''note_id'', JString (qn_note_id d)),
        (''created_at'', json_i64 now), (''updated_at'', json_i64 now), (''deleted'', JBool (qn_deleted d))])
        (qn_deleted d))"

text \<open>A NaN or an infinity, which the method refuses, is \<open>None\<close>.\<close>

definition enqueue_note_signals ::
  "env \<Rightarrow> int \<Rightarrow> int \<Rightarrow> store \<Rightarrow> string \<Rightarrow> rat option \<Rightarrow> int \<Rightarrow> bool \<Rightarrow> int \<Rightarrow> int \<Rightarrow> int \<Rightarrow> rat option \<Rightarrow> int \<Rightarrow> bool \<Rightarrow>
   sync_error + store" where
  "enqueue_note_signals V now queued st note_id prior return_visits has_annotation stitch_spawns
       exposure_recency_at engagement_recency_at importance created_at deleted =
     (case (prior, importance) of
        (Some p, Some im) \<Rightarrow>
          stage_write V queued st ''note_signals'' note_id
            (signal_row note_id \<lparr>ss_source_prior = p, ss_return_visits = return_visits,
               ss_has_annotation = has_annotation, ss_stitch_spawns = stitch_spawns,
               ss_exposure_recency_at = exposure_recency_at, ss_engagement_recency_at = engagement_recency_at,
               ss_importance = Some im\<rparr> im created_at now deleted)
      | _ \<Rightarrow> Inl (StoreError ''source_prior and importance must be finite numbers''))"

subsection \<open>Settings and questions\<close>

definition set_user_setting :: "env \<Rightarrow> int \<Rightarrow> store \<Rightarrow> string \<Rightarrow> string \<Rightarrow> sync_error + store" where
  "set_user_setting V now st key val =
     stored V (stage_local_write (env_serde V) st ''user_settings'' key (fmap_of_list
       [(''key'', JString key), (''value'', JString val), (''updated_at'', json_i64 now),
        (''deleted'', JBool False)]) now)"

record question_upsert =
  qu_id :: string
  qu_plaintext :: "string option"
  qu_status :: "string option"
  qu_tone :: "string option"
  qu_resolved_at :: "int option"
  qu_checkin_at :: "int option"
  qu_checkin_response :: "string option"
  qu_created_at :: int
  qu_deleted :: bool

definition question_row :: "int \<Rightarrow> question_upsert \<Rightarrow> row" where
  "question_row now d =
     insert_opt ''status'' (map_option JString (qu_status d))
     (insert_opt ''tone'' (map_option JString (qu_tone d))
     (insert_opt ''resolved_at'' (map_option json_i64 (qu_resolved_at d))
     (insert_opt ''checkin_at'' (map_option json_i64 (qu_checkin_at d))
     (insert_opt ''checkin_response'' (map_option JString (qu_checkin_response d))
     (fmap_of_list [(''id'', JString (qu_id d)), (''updated_at'', json_i64 now),
        (''deleted'', JBool (qu_deleted d))])))))"

text \<open>A question that is written stays written when the marker after it fails; \<open>marked\<close> is the
  clock reading of the marker's own write.\<close>

definition enqueue_question ::
  "env \<Rightarrow> string \<Rightarrow> int \<Rightarrow> int \<Rightarrow> vault \<Rightarrow> store \<Rightarrow> question_upsert \<Rightarrow> sync_error option \<times> store" where
  "enqueue_question V iv now marked v st d =
     (case qu_plaintext d of
        Some plaintext \<Rightarrow>
          (case stage_local_write (env_serde V) st ''questions'' (qu_id d)
              (fmupd ''created_at'' (json_i64 (qu_created_at d))
              (fmupd ''text'' (JString (vault_encrypt_note (env_crypto V) iv v (Some (qu_id d)) plaintext))
                (question_row now d))) now of
             Inl e \<Rightarrow> (Some (store_err V e), st)
           | Inr st1 \<Rightarrow>
               (case user_setting (env_serde V) st1 PROMPT_ANSWERED_AT_KEY of
                  Inl e \<Rightarrow> (Some (store_err V e), st1)
                | Inr (Some _) \<Rightarrow> (None, st1)
                | Inr None \<Rightarrow>
                    (case set_user_setting V marked st1 PROMPT_ANSWERED_AT_KEY (i64_to_string now) of
                       Inl e \<Rightarrow> (Some e, st1) | Inr st2 \<Rightarrow> (None, st2))))
      | None \<Rightarrow>
          (case patched V (stage_local_write_existing_live (env_serde V) st ''questions'' (qu_id d)
              (question_row now d) [] now) of
             Inl e \<Rightarrow> (Some e, st) | Inr st1 \<Rightarrow> (None, st1)))"

text \<open>\<open>str::parse::<u32>\<close>.\<close>

definition parse_u32 :: "string \<Rightarrow> nat option" where
  "parse_u32 cs =
     Option.bind (case cs of c # cs' \<Rightarrow> if c = CHR ''+'' then parse_nat cs' else parse_nat cs | [] \<Rightarrow> None)
       (\<lambda>n. if n < 2 ^ 32 then Some n else None)"

definition read_prompt_settings :: "serde \<Rightarrow> store \<Rightarrow> db_error + prompt_settings" where
  "read_prompt_settings J st =
     and_then (user_setting J st PROMPT_CADENCE_KEY) (\<lambda>c.
     and_then (user_setting J st PROMPT_TONE_KEY) (\<lambda>t.
       Inr \<lparr>cadence_hours = clamp_cadence (unwrap_or (Option.bind c parse_u32) CADENCE_DEFAULT_HOURS),
            tone = parse_tone t\<rparr>))"

definition engine_prompt_settings :: "env \<Rightarrow> store \<Rightarrow> sync_error + prompt_settings" where
  "engine_prompt_settings V st = stored V (read_prompt_settings (env_serde V) st)"

text \<open>The three setters of one setting: an unchanged stored text is not written again.\<close>

definition set_if_changed :: "env \<Rightarrow> int \<Rightarrow> store \<Rightarrow> string \<Rightarrow> string \<Rightarrow> sync_error + store" where
  "set_if_changed V now st key val =
     and_then (stored V (user_setting (env_serde V) st key)) (\<lambda>s.
       if s = Some val then Inr st else set_user_setting V now st key val)"

definition set_prompt_cadence :: "env \<Rightarrow> int \<Rightarrow> store \<Rightarrow> nat \<Rightarrow> sync_error + store" where
  "set_prompt_cadence V now st hours =
     set_if_changed V now st PROMPT_CADENCE_KEY (nat_to_string (clamp_cadence hours))"

definition set_prompt_tone :: "env \<Rightarrow> int \<Rightarrow> store \<Rightarrow> prompt_tone \<Rightarrow> sync_error + store" where
  "set_prompt_tone V now st t = set_if_changed V now st PROMPT_TONE_KEY (tone_value t)"

definition engine_library_sort :: "env \<Rightarrow> store \<Rightarrow> sync_error + library_sort" where
  "engine_library_sort V st = and_then (stored V (user_setting (env_serde V) st LIBRARY_SORT_KEY)) (\<lambda>raw. Inr (parse_sort raw))"

definition set_library_sort :: "env \<Rightarrow> int \<Rightarrow> store \<Rightarrow> library_sort \<Rightarrow> sync_error + store" where
  "set_library_sort V now st s = set_if_changed V now st LIBRARY_SORT_KEY (sort_value s)"

subsection \<open>The prompt surface\<close>

definition PROMPT_SOURCE_TABLES :: "string list" where
  "PROMPT_SOURCE_TABLES = [''questions'', ''question_notes'', ''user_settings'']"

definition prompt_state_ready :: "store \<Rightarrow> bool" where
  "prompt_state_ready st \<longleftrightarrow> list_all (has_completed_pull st) PROMPT_SOURCE_TABLES"

definition setting_stamp :: "serde \<Rightarrow> store \<Rightarrow> string \<Rightarrow> db_error + int option" where
  "setting_stamp J st key = and_then (user_setting J st key) (\<lambda>s. Inr (Option.bind s parse_i64))"

definition read_prompt_state :: "serde \<Rightarrow> store \<Rightarrow> int \<Rightarrow> db_error + prompt_state" where
  "read_prompt_state J st account =
     and_then (question_metas J st) (\<lambda>qs.
     and_then (user_setting J st PROMPT_ANSWERED_AT_KEY) (\<lambda>answered.
     and_then (setting_stamp J st PROMPT_SKIPPED_AT_KEY) (\<lambda>skipped.
     and_then (setting_stamp J st CHECKIN_COMPLETED_AT_KEY) (\<lambda>completed.
       Inr \<lparr>account_created_at_ms = account, questions = qs, has_ever_answered = (answered \<noteq> None),
            prompt_skipped_at_ms = skipped, checkin_completed_at_ms = completed\<rparr>))))"

text \<open>The readiness gate, then the marker of an account with history, then the rules.\<close>

definition next_prompt_events ::
  "env \<Rightarrow> int \<Rightarrow> store \<Rightarrow> int \<Rightarrow> int \<Rightarrow> (sync_error + prompt_event list option) \<times> store" where
  "next_prompt_events V queued st now_ms account =
     (let J = env_serde V in
      if \<not> prompt_state_ready st then (Inr None, st)
      else case user_setting J st PROMPT_ANSWERED_AT_KEY of
          Inl e \<Rightarrow> (Inl (store_err V e), st)
        | Inr marker \<Rightarrow>
            (case (if marker = None then and_then (stored V (count_all st ''questions'')) (\<lambda>n. Inr (0 < n)) else Inr False) of
               Inl e \<Rightarrow> (Inl e, st)
             | Inr legacy \<Rightarrow>
                 (case (if legacy then set_user_setting V queued st PROMPT_ANSWERED_AT_KEY (i64_to_string now_ms) else Inr st) of
                    Inl e \<Rightarrow> (Inl e, st)
                  | Inr st1 \<Rightarrow>
                      (and_then (stored V (read_prompt_settings J st1)) (\<lambda>settings.
                       and_then (stored V (read_prompt_state J st1 account)) (\<lambda>state.
                         Inr (Some (next_events state settings now_ms)))), st1))))"

definition skip_prompt :: "env \<Rightarrow> int \<Rightarrow> store \<Rightarrow> int \<Rightarrow> sync_error + store" where
  "skip_prompt V now st now_ms = set_user_setting V now st PROMPT_SKIPPED_AT_KEY (i64_to_string now_ms)"

definition complete_checkin :: "env \<Rightarrow> int \<Rightarrow> store \<Rightarrow> int \<Rightarrow> sync_error + store" where
  "complete_checkin V now st now_ms = set_user_setting V now st CHECKIN_COMPLETED_AT_KEY (i64_to_string now_ms)"

definition dismiss_question_nudge :: "env \<Rightarrow> int \<Rightarrow> store \<Rightarrow> int \<Rightarrow> sync_error + store" where
  "dismiss_question_nudge V now st now_ms =
     set_user_setting V now st QUESTION_NUDGE_DISMISSED_AT_KEY (i64_to_string now_ms)"

definition unattached_since_last_checkin ::
  "env \<Rightarrow> vault \<Rightarrow> store \<Rightarrow> int \<Rightarrow> sync_error + note_record list option" where
  "unattached_since_last_checkin V v st now_ms =
     (if \<not> prompt_state_ready st then Inr None
      else and_then (stored V (read_prompt_state (env_serde V) st 0)) (\<lambda>state.
        case checkin_anchor state now_ms of
          None \<Rightarrow> Inr (Some [])
        | Some since \<Rightarrow>
            and_then (stored V (unattached_notes_since (env_serde V) (env_crypto V) st v since)) (\<lambda>ns. Inr (Some ns))))"

definition engine_question_nudge_due :: "env \<Rightarrow> store \<Rightarrow> int \<Rightarrow> sync_error + bool" where
  "engine_question_nudge_due V st now_ms =
     (if \<not> prompt_state_ready st then Inr False
      else and_then (stored V (question_metas (env_serde V) st)) (\<lambda>qs.
           and_then (stored V (setting_stamp (env_serde V) st QUESTION_NUDGE_DISMISSED_AT_KEY)) (\<lambda>dismissed.
             Inr (question_nudge_due (length (filter (\<lambda>q. is_active (qm_status q)) qs)) dismissed now_ms))))"

subsection \<open>Margins\<close>

record margin_child =
  mc_id :: string
  mc_link_id :: string
  mc_text :: string
  mc_ink_crop_path :: "string option"

text \<open>The texts trimmed, the blank ones dropped.\<close>

definition clean_children :: "margin_child list \<Rightarrow> margin_child list" where
  "clean_children cs = filter (\<lambda>c. mc_text c \<noteq> []) (map (\<lambda>c. c\<lparr>mc_text := str_trim (mc_text c)\<rparr>) cs)"

definition margin_error :: "string \<Rightarrow> sync_error" where
  "margin_error what = StoreError (''replace_handwritten_annotations: '' @ what)"

definition is_margin_edge :: "string \<Rightarrow> note_link_record \<Rightarrow> bool" where
  "is_margin_edge parent_id l \<longleftrightarrow> nlr_from_note_id l = parent_id \<and>
     unwrap_or (nlr_relation_type l) ''handwritten_annotation'' = ''handwritten_annotation''"

definition own_margin_edge :: "string \<Rightarrow> string \<Rightarrow> note_link_record \<Rightarrow> bool" where
  "own_margin_edge parent_id child_id l \<longleftrightarrow> is_margin_edge parent_id l \<and> nlr_to_note_id l = child_id"

definition reusable_link :: "string \<Rightarrow> row option \<Rightarrow> bool" where
  "reusable_link parent_id link_row =
     (case link_row of None \<Rightarrow> True
      | Some l \<Rightarrow> row_str l ''from_note_id'' = Some parent_id \<and>
          (case row_str l ''relation_type'' of None \<Rightarrow> True | Some r \<Rightarrow> r = ''handwritten_annotation''))"

definition check_margin :: "env \<Rightarrow> store \<Rightarrow> string \<Rightarrow> margin_child \<Rightarrow> sync_error + unit" where
  "check_margin V st parent_id c =
     and_then (stored V (get_row (env_serde V) st ''note_links'' (mc_link_id c))) (\<lambda>link_row.
       if \<not> reusable_link parent_id link_row
       then Inl (margin_error ''link id collides with a non-margin edge'')
       else and_then (stored V (note_links_for_note (env_serde V) st (mc_id c))) (\<lambda>touching.
            and_then (stored V (get_row (env_serde V) st ''notes'' (mc_id c))) (\<lambda>existing.
              let paired = (case link_row of None \<Rightarrow> False | Some l \<Rightarrow> row_str l ''to_note_id'' = Some (mc_id c));
                  own = own_margin_edge parent_id (mc_id c)
              in case existing of
                   Some n \<Rightarrow>
                     if row_str n ''source'' \<noteq> Some ''handwritten''
                     then Inl (margin_error ''child id collides with an existing non-margin note'')
                     else if \<not> (paired \<or> list_ex own touching)
                     then Inl (margin_error ''child id collides with another parent's margin'')
                     else if \<not> list_all own touching
                     then Inl (margin_error ''reused child id is still referenced by another live edge'')
                     else Inr ()
                 | None \<Rightarrow>
                     if \<not> list_all own touching
                     then Inl (margin_error ''reused child id is still referenced by another live edge'')
                     else Inr ())))"

fun check_margins :: "env \<Rightarrow> store \<Rightarrow> string \<Rightarrow> string list \<Rightarrow> margin_child list \<Rightarrow> sync_error + unit" where
  "check_margins V st parent_id seen [] = Inr ()"
| "check_margins V st parent_id seen (c # cs) =
     (if mc_id c = parent_id \<or> mc_link_id c = parent_id
      then Inl (margin_error ''child/link id collides with the parent id'')
      else if mc_id c \<in> set seen \<or> mc_link_id c \<in> set (mc_id c # seen)
      then Inl (margin_error ''duplicate child/link ids in one call'')
      else and_then (check_margin V st parent_id c) (\<lambda>_.
        check_margins V st parent_id (mc_link_id c # mc_id c # seen) cs))"

text \<open>\<open>as u32\<close>: modulo \<open>2 ^ 32\<close>.\<close>

definition as_u32 :: "nat \<Rightarrow> nat" where "as_u32 n = nat (int n mod 4294967296)"

definition wrapping_add :: "int \<Rightarrow> int \<Rightarrow> int" where
  "wrapping_add a b = sint (word_of_int (a + b) :: 64 word)"

definition json_opt :: "string option \<Rightarrow> json" where
  "json_opt s = (case s of None \<Rightarrow> JNull | Some x \<Rightarrow> JString x)"

text \<open>One new margin: the child note in its full shape and the edge to it.\<close>

definition margin_note :: "env \<Rightarrow> string \<Rightarrow> vault \<Rightarrow> string option \<Rightarrow> int \<Rightarrow> margin_child \<Rightarrow> row" where
  "margin_note V iv v book_id created c =
     fmap_of_list [(''id'', JString (mc_id c)), (''book_id'', json_opt book_id),
       (''text'', JString (vault_encrypt_note (env_crypto V) iv v (Some (mc_id c)) (mc_text c))),
       (''content_tag'', JString (vault_content_tag (env_crypto V) (env_text V) v (mc_text c) book_id)),
       (''tags'', JArray []), (''source'', JString ''handwritten''), (''page'', JString []), (''chapter'', JNull),
       (''image_path'', JNull), (''ink_crop_path'', json_opt (mc_ink_crop_path c)), (''source_id'', JNull),
       (''source_meta'', JObject fmempty), (''created_at'', json_i64 created), (''updated_at'', json_i64 created),
       (''deleted'', JBool False)]"

definition margin_link :: "string \<Rightarrow> int \<Rightarrow> margin_child \<Rightarrow> row" where
  "margin_link parent_id created c =
     fmap_of_list [(''id'', JString (mc_link_id c)), (''from_note_id'', JString parent_id),
       (''to_note_id'', JString (mc_id c)), (''relation_type'', JString ''handwritten_annotation''),
       (''created_at'', json_i64 created), (''updated_at'', json_i64 created), (''deleted'', JBool False)]"

definition margin_writes ::
  "env \<Rightarrow> (nat \<Rightarrow> string) \<Rightarrow> vault \<Rightarrow> string \<Rightarrow> string option \<Rightarrow> int \<Rightarrow> nat \<times> margin_child \<Rightarrow>
   (string \<times> string \<times> row) list" where
  "margin_writes V ivs v parent_id book_id now x =
     (case x of (i, c) \<Rightarrow>
        [(''notes'', mc_id c, margin_note V (ivs i) v book_id (wrapping_add now (int i)) c),
         (''note_links'', mc_link_id c, margin_link parent_id (wrapping_add now (int i)) c)])"

definition note_tombstone :: "int \<Rightarrow> string \<Rightarrow> string \<times> string \<times> row" where
  "note_tombstone now i = (''notes'', i, fmap_of_list [(''id'', JString i), (''deleted'', JBool True), (''updated_at'', json_i64 now)])"

text \<open>Whether a child of a retired edge is a spent margin: a live handwritten note no edge outside
  the retired set touches.\<close>

definition spent_margin :: "serde \<Rightarrow> store \<Rightarrow> string list \<Rightarrow> string \<Rightarrow> db_error + bool" where
  "spent_margin J st retiring child_id =
     and_then (get_row J st ''notes'' child_id) (\<lambda>n.
     and_then (note_links_for_note J st child_id) (\<lambda>links.
       Inr (Option.bind (live_row n) (\<lambda>r. row_str r ''source'') = Some ''handwritten'' \<and>
            list_all (\<lambda>l. nlr_id l \<in> set retiring) links)))"

fun retire_margins ::
  "serde \<Rightarrow> int \<Rightarrow> store \<Rightarrow> string \<Rightarrow> string list \<Rightarrow> string list \<Rightarrow> string list \<Rightarrow> string list \<Rightarrow> note_link_record list \<Rightarrow>
   db_error + (string \<times> string \<times> row) list" where
  "retire_margins J now st parent_id retiring new_children new_links gone [] = Inr []"
| "retire_margins J now st parent_id retiring new_children new_links gone (e # es) =
     (let child = nlr_to_note_id e;
          edge = (if nlr_id e \<in> set new_links then [] else [edge_tombstone now e])
      in if child \<in> set gone \<or> child \<in> set new_children \<or> child = parent_id
         then and_then (retire_margins J now st parent_id retiring new_children new_links gone es) (\<lambda>ws. Inr (edge @ ws))
         else and_then (spent_margin J st retiring child) (\<lambda>spent.
           if spent
           then and_then (retire_margins J now st parent_id retiring new_children new_links (child # gone) es)
                  (\<lambda>ws. Inr (edge @ note_tombstone now child # ws))
           else and_then (retire_margins J now st parent_id retiring new_children new_links gone es) (\<lambda>ws. Inr (edge @ ws))))"

definition replace_handwritten_annotations ::
  "env \<Rightarrow> (nat \<Rightarrow> string) \<Rightarrow> int \<Rightarrow> vault \<Rightarrow> store \<Rightarrow> string \<Rightarrow> margin_child list \<Rightarrow> sync_error + nat \<times> store" where
  "replace_handwritten_annotations V ivs now v st parent_id given =
     (let J = env_serde V; children = clean_children given in
      if children = [] then Inr (0, st)
      else and_then (stored V (get_row J st ''notes'' parent_id)) (\<lambda>found.
        case live_row found of
          None \<Rightarrow> Inl (margin_error (''parent '' @ parent_id @ '' not found or deleted''))
        | Some parent \<Rightarrow>
            and_then (check_margins V st parent_id [] children) (\<lambda>_.
            and_then (stored V (note_links_for_note J st parent_id)) (\<lambda>links.
              let old_edges = filter (is_margin_edge parent_id) links;
                  creates = concat (map (margin_writes V ivs v parent_id (row_str parent ''book_id'') now) (enumerate 0 children))
              in and_then (stored V (retire_margins J now st parent_id (map nlr_id old_edges) (map mc_id children)
                    (map mc_link_id children) [] old_edges)) (\<lambda>retires.
                 and_then (stored V (stage_signal_write (env_f64 V) J st parent_id (row_str parent ''source'') now
                    (\<lambda>s. s\<lparr>ss_has_annotation := True, ss_engagement_recency_at := now\<rparr>))) (\<lambda>sig.
                   let signal = (case sig of None \<Rightarrow> [] | Some r \<Rightarrow> [(''note_signals'', parent_id, r)])
                   in and_then (stored V (stage_local_writes J st (creates @ retires @ signal) now)) (\<lambda>st'.
                        Inr (as_u32 (length children), st'))))))))"

subsection \<open>Flush, pull and sync\<close>

text \<open>What the three calls use of other crates: the base64url decoder and the text of a serde error.\<close>

record jwt_lib =
  b64url :: "string \<Rightarrow> string + string"
  json_error :: string

abbreviation user_of :: "env \<Rightarrow> jwt_lib \<Rightarrow> string \<Rightarrow> string + string" where
  "user_of V B token \<equiv> user_id_from_jwt (env_serde V) (b64url B) (json_error B) token"

definition client_repair_sink :: "'w http_lib \<Rightarrow> client \<Rightarrow> 'w repair_sink" where
  "client_repair_sink H c = \<lparr>rs_fetch_by_ids = fetch_by_ids H c, rs_fetch_app_config = fetch_app_config H c,
     rs_search_cover = search_cover H c\<rparr>"

record flush_summary =
  fs_pushed :: nat
  fs_still_queued :: nat

record reconcile_summary =
  rs_books_backfilled :: nat
  rs_notes_rehomed :: nat
  rs_notes_detached :: nat
  rs_ideas_created :: nat
  rs_dupes_collapsed :: nat
  rs_signals_retired :: nat
  rs_covers_resolved :: nat

record pull_summary =
  ps_pulled :: nat
  ps_merged :: nat
  ps_skipped_tombstones :: nat
  ps_superseded :: "superseded_edit list"
  ps_reconcile :: reconcile_summary

definition summary_of_reconcile :: "reconcile_result \<Rightarrow> reconcile_summary" where
  "summary_of_reconcile r = \<lparr>rs_books_backfilled = as_u32 (rr_books_backfilled r),
     rs_notes_rehomed = as_u32 (rr_notes_rehomed r), rs_notes_detached = as_u32 (rr_notes_detached r),
     rs_ideas_created = as_u32 (rr_ideas_created r), rs_dupes_collapsed = as_u32 (rr_dupes_collapsed r),
     rs_signals_retired = as_u32 (rr_signals_retired r), rs_covers_resolved = as_u32 (rr_covers_resolved r)\<rparr>"

definition summary_of_flush :: "flush_result \<Rightarrow> flush_summary" where
  "summary_of_flush f = \<lparr>fs_pushed = as_u32 (length (fr_ok f)), fs_still_queued = as_u32 (length (fr_failed f))\<rparr>"

definition summary_of_pull :: "pull_result \<Rightarrow> reconcile_result \<Rightarrow> pull_summary" where
  "summary_of_pull p r = \<lparr>ps_pulled = as_u32 (pr_pulled p), ps_merged = as_u32 (pr_merged p),
     ps_skipped_tombstones = as_u32 (pr_skipped_tombstones p), ps_superseded = pr_superseded p,
     ps_reconcile = summary_of_reconcile r\<rparr>"

definition missing_token :: "string \<Rightarrow> sync_error" where
  "missing_token what = FlushError (''no access token set '' @ em_dash @ '' call set_access_token before '' @ what)"

definition bad_token :: "string \<Rightarrow> sync_error" where
  "bad_token e = FlushError (''bad access token: '' @ e)"

definition show_flush_error :: "jwt_lib \<Rightarrow> flush_error \<Rightarrow> string" where
  "show_flush_error B e = (case e of ParseRemap \<Rightarrow> ''parse remap: '' @ json_error B)"

definition engine_flush ::
  "env \<Rightarrow> jwt_lib \<Rightarrow> 'w http_lib \<Rightarrow> client \<Rightarrow> store \<Rightarrow> 'w \<Rightarrow> (sync_error + flush_summary) \<times> store \<times> 'w" where
  "engine_flush V B H c st w =
     (case access_token c of None \<Rightarrow> (Inl (missing_token ''flush''), st, w)
      | Some token \<Rightarrow>
          (case user_of V B token of Inl e \<Rightarrow> (Inl (bad_token e), st, w)
           | Inr user_id \<Rightarrow>
               (case flush (env_serde V) (client_sink (env_serde V) H c) user_id st w of
                  (Inl e, st', w') \<Rightarrow> (Inl (FlushError (show_flush_error B e)), st', w')
                | (Inr r, st', w') \<Rightarrow> (Inr (summary_of_flush r), st', w'))))"

definition pull_and_reconcile ::
  "env \<Rightarrow> jwt_lib \<Rightarrow> 'w sink \<Rightarrow> 'w repair_sink \<Rightarrow> pass_clocks \<Rightarrow> string \<Rightarrow> string list \<Rightarrow> vault \<Rightarrow> store \<Rightarrow> 'w \<Rightarrow>
   (pull_result \<times> reconcile_result) \<times> store \<times> 'w" where
  "pull_and_reconcile V B snk rsk clk token tabs v st w =
     (case pull (env_serde V) (env_show V) snk tabs st w of
        (pulled, st1, w1) \<Rightarrow>
          if pr_failed_tables pulled \<noteq> [] then ((pulled, no_repairs), st1, w1)
          else (case user_of V B token of
                  Inl e \<Rightarrow> ((pulled, no_repairs), st1, w1)
                | Inr user_id \<Rightarrow>
                    (case repair V rsk clk user_id v st1 w1 of (r, st2, w2) \<Rightarrow> ((pulled, r), st2, w2))))"

definition engine_pull ::
  "env \<Rightarrow> jwt_lib \<Rightarrow> 'w http_lib \<Rightarrow> pass_clocks \<Rightarrow> client \<Rightarrow> vault \<Rightarrow> store \<Rightarrow> 'w \<Rightarrow>
   (sync_error + pull_summary) \<times> store \<times> 'w" where
  "engine_pull V B H clk c v st w =
     (case access_token c of None \<Rightarrow> (Inl (missing_token ''pull''), st, w)
      | Some token \<Rightarrow>
          (case pull_and_reconcile V B (client_sink (env_serde V) H c) (client_repair_sink H c) clk token
              synced_table_names v st w of
             ((p, r), st', w') \<Rightarrow>
               (if length (pr_failed_tables p) = length synced_table_names
                then Inl (FlushError (''pull failed for all tables: '' @ describe_failures (pr_failed_tables p)))
                else Inr (summary_of_pull p r), st', w')))"

definition engine_sync ::
  "env \<Rightarrow> jwt_lib \<Rightarrow> 'w http_lib \<Rightarrow> pass_clocks \<Rightarrow> client \<Rightarrow> vault \<Rightarrow> store \<Rightarrow> 'w \<Rightarrow>
   (sync_error + pull_summary \<times> flush_summary) \<times> store \<times> 'w" where
  "engine_sync V B H clk c v st w =
     (case access_token c of None \<Rightarrow> (Inl (missing_token ''sync''), st, w)
      | Some token \<Rightarrow>
          (case user_of V B token of Inl e \<Rightarrow> (Inl (bad_token e), st, w)
           | Inr user_id \<Rightarrow>
               (case pull_then_flush V (client_sink (env_serde V) H c) (client_repair_sink H c) clk user_id
                   synced_table_names v st w of
                  (Inl (PullFailed e), st', w') \<Rightarrow> (Inl (FlushError e), st', w')
                | (Inl (FlushFailed e), st', w') \<Rightarrow> (Inl (FlushError (show_flush_error B e)), st', w')
                | (Inr (p, r, f), st', w') \<Rightarrow> (Inr (summary_of_pull p r, summary_of_flush f), st', w'))))"

end
