(* ===== verification/Facade_Laws.thy ===== *)
theory Facade_Laws
  imports Facade Book_Merge
begin

text \<open>
  What a host may rely on when it hands a draft to the engine: an omitted field is kept, a given one
  set, a cleared one nulled; a text goes in sealed and reads back; a link is filed once; a pair that
  is added again is sent as live; a deleted note takes its signals and margins with it.
\<close>

subsection \<open>Partial rows\<close>

lemma fmlookup_insert_opt [simp]:
  "fmlookup (insert_opt k v r) c = (if c = k \<and> v \<noteq> None then v else fmlookup r c)"
  by (auto simp: insert_opt_def split: option.splits)

lemma apply_clears_other:
  "apply_clears table fs r = Inr r' \<Longrightarrow> c \<notin> set fs \<Longrightarrow> fmlookup r' c = fmlookup r c"
  by (induction table fs r rule: apply_clears.induct) (auto split: if_splits)

lemma apply_clears_keeps:
  "apply_clears table fs r = Inr r' \<Longrightarrow> fmlookup r c = Some x \<Longrightarrow> c \<notin> set fs \<and> fmlookup r' c = Some x"
proof (induction table fs r rule: apply_clears.induct)
  case (2 table f rest r)
  then have "f \<noteq> c" by (auto split: if_splits dest: fmdomI)
  with 2 show ?case by (simp split: if_splits)
qed simp

lemma apply_clears_null:
  "apply_clears table fs r = Inr r' \<Longrightarrow> c \<in> set fs \<Longrightarrow> fmlookup r' c = Some JNull"
proof (induction table fs r rule: apply_clears.induct)
  case (2 table f rest r)
  then have ok: "apply_clears table rest (fmupd f JNull r) = Inr r'" by (auto split: if_splits)
  show ?case
  proof (cases "c = f")
    case True
    then show ?thesis using apply_clears_keeps [OF ok, of c JNull] by simp
  qed (use 2 ok in \<open>auto split: if_splits\<close>)
qed simp

lemma apply_clears_lookup:
  assumes "apply_clears table fs r = Inr r'"
  shows "fmlookup r' c = (if c \<in> set fs then Some JNull else fmlookup r c)"
  using apply_clears_null [OF assms] apply_clears_other [OF assms] by simp

lemma apply_clears_allowed: "apply_clears table fs r = Inr r' \<Longrightarrow> set fs \<subseteq> set (clearable_columns table)"
  by (induction table fs r rule: apply_clears.induct) (auto split: if_splits)

lemma stored_Inr [simp]: "stored V r = Inr x \<longleftrightarrow> r = Inr x"
  by (simp add: stored_def split: sum.split)

lemma stored_ok [simp]: "stored V (Inr x) = Inr x"
  by simp

lemma patched_Inr [simp]: "patched V r = Inr x \<longleftrightarrow> r = Inr x"
  by (simp add: patched_def split: sum.split stage_existing_error.split)

subsection \<open>A live note draft\<close>

text \<open>The optional text columns of a note draft.\<close>

definition draft_text :: "note_upsert \<Rightarrow> string \<Rightarrow> string option" where
  "draft_text d c =
     (if c = ''book_id'' then nu_book_id d else if c = ''page'' then nu_page d
      else if c = ''source_id'' then nu_source_id d else if c = ''chapter'' then nu_chapter d
      else if c = ''image_path'' then nu_image_path d else if c = ''ink_crop_path'' then nu_ink_crop_path d
      else None)"

abbreviation note_optionals :: "string list" where
  "note_optionals \<equiv> [''book_id'', ''page'', ''source_id'', ''chapter'', ''image_path'', ''ink_crop_path'']"

lemma note_text_columns:
  "list_all (\<lambda>c. map_of (ts_columns notes_desc) c = Some CText) (note_optionals @ [''text'', ''content_tag''])"
  by (simp add: schema_defs desc_defs)

lemma note_row_lookup:
  "c \<in> set note_optionals \<Longrightarrow> fmlookup (note_row now m d) c = map_option JString (draft_text d c)"
  "fmlookup (note_row now m d) ''id'' = Some (JString (nu_id d))"
  "fmlookup (note_row now m d) ''deleted'' = Some (JBool (nu_deleted d))"
  "fmlookup (note_row now m d) ''text'' = None" "fmlookup (note_row now m d) ''content_tag'' = None"
  by (auto simp: note_row_def draft_text_def fmlookup_of_list)

lemma existing_live_Inr:
  assumes "stage_local_write_existing_live J st table rid r ws now = Inr st'"
  obtains old st1 where "get_row J st table rid = Inr (Some old)" "\<not> unwrap_or (row_bool old ''deleted'') False"
    "stage_write_inner J st table rid r now = Inr st1" "stage_batch J now ws st1 = Inr st'"
  using assms by (auto simp: stage_local_write_existing_live_def split: sum.splits option.splits if_splits)

abbreviation sealed_text :: "env \<Rightarrow> string \<Rightarrow> vault \<Rightarrow> string \<Rightarrow> string \<Rightarrow> string" where
  "sealed_text V iv v i p \<equiv> encrypt_note (env_crypto V) (vault_mk v) (Some i) p iv"

lemma enqueue_note_live:
  assumes "enqueue_note V iv now queued v st d = Inr st'" "\<not> nu_deleted d"
  obtains r n where "stage_write_inner (env_serde V) st ''notes'' (nu_id d) r n = Inr st'"
    "fmlookup r ''id'' = Some (JString (nu_id d))" "fmlookup r ''deleted'' = Some (JBool False)"
    "\<And>c. c \<in> set note_optionals \<Longrightarrow> fmlookup r c =
       (if c \<in> set (nu_clear_nullable_fields d) then Some JNull else map_option JString (draft_text d c))"
    "fmlookup r ''text'' = map_option (\<lambda>p. JString (sealed_text V iv v (nu_id d) p)) (nu_plaintext d)"
    "fmlookup r ''content_tag'' = map_option (\<lambda>p. JString (vault_content_tag (env_crypto V) (env_text V) v p
       (nu_book_id d))) (nu_plaintext d)"
    "nu_plaintext d = None \<Longrightarrow> \<exists>old. get_row (env_serde V) st ''notes'' (nu_id d) = Inr (Some old) \<and>
       \<not> unwrap_or (row_bool old ''deleted'') False"
proof -
  obtain m r0 where cl: "apply_clears ''notes'' (nu_clear_nullable_fields d) (note_row now m d) = Inr r0"
    and rest: "(case nu_plaintext d of Some p \<Rightarrow> stage_local_write (env_serde V) st ''notes'' (nu_id d)
          (sealed_row V iv v d p r0) queued = Inr st'
        | None \<Rightarrow> stage_existing_live_note_patch (env_f64 V) (env_serde V) st (nu_id d)
            (insert_opt ''source'' (map_option JString (nu_source d)) r0) False now = Inr st')"
    using assms by (auto simp: enqueue_note_def and_then_Inr stage_write_def Let_def split: option.splits if_splits)
  note lk = apply_clears_lookup [OF cl] apply_clears_allowed [OF cl]
  have nc: "c \<notin> set (nu_clear_nullable_fields d)" if "c \<in> {''id'', ''deleted'', ''text'', ''content_tag'', ''source'', ''created_at''}" for c
    using lk(2) that by (auto simp: clearable_columns_def)
  show thesis
  proof (cases "nu_plaintext d")
    case (Some p)
    with rest show thesis
      by (intro that [of "sealed_row V iv v d p r0" queued])
        (auto simp: stage_local_write_def sealed_row_def vault_encrypt_note_def lk(1) nc note_row_lookup assms(2))
  next
    case None
    with rest obtain old where
      w: "stage_write_inner (env_serde V) st ''notes'' (nu_id d) (insert_opt ''source'' (map_option JString (nu_source d)) r0) now = Inr st'"
        "get_row (env_serde V) st ''notes'' (nu_id d) = Inr (Some old)" "\<not> unwrap_or (row_bool old ''deleted'') False"
      by (auto simp: stage_existing_live_note_patch_def elim!: existing_live_Inr)
    show thesis
      by (rule that [OF w(1)]) (use w(2,3) None in \<open>auto simp: lk(1) nc note_row_lookup assms(2)\<close>)
  qed
qed


subsection \<open>Sealed at write, opened at read\<close>

text \<open>
  Property C9.  A note written with a text reads back: the engine seals the text under the note's
  id before it is stored or queued, and the next read of that note under the same vault shows
  exactly that text, with no decryption failure.
\<close>

theorem note_write_reads_back:
  assumes "crypto_ok (env_crypto V)" "length (vault_mk v) = 32" "length iv = 12" "utf8_valid p"
    and "store_inv st" "enqueue_note V iv now queued v st d = Inr st'" "\<not> nu_deleted d" "nu_plaintext d = Some p"
  shows "\<exists>n. get_note (env_serde V) (env_crypto V) st' v (nu_id d) = Inr (Some n) \<and>
    nr_id n = nu_id d \<and> nr_text n = Some p \<and> \<not> nr_decrypt_failed n"
proof -
  let ?J = "env_serde V" and ?C = "env_crypto V"
  obtain r n where w: "stage_write_inner ?J st ''notes'' (nu_id d) r n = Inr st'"
    and f: "fmlookup r ''id'' = Some (JString (nu_id d))" "fmlookup r ''deleted'' = Some (JBool False)"
    and t0: "fmlookup r ''text'' = map_option (\<lambda>p. JString (sealed_text V iv v (nu_id d) p)) (nu_plaintext d)"
    using enqueue_note_live [OF assms(6,7)] by blast
  have t: "fmlookup r ''text'' = Some (JString (sealed_text V iv v (nu_id d) p))" using t0 assms(8) by simp
  have pk: "fmlookup r (pk_of notes_desc) = Some (JString (nu_id d))" using f(1) read_pks(1) by simp
  note view = stage_view [OF assms(5) w merge_schemas(1) pk]
  obtain x where x: "row_at ?J st' ''notes'' (nu_id d) = Some x" using view(4) by blast
  have "flag_at ?J st' ''notes'' (nu_id d) = Some (JBool False)"
    using view(3) f(2) by (simp add: keeps_flag_def)
  then have live: "\<not> is_deleted x" using x by (simp add: flag_at_def is_deleted_def)
  have "text_at ?J st' ''notes'' (nu_id d) ''text'' = Some (sealed_text V iv v (nu_id d) p)"
    using view(2) [OF read_columns(5)] t by simp
  then have tx: "string_field x ''text'' = Some (sealed_text V iv v (nu_id d) p)"
    using x by (simp add: text_at_def string_field_row_str)
  have ix: "string_field x ''id'' = Some (nu_id d)"
    using row_at_pk [OF merge_schemas(1) x] by (simp add: string_field_def)
  have op: "is_encrypted_v2 (sealed_text V iv v (nu_id d) p) \<and>
      decrypt_note ?C (vault_mk v) (Some (nu_id d)) (sealed_text V iv v (nu_id d) p) = Inr p"
    using decrypt_v2_opens [OF assms(1,2)] assms(3,4) by blast
  then have ne: "sealed_text V iv v (nu_id d) p \<noteq> []" by (auto simp: is_encrypted_v2_def SENTINEL_V2_def strip_prefix_Some)
  have "decrypt_note_text ?C v x (nu_id d) = (Some p, False)"
    using tx op ne by (simp add: decrypt_note_text_def decrypt_v2_bound_def vault_decrypt_note_def)
  moreover have "get_row ?J st' ''notes'' (nu_id d) = Inr (Some x)"
    using get_row_at [OF merge_schemas(1)] x by metis
  ultimately show ?thesis using live ix by (simp add: get_note_def to_note_record_def)
qed

subsection \<open>One source per link\<close>

lemma traverse_total: "\<forall>x \<in> set xs. \<exists>y. f x = Inr y \<Longrightarrow> \<exists>ys. traverse f xs = Inr ys"
  by (induction xs) auto

lemma traverse_Inr_all: "traverse f xs = Inr ys \<Longrightarrow> x \<in> set xs \<Longrightarrow> \<exists>y. f x = Inr y"
  using traverse_mem(2) by fastforce

lemma graphic_utf8: "graphic s \<Longrightarrow> utf8_valid s"
proof (induction s)
  case (Cons c s)
  then have "byte_in 0 127 c" "utf8_valid s" by (auto simp: graphic_def byte_in_def)
  then show ?case by (subst utf8_valid.simps) simp
qed (simp add: utf8_valid.simps)

text \<open>A staged row of a record the table does not have is appended.\<close>

lemma stage_new_row:
  assumes "stage_write_inner J st table rid p now = Inr st'" "table_schema table = Some t"
    and "fmlookup p (pk_of t) = Some (JString rid)" "row_at J st table rid = None"
  obtains p' where "tables st' table = tables st table @ [sql_of_row J t p']"
    "\<And>c. c \<noteq> ''updated_at'' \<Longrightarrow> fmlookup p' c = fmlookup p c"
  using assms(1)
proof (rule stage_write_inner_Inr)
  fix ex p' st1
  assume ex: "get_row J st table rid = Inr ex" and cl: "clamp_partial table rid ex p = Inr p'"
    and ap: "apply_row J st table (unwrap_or ex fmempty ++\<^sub>f p') = Inr st1"
    and st': "st' = enqueue st1 table rid (to_str J (JObject p')) now"
  have ok: "desc_ok t" using assms(2) by (rule table_schema_Some)
  have none: "ex = None" using ex assms(4) by (simp add: row_at_def)
  have "row_str (fmempty ++\<^sub>f p') (pk_of t) = Some rid" by (rule merged_pk [OF ok cl assms(3)])
  then have "sql_of_row J t (fmempty ++\<^sub>f p') (pk_of t) = SText rid" using sql_of_row_pk [OF ok] by simp
  moreover have "r (pk_of t) \<noteq> SText rid" if "r \<in> set (tables st table)" for r
    using assms(4) that by (auto simp: row_at_def get_row_eq [OF assms(2)] find_None_iff)
  ultimately have "filter (\<lambda>r'. \<not> conflicts t (sql_of_row J t (fmempty ++\<^sub>f p')) r') (tables st table) = tables st table"
    by (auto simp: filter_id_conv conflicts_pk [OF ok])
  then have "tables st' table = tables st table @ [sql_of_row J t p']"
    using apply_row_tables [OF ap assms(2)] none by (simp add: st' enqueue_def)
  then show thesis by (rule that) (use clamp_partial_other [OF cl] in blast)
qed

text \<open>The row a live draft with a link becomes on a shelf that does not have its id.\<close>

lemma stage_book_new:
  assumes "stage_book V L iv now queued v st d = Inr st'" "row_at (env_serde V) st ''books'' (bu_id d) = None"
    and "bu_url d = Some raw" "normalize_source_url L raw = Some url" "\<not> bu_deleted d"
  obtains r where "stage_write_inner (env_serde V) st ''books'' (bu_id d) r queued = Inr st'"
    "fmlookup r ''id'' = Some (JString (bu_id d))" "fmlookup r ''deleted'' = Some (JBool False)"
    "fmlookup r ''url'' = Some (JString (seal_book_url (env_crypto V) iv v (bu_id d) url))"
    "fmlookup r ''merged_into'' = None"
proof -
  obtain r0 where cl: "apply_clears ''books'' (bu_clear_nullable_fields d) (book_row now d) = Inr r0"
    using assms(1) by (auto simp: stage_book_def and_then_Inr)
  have none: "get_row (env_serde V) st ''books'' (bu_id d) = Inr None"
    using get_row_at [OF merge_schemas(2)] assms(2) by metis
  note lk = apply_clears_lookup [OF cl]
  have nc: "c \<notin> set (bu_clear_nullable_fields d)" if "c \<in> {''id'', ''deleted'', ''merged_into''}" for c
    using apply_clears_allowed [OF cl] that by (auto simp: clearable_columns_def)
  have rest: "stage_write_inner (env_serde V) st ''books'' (bu_id d)
      (insert_opt ''url'' (Some (JString (seal_book_url (env_crypto V) iv v (bu_id d) url)))
        (insert_opt ''kind'' (map_option (JString \<circ> kind_value) (bu_kind d))
          (insert_opt ''status'' (map_option (JString \<circ> status_value)
             (case bu_status d of Some s \<Rightarrow> Some s | None \<Rightarrow> Some ToRead)) r0))) queued = Inr st'"
    using assms(1) by (simp add: stage_book_def draft_url_def assms(3,4) cl none has_url_def stored_def Let_def
        stage_local_write_def split: sum.splits cong: option.case_cong)
  show thesis
    by (rule that [OF rest]) (auto simp: lk nc book_row_def fmlookup_of_list assms(5))
qed

lemma traverse_snoc_url:
  assumes rows: "books_with_a_url st = Inr rows" and tabs: "tables st' ''books'' = tables st ''books'' @ [x]"
    and y: "url_row x = Inr y" and nn: "x ''url'' \<noteq> SNull"
  obtains rows' where "books_with_a_url st' = Inr rows'" "set rows' = insert y (set rows)"
proof -
  let ?ord = "sort_by (order_asc ''created_at'' ''id'')" and ?P = "\<lambda>r :: sqlrow. r ''url'' \<noteq> SNull"
  have old: "traverse url_row (?ord (filter ?P (tables st ''books''))) = Inr rows"
    using rows by (simp add: books_with_a_url_def)
  have set': "set (?ord (filter ?P (tables st' ''books''))) = insert x (set (?ord (filter ?P (tables st ''books''))))"
    using nn by (auto simp: tabs)
  have "\<forall>r \<in> set (?ord (filter ?P (tables st' ''books''))). \<exists>y. url_row r = Inr y"
    unfolding set' using traverse_Inr_all [OF old] y by blast
  then obtain rows' where new: "traverse url_row (?ord (filter ?P (tables st' ''books''))) = Inr rows'"
    using traverse_total by blast
  have "z \<in> set rows' \<longleftrightarrow> z = y \<or> z \<in> set rows" for z
  proof -
    have "z \<in> set rows' \<longleftrightarrow> (\<exists>r \<in> insert x (set (?ord (filter ?P (tables st ''books'')))). url_row r = Inr z)"
      unfolding set' [symmetric] by (metis traverse_mem [OF new] sum.inject(2))
    also have "\<dots> \<longleftrightarrow> z = y \<or> (\<exists>r \<in> set (?ord (filter ?P (tables st ''books''))). url_row r = Inr z)"
      using y by auto
    also have "\<dots> \<longleftrightarrow> z = y \<or> z \<in> set rows" by (metis traverse_mem [OF old] sum.inject(2))
    finally show ?thesis .
  qed
  then have "set rows' = insert y (set rows)" by blast
  with new that show ?thesis by (simp add: books_with_a_url_def)
qed

text \<open>A lookup that finds nothing saw no live match.\<close>

lemma no_live_match:
  assumes "store_inv st" "books_with_a_url st = Inr rows" "find_book_by_url L J C st v url = Inr None"
    and "(i, d, m, s) \<in> set rows" "url_matches L C v url (i, d, m, s)"
  shows d
proof (rule ccontr)
  assume "\<not> d"
  with assms(4,5) have "find (\<lambda>(_, deleted, _, _). \<not> deleted) (filter (url_matches L C v url) rows) \<noteq> None"
    by (auto simp: find_None_iff)
  then obtain j d' m' s' where "find (\<lambda>(_, deleted, _, _). \<not> deleted) (filter (url_matches L C v url) rows) = Some (j, d', m', s')"
    by (metis not_None_eq prod_cases4)
  from live_match_found [OF assms(1,2) this, of J] assms(3) show False by fastforce
qed


text \<open>A share of a link the shelf does not have creates a source.\<close>

lemma share_creates:
  assumes "store_inv st" "\<not> bu_deleted d" "bu_url d = Some raw" "normalize_source_url L raw = Some url"
    and "find_book_by_url L (env_serde V) (env_crypto V) st v url = Inr None"
    and "row_at (env_serde V) st ''books'' (bu_id d) = None" "bu_clear_nullable_fields d = []"
  shows "\<exists>b st'. find_or_create_book_by_url V L iv now queued v st d = (Inr b, st') \<and> br_id b = bu_id d"
proof -
  let ?J = "env_serde V" and ?C = "env_crypto V"
  have none: "get_row ?J st ''books'' (bu_id d) = Inr None"
    using get_row_at [OF merge_schemas(2)] assms(6) by metis
  then have stamp: "stored_stamp ?J st ''books'' (bu_id d) \<noteq> i64_max" by (simp add: stored_stamp_def i64_max_def)
  have "\<exists>r. stage_book V L iv now queued v st d = stored V (stage_write_inner ?J st ''books'' (bu_id d) r queued)"
    by (simp add: stage_book_def draft_url_def assms(3,4,7) none Let_def stage_local_write_def) blast
  then obtain st' where st: "stage_book V L iv now queued v st d = Inr st'"
    using stage_write_inner_succeeds [OF merge_schemas(2) disjI2 [OF stamp]] by (metis stored_Inr)
  obtain r where w: "stage_write_inner ?J st ''books'' (bu_id d) r queued = Inr st'"
    and r: "fmlookup r ''id'' = Some (JString (bu_id d))" "fmlookup r ''deleted'' = Some (JBool False)"
    by (rule stage_book_new [OF st assms(6,3,4,2)])
  have pk: "fmlookup r (pk_of books_desc) = Some (JString (bu_id d))" using r(1) read_pks(3) by simp
  note view = stage_view [OF assms(1) w merge_schemas(2) pk]
  obtain x where x: "row_at ?J st' ''books'' (bu_id d) = Some x" using view(4) by blast
  have "flag_at ?J st' ''books'' (bu_id d) = Some (JBool False)" using view(3) r(2) by (simp add: keeps_flag_def)
  then have live: "\<not> is_deleted x" using x by (simp add: flag_at_def is_deleted_def)
  have ix: "string_field x ''id'' = Some (bu_id d)"
    using row_at_pk [OF merge_schemas(2) x] by (simp add: string_field_def)
  obtain b where b: "to_book_record ?C st' v x = Inr b" "br_id b = bu_id d"
    using to_book_record_ok [OF view(5), of ?C v x] ix by auto
  have "get_row ?J st' ''books'' (bu_id d) = Inr (Some x)" using get_row_at [OF merge_schemas(2)] x by metis
  then have "get_book ?J ?C st' v (bu_id d) = Inr (Some b)" using live b by (simp add: get_book_def)
  then show ?thesis using b by (simp add: find_or_create_book_by_url_def assms st)
qed

subsection \<open>Examples\<close>

text \<open>A device to run: exact arithmetic, text without cased letters.\<close>

definition demo_env :: "serde \<Rightarrow> env" where
  "demo_env J = \<lparr>env_serde = J, env_show = (\<lambda>_. []), env_crypto = toy_crypto, env_text = ascii_text,
     env_f64 = \<lparr>f_add = (+), f_sub = (-), f_mul = (*), f_div = (/), f_exp = (\<lambda>_. 1)\<rparr>\<rparr>"

definition demo_link :: string where
  "demo_link = unary_print \<lparr>u_scheme = ''https'', u_username = [], u_password = None, u_host = Some ''a.b'',
     u_port = None, u_path = ''/x'', u_query = None, u_fragment = None\<rparr>"

definition demo_book :: book_upsert where
  "demo_book = \<lparr>bu_id = ''b'', bu_title = ''T'', bu_author = None, bu_isbn = None, bu_cover_url = None,
     bu_cover_source = None, bu_cover_resolved_at = None, bu_status = None, bu_kind = None, bu_url = Some demo_link,
     bu_created_at = 1, bu_deleted = False, bu_clear_nullable_fields = []\<rparr>"

lemma demo_env_simps [simp]:
  "env_serde (demo_env J) = J" "env_crypto (demo_env J) = toy_crypto" "env_text (demo_env J) = ascii_text"
  by (simp_all add: demo_env_def)

lemma demo_link_normal: "\<exists>u. normalize_source_url unary_url_lib demo_link = Some u"
proof -
  have "graphic demo_link" by (simp only: demo_link_def unary_print_def graphic_append graphic_unary)
  then show ?thesis
    by (simp add: normalize_source_url_def str_trim_graphic unary_url_lib_def demo_link_def
        inv_f_f [OF inj_unary_print] Let_def)
qed


definition demo_note :: note_upsert where
  "demo_note = \<lparr>nu_id = ''n'', nu_book_id = Some ''b'', nu_plaintext = Some ''hi'', nu_page = None, nu_tags = [],
     nu_source = None, nu_source_id = None, nu_source_meta_json = None, nu_chapter = None, nu_image_path = None,
     nu_ink_crop_path = None, nu_created_at = 1, nu_deleted = False, nu_clear_nullable_fields = [''chapter'']\<rparr>"

lemma demo_note_written:
  "\<exists>st'. enqueue_note (demo_env mute_serde) toy_iv 5 5 (new_vault toy_mk) empty_store demo_note = Inr st'"
proof -
  have stamp: "stored_stamp mute_serde empty_store ''notes'' ''n'' \<noteq> i64_max"
    by (simp add: stored_stamp_def get_row_eq [OF merge_schemas(1)] empty_store_def i64_max_def)
  have "''chapter'' |\<notin>| fmdom (note_row 5 None demo_note)"
    by (rule fmdom_notI) (simp add: note_row_lookup draft_text_def demo_note_def)
  then have "apply_clears ''notes'' [''chapter''] (note_row 5 None demo_note) =
      Inr (fmupd ''chapter'' JNull (note_row 5 None demo_note))"
    by (simp add: clearable_columns_def)
  then have "\<exists>r. enqueue_note (demo_env mute_serde) toy_iv 5 5 (new_vault toy_mk) empty_store demo_note =
      stored (demo_env mute_serde) (stage_write_inner mute_serde empty_store ''notes'' ''n'' r 5)"
    by (simp add: enqueue_note_def demo_note_def parse_source_meta_def stage_write_def stage_local_write_def) blast
  then show ?thesis using stage_write_inner_succeeds [OF merge_schemas(1) disjI2 [OF stamp]] by (metis stored_Inr)
qed


theorem note_write_reads_back_witness:
  "\<exists>st' n. enqueue_note (demo_env mute_serde) toy_iv 5 5 (new_vault toy_mk) empty_store demo_note = Inr st' \<and>
     get_note mute_serde toy_crypto st' (new_vault toy_mk) ''n'' = Inr (Some n) \<and> nr_text n = Some ''hi''"
proof -
  obtain st' where st': "enqueue_note (demo_env mute_serde) toy_iv 5 5 (new_vault toy_mk) empty_store demo_note = Inr st'"
    using demo_note_written by blast
  have d: "\<not> nu_deleted demo_note" "nu_plaintext demo_note = Some ''hi''" "nu_id demo_note = ''n''"
    by (simp_all add: demo_note_def)
  have c: "crypto_ok (env_crypto (demo_env mute_serde))" by (simp add: toy_crypto_ok)
  have u: "utf8_valid ''hi''" by code_simp
  have k: "length (vault_mk (new_vault toy_mk)) = 32" "length toy_iv = 12" by (simp_all add: new_vault_def)
  from note_write_reads_back [OF c k u store_inv_empty st' d(1,2)] st' show ?thesis by (auto simp: d(3))
qed

subsection \<open>Batches\<close>

text \<open>A batch of complete entries: each names its record and carries its deleted flag.\<close>

definition entry_ok :: "string \<times> string \<times> row \<Rightarrow> bool" where
  "entry_ok w = (case w of (table, i, r) \<Rightarrow> (\<exists>t. table_schema table = Some t \<and>
     fmlookup r (pk_of t) = Some (JString i)) \<and> (\<exists>b. fmlookup r ''deleted'' = Some (JBool b)))"

abbreviation entry_key :: "string \<times> string \<times> row \<Rightarrow> string \<times> string" where
  "entry_key w \<equiv> (fst w, fst (snd w))"

lemma drop_pending_tables [simp]: "tables (snd (drop_pending_deletes_inner J st table i)) = tables st"
  by (simp add: drop_pending_deletes_inner_def)

lemma stage_entry_view:
  assumes inv: "store_inv st" and ok: "entry_ok (table, i, r)"
    and st: "stage_batch_entry J now (table, i, r) st = Inr st'"
  shows "store_inv st'" "(tb, k) \<noteq> (table, i) \<Longrightarrow> row_at J st' tb k = row_at J st tb k"
    and "flag_at J st' table i = fmlookup r ''deleted''"
    and "table_schema table = Some t \<Longrightarrow> map_of (ts_columns t) c = Some CText \<Longrightarrow> c \<noteq> ''updated_at'' \<Longrightarrow>
      text_at J st' table i c = (case fmlookup r c of Some v \<Rightarrow> as_str v | None \<Rightarrow> text_at J st table i c)"
proof -
  obtain t0 where t: "table_schema table = Some t0" "fmlookup r (pk_of t0) = Some (JString i)"
    using ok by (auto simp: entry_ok_def)
  define st1 where "st1 = (if fmlookup r ''deleted'' \<noteq> Some (JBool True)
    then snd (drop_pending_deletes_inner J st table i) else st)"
  have w: "stage_write_inner J st1 table i r now = Inr st'"
    using st by (simp add: stage_batch_entry_def st1_def)
  have inv1: "store_inv st1" using inv by (simp add: st1_def store_inv_drop_pending)
  have tb1: "tables st1 = tables st" by (simp add: st1_def)
  note same = row_at_frame [OF tb1, of J]
  note view = stage_view [OF inv1 w t]
  show "store_inv st'" by (rule view(5))
  show "row_at J st' tb k = row_at J st tb k" if "(tb, k) \<noteq> (table, i)"
    using view(1) [OF that] same by simp
  show "flag_at J st' table i = fmlookup r ''deleted''"
    using view(3) ok by (auto simp: entry_ok_def keeps_flag_def)
  show "text_at J st' table i c = (case fmlookup r c of Some v \<Rightarrow> as_str v | None \<Rightarrow> text_at J st table i c)"
    if "table_schema table = Some t" "map_of (ts_columns t) c = Some CText" "c \<noteq> ''updated_at''"
    using view(2) [of c] that t(1) view_cong [of J st1 table i st] same by (simp split: option.split)
qed

lemma stage_batch_view:
  assumes "store_inv st" "list_all entry_ok ws" "distinct (map entry_key ws)" "stage_batch J now ws st = Inr st'"
  shows "store_inv st'"
    and "(tb, k) \<notin> entry_key ` set ws \<Longrightarrow> row_at J st' tb k = row_at J st tb k"
    and "(tb, k, r) \<in> set ws \<Longrightarrow> flag_at J st' tb k = fmlookup r ''deleted''"
    and "(tb, k, r) \<in> set ws \<Longrightarrow> table_schema tb = Some t \<Longrightarrow> map_of (ts_columns t) c = Some CText \<Longrightarrow> c \<noteq> ''updated_at'' \<Longrightarrow>
      text_at J st' tb k c = (case fmlookup r c of Some v \<Rightarrow> as_str v | None \<Rightarrow> text_at J st tb k c)"
proof -
  have all: "store_inv st' \<and> (\<forall>tb k. (tb, k) \<notin> entry_key ` set ws \<longrightarrow> row_at J st' tb k = row_at J st tb k) \<and>
    (\<forall>tb k r. (tb, k, r) \<in> set ws \<longrightarrow> flag_at J st' tb k = fmlookup r ''deleted'' \<and>
      (\<forall>t c. table_schema tb = Some t \<longrightarrow> map_of (ts_columns t) c = Some CText \<longrightarrow> c \<noteq> ''updated_at'' \<longrightarrow>
        text_at J st' tb k c = (case fmlookup r c of Some v \<Rightarrow> as_str v | None \<Rightarrow> text_at J st tb k c)))"
    using assms
  proof (induction ws arbitrary: st)
    case (Cons w ws)
    obtain table i x where w: "w = (table, i, x)" by (metis prod_cases3)
    with Cons(5) obtain st1 where s1: "stage_batch_entry J now (table, i, x) st = Inr st1"
      and s2: "stage_batch J now ws st1 = Inr st'" by (auto split: sum.splits)
    have ok: "entry_ok (table, i, x)" "list_all entry_ok ws" using Cons(3) w by simp_all
    note e = stage_entry_view [OF Cons(2) ok(1) s1]
    have new: "(table, i) \<notin> entry_key ` set ws" "distinct (map entry_key ws)" using Cons(4) by (auto simp: w)
    note ih = Cons(1) [OF e(1) ok(2) new(2) s2]
    have "row_at J st' tb k = row_at J st tb k" if "(tb, k) \<notin> entry_key ` set (w # ws)" for tb k
      using that ih e(2) [of tb k] by (simp add: w)
    moreover have "flag_at J st' tb k = fmlookup r ''deleted'' \<and>
        (table_schema tb = Some t \<longrightarrow> map_of (ts_columns t) c = Some CText \<longrightarrow> c \<noteq> ''updated_at'' \<longrightarrow>
        text_at J st' tb k c = (case fmlookup r c of Some v \<Rightarrow> as_str v | None \<Rightarrow> text_at J st tb k c))"
      if r: "(tb, k, r) \<in> set (w # ws)" for tb k r t c
    proof (cases "(tb, k, r) \<in> set ws")
      case True
      then have "(tb, k) \<noteq> (table, i)" using new(1) by force
      from view_cong [OF e(2) [OF this]] have "text_at J st1 tb k c = text_at J st tb k c" by simp
      moreover from True ih have "flag_at J st' tb k = fmlookup r ''deleted'' \<and>
        (table_schema tb = Some t \<longrightarrow> map_of (ts_columns t) c = Some CText \<longrightarrow> c \<noteq> ''updated_at'' \<longrightarrow>
        text_at J st' tb k c = (case fmlookup r c of Some v \<Rightarrow> as_str v | None \<Rightarrow> text_at J st1 tb k c))"
        by blast
      ultimately show ?thesis by (simp split: option.split)
    next
      case False
      with r have eq: "tb = table" "k = i" "r = x" by (auto simp: w)
      have "row_at J st' table i = row_at J st1 table i" using ih new(1) by blast
      from view_cong [OF this] e(3) e(4) [of t c] show ?thesis unfolding eq by simp
    qed
    ultimately show ?case using ih by blast
  qed simp
  show "store_inv st'" "(tb, k) \<notin> entry_key ` set ws \<Longrightarrow> row_at J st' tb k = row_at J st tb k"
    "(tb, k, r) \<in> set ws \<Longrightarrow> flag_at J st' tb k = fmlookup r ''deleted''"
    "(tb, k, r) \<in> set ws \<Longrightarrow> table_schema tb = Some t \<Longrightarrow> map_of (ts_columns t) c = Some CText \<Longrightarrow> c \<noteq> ''updated_at'' \<Longrightarrow>
      text_at J st' tb k c = (case fmlookup r c of Some v \<Rightarrow> as_str v | None \<Rightarrow> text_at J st tb k c)"
    using all by blast+
qed

end
