(* ===== verification/Note_Lifecycle.thy ===== *)
theory Note_Lifecycle
  imports Facade_Laws
begin

text \<open>
  What happens around a note: deleting it retires its signals and the margin edges that point at it
  in the same batch, and replacing its margins leaves exactly the new ones, without touching a note
  or an edge that belongs to anything else.
\<close>

subsection \<open>The edges of a note\<close>

definition links_desc :: table_desc where "links_desc = descriptor_tables ! 3"

definition signals_desc :: table_desc where "signals_desc = descriptor_tables ! 7"

lemma edge_schemas:
  "table_schema ''note_links'' = Some links_desc" "table_schema ''note_signals'' = Some signals_desc"
  by (simp_all add: table_schema_def schema_defs links_desc_def signals_desc_def)

lemma edge_pks [simp]: "pk_of links_desc = ''id''" "pk_of signals_desc = ''note_id''"
  by (simp_all add: schema_defs links_desc_def signals_desc_def pk_of_def)

lemma edge_columns:
  "map_of (ts_columns links_desc) ''id'' = Some CText" "map_of (ts_columns links_desc) ''from_note_id'' = Some CText"
  "map_of (ts_columns links_desc) ''to_note_id'' = Some CText" "map_of (ts_columns links_desc) ''relation_type'' = Some CText"
  "map_of (ts_columns links_desc) ''deleted'' = Some CBool" "has_column links_desc ''created_at''"
  by (simp_all add: schema_defs links_desc_def has_column_def)

text \<open>A live edge, as the reads list it.\<close>

definition edge_at :: "serde \<Rightarrow> store \<Rightarrow> note_link_record \<Rightarrow> bool" where
  "edge_at J st l \<longleftrightarrow> (\<exists>r. row_at J st ''note_links'' (nlr_id l) = Some r \<and>
     fmlookup r ''deleted'' = Some (JBool False) \<and> to_note_link_record r = l)"

definition touches_note :: "string \<Rightarrow> row \<Rightarrow> bool" where
  "touches_note i r \<longleftrightarrow> row_str r ''from_note_id'' = Some i \<or> row_str r ''to_note_id'' = Some i"

lemma scan_live_complete:
  assumes "store_inv st" "table_schema table = Some t" "has_column t ''created_at''" "pk_of t = ''id''"
    and "list_live J st table None (-1) 0 = Inr ns"
    and r: "row_at J st table i = Some r" "fmlookup r ''deleted'' = Some (JBool False)"
  shows "r \<in> set ns"
proof -
  have ok: "desc_ok t" using assms(2) by (rule table_schema_Some)
  then have col: "map_of (ts_columns t) ''deleted'' = Some CBool" by (simp add: desc_ok_def)
  obtain rs where l: "list_live J st table None (-1) 0 = Inr (map (row_of_sql J t) rs)"
    and rs: "set rs = {r \<in> set (tables st table). is_live r}"
    by (rule live_rows_scan [OF assms(1-4), of J])
  obtain sr where sr: "sr \<in> set (tables st table)" "r = row_of_sql J t sr"
    using r(1) by (auto simp: row_at_def get_row_eq [OF assms(2)] dest!: find_SomeD)
  then have "is_live sr"
    using r(2) col by (cases "sr ''deleted''") (auto simp: is_live_def fmlookup_row_of_sql sql_to_json_def)
  with sr rs l assms(5) show ?thesis by auto
qed

lemma links_view:
  assumes "store_inv st" "keyed ''note_links'' st"
  obtains ls where "note_links_for_note J st i = Inr ls" "distinct (map nlr_id ls)"
    "\<And>l. l \<in> set ls \<longleftrightarrow> edge_at J st l \<and> (\<exists>r. row_at J st ''note_links'' (nlr_id l) = Some r \<and> touches_note i r)"
proof -
  obtain ns where ns: "list_live J st ''note_links'' None (-1) 0 = Inr ns"
    and ds: "distinct (map (\<lambda>n. str_of n ''id'') ns)"
    and rows: "\<And>n. n \<in> set ns \<Longrightarrow> row_at J st ''note_links'' (str_of n ''id'') = Some n \<and> fmlookup n ''deleted'' = Some (JBool False)"
    using scan_live [OF assms(1,2) edge_schemas(1) edge_columns(6) edge_pks(1)] by blast
  let ?fs = "filter (touches_note i) ns"
  have idr: "nlr_id (to_note_link_record n) = str_of n ''id''" for n
    by (simp add: to_note_link_record_def str_of_def string_field_row_str split: option.split)
  have links: "note_links_for_note J st i = Inr (map to_note_link_record ?fs)"
    by (simp add: note_links_for_note_def ns touches_note_def [abs_def] string_field_row_str)
  moreover have "distinct (map nlr_id (map to_note_link_record ?fs))"
    using ds by (simp add: comp_def idr distinct_map_filter)
  moreover have "l \<in> set (map to_note_link_record ?fs) \<longleftrightarrow>
      edge_at J st l \<and> (\<exists>r. row_at J st ''note_links'' (nlr_id l) = Some r \<and> touches_note i r)" for l
  proof
    assume "l \<in> set (map to_note_link_record ?fs)"
    then obtain n where "n \<in> set ns" "touches_note i n" "l = to_note_link_record n" by auto
    with rows [of n] show "edge_at J st l \<and> (\<exists>r. row_at J st ''note_links'' (nlr_id l) = Some r \<and> touches_note i r)"
      by (simp add: edge_at_def idr)
  next
    assume "edge_at J st l \<and> (\<exists>r. row_at J st ''note_links'' (nlr_id l) = Some r \<and> touches_note i r)"
    then obtain r where r: "row_at J st ''note_links'' (nlr_id l) = Some r" "fmlookup r ''deleted'' = Some (JBool False)"
      "to_note_link_record r = l" "touches_note i r" by (auto simp: edge_at_def)
    from scan_live_complete [OF assms(1) edge_schemas(1) edge_columns(6) edge_pks(1) ns r(1,2)] r(3,4)
    show "l \<in> set (map to_note_link_record ?fs)" by auto
  qed
  ultimately show thesis by (rule that)
qed

text \<open>The margin edges of a parent, and those that point at a note.\<close>

definition handwritten_edge :: "row \<Rightarrow> bool" where
  "handwritten_edge r \<longleftrightarrow> is_handwritten (row_str r ''relation_type'')"

lemma to_note_link_fields [simp]:
  "nlr_from_note_id (to_note_link_record r) = unwrap_or (row_str r ''from_note_id'') []"
  "nlr_to_note_id (to_note_link_record r) = unwrap_or (row_str r ''to_note_id'') []"
  "nlr_relation_type (to_note_link_record r) = row_str r ''relation_type''"
  by (simp_all add: to_note_link_record_def string_field_row_str)

subsection \<open>Deleting a note\<close>

lemma signal_row_entry:
  "entry_ok (''note_signals'', i, signal_row i s im c now b)" "fmlookup (signal_row i s im c now b) ''deleted'' = Some (JBool b)"
  by (auto simp: entry_ok_def edge_schemas signal_row_def fmlookup_of_list)

lemma edge_tombstone_entry:
  "entry_ok (edge_tombstone now e)" "entry_key (edge_tombstone now e) = (''note_links'', nlr_id e)"
  "fmlookup (snd (snd (edge_tombstone now e))) ''deleted'' = Some (JBool True)"
  by (auto simp: entry_ok_def edge_schemas edge_tombstone_def fmlookup_of_list)

lemma stage_signal_write_entry:
  assumes "stage_signal_write F J st i src now f = Inr (Some sig)"
  shows "entry_ok (''note_signals'', i, sig)" "fmlookup sig ''deleted'' = Some (JBool False)"
  using assms signal_row_entry by (auto simp: stage_signal_write_def and_then_def Let_def split: sum.splits if_splits)

lemma parent_recompute_entry:
  assumes "parent_recompute F J now st ids p = Inr ws"
  shows "ws = [] \<or> (\<exists>sig. ws = [(''note_signals'', p, sig)] \<and> entry_ok (''note_signals'', p, sig))"
  using assms
  by (auto simp: parent_recompute_def and_then_def Let_def dest: stage_signal_write_entry(1)
      split: sum.splits option.splits if_splits)

lemma recomputed_entries:
  assumes "traverse (parent_recompute F J now st ids) ps = Inr ws" "distinct ps"
  shows "list_all entry_ok (concat ws) \<and> distinct (map entry_key (concat ws)) \<and>
    entry_key ` set (concat ws) \<subseteq> (\<lambda>p. (''note_signals'', p)) ` set ps"
  using assms
proof (induction ps arbitrary: ws)
  case (Cons p ps)
  then obtain w ws' where w: "parent_recompute F J now st ids p = Inr w"
    and ws': "traverse (parent_recompute F J now st ids) ps = Inr ws'" "ws = w # ws'"
    by (auto split: sum.splits)
  with Cons have ih: "list_all entry_ok (concat ws')" "distinct (map entry_key (concat ws'))"
    "entry_key ` set (concat ws') \<subseteq> (\<lambda>p. (''note_signals'', p)) ` set ps" by auto
  have "(''note_signals'', p) \<notin> entry_key ` set (concat ws')" using ih(3) Cons(3) by auto
  then have out: "(''note_signals'', p) \<notin> set (map entry_key (concat ws'))" by simp
  from parent_recompute_entry [OF w] show ?case
  proof (elim disjE exE conjE)
    fix sig
    assume "w = [(''note_signals'', p, sig)]" and ok: "entry_ok (''note_signals'', p, sig)"
    then have eq: "concat ws = (''note_signals'', p, sig) # concat ws'" by (simp add: ws'(2))
    have "distinct (map entry_key (concat ws))" unfolding eq using ih(2) out by simp
    moreover have "list_all entry_ok (concat ws)" unfolding eq using ih(1) ok by simp
    moreover have "entry_key ` set (concat ws) \<subseteq> (\<lambda>p. (''note_signals'', p)) ` set (p # ps)"
      unfolding eq using ih(3) by auto
    ultimately show ?case by blast
  qed (use ih ws'(2) in auto)
qed simp

text \<open>The whole cascade: complete entries, one per record, none for the note itself.\<close>

lemma cascade_entries:
  assumes "store_inv st" "keyed ''note_links'' st" "stage_annotation_cascade_on_delete F J now st i = Inr ws"
  shows "list_all entry_ok ws" "distinct (map entry_key ws)"
    and "entry_key ` set ws \<subseteq> {''note_links''} \<times> UNIV \<union> {''note_signals''} \<times> (UNIV - {i})"
    and "row_at J st ''note_links'' e = Some r \<Longrightarrow> fmlookup r ''deleted'' = Some (JBool False) \<Longrightarrow>
      row_str r ''to_note_id'' = Some i \<Longrightarrow> handwritten_edge r \<Longrightarrow>
      \<exists>x. (''note_links'', e, x) \<in> set ws \<and> fmlookup x ''deleted'' = Some (JBool True)"
    and "(''note_links'', e) \<in> entry_key ` set ws \<Longrightarrow> text_at J st ''note_links'' e ''to_note_id'' = Some i \<or> i = []"
proof -
  obtain ls where ls: "note_links_for_note J st i = Inr ls" "distinct (map nlr_id ls)"
    and mem: "\<And>l. l \<in> set ls \<longleftrightarrow> edge_at J st l \<and> (\<exists>r. row_at J st ''note_links'' (nlr_id l) = Some r \<and> touches_note i r)"
    using links_view [OF assms(1,2), of J i] by blast
  define old where "old = filter (\<lambda>e. nlr_to_note_id e = i \<and> is_handwritten (nlr_relation_type e)) ls"
  define ps where "ps = first_seen [] (filter (\<lambda>p. p \<noteq> i) (map nlr_from_note_id old))"
  obtain sigs where sg: "traverse (parent_recompute F J now st (map nlr_id old)) ps = Inr sigs"
    and ws: "ws = map (edge_tombstone now) old @ concat sigs"
    using assms(3) ls(1) by (auto simp: stage_annotation_cascade_on_delete_def and_then_Inr Let_def old_def ps_def)
  have dp: "distinct ps" and sp: "i \<notin> set ps" by (auto simp: ps_def distinct_first_seen set_first_seen)
  note rc = recomputed_entries [OF sg dp]
  have keys: "entry_key ` set ws = (\<lambda>e. (''note_links'', nlr_id e)) ` set old \<union> entry_key ` set (concat sigs)"
    by (simp add: ws image_Un image_image edge_tombstone_entry(2) del: set_concat)
  have "distinct (map (\<lambda>e. (''note_links'', nlr_id e)) old)"
    using ls(2) by (auto simp: old_def distinct_map inj_on_def)
  moreover have "entry_key ` set (concat sigs) \<inter> {''note_links''} \<times> UNIV = {}" using rc by auto
  ultimately show "distinct (map entry_key ws)"
    using rc by (auto simp: ws edge_tombstone_entry(2) comp_def)
  show "list_all entry_ok ws" using rc by (auto simp: ws list_all_iff edge_tombstone_entry(1))
  show "entry_key ` set ws \<subseteq> {''note_links''} \<times> UNIV \<union> {''note_signals''} \<times> (UNIV - {i})"
    unfolding keys using rc sp by auto
  show "\<exists>x. (''note_links'', e, x) \<in> set ws \<and> fmlookup x ''deleted'' = Some (JBool True)"
    if "row_at J st ''note_links'' e = Some r" "fmlookup r ''deleted'' = Some (JBool False)"
      "row_str r ''to_note_id'' = Some i" "handwritten_edge r"
  proof -
    let ?l = "to_note_link_record r"
    have e: "nlr_id ?l = e"
      using row_at_pk [OF edge_schemas(1) that(1)] by (simp add: to_note_link_record_def string_field_def)
    have "?l \<in> set ls" using that by (auto simp: mem edge_at_def e touches_note_def)
    then have "?l \<in> set old" using that by (simp add: old_def handwritten_edge_def)
    then have "edge_tombstone now ?l \<in> set ws" by (simp add: ws)
    moreover have "edge_tombstone now ?l = (''note_links'', e, snd (snd (edge_tombstone now ?l)))"
      by (simp add: edge_tombstone_def e)
    ultimately show ?thesis using edge_tombstone_entry(3) [of now ?l] by metis
  qed
  show "text_at J st ''note_links'' e ''to_note_id'' = Some i \<or> i = []" if ek: "(''note_links'', e) \<in> entry_key ` set ws"
  proof -
    have "(''note_links'', e) \<notin> entry_key ` set (concat sigs)" using rc by auto
    then obtain l where l: "l \<in> set old" "nlr_id l = e" using ek by (auto simp: keys)
    then obtain r where "row_at J st ''note_links'' e = Some r" "to_note_link_record r = l"
      by (auto simp: old_def mem edge_at_def)
    moreover have "nlr_to_note_id l = i" using l by (simp add: old_def)
    ultimately show ?thesis by (cases "row_str r ''to_note_id''") (auto simp: text_at_def)
  qed
qed

text \<open>Both shapes of a deleting draft are one batch: the note first, then what goes with it.\<close>

lemma enqueue_note_deleted:
  assumes "enqueue_note V iv now queued v st d = Inr st'" "nu_deleted d"
  obtains r tomb cascade src where
    "build_signals_tombstone (env_f64 V) (env_serde V) st (nu_id d) src now = Inr tomb"
    "stage_annotation_cascade_on_delete (env_f64 V) (env_serde V) now st (nu_id d) = Inr cascade"
    "stage_batch (env_serde V) now ((''notes'', nu_id d, r) #
       (case tomb of None \<Rightarrow> [] | Some t \<Rightarrow> [(''note_signals'', nu_id d, t)]) @ cascade) st = Inr st'"
    "fmlookup r ''id'' = Some (JString (nu_id d))" "fmlookup r ''deleted'' = Some (JBool True)"
proof -
  obtain m r0 where cl: "apply_clears ''notes'' (nu_clear_nullable_fields d) (note_row now m d) = Inr r0"
    and rest: "(case nu_plaintext d of Some p \<Rightarrow>
          \<exists>ws. delete_writes V now st (nu_id d) (sealed_row V iv v d p r0) = Inr ws \<and>
            stage_local_writes (env_serde V) st ws now = Inr st'
        | None \<Rightarrow> stage_existing_live_note_patch (env_f64 V) (env_serde V) st (nu_id d)
            (insert_opt ''source'' (map_option JString (nu_source d)) r0) True now = Inr st')"
    using assms by (auto simp: enqueue_note_def and_then_Inr Let_def split: option.splits if_splits)
  note lk = apply_clears_lookup [OF cl]
  have nc: "c \<notin> set (nu_clear_nullable_fields d)" if "c \<in> {''id'', ''deleted''}" for c
    using apply_clears_allowed [OF cl] that by (auto simp: clearable_columns_def)
  show thesis
  proof (cases "nu_plaintext d")
    case (Some p)
    let ?r = "sealed_row V iv v d p r0"
    from rest Some obtain ws where ws: "delete_writes V now st (nu_id d) ?r = Inr ws"
      "stage_local_writes (env_serde V) st ws now = Inr st'" by auto
    from ws(1) obtain tomb cascade where
      "build_signals_tombstone (env_f64 V) (env_serde V) st (nu_id d) (row_str ?r ''source'') now = Inr tomb"
      "stage_annotation_cascade_on_delete (env_f64 V) (env_serde V) now st (nu_id d) = Inr cascade"
      "ws = (''notes'', nu_id d, ?r) # (case tomb of None \<Rightarrow> [] | Some t \<Rightarrow> [(''note_signals'', nu_id d, t)]) @ cascade"
      by (auto simp: delete_writes_def and_then_Inr)
    with ws(2) show thesis
      by (intro that [of "row_str ?r ''source''" tomb cascade ?r])
        (auto simp: stage_local_writes_def sealed_row_def lk nc note_row_lookup assms(2))
  next
    case None
    let ?r = "insert_opt ''source'' (map_option JString (nu_source d)) r0"
    have dl: "fmlookup ?r ''deleted'' = Some (JBool True)" by (simp add: lk nc note_row_lookup assms(2))
    from rest None obtain src tomb cascade where a:
      "build_signals_tombstone (env_f64 V) (env_serde V) st (nu_id d) src now = Inr tomb"
      "stage_annotation_cascade_on_delete (env_f64 V) (env_serde V) now st (nu_id d) = Inr cascade"
      "stage_local_write_existing_live (env_serde V) st ''notes'' (nu_id d) ?r
        ((case tomb of None \<Rightarrow> [] | Some t \<Rightarrow> [(''note_signals'', nu_id d, t)]) @ cascade) now = Inr st'"
      by (auto simp: stage_existing_live_note_patch_def and_then_Inr Let_def split: sum.splits)
    obtain st1 where "stage_write_inner (env_serde V) st ''notes'' (nu_id d) ?r now = Inr st1"
      "stage_batch (env_serde V) now ((case tomb of None \<Rightarrow> [] | Some t \<Rightarrow> [(''note_signals'', nu_id d, t)]) @ cascade) st1 = Inr st'"
      by (rule existing_live_Inr [OF a(3)])
    then have "stage_batch (env_serde V) now ((''notes'', nu_id d, ?r) #
       (case tomb of None \<Rightarrow> [] | Some t \<Rightarrow> [(''note_signals'', nu_id d, t)]) @ cascade) st = Inr st'"
      by (simp add: stage_batch_entry_def dl del: fmlookup_insert_opt)
    from that [OF a(1,2) this] show thesis by (simp add: lk nc note_row_lookup assms(2))
  qed
qed

lemma signals_tombstone_entry:
  assumes "build_signals_tombstone F J st i src now = Inr tomb"
  shows "(case tomb of None \<Rightarrow> dead_at J st ''note_signals'' i
    | Some t \<Rightarrow> entry_ok (''note_signals'', i, t) \<and> fmlookup t ''deleted'' = Some (JBool True))"
  using assms signal_row_entry
  by (auto simp: build_signals_tombstone_def and_then_Inr Let_def dead_at_def row_at_def is_deleted_def
      split: option.splits if_splits)

text \<open>
  Property C12.  Deleting a note takes everything that hangs on it along, in one transaction: when
  the call returns, the note and its signals are tombstones, and so is every margin edge that
  pointed at it; no other note changes, no signals of another note are deleted that were not, and
  an edge that changes pointed at the note.
\<close>

theorem note_delete_cascades:
  assumes inv: "store_inv st" "keyed ''note_links'' st" and ok: "enqueue_note V iv now queued v st d = Inr st'"
    and del: "nu_deleted d" "nu_id d \<noteq> []"
  shows "dead_at (env_serde V) st' ''notes'' (nu_id d) \<and> dead_at (env_serde V) st' ''note_signals'' (nu_id d) \<and>
    (\<forall>e r. row_at (env_serde V) st ''note_links'' e = Some r \<longrightarrow> fmlookup r ''deleted'' = Some (JBool False) \<longrightarrow>
       row_str r ''to_note_id'' = Some (nu_id d) \<longrightarrow> handwritten_edge r \<longrightarrow> dead_at (env_serde V) st' ''note_links'' e) \<and>
    (\<forall>i. i \<noteq> nu_id d \<longrightarrow> row_at (env_serde V) st' ''notes'' i = row_at (env_serde V) st ''notes'' i) \<and>
    (\<forall>e. row_at (env_serde V) st' ''note_links'' e \<noteq> row_at (env_serde V) st ''note_links'' e \<longrightarrow>
       text_at (env_serde V) st ''note_links'' e ''to_note_id'' = Some (nu_id d))"
proof -
  let ?J = "env_serde V" and ?i = "nu_id d"
  obtain r tomb cascade src where
    tb: "build_signals_tombstone (env_f64 V) ?J st ?i src now = Inr tomb"
    and cs: "stage_annotation_cascade_on_delete (env_f64 V) ?J now st ?i = Inr cascade"
    and st': "stage_batch ?J now ((''notes'', ?i, r) #
       (case tomb of None \<Rightarrow> [] | Some t \<Rightarrow> [(''note_signals'', ?i, t)]) @ cascade) st = Inr st'"
    and r: "fmlookup r ''id'' = Some (JString ?i)" "fmlookup r ''deleted'' = Some (JBool True)"
    by (rule enqueue_note_deleted [OF ok del(1)])
  let ?sig = "case tomb of None \<Rightarrow> [] | Some t \<Rightarrow> [(''note_signals'', ?i, t)]"
  let ?ws = "(''notes'', ?i, r) # ?sig @ cascade"
  note c = cascade_entries [OF inv cs]
  note t = signals_tombstone_entry [OF tb]
  have ok0: "entry_ok (''notes'', ?i, r)" using r merge_schemas(1) by (auto simp: entry_ok_def)
  have ok: "list_all entry_ok ?ws" using ok0 c(1) t by (auto split: option.splits)
  have off: "(''notes'', k) \<notin> entry_key ` set cascade" "(''note_signals'', ?i) \<notin> entry_key ` set cascade" for k
    using c(3) by auto
  have ds: "distinct (map entry_key ?ws)"
    using c(2) off by (cases tomb) simp_all
  note view = stage_batch_view [OF inv(1) ok ds st']
  have "dead_at ?J st' ''notes'' ?i" using view(3) [of "''notes''" ?i r] r(2) by (simp add: dead_at_flag)
  moreover have "dead_at ?J st' ''note_signals'' ?i"
  proof (cases tomb)
    case None
    then have "(''note_signals'', ?i) \<notin> entry_key ` set ?ws" using off(2) by auto
    from view_cong [OF view(2) [OF this]] t None show ?thesis by simp
  next
    case (Some x)
    then show ?thesis using view(3) [of "''note_signals''" ?i x] t by (simp add: dead_at_flag)
  qed
  moreover have "dead_at ?J st' ''note_links'' e"
    if e: "row_at ?J st ''note_links'' e = Some x" "fmlookup x ''deleted'' = Some (JBool False)"
      "row_str x ''to_note_id'' = Some ?i" "handwritten_edge x" for e x
  proof -
    obtain y where y: "(''note_links'', e, y) \<in> set cascade" "fmlookup y ''deleted'' = Some (JBool True)"
      using c(4) [OF e] by blast
    then show ?thesis using view(3) [of "''note_links''" e y] by (simp add: dead_at_flag)
  qed
  moreover have "row_at ?J st' ''notes'' i = row_at ?J st ''notes'' i" if "i \<noteq> ?i" for i
  proof (rule view(2))
    show "(''notes'', i) \<notin> entry_key ` set ?ws" using that off(1) [of i] by (cases tomb) (auto simp: image_iff)
  qed
  moreover have "text_at ?J st ''note_links'' e ''to_note_id'' = Some ?i"
    if "row_at ?J st' ''note_links'' e \<noteq> row_at ?J st ''note_links'' e" for e
  proof -
    have "(''note_links'', e) \<in> entry_key ` set ?ws" using view(2) that by blast
    then have "(''note_links'', e) \<in> entry_key ` set cascade" by (cases tomb) auto
    from c(5) [OF this] del(2) show ?thesis by simp
  qed
  ultimately show ?thesis by blast
qed

subsection \<open>A family of notes\<close>

text \<open>A parent and its margin child on one page, the child's signals, an edge between them.\<close>

definition family_store :: store where
  "family_store = empty_store\<lparr>tables := (\<lambda>_. [])
     (''notes'' := [(\<lambda>_. SNull)(''id'' := SText ''p'', ''source'' := SText ''manual'', ''deleted'' := SInteger 0,
        ''updated_at'' := SInteger 1, ''created_at'' := SInteger 1),
        (\<lambda>_. SNull)(''id'' := SText ''c'', ''source'' := SText ''handwritten'', ''deleted'' := SInteger 0,
        ''updated_at'' := SInteger 1, ''created_at'' := SInteger 1)],
      ''note_links'' := [(\<lambda>_. SNull)(''id'' := SText ''e'', ''from_note_id'' := SText ''p'', ''to_note_id'' := SText ''c'',
        ''deleted'' := SInteger 0, ''updated_at'' := SInteger 1, ''created_at'' := SInteger 1)])\<rparr>"

definition delete_child :: note_upsert where
  "delete_child = demo_note\<lparr>nu_id := ''c'', nu_book_id := None, nu_plaintext := None, nu_deleted := True,
     nu_clear_nullable_fields := []\<rparr>"

lemma family_store_inv: "store_inv family_store"
  unfolding family_store_def by (rule store_inv_tables)
    (simp add: schema_defs pk_unique_def pk_of_def row_typed_def is_i64_def i64_min_def i64_max_def)

lemma family_keyed: "keyed ''note_links'' family_store"
  by (simp add: keyed_def edge_schemas family_store_def)

theorem note_delete_cascades_witness:
  "case enqueue_note (demo_env mute_serde) [] 5 5 (new_vault toy_mk) family_store delete_child of
     Inr st' \<Rightarrow> dead_at mute_serde st' ''notes'' ''c'' \<and> dead_at mute_serde st' ''note_links'' ''e'' \<and>
       row_at mute_serde st' ''notes'' ''p'' = row_at mute_serde family_store ''notes'' ''p''
   | Inl _ \<Rightarrow> False"
proof -
  have "case enqueue_note (demo_env mute_serde) [] 5 5 (new_vault toy_mk) family_store delete_child of
     Inr _ \<Rightarrow> True | Inl _ \<Rightarrow> False" by code_simp
  then obtain st' where st': "enqueue_note (demo_env mute_serde) [] 5 5 (new_vault toy_mk) family_store delete_child = Inr st'"
    by (auto split: sum.splits)
  have d: "nu_deleted delete_child" "nu_id delete_child \<noteq> []" "nu_id delete_child = ''c''"
    by (simp_all add: delete_child_def)
  have e: "case row_at mute_serde family_store ''note_links'' ''e'' of None \<Rightarrow> False
    | Some r \<Rightarrow> fmlookup r ''deleted'' = Some (JBool False) \<and> row_str r ''to_note_id'' = Some ''c'' \<and> handwritten_edge r"
    by code_simp
  from note_delete_cascades [OF family_store_inv family_keyed st' d(1,2)] e st' show ?thesis
    by (auto simp: d(3) split: option.splits)
qed

end
