(* ===== verification/Margins.thy ===== *)
theory Margins
  imports Note_Lifecycle
begin

text \<open>
  The margins of a note: a call that replaces them leaves exactly the new ones on the parent, and
  retires of the old ones only what nothing else holds on to.
\<close>

subsection \<open>What the checks of a call establish\<close>

lemma check_margins_ok:
  assumes "check_margins V st p seen cs = Inr ()"
  shows "distinct (map mc_id cs)" "distinct (map mc_link_id cs)" "p \<notin> mc_id ` set cs"
    and "\<forall>c \<in> set cs. check_margin V st p c = Inr ()"
    and "(mc_id ` set cs \<union> mc_link_id ` set cs) \<inter> set seen = {}"
proof -
  have "distinct (map mc_id cs) \<and> distinct (map mc_link_id cs) \<and> p \<notin> mc_id ` set cs \<and>
    (\<forall>c \<in> set cs. check_margin V st p c = Inr ()) \<and>
    (mc_id ` set cs \<union> mc_link_id ` set cs) \<inter> set seen = {}"
    using assms
  proof (induction cs arbitrary: seen)
    case (Cons c cs)
    then have "check_margins V st p (mc_link_id c # mc_id c # seen) cs = Inr ()"
      and c: "check_margin V st p c = Inr ()" "mc_id c \<noteq> p" "mc_id c \<notin> set seen" "mc_link_id c \<notin> set seen"
      by (auto simp: and_then_Inr split: if_splits)
    from Cons(1) [OF this(1)] c show ?case by auto
  qed simp
  then show "distinct (map mc_id cs)" "distinct (map mc_link_id cs)" "p \<notin> mc_id ` set cs"
    "\<forall>c \<in> set cs. check_margin V st p c = Inr ()"
    "(mc_id ` set cs \<union> mc_link_id ` set cs) \<inter> set seen = {}" by blast+
qed

text \<open>A child id that is reused is one of the parent's own margins, and nothing else refers to it.\<close>

lemma check_margin_reuse:
  assumes "store_inv st" "keyed ''note_links'' st" "check_margin V st p c = Inr ()"
    and "row_at (env_serde V) st ''note_links'' e = Some r" "fmlookup r ''deleted'' = Some (JBool False)"
    and "touches_note (mc_id c) r"
  shows "own_margin_edge p (mc_id c) (to_note_link_record r)"
proof -
  obtain ls where ls: "note_links_for_note (env_serde V) st (mc_id c) = Inr ls" "distinct (map nlr_id ls)"
    and mem: "\<And>l. l \<in> set ls \<longleftrightarrow> edge_at (env_serde V) st l \<and>
      (\<exists>r. row_at (env_serde V) st ''note_links'' (nlr_id l) = Some r \<and> touches_note (mc_id c) r)"
    using links_view [OF assms(1,2), of "env_serde V" "mc_id c"] by blast
  have "case note_links_for_note (env_serde V) st (mc_id c) of Inl _ \<Rightarrow> False
      | Inr ls \<Rightarrow> list_all (own_margin_edge p (mc_id c)) ls"
    using assms(3)
    by (simp add: check_margin_def and_then_def stored_def Let_def split: if_splits option.splits sum.splits)
  then have "list_all (own_margin_edge p (mc_id c)) ls" by (simp add: ls)
  have "nlr_id (to_note_link_record r) = e"
    using row_at_pk [OF edge_schemas(1) assms(4)] by (simp add: to_note_link_record_def string_field_def)
  then have "to_note_link_record r \<in> set ls" using assms(4-6) by (auto simp: mem edge_at_def)
  with \<open>list_all (own_margin_edge p (mc_id c)) ls\<close> show ?thesis by (simp add: list_all_iff)
qed

text \<open>A note that is overwritten was a margin, and an edge that is overwritten one of the parent's.\<close>

lemma check_margin_rows:
  assumes "check_margin V st p c = Inr ()"
  shows "row_at (env_serde V) st ''notes'' (mc_id c) = Some n \<Longrightarrow> row_str n ''source'' = Some ''handwritten''"
    and "row_at (env_serde V) st ''note_links'' (mc_link_id c) = Some l \<Longrightarrow>
      row_str l ''from_note_id'' = Some p \<and> handwritten_edge l"
proof -
  show "row_str n ''source'' = Some ''handwritten''" if "row_at (env_serde V) st ''notes'' (mc_id c) = Some n"
    using assms that
    by (simp add: check_margin_def and_then_def stored_def Let_def row_at_def split: if_splits option.splits sum.splits)
  show "row_str l ''from_note_id'' = Some p \<and> handwritten_edge l"
    if "row_at (env_serde V) st ''note_links'' (mc_link_id c) = Some l"
  proof -
    have "reusable_link p (Some l)"
      using assms that by (simp add: check_margin_def and_then_def stored_def row_at_def split: if_splits sum.splits)
    then show ?thesis
      by (cases "row_str l ''relation_type''") (simp_all add: reusable_link_def handwritten_edge_def is_handwritten_def)
  qed
qed

subsection \<open>The entries of a call\<close>

lemma retire_entries:
  assumes "retire_margins J now st p ret nc nl gone es = Inr ws" "distinct (map nlr_id es)"
  shows "list_all entry_ok ws \<and> distinct (map entry_key ws) \<and>
    (\<forall>w \<in> set ws. fmlookup (snd (snd w)) ''deleted'' = Some (JBool True)) \<and>
    (\<forall>e. (''note_links'', e) \<in> entry_key ` set ws \<longleftrightarrow> e \<in> nlr_id ` set es - set nl) \<and>
    (\<forall>i. (''notes'', i) \<in> entry_key ` set ws \<longrightarrow>
       i \<notin> set gone \<union> set nc \<union> {p} \<and> spent_margin J st ret i = Inr True) \<and>
    entry_key ` set ws \<subseteq> {''note_links'', ''notes''} \<times> UNIV"
  using assms
proof (induction J now st p ret nc nl gone es arbitrary: ws rule: retire_margins.induct)
  case (2 J now st p ret nc nl gone e es)
  let ?edge = "if nlr_id e \<in> set nl then [] else [edge_tombstone now e]"
  let ?child = "nlr_to_note_id e"
  have ds: "distinct (map nlr_id es)" "nlr_id e \<notin> nlr_id ` set es" using 2(5) by auto
  have nt: "entry_ok (note_tombstone now i)" "entry_key (note_tombstone now i) = (''notes'', i)"
    "fmlookup (snd (snd (note_tombstone now i))) ''deleted'' = Some (JBool True)" for i
    using merge_schemas(1) by (auto simp: note_tombstone_def entry_ok_def fmlookup_of_list)
  note et = edge_tombstone_entry [of now e]
  have nf: "\<not> False" by simp
  consider (skip) ws' where "?child \<in> set gone \<or> ?child \<in> set nc \<or> ?child = p" "ws = ?edge @ ws'"
      "retire_margins J now st p ret nc nl gone es = Inr ws'"
    | (spent) ws' where "\<not> (?child \<in> set gone \<or> ?child \<in> set nc \<or> ?child = p)" "spent_margin J st ret ?child = Inr True"
      "ws = ?edge @ note_tombstone now ?child # ws'" "retire_margins J now st p ret nc nl (?child # gone) es = Inr ws'"
    | (kept) ws' where "\<not> (?child \<in> set gone \<or> ?child \<in> set nc \<or> ?child = p)" "spent_margin J st ret ?child = Inr False"
      "ws = ?edge @ ws'" "retire_margins J now st p ret nc nl gone es = Inr ws'"
    using 2(4) by (auto simp: Let_def and_then_Inr split: if_splits)
  then show ?case
  proof cases
    case skip
    from 2(1) [OF refl refl skip(1,3) ds(1)] show ?thesis
      unfolding skip(2) using et ds(2) by (cases "nlr_id e \<in> set nl") (auto simp: image_iff)
  next
    case spent
    from 2(2) [OF refl refl spent(1) TrueI spent(4) ds(1)] show ?thesis
      unfolding spent(3) using et nt [of ?child] ds(2) spent(1,2)
      by (cases "nlr_id e \<in> set nl") (auto simp: image_iff)
  next
    case kept
    from 2(3) [OF refl refl kept(1) nf kept(4) ds(1)] show ?thesis
      unfolding kept(3) using et ds(2) by (cases "nlr_id e \<in> set nl") (auto simp: image_iff)
  qed
qed simp

lemma source_column: "map_of (ts_columns notes_desc) ''source'' = Some CText" "map_of (ts_columns notes_desc) ''text'' = Some CText"
  by (simp_all add: schema_defs desc_defs)

lemma stage_local_writes_batch: "stage_local_writes J st ws now = stage_batch J now ws st"
  by (cases ws) (simp_all add: stage_local_writes_def)

lemma margin_lookups:
  "fmlookup (margin_note V iv v b t c) ''id'' = Some (JString (mc_id c))"
  "fmlookup (margin_note V iv v b t c) ''deleted'' = Some (JBool False)"
  "fmlookup (margin_note V iv v b t c) ''book_id'' = Some (json_opt b)"
  "fmlookup (margin_note V iv v b t c) ''source'' = Some (JString ''handwritten'')"
  "fmlookup (margin_note V iv v b t c) ''text'' = Some (JString (sealed_text V iv v (mc_id c) (mc_text c)))"
  "fmlookup (margin_link p t c) ''id'' = Some (JString (mc_link_id c))"
  "fmlookup (margin_link p t c) ''deleted'' = Some (JBool False)"
  "fmlookup (margin_link p t c) ''from_note_id'' = Some (JString p)"
  "fmlookup (margin_link p t c) ''to_note_id'' = Some (JString (mc_id c))"
  "fmlookup (margin_link p t c) ''relation_type'' = Some (JString ''handwritten_annotation'')"
  by (simp_all add: margin_note_def margin_link_def fmlookup_of_list vault_encrypt_note_def)

lemma margin_entries:
  "list_all entry_ok (margin_writes V ivs v p b now x)"
  "map entry_key (margin_writes V ivs v p b now x) = [(''notes'', mc_id (snd x)), (''note_links'', mc_link_id (snd x))]"
  using merge_schemas(1) edge_schemas(1)
  by (auto simp: margin_writes_def entry_ok_def margin_lookups split: prod.split)

lemma create_entries:
  assumes "distinct (map mc_id cs)" "distinct (map mc_link_id cs)"
    and ws_def: "ws = concat (map (margin_writes V ivs v p b now) (enumerate n cs))"
  shows "list_all entry_ok ws" "distinct (map entry_key ws)"
    "entry_key ` set ws = (\<lambda>c. (''notes'', mc_id c)) ` set cs \<union> (\<lambda>c. (''note_links'', mc_link_id c)) ` set cs"
proof -
  have "list_all entry_ok (concat (map (margin_writes V ivs v p b now) (enumerate n cs))) \<and>
    distinct (map entry_key (concat (map (margin_writes V ivs v p b now) (enumerate n cs)))) \<and>
    set (map entry_key (concat (map (margin_writes V ivs v p b now) (enumerate n cs)))) =
      (\<lambda>c. (''notes'', mc_id c)) ` set cs \<union> (\<lambda>c. (''note_links'', mc_link_id c)) ` set cs"
    using assms(1,2)
  proof (induction cs arbitrary: n)
    case (Cons c cs)
    let ?rest = "concat (map (margin_writes V ivs v p b now) (enumerate (Suc n) cs))"
    have eq: "map entry_key (concat (map (margin_writes V ivs v p b now) (enumerate n (c # cs)))) =
        (''notes'', mc_id c) # (''note_links'', mc_link_id c) # map entry_key ?rest"
      by (simp add: margin_entries(2))
    have ih: "list_all entry_ok ?rest" "distinct (map entry_key ?rest)"
      "set (map entry_key ?rest) = (\<lambda>c. (''notes'', mc_id c)) ` set cs \<union> (\<lambda>c. (''note_links'', mc_link_id c)) ` set cs"
      using Cons(1) [of "Suc n"] Cons(2,3) by auto
    show ?case unfolding eq distinct.simps list.set ih(3)
      using ih(1,2) Cons(2,3) margin_entries(1) by (auto simp: image_iff)
  qed simp
  then show "list_all entry_ok ws" "distinct (map entry_key ws)"
    "entry_key ` set ws = (\<lambda>c. (''notes'', mc_id c)) ` set cs \<union> (\<lambda>c. (''note_links'', mc_link_id c)) ` set cs"
    unfolding ws_def by (simp_all only: set_map)
qed

text \<open>A call that replaces margins is one batch of complete entries, one per record.\<close>

lemma replace_batch:
  assumes inv: "store_inv st" "keyed ''note_links'' st"
    and ok: "replace_handwritten_annotations V ivs now v st p given = Inr (n, st')"
    and cs: "cs = clean_children given" "cs \<noteq> []"
  obtains parent old retires signal where
    "row_at (env_serde V) st ''notes'' p = Some parent" "\<not> is_deleted parent"
    "check_margins V st p [] cs = Inr ()" "n = as_u32 (length cs)"
    "nlr_id ` set old = {e. \<exists>r. row_at (env_serde V) st ''note_links'' e = Some r \<and>
       fmlookup r ''deleted'' = Some (JBool False) \<and> touches_note p r \<and> is_margin_edge p (to_note_link_record r)}"
    "retire_margins (env_serde V) now st p (map nlr_id old) (map mc_id cs) (map mc_link_id cs) [] old = Inr retires"
    "distinct (map nlr_id old)" "entry_key ` set signal \<subseteq> {(''note_signals'', p)}" "list_all entry_ok signal" "length signal \<le> 1"
    "stage_batch (env_serde V) now (concat (map (margin_writes V ivs v p (row_str parent ''book_id'') now) (enumerate 0 cs)) @
       retires @ signal) st = Inr st'"
proof -
  let ?J = "env_serde V"
  obtain ls where ls: "note_links_for_note ?J st p = Inr ls" "distinct (map nlr_id ls)"
    and mem: "\<And>l. l \<in> set ls \<longleftrightarrow> edge_at ?J st l \<and>
      (\<exists>r. row_at ?J st ''note_links'' (nlr_id l) = Some r \<and> touches_note p r)"
    using links_view [OF inv, of ?J p] by blast
  define old where "old = filter (is_margin_edge p) ls"
  from ok obtain found parent retires sig where
    f: "get_row ?J st ''notes'' p = Inr found" "live_row found = Some parent"
    and ck: "check_margins V st p [] cs = Inr ()"
    and rt: "retire_margins ?J now st p (map nlr_id old) (map mc_id cs) (map mc_link_id cs) [] old = Inr retires"
    and sg: "stage_signal_write (env_f64 V) ?J st p (row_str parent ''source'') now
        (\<lambda>s. s\<lparr>ss_has_annotation := True, ss_engagement_recency_at := now\<rparr>) = Inr sig"
    and st': "stage_local_writes ?J st (concat (map (margin_writes V ivs v p (row_str parent ''book_id'') now) (enumerate 0 cs)) @
       retires @ (case sig of None \<Rightarrow> [] | Some r \<Rightarrow> [(''note_signals'', p, r)])) now = Inr st'" "n = as_u32 (length cs)"
    using cs(2) ls(1)
    by (auto simp: replace_handwritten_annotations_def Let_def cs(1) [symmetric] and_then_Inr old_def split: option.splits)
  let ?signal = "case sig of None \<Rightarrow> [] | Some r \<Rightarrow> [(''note_signals'', p, r)]"
  have par: "row_at ?J st ''notes'' p = Some parent" "\<not> is_deleted parent"
    using f by (auto simp: row_at_def live_row_def split: option.splits if_splits)
  have "nlr_id ` set old = {e. \<exists>r. row_at ?J st ''note_links'' e = Some r \<and>
       fmlookup r ''deleted'' = Some (JBool False) \<and> touches_note p r \<and> is_margin_edge p (to_note_link_record r)}"
  proof (rule set_eqI)
    fix e
    have "nlr_id (to_note_link_record r) = e" if "row_at ?J st ''note_links'' e = Some r" for r
      using row_at_pk [OF edge_schemas(1) that] by (simp add: to_note_link_record_def string_field_def)
    then show "e \<in> nlr_id ` set old \<longleftrightarrow> e \<in> {e. \<exists>r. row_at ?J st ''note_links'' e = Some r \<and>
       fmlookup r ''deleted'' = Some (JBool False) \<and> touches_note p r \<and> is_margin_edge p (to_note_link_record r)}"
      by (auto simp: old_def mem edge_at_def image_iff)
  qed
  moreover have "list_all entry_ok ?signal" "entry_key ` set ?signal \<subseteq> {(''note_signals'', p)}" "length ?signal \<le> 1"
    using stage_signal_write_entry(1) sg by (auto split: option.splits)
  moreover have "stage_batch ?J now (concat (map (margin_writes V ivs v p (row_str parent ''book_id'') now) (enumerate 0 cs)) @
       retires @ ?signal) st = Inr st'"
    using st'(1) by (simp only: stage_local_writes_batch)
  moreover have "distinct (map nlr_id old)" using ls(2) by (simp add: old_def distinct_map_filter)
  ultimately show thesis using that [of parent old retires ?signal] par ck st'(2) rt by blast
qed

subsection \<open>The margins after a call\<close>

text \<open>The live margin edges of a parent.\<close>

definition margin_edges :: "serde \<Rightarrow> store \<Rightarrow> string \<Rightarrow> string set" where
  "margin_edges J st p = {e. \<exists>r. row_at J st ''note_links'' e = Some r \<and> fmlookup r ''deleted'' = Some (JBool False) \<and>
     row_str r ''from_note_id'' = Some p \<and> handwritten_edge r}"

lemma is_margin_edge_row:
  "p \<noteq> [] \<Longrightarrow> touches_note p r \<and> is_margin_edge p (to_note_link_record r) \<longleftrightarrow>
     row_str r ''from_note_id'' = Some p \<and> handwritten_edge r"
  by (cases "row_str r ''from_note_id''"; cases "row_str r ''relation_type''")
    (auto simp: touches_note_def is_margin_edge_def handwritten_edge_def is_handwritten_def)

lemma margin_edges_view:
  "e \<in> margin_edges J st p \<longleftrightarrow> flag_at J st ''note_links'' e = Some (JBool False) \<and>
     text_at J st ''note_links'' e ''from_note_id'' = Some p \<and>
     is_handwritten (text_at J st ''note_links'' e ''relation_type'')"
  by (cases "row_at J st ''note_links'' e") (auto simp: margin_edges_def view_defs handwritten_edge_def)

lemma spent_margin_True:
  assumes "store_inv st" "keyed ''note_links'' st" "spent_margin J st ret i = Inr True"
  shows "text_at J st ''notes'' i ''source'' = Some ''handwritten''"
    and "row_at J st ''note_links'' e = Some r \<Longrightarrow> fmlookup r ''deleted'' = Some (JBool False) \<Longrightarrow>
      touches_note i r \<Longrightarrow> e \<in> set ret"
proof -
  obtain ls where ls: "note_links_for_note J st i = Inr ls" "distinct (map nlr_id ls)"
    and mem: "\<And>l. l \<in> set ls \<longleftrightarrow> edge_at J st l \<and> (\<exists>r. row_at J st ''note_links'' (nlr_id l) = Some r \<and> touches_note i r)"
    using links_view [OF assms(1,2), of J i] by blast
  from assms(3) ls(1) obtain n where n: "get_row J st ''notes'' i = Inr n"
    "Option.bind (live_row n) (\<lambda>r. row_str r ''source'') = Some ''handwritten''" "list_all (\<lambda>l. nlr_id l \<in> set ret) ls"
    by (auto simp: spent_margin_def and_then_Inr)
  then show "text_at J st ''notes'' i ''source'' = Some ''handwritten''"
    by (cases n) (auto simp: text_at_def row_at_def live_row_def split: if_splits)
  show "e \<in> set ret" if e: "row_at J st ''note_links'' e = Some r" "fmlookup r ''deleted'' = Some (JBool False)" "touches_note i r"
  proof -
    have "nlr_id (to_note_link_record r) = e"
      using row_at_pk [OF edge_schemas(1) e(1)] by (simp add: to_note_link_record_def string_field_def)
    moreover from this have "to_note_link_record r \<in> set ls" using e by (auto simp: mem edge_at_def)
    ultimately show ?thesis using n(3) by (auto simp: list_all_iff)
  qed
qed

text \<open>A child and its edge as the call leaves them.\<close>

definition new_margin :: "env \<Rightarrow> (nat \<Rightarrow> string) \<Rightarrow> vault \<Rightarrow> store \<Rightarrow> store \<Rightarrow> string \<Rightarrow> margin_child \<Rightarrow> bool" where
  "new_margin V ivs v st st' p c \<longleftrightarrow>
     flag_at (env_serde V) st' ''note_links'' (mc_link_id c) = Some (JBool False) \<and>
     text_at (env_serde V) st' ''note_links'' (mc_link_id c) ''from_note_id'' = Some p \<and>
     text_at (env_serde V) st' ''note_links'' (mc_link_id c) ''to_note_id'' = Some (mc_id c) \<and>
     text_at (env_serde V) st' ''note_links'' (mc_link_id c) ''relation_type'' = Some ''handwritten_annotation'' \<and>
     flag_at (env_serde V) st' ''notes'' (mc_id c) = Some (JBool False) \<and>
     text_at (env_serde V) st' ''notes'' (mc_id c) ''book_id'' = text_at (env_serde V) st ''notes'' p ''book_id'' \<and>
     text_at (env_serde V) st' ''notes'' (mc_id c) ''source'' = Some ''handwritten'' \<and>
     (\<exists>k. text_at (env_serde V) st' ''notes'' (mc_id c) ''text'' =
        Some (encrypt_note (env_crypto V) (vault_mk v) (Some (mc_id c)) (mc_text c) (ivs k)))"

text \<open>What the batch does, record by record.\<close>

lemma replace_view:
  assumes inv: "store_inv st" "keyed ''note_links'' st"
    and ok: "replace_handwritten_annotations V ivs now v st p given = Inr (n, st')"
    and cs: "cs = clean_children given" "cs \<noteq> []"
  obtains old :: "note_link_record list" where
    "nlr_id ` set old = {e. \<exists>r. row_at (env_serde V) st ''note_links'' e = Some r \<and>
       fmlookup r ''deleted'' = Some (JBool False) \<and> touches_note p r \<and> is_margin_edge p (to_note_link_record r)}"
    "p \<notin> mc_id ` set cs"
    "\<forall>c \<in> set cs. new_margin V ivs v st st' p c"
    "\<forall>i. i \<notin> mc_id ` set cs \<longrightarrow> row_at (env_serde V) st' ''notes'' i \<noteq> row_at (env_serde V) st ''notes'' i \<longrightarrow>
       i \<noteq> p \<and> dead_at (env_serde V) st' ''notes'' i \<and> spent_margin (env_serde V) st (map nlr_id old) i = Inr True"
    "\<forall>e. e \<notin> mc_link_id ` set cs \<longrightarrow> (if e \<in> nlr_id ` set old then dead_at (env_serde V) st' ''note_links'' e
       else row_at (env_serde V) st' ''note_links'' e = row_at (env_serde V) st ''note_links'' e)"
proof -
  let ?J = "env_serde V"
  obtain parent old retires signal where par: "row_at ?J st ''notes'' p = Some parent" "\<not> is_deleted parent"
    and ck: "check_margins V st p [] cs = Inr ()" and len: "n = as_u32 (length cs)"
    and old: "nlr_id ` set old = {e. \<exists>r. row_at ?J st ''note_links'' e = Some r \<and>
       fmlookup r ''deleted'' = Some (JBool False) \<and> touches_note p r \<and> is_margin_edge p (to_note_link_record r)}"
    and rt: "retire_margins ?J now st p (map nlr_id old) (map mc_id cs) (map mc_link_id cs) [] old = Inr retires"
    and dso: "distinct (map nlr_id old)" and sg: "entry_key ` set signal \<subseteq> {(''note_signals'', p)}" "list_all entry_ok signal" "length signal \<le> 1"
    and st': "stage_batch ?J now (concat (map (margin_writes V ivs v p (row_str parent ''book_id'') now) (enumerate 0 cs)) @
       retires @ signal) st = Inr st'"
    by (rule replace_batch [OF inv ok cs])
  define creates where "creates = concat (map (margin_writes V ivs v p (row_str parent ''book_id'') now) (enumerate 0 cs))"
  let ?ws = "creates @ retires @ signal"
  note m = check_margins_ok [OF ck]
  note cr = create_entries [OF m(1,2) creates_def]
  note re = retire_entries [OF rt dso]
  have okw: "list_all entry_ok ?ws" using cr(1) re sg(2) by simp
  have dss: "distinct (map entry_key signal)" using sg(3) by (cases signal) auto
  have k1: "entry_key ` set creates \<inter> entry_key ` set retires = {}"
  proof -
    have "(''notes'', mc_id c) \<notin> entry_key ` set retires" "(''note_links'', mc_link_id c) \<notin> entry_key ` set retires"
      if "c \<in> set cs" for c
      using re that by auto
    then show ?thesis unfolding cr(3) by blast
  qed
  have rd: "distinct (map entry_key retires)" "entry_key ` set retires \<subseteq> {''note_links'', ''notes''} \<times> UNIV"
    using re by blast+
  have "x \<noteq> (''note_signals'', p)" if "x \<in> entry_key ` set creates \<union> entry_key ` set retires" for x
    using that rd(2) unfolding cr(3) by auto
  then have k2: "(entry_key ` set creates \<union> entry_key ` set retires) \<inter> entry_key ` set signal = {}"
    using sg(1) by blast
  have ds: "distinct (map entry_key ?ws)"
    using cr(2) rd(1) dss k1 k2 unfolding map_append distinct_append set_append set_map by blast
  note view = stage_batch_view [OF inv(1) okw ds st' [folded creates_def]]
  have bk: "row_str parent ''book_id'' = text_at ?J st ''notes'' p ''book_id''" by (simp add: text_at_def par)
  have sgn: "(tb, i) \<notin> entry_key ` set signal" if "tb \<noteq> ''note_signals''" for tb i using sg(1) that by blast
  show thesis
  proof (rule that [OF old m(3)], intro ballI)
    fix c assume "c \<in> set cs"
    then obtain k where "k < length cs" "cs ! k = c" by (auto simp: in_set_conv_nth)
    then have k: "(k, c) \<in> set (enumerate 0 cs)" by (auto simp: in_set_enumerate_eq)
    define t where "t = wrapping_add now (int k)"
    have w: "(''notes'', mc_id c, margin_note V (ivs k) v (row_str parent ''book_id'') t c) \<in> set ?ws"
      "(''note_links'', mc_link_id c, margin_link p t c) \<in> set ?ws"
      using k by (force simp: creates_def margin_writes_def t_def)+
    have "as_str (json_opt b) = b" for b by (cases b) (simp_all add: json_opt_def)
    then show "new_margin V ivs v st st' p c"
      unfolding new_margin_def
      using view(3) [OF w(1)] view(3) [OF w(2)] edge_columns(2-4) note_text_columns merge_columns(2)
        view(4) [OF w(1) merge_schemas(1)] view(4) [OF w(2) edge_schemas(1)]
      by (auto simp: margin_lookups bk source_column)
  next
    have dead: "dead_at ?J st' tb i" if k: "(tb, i) \<in> entry_key ` set retires" for tb i
    proof -
      obtain x where x: "(tb, i, x) \<in> set retires" using k by force
      then have "fmlookup x ''deleted'' = Some (JBool True)" using re by force
      with view(3) [of tb i x] x show ?thesis by (simp add: dead_at_flag)
    qed
    show "\<forall>i. i \<notin> mc_id ` set cs \<longrightarrow> row_at ?J st' ''notes'' i \<noteq> row_at ?J st ''notes'' i \<longrightarrow>
       i \<noteq> p \<and> dead_at ?J st' ''notes'' i \<and> spent_margin ?J st (map nlr_id old) i = Inr True"
    proof (intro allI impI)
      fix i assume i: "i \<notin> mc_id ` set cs" "row_at ?J st' ''notes'' i \<noteq> row_at ?J st ''notes'' i"
      then have "(''notes'', i) \<in> entry_key ` set ?ws" using view(2) by blast
      then have "(''notes'', i) \<in> entry_key ` set retires"
        using i(1) sgn [of "''notes''" i] unfolding set_append image_Un cr(3) by auto
      moreover from this have "i \<noteq> p \<and> spent_margin ?J st (map nlr_id old) i = Inr True" using re by simp
      ultimately show "i \<noteq> p \<and> dead_at ?J st' ''notes'' i \<and> spent_margin ?J st (map nlr_id old) i = Inr True"
        using dead by blast
    qed
    show "\<forall>e. e \<notin> mc_link_id ` set cs \<longrightarrow> (if e \<in> nlr_id ` set old then dead_at ?J st' ''note_links'' e
       else row_at ?J st' ''note_links'' e = row_at ?J st ''note_links'' e)"
    proof (intro allI impI)
      fix e assume e: "e \<notin> mc_link_id ` set cs"
      have r: "(''note_links'', e) \<in> entry_key ` set retires \<longleftrightarrow> e \<in> nlr_id ` set old" using re e by auto
      have "(''note_links'', e) \<in> entry_key ` set ?ws \<longleftrightarrow> (''note_links'', e) \<in> entry_key ` set retires"
        using e sgn [of "''note_links''" e] unfolding set_append image_Un cr(3) by auto
      then show "if e \<in> nlr_id ` set old then dead_at ?J st' ''note_links'' e
         else row_at ?J st' ''note_links'' e = row_at ?J st ''note_links'' e"
        using r dead view(2) [of "''note_links''" e] by simp
    qed
  qed
qed


definition demo_margin :: margin_child where
  "demo_margin = \<lparr>mc_id = ''d'', mc_link_id = ''f'', mc_text = ''m'', mc_ink_crop_path = None\<rparr>"


end
