(* ===== verification/Settings.thy ===== *)
theory Settings
  imports Facade_Laws
begin

text \<open>
  Properties of the settings and the prompt surface of the engine (theory \<open>Facade\<close>): a setting
  reads back as it was set and disturbs no other, and the prompts are computed only once the tables
  they rest on have been pulled.
\<close>

subsection \<open>One setting\<close>

abbreviation setting_at :: "serde \<Rightarrow> store \<Rightarrow> string \<Rightarrow> string option" where
  "setting_at J st key \<equiv> Option.bind (row_at J st ''user_settings'' key)
     (\<lambda>r. if is_deleted r then None else string_field r ''value'')"

lemma user_setting_at: "user_setting J st key = Inr (setting_at J st key)"
  by (simp add: user_setting_def get_row_at [OF read_schemas(3)] split: option.split)

lemma setting_column: "map_of (ts_columns settings_desc) ''value'' = Some CText"
  by (simp add: schema_defs desc_defs)

lemma set_user_setting_view:
  assumes "store_inv st" "set_user_setting V now st key val = Inr st'"
  shows "setting_at (env_serde V) st' k = (if k = key then Some val else setting_at (env_serde V) st k)"
    and "(tb, i) \<noteq> (''user_settings'', key) \<Longrightarrow> row_at (env_serde V) st' tb i = row_at (env_serde V) st tb i"
    and "store_inv st'" "meta st' = meta st"
proof -
  define p where "p = fmap_of_list [(''key'', JString key), (''value'', JString val), (''updated_at'', json_i64 now),
      (''deleted'', JBool False)]"
  have w: "stage_write_inner (env_serde V) st ''user_settings'' key p now = Inr st'"
    using assms(2) by (simp add: set_user_setting_def stage_local_write_def p_def)
  have pk: "fmlookup p (pk_of settings_desc) = Some (JString key)" by (simp add: p_def)
  note view = stage_view [OF assms(1) w read_schemas(3) pk]
  obtain x where x: "row_at (env_serde V) st' ''user_settings'' key = Some x" using view(4) by blast
  have "flag_at (env_serde V) st' ''user_settings'' key = Some (JBool False)"
    using view(3) by (simp add: p_def keeps_flag_def)
  then have live: "\<not> is_deleted x" using x by (simp add: flag_at_def is_deleted_def)
  have "text_at (env_serde V) st' ''user_settings'' key ''value'' = Some val"
    using view(2) [OF setting_column] by (simp add: p_def)
  then have "string_field x ''value'' = Some val" using x by (simp add: text_at_def string_field_row_str)
  with live x show "setting_at (env_serde V) st' k = (if k = key then Some val else setting_at (env_serde V) st k)"
    using view(1) [of "''user_settings''" k] by simp
  show "row_at (env_serde V) st' tb i = row_at (env_serde V) st tb i" if "(tb, i) \<noteq> (''user_settings'', key)"
    using that by (rule view(1))
  show "store_inv st'" "meta st' = meta st" using view(5,6) by blast+
qed

lemma set_if_changed_view:
  assumes "store_inv st" "set_if_changed V now st key val = Inr st'"
  shows "setting_at (env_serde V) st' k = (if k = key then Some val else setting_at (env_serde V) st k)"
proof (cases "setting_at (env_serde V) st key = Some val")
  case True
  then show ?thesis using assms(2) by (simp add: set_if_changed_def user_setting_at and_then_Inr)
next
  case False
  then show ?thesis
    using assms(2) set_user_setting_view(1) [OF assms(1)] by (simp add: set_if_changed_def user_setting_at and_then_Inr)
qed

subsection \<open>The typed settings\<close>

lemma parse_u32_nat_to_string: "n < 2 ^ 32 \<Longrightarrow> parse_u32 (nat_to_string n) = Some n"
proof -
  assume n: "n < 2 ^ 32"
  obtain c cs where cs: "nat_to_string n = c # cs" using nat_to_string_nonempty by (meson neq_Nil_conv)
  with hd_nat_to_string [of n] have "c \<noteq> CHR ''+''" using digit_char_not_sign by auto
  moreover have "parse_nat (nat_to_string n) = Some n" by (simp add: parse_nat_def parse_digits_nat_to_string)
  ultimately show ?thesis using n cs by (simp add: parse_u32_def)
qed

lemma parse_tone_value: "parse_tone (Some (tone_value t)) = t"
  by (cases t) (simp_all add: parse_tone_def tone_value_def eq_ignore_ascii_case_def)

lemma settings_keys_distinct:
  "PROMPT_CADENCE_KEY \<noteq> PROMPT_TONE_KEY" "PROMPT_CADENCE_KEY \<noteq> LIBRARY_SORT_KEY" "PROMPT_TONE_KEY \<noteq> LIBRARY_SORT_KEY"
  by (simp_all add: PROMPT_CADENCE_KEY_def PROMPT_TONE_KEY_def LIBRARY_SORT_KEY_def)

lemma read_prompt_settings_at:
  "read_prompt_settings J st = Inr \<lparr>cadence_hours = clamp_cadence (unwrap_or (Option.bind (setting_at J st PROMPT_CADENCE_KEY)
       parse_u32) CADENCE_DEFAULT_HOURS), tone = parse_tone (setting_at J st PROMPT_TONE_KEY)\<rparr>"
  by (simp add: read_prompt_settings_def user_setting_at)

lemma engine_library_sort_at:
  "engine_library_sort V st = Inr (parse_sort (setting_at (env_serde V) st LIBRARY_SORT_KEY))"
  by (simp add: engine_library_sort_def user_setting_at)

text \<open>
  The typed settings round trip and never fail to read: a cadence that was set reads
  back as the given hours brought into 72 to 672, a tone and a sort order as they were given, and
  setting one of the three leaves the other two as they read before.  Whatever text a store holds
  for them, the settings read as a cadence within those bounds.
\<close>

theorem settings_round_trip:
  assumes "store_inv st"
  shows "\<exists>s so. engine_prompt_settings V st = Inr s \<and> engine_library_sort V st = Inr so \<and>
    72 \<le> cadence_hours s \<and> cadence_hours s \<le> 672 \<and>
    (\<forall>st'. set_prompt_cadence V now st h = Inr st' \<longrightarrow>
       engine_prompt_settings V st' = Inr (s\<lparr>cadence_hours := min 672 (max 72 h)\<rparr>) \<and> engine_library_sort V st' = Inr so) \<and>
    (\<forall>st'. set_prompt_tone V now st t = Inr st' \<longrightarrow>
       engine_prompt_settings V st' = Inr (s\<lparr>tone := t\<rparr>) \<and> engine_library_sort V st' = Inr so) \<and>
    (\<forall>st'. set_library_sort V now st o' = Inr st' \<longrightarrow>
       engine_prompt_settings V st' = Inr s \<and> engine_library_sort V st' = Inr o')"
proof -
  have small: "clamp_cadence h < 2 ^ 32" using clamp_cadence_bounds [of h] by simp
  have clamp: "clamp_cadence k = min 672 (max 72 k)" for k
    by (simp add: clamp_cadence_def CADENCE_MIN_HOURS_def CADENCE_MAX_HOURS_def)
  note view = set_if_changed_view [OF assms]
  have "engine_prompt_settings V st' = Inr (x\<lparr>cadence_hours := min 672 (max 72 h)\<rparr>) \<and> engine_library_sort V st' = Inr y"
    if "set_prompt_cadence V now st h = Inr st'" "engine_prompt_settings V st = Inr x" "engine_library_sort V st = Inr y" for st' x y
    using that view [OF that(1) [unfolded set_prompt_cadence_def]] settings_keys_distinct parse_u32_nat_to_string [OF small]
    by (auto simp: engine_prompt_settings_def read_prompt_settings_at engine_library_sort_at clamp)
  moreover have "engine_prompt_settings V st' = Inr (x\<lparr>tone := t\<rparr>) \<and> engine_library_sort V st' = Inr y"
    if "set_prompt_tone V now st t = Inr st'" "engine_prompt_settings V st = Inr x" "engine_library_sort V st = Inr y" for st' x y
    using that view [OF that(1) [unfolded set_prompt_tone_def]] settings_keys_distinct
    by (auto simp: engine_prompt_settings_def read_prompt_settings_at engine_library_sort_at parse_tone_value)
  moreover have "engine_prompt_settings V st' = Inr x \<and> engine_library_sort V st' = Inr o'"
    if "set_library_sort V now st o' = Inr st'" "engine_prompt_settings V st = Inr x" for st' x
    using that view [OF that(1) [unfolded set_library_sort_def]] settings_keys_distinct
    by (auto simp: engine_prompt_settings_def read_prompt_settings_at engine_library_sort_at parse_sort_value)
  ultimately show ?thesis
    using clamp_cadence_bounds
    by (simp add: engine_prompt_settings_def read_prompt_settings_at engine_library_sort_at)
qed

theorem settings_round_trip_witness:
  "\<exists>st'. set_prompt_cadence (demo_env mute_serde) 5 empty_store 900 = Inr st' \<and>
     engine_prompt_settings (demo_env mute_serde) st' = Inr \<lparr>cadence_hours = 672, tone = Introspective\<rparr>"
proof -
  have "case set_prompt_cadence (demo_env mute_serde) 5 empty_store 900 of Inr _ \<Rightarrow> True | Inl _ \<Rightarrow> False" by code_simp
  then obtain st' where st': "set_prompt_cadence (demo_env mute_serde) 5 empty_store 900 = Inr st'"
    by (auto split: sum.splits)
  have "engine_prompt_settings (demo_env mute_serde) empty_store = Inr \<lparr>cadence_hours = 168, tone = Introspective\<rparr>"
    by code_simp
  with settings_round_trip [OF store_inv_empty, of "demo_env mute_serde" 5 900] st' show ?thesis by auto
qed

subsection \<open>The prompts of a store\<close>

definition stored_metas :: "serde \<Rightarrow> store \<Rightarrow> question_meta list" where
  "stored_metas J st = (case question_metas J st of Inr qs \<Rightarrow> qs | Inl _ \<Rightarrow> [])"

lemma question_metas_at: "question_metas J st = Inr (stored_metas J st)"
proof -
  obtain rs where "list_live J st ''questions'' None (-1) 0 = Inr (map (row_of_sql J questions_desc) rs)"
    by (rule list_live_scan [OF read_schemas(5) read_has_column(3), of None]) (simp_all add: filter_columns_def)
  then show ?thesis by (simp add: stored_metas_def question_metas_def)
qed

abbreviation stamp_at :: "serde \<Rightarrow> store \<Rightarrow> string \<Rightarrow> int option" where
  "stamp_at J st key \<equiv> Option.bind (setting_at J st key) parse_i64"

lemma read_prompt_state_at:
  "read_prompt_state J st account = Inr \<lparr>account_created_at_ms = account, questions = stored_metas J st,
     has_ever_answered = (setting_at J st PROMPT_ANSWERED_AT_KEY \<noteq> None),
     prompt_skipped_at_ms = stamp_at J st PROMPT_SKIPPED_AT_KEY,
     checkin_completed_at_ms = stamp_at J st CHECKIN_COMPLETED_AT_KEY\<rparr>"
  by (simp add: read_prompt_state_def setting_stamp_def user_setting_at question_metas_at)

abbreviation prompts_of :: "env \<Rightarrow> store \<Rightarrow> int \<Rightarrow> int \<Rightarrow> sync_error + prompt_event list option" where
  "prompts_of V st now account \<equiv>
     and_then (stored V (read_prompt_settings (env_serde V) st)) (\<lambda>settings.
     and_then (stored V (read_prompt_state (env_serde V) st account)) (\<lambda>state.
       Inr (Some (next_events state settings now))))"

lemma next_prompt_events_cases:
  assumes "next_prompt_events V queued st now account = (r, st')"
  obtains (blocked) "\<not> prompt_state_ready st" "r = Inr None" "st' = st"
  | (failed) e where "prompt_state_ready st" "r = Inl e" "st' = st"
  | (quiet) "prompt_state_ready st" "st' = st" "setting_at (env_serde V) st PROMPT_ANSWERED_AT_KEY \<noteq> None \<or> tables st ''questions'' = []"
      "r = prompts_of V st' now account"
  | (marked) "prompt_state_ready st" "set_user_setting V queued st PROMPT_ANSWERED_AT_KEY (i64_to_string now) = Inr st'"
      "r = prompts_of V st' now account"
proof -
  have qs: "count_all st ''questions'' = Inr (int (length (tables st ''questions'')))"
    using table_schema_Some(1) [OF read_schemas(5)] by (simp add: count_all_def read_schemas(5))
  consider "\<not> prompt_state_ready st" | "prompt_state_ready st" "setting_at (env_serde V) st PROMPT_ANSWERED_AT_KEY \<noteq> None \<or> tables st ''questions'' = []"
    | "prompt_state_ready st" "setting_at (env_serde V) st PROMPT_ANSWERED_AT_KEY = None" "tables st ''questions'' \<noteq> []" by argo
  then show thesis
  proof cases
    case 1
    then have "r = Inr None" "st' = st" using assms by (simp_all add: next_prompt_events_def)
    with 1 show thesis by (rule blocked)
  next
    case 2
    then have "(if setting_at (env_serde V) st PROMPT_ANSWERED_AT_KEY = None
       then and_then (stored V (count_all st ''questions'')) (\<lambda>n. Inr (0 < n)) else Inr False) = Inr False"
      by (auto simp: qs)
    with 2 assms have "st' = st" and r: "r = prompts_of V st' now account"
      by (auto simp: next_prompt_events_def user_setting_at Let_def)
    with 2 show thesis by (intro quiet)
  next
    case 3
    show thesis
    proof (cases "set_user_setting V queued st PROMPT_ANSWERED_AT_KEY (i64_to_string now)")
      case (Inl e)
      with 3 assms have "r = Inl e" "st' = st" by (simp_all add: next_prompt_events_def user_setting_at qs Let_def)
      with 3(1) show thesis by (rule failed)
    next
      case (Inr st1)
      with 3 assms have "st' = st1" and r: "r = prompts_of V st1 now account"
        by (auto simp: next_prompt_events_def user_setting_at qs Let_def)
      with 3(1) Inr show thesis by (intro marked) simp_all
    qed
  qed
qed

lemma quiet_call:
  assumes "setting_at (env_serde V) st PROMPT_ANSWERED_AT_KEY \<noteq> None \<or> tables st ''questions'' = []"
  shows "snd (next_prompt_events V queued st now account) = st"
proof -
  have "count_all st ''questions'' = Inr (int (length (tables st ''questions'')))"
    using table_schema_Some(1) [OF read_schemas(5)] by (simp add: count_all_def read_schemas(5))
  with assms have "(if setting_at (env_serde V) st PROMPT_ANSWERED_AT_KEY = None
       then and_then (stored V (count_all st ''questions'')) (\<lambda>n. Inr (0 < n)) else Inr False) = Inr False"
    by auto
  then show ?thesis by (simp add: next_prompt_events_def user_setting_at Let_def)
qed

lemma nudge_needs_fresh_account:
  assumes "prompts_of V st now account = Inr (Some evs)" "e \<in> set evs" "ev_kind e = Nudge"
  shows "setting_at (env_serde V) st PROMPT_ANSWERED_AT_KEY = None"
proof -
  obtain state where state: "read_prompt_state (env_serde V) st account = Inr state"
    by (simp only: read_prompt_state_at)
  then have s: "has_ever_answered state \<longleftrightarrow> setting_at (env_serde V) st PROMPT_ANSWERED_AT_KEY \<noteq> None"
    by (auto simp: read_prompt_state_at)
  obtain settings where settings: "read_prompt_settings (env_serde V) st = Inr settings"
    by (simp only: read_prompt_settings_at)
  have evs: "evs = next_events state settings now" using assms(1) by (simp add: state settings)
  from assms(2,3) have "filter (\<lambda>e. ev_kind e = Nudge) evs \<noteq> []" by (auto simp: filter_empty_conv)
  then show ?thesis using s unfolding evs by (simp add: nudge_exactly_in_window split: if_splits)
qed

text \<open>
  Property C35.  The prompts are computed only from tables that have arrived: the call answers
  \<open>None\<close>, and writes nothing, exactly when one of the tables it rests on has no receipt of a
  complete pull.  An account with any stored question, a deleted one included, or with the answered
  marker is never offered the onboarding nudge again; and whatever the call writes is that marker,
  once: a second call leaves the store alone.
\<close>

theorem prompts_gated:
  assumes "store_inv st" "next_prompt_events V queued st now account = (r, st')"
  shows "(r = Inr None \<longleftrightarrow> (\<exists>t \<in> {''questions'', ''question_notes'', ''user_settings''}. \<not> has_completed_pull st t)) \<and>
    (r = Inr None \<longrightarrow> st' = st) \<and>
    (\<forall>evs e. r = Inr (Some evs) \<longrightarrow> e \<in> set evs \<longrightarrow> ev_kind e = Nudge \<longrightarrow>
       tables st ''questions'' = [] \<and> user_setting (env_serde V) st PROMPT_ANSWERED_AT_KEY = Inr None) \<and>
    (\<forall>tb i. (tb, i) \<noteq> (''user_settings'', PROMPT_ANSWERED_AT_KEY) \<longrightarrow> row_at (env_serde V) st' tb i = row_at (env_serde V) st tb i) \<and>
    (\<forall>evs queued' now' account'. r = Inr (Some evs) \<longrightarrow> snd (next_prompt_events V queued' st' now' account') = st')"
proof -
  have ready: "prompt_state_ready st \<longleftrightarrow> \<not> (\<exists>t \<in> {''questions'', ''question_notes'', ''user_settings''}. \<not> has_completed_pull st t)"
    by (auto simp: prompt_state_ready_def PROMPT_SOURCE_TABLES_def)
  have none: "prompts_of V st' now account \<noteq> Inr None" by (simp add: read_prompt_settings_at read_prompt_state_at)
  have 1: "(r = Inr None \<longleftrightarrow> \<not> prompt_state_ready st) \<and> (r = Inr None \<longrightarrow> st' = st)"
    by (cases rule: next_prompt_events_cases [OF assms(2)]) (use none in simp_all)
  have 2: "tables st ''questions'' = [] \<and> user_setting (env_serde V) st PROMPT_ANSWERED_AT_KEY = Inr None"
    if evs: "r = Inr (Some evs)" and e: "e \<in> set evs" "ev_kind e = Nudge" for evs e
  proof -
    have m: "setting_at (env_serde V) st' PROMPT_ANSWERED_AT_KEY = None" if p: "r = prompts_of V st' now account"
      by (rule nudge_needs_fresh_account [OF trans [OF p [symmetric] evs] e])
    show ?thesis
    using assms(2)
    proof (cases rule: next_prompt_events_cases)
      case quiet
      with m show ?thesis by (simp add: user_setting_at)
    next
      case marked
      then show ?thesis using m set_user_setting_view(1) [OF assms(1) marked(2), of PROMPT_ANSWERED_AT_KEY] by simp
    qed (use evs in simp_all)
  qed
  have 3: "row_at (env_serde V) st' tb i = row_at (env_serde V) st tb i"
    if "(tb, i) \<noteq> (''user_settings'', PROMPT_ANSWERED_AT_KEY)" for tb i
  using assms(2)
    proof (cases rule: next_prompt_events_cases)
    case marked
    then show ?thesis using set_user_setting_view(2) [OF assms(1) marked(2) that] by simp
  qed simp_all
  have 4: "snd (next_prompt_events V queued' st' now' account') = st'" if "r = Inr (Some evs)" for evs queued' now' account'
  proof -
    have "setting_at (env_serde V) st' PROMPT_ANSWERED_AT_KEY \<noteq> None \<or> tables st' ''questions'' = []"
    using assms(2)
    proof (cases rule: next_prompt_events_cases)
      case quiet
      then show ?thesis by simp
    next
      case marked
      then show ?thesis using set_user_setting_view(1) [OF assms(1) marked(2), of PROMPT_ANSWERED_AT_KEY] by simp
    qed (use that in simp_all)
    then show ?thesis by (rule quiet_call)
  qed
  have "(r = Inr None \<longleftrightarrow> (\<exists>t \<in> {''questions'', ''question_notes'', ''user_settings''}. \<not> has_completed_pull st t)) \<and>
      (r = Inr None \<longrightarrow> st' = st)"
    using 1 ready by argo
  with 2 3 4 show ?thesis by (intro conjI allI impI) simp_all
qed

definition pulled_store :: store where
  "pulled_store = mark_pull_complete (mark_pull_complete (mark_pull_complete empty_store ''questions'') ''question_notes'')
     ''user_settings''"

theorem prompts_gated_witness:
  "next_prompt_events (demo_env mute_serde) 5 empty_store 7 0 = (Inr None, empty_store) \<and>
   (case next_prompt_events (demo_env mute_serde) 5 pulled_store 7 0 of
      (Inr (Some evs), st') \<Rightarrow> evs \<noteq> [] \<and> st' = pulled_store | _ \<Rightarrow> False)"
proof -
  have "has_completed_pull empty_store ''questions'' = False" by code_simp
  moreover obtain r st' where c: "next_prompt_events (demo_env mute_serde) 5 empty_store 7 0 = (r, st')" by (metis surj_pair)
  moreover note g = prompts_gated [OF store_inv_empty c]
  ultimately have 1: "r = Inr None \<and> st' = empty_store"
    using g [THEN conjunct1] g [THEN conjunct2, THEN conjunct1] by simp
  have "tables pulled_store ''questions'' = []" by (simp add: pulled_store_def mark_pull_complete_def meta_set_def empty_store_def)
  then have 2: "snd (next_prompt_events (demo_env mute_serde) 5 pulled_store 7 0) = pulled_store"
    by (intro quiet_call disjI2)
  have "case fst (next_prompt_events (demo_env mute_serde) 5 pulled_store 7 0) of Inr (Some evs) \<Rightarrow> evs \<noteq> [] | _ \<Rightarrow> False"
    by code_simp
  with 1 2 c show ?thesis by (auto split: prod.splits sum.splits option.splits)
qed

end
