(* ===== verification/Snapshot_Export.thy ===== *)
theory Snapshot_Export
  imports Facade
begin

text \<open>
  The snapshot export of \<open>src/src/sync/export_import/export.rs\<close>: every live row of eight tables under
  the field names of the web app, with note texts and book links opened.  The printer of the archive
  struct and the calendar of the \<open>time\<close> crate are parameters.  Printing a struct of JSON values cannot
  fail, so the error arm of \<open>serde_json::to_string\<close> has no counterpart.
\<close>

subsection \<open>The fields of the archive\<close>

definition SCHEMA_VERSION :: nat where "SCHEMA_VERSION = 19"

definition HANDWRITTEN_ANNOTATION :: string where "HANDWRITTEN_ANNOTATION = ''handwritten_annotation''"

definition BOOK_FIELDS :: "(string \<times> string) list" where
  "BOOK_FIELDS =
     [(''id'', ''id''), (''title'', ''title''), (''author'', ''author''), (''isbn'', ''isbn''),
      (''cover_url'', ''coverUrl''), (''cover_source'', ''coverSource''),
      (''cover_resolved_at'', ''coverResolvedAt''), (''status'', ''status''), (''kind'', ''kind''),
      (''url'', ''url''), (''created_at'', ''createdAt''), (''updated_at'', ''updatedAt''),
      (''deleted'', ''deleted'')]"

definition NOTE_FIELDS :: "(string \<times> string) list" where
  "NOTE_FIELDS =
     [(''id'', ''id''), (''book_id'', ''bookId''), (''text'', ''text''), (''page'', ''page''),
      (''tags'', ''tags''), (''image_path'', ''imagePath''), (''ink_crop_path'', ''inkCropPath''),
      (''source'', ''source''), (''source_id'', ''sourceId''), (''source_meta'', ''sourceMeta''),
      (''chapter'', ''chapter''), (''content_tag'', ''contentTag''), (''created_at'', ''createdAt''),
      (''updated_at'', ''updatedAt''), (''deleted'', ''deleted'')]"

definition CUSTOM_IDEA_FIELDS :: "(string \<times> string) list" where
  "CUSTOM_IDEA_FIELDS =
     [(''id'', ''id''), (''name'', ''name''), (''description'', ''description''),
      (''created_at'', ''createdAt''), (''updated_at'', ''updatedAt''), (''deleted'', ''deleted'')]"

definition NOTE_LINK_FIELDS :: "(string \<times> string) list" where
  "NOTE_LINK_FIELDS =
     [(''id'', ''id''), (''from_note_id'', ''fromNoteId''), (''to_note_id'', ''toNoteId''),
      (''relation_type'', ''relationType''), (''created_at'', ''createdAt''),
      (''updated_at'', ''updatedAt''), (''deleted'', ''deleted'')]"

definition LENS_FIELDS :: "(string \<times> string) list" where
  "LENS_FIELDS =
     [(''id'', ''id''), (''name'', ''name''), (''leaf_ids'', ''leafIds''), (''combinator'', ''combinator''),
      (''threshold'', ''threshold''), (''created_at'', ''createdAt''), (''updated_at'', ''updatedAt''),
      (''deleted'', ''deleted'')]"

definition COLLECTION_FIELDS :: "(string \<times> string) list" where
  "COLLECTION_FIELDS =
     [(''id'', ''id''), (''name'', ''name''), (''created_at'', ''createdAt''),
      (''updated_at'', ''updatedAt''), (''deleted'', ''deleted'')]"

definition MEMBERSHIP_FIELDS :: "(string \<times> string) list" where
  "MEMBERSHIP_FIELDS =
     [(''id'', ''id''), (''note_id'', ''noteId''), (''collection_id'', ''collectionId''),
      (''created_at'', ''createdAt''), (''updated_at'', ''updatedAt''), (''deleted'', ''deleted'')]"

definition SIGNAL_FIELDS :: "(string \<times> string) list" where
  "SIGNAL_FIELDS =
     [(''note_id'', ''noteId''), (''source_prior'', ''sourcePrior''), (''return_visits'', ''returnVisits''),
      (''has_annotation'', ''hasAnnotation''), (''stitch_spawns'', ''stitchSpawns''),
      (''exposure_recency_at'', ''exposureRecencyAt''), (''engagement_recency_at'', ''engagementRecencyAt''),
      (''importance'', ''importance''), (''created_at'', ''createdAt''), (''updated_at'', ''updatedAt''),
      (''deleted'', ''deleted'')]"

subsection \<open>Rows\<close>

definition live_rows :: "serde \<Rightarrow> store \<Rightarrow> string \<Rightarrow> sync_error + row list" where
  "live_rows J st table =
     (case list_live J st table None (- 1) 0 of
        Inl _ \<Rightarrow> Inl (StoreError ''snapshot export read failed'') | Inr rows \<Rightarrow> Inr rows)"

definition map_fields :: "(string \<times> string) list \<Rightarrow> row \<Rightarrow> row" where
  "map_fields fs r =
     fmap_of_list (map (\<lambda>(sqlite, pwa). (pwa,
       if sqlite = ''deleted'' \<and> pwa = ''deleted'' then json_i64 0 else unwrap_or (fmlookup r sqlite) JNull)) fs)"

definition mapped_live_rows :: "serde \<Rightarrow> store \<Rightarrow> string \<Rightarrow> (string \<times> string) list \<Rightarrow> sync_error + row list" where
  "mapped_live_rows J st table fs = and_then (live_rows J st table) (\<lambda>rows. Inr (map (map_fields fs) rows))"

text \<open>What the export makes of a mapped book: a known status, a kind, and the opened link.\<close>

definition export_book :: "crypto \<Rightarrow> vault \<Rightarrow> row \<Rightarrow> row" where
  "export_book C v book =
     (let b1 = fmupd ''status'' (JString (status_value (parse_status (row_str book ''status'')))) book;
          b2 = (if (case fmlookup b1 ''kind'' of None \<Rightarrow> True | Some x \<Rightarrow> is_null x)
                then fmupd ''kind'' (JString (kind_value (parse_kind None))) b1 else b1);
          id' = unwrap_or (row_str b2 ''id'') [];
          url = Option.bind (row_str b2 ''url'') (\<lambda>sealed. open_book_url C v id' sealed)
      in fmupd ''url'' (case url of None \<Rightarrow> JNull | Some u \<Rightarrow> JString u) b2)"

definition map_note :: "crypto \<Rightarrow> vault \<Rightarrow> row \<Rightarrow> sync_error + row" where
  "map_note C v r =
     (case decrypt_note_text_for_archive C v r (unwrap_or (row_str r ''id'') []) of
        (tx, decrypt_failed) \<Rightarrow>
          if decrypt_failed then Inl (StoreError ''snapshot export note decryption failed'')
          else Inr (fmupd ''text'' (case tx of None \<Rightarrow> JNull | Some t \<Rightarrow> JString t) (map_fields NOTE_FIELDS r)))"

subsection \<open>The annotations of a note\<close>

text \<open>The texts by note id; of two notes with one id the later one counts.\<close>

definition child_text :: "row list \<Rightarrow> string \<Rightarrow> string option" where
  "child_text notes =
     map_of (rev (List.map_filter (\<lambda>note. Option.bind (row_str note ''id'') (\<lambda>i.
       map_option (\<lambda>t. (i, t)) (row_str note ''text''))) notes))"

definition edge_created_at :: "row \<Rightarrow> int" where
  "edge_created_at edge = unwrap_or (row_i64 edge ''created_at'') 0"

definition edge_id :: "row \<Rightarrow> string" where
  "edge_id edge = unwrap_or (row_str edge ''id'') []"

definition edge_le :: "row \<Rightarrow> row \<Rightarrow> bool" where
  "edge_le a b \<longleftrightarrow> edge_created_at a < edge_created_at b \<or>
     (edge_created_at a = edge_created_at b \<and> edge_id a \<le> edge_id b)"

definition annotation_edges :: "row list \<Rightarrow> row list" where
  "annotation_edges links =
     sort_by edge_le (filter (\<lambda>l. row_str l ''relation_type'' = Some HANDWRITTEN_ANNOTATION) links)"

definition collect_annotation ::
  "(string \<Rightarrow> string option) \<Rightarrow> row \<Rightarrow> (string, string list) fmap \<Rightarrow> (string, string list) fmap" where
  "collect_annotation texts edge annotations =
     (case (row_str edge ''from_note_id'', row_str edge ''to_note_id'') of
        (Some parent_id, Some child_id) \<Rightarrow>
          (case texts child_id of None \<Rightarrow> annotations
           | Some t \<Rightarrow> fmupd parent_id (unwrap_or (fmlookup annotations parent_id) [] @ [t]) annotations)
      | _ \<Rightarrow> annotations)"

fun attach_annotations :: "(string, string list) fmap \<Rightarrow> row list \<Rightarrow> row list" where
  "attach_annotations annotations [] = []"
| "attach_annotations annotations (note # notes) =
     (case row_str note ''id'' of None \<Rightarrow> note # attach_annotations annotations notes
      | Some i \<Rightarrow>
          (case fmlookup annotations i of None \<Rightarrow> note # attach_annotations annotations notes
           | Some ts \<Rightarrow>
               (if ts = [] then note
                else fmupd ''user_metadata''
                  (JObject (fmap_of_list [(''user_annotation'', JArray (map JString ts))])) note)
               # attach_annotations (fmdrop i annotations) notes))"

definition attach_user_annotations :: "row list \<Rightarrow> row list \<Rightarrow> row list" where
  "attach_user_annotations notes links =
     attach_annotations (fold (collect_annotation (child_text notes)) (annotation_edges links) fmempty) notes"

subsection \<open>The snapshot\<close>

record 'd time_lib =
  from_unix_timestamp_nanos :: "int \<Rightarrow> 'd option"
  year_of :: "'d \<Rightarrow> int"
  format_millis :: "'d \<Rightarrow> string option"

definition format_utc_iso8601 :: "'d time_lib \<Rightarrow> int \<Rightarrow> sync_error + string" where
  "format_utc_iso8601 D epoch_ms =
     (let bad = Inl (StoreError ''snapshot export timestamp formatting failed'')
      in case from_unix_timestamp_nanos D (epoch_ms * 1000000) of None \<Rightarrow> bad
         | Some t \<Rightarrow> if year_of D t < 0 then bad
                     else (case format_millis D t of None \<Rightarrow> bad | Some s \<Rightarrow> Inr s))"

definition row_array :: "row list \<Rightarrow> json" where
  "row_array rows = JArray (map JObject rows)"

text \<open>The printer of a struct: its fields in the order of their declaration.\<close>

type_synonym struct_printer = "(string \<times> json) list \<Rightarrow> string"

definition build_snapshot_at ::
  "env \<Rightarrow> struct_printer \<Rightarrow> 'd time_lib \<Rightarrow> store \<Rightarrow> vault \<Rightarrow> int \<Rightarrow> sync_error + string" where
  "build_snapshot_at V print D st v now_ms =
     and_then (mapped_live_rows (env_serde V) st ''books'' BOOK_FIELDS) (\<lambda>books.
     and_then (live_rows (env_serde V) st ''notes'') (\<lambda>note_rows.
     and_then (traverse (map_note (env_crypto V) v) note_rows) (\<lambda>notes.
     and_then (mapped_live_rows (env_serde V) st ''custom_ideas'' CUSTOM_IDEA_FIELDS) (\<lambda>custom_ideas.
     and_then (live_rows (env_serde V) st ''note_links'') (\<lambda>note_link_rows.
     and_then (mapped_live_rows (env_serde V) st ''lenses'' LENS_FIELDS) (\<lambda>lenses.
     and_then (mapped_live_rows (env_serde V) st ''collections'' COLLECTION_FIELDS) (\<lambda>collections.
     and_then (mapped_live_rows (env_serde V) st ''collection_memberships'' MEMBERSHIP_FIELDS) (\<lambda>collection_memberships.
     and_then (mapped_live_rows (env_serde V) st ''note_signals'' SIGNAL_FIELDS) (\<lambda>note_signals.
     and_then (format_utc_iso8601 D now_ms) (\<lambda>exported_at.
       Inr (print
         [(''_syntopicon'', JBool True), (''schemaVersion'', json_i64 (int SCHEMA_VERSION)),
          (''exportedAt'', JString exported_at),
          (''books'', row_array (map (export_book (env_crypto V) v) books)),
          (''notes'', row_array (attach_user_annotations notes note_link_rows)),
          (''customIdeas'', row_array custom_ideas),
          (''noteLinks'', row_array (map (map_fields NOTE_LINK_FIELDS) note_link_rows)),
          (''lenses'', row_array lenses), (''collections'', row_array collections),
          (''collectionMemberships'', row_array collection_memberships),
          (''noteSignals'', row_array note_signals)])))))))))))"

definition export_snapshot ::
  "env \<Rightarrow> struct_printer \<Rightarrow> 'd time_lib \<Rightarrow> int \<Rightarrow> store \<Rightarrow> vault \<Rightarrow> sync_error + string" where
  "export_snapshot V print D now st v = build_snapshot_at V print D st v now"

end
