(* ===== verification/Snapshot_Import.thy ===== *)
theory Snapshot_Import
  imports Snapshot_Export
begin

text \<open>
  The import of a snapshot: the parser and normaliser of \<open>src/src/sync/export_import/import.rs\<close>, and the
  protective merge of \<open>src/src/sync/export_import/merge.rs\<close> behind \<open>SyncEngine::import_merge\<close>.  The
  server is the sink of the pull and the batch fetch of the repairs; each random string is an argument.
\<close>

subsection \<open>Tables of the old tag vocabularies\<close>

definition MAX_SCHEMA_VERSION :: nat where "MAX_SCHEMA_VERSION = 19"

definition GREAT_IDEAS_RENAMES :: "(string \<times> string) list" where
  "GREAT_IDEAS_RENAMES =
     [(''Good'', ''Good and Evil''), (''Custom'', ''Custom and Convention''),
      (''Pleasure'', ''Pleasure and Pain''), (''Virtue'', ''Virtue and Vice''),
      (''Sign'', ''Sign and Symbol''), (''War'', ''War and Peace''),
      (''Tyranny'', ''Tyranny and Despotism''), (''Life'', ''Life and Death''),
      (''Memory'', ''Memory and Imagination''), (''Necessity'', ''Necessity and Contingency''),
      (''Universal'', ''Universal and Particular'')]"

definition CANON_REMAP_V14 :: "(string \<times> string) list" where
  "CANON_REMAP_V14 =
     [(''Cause'', ''Causation''), (''Chance'', ''Probability''), (''Liberty'', ''Freedom''),
      (''Honor'', ''Status''), (''Virtue and Vice'', ''Virtue''), (''Animal'', ''Life''),
      (''Aristocracy'', ''Power''), (''Monarchy'', ''Power''), (''Oligarchy'', ''Power''),
      (''Tyranny and Despotism'', ''Power''), (''Constitution'', ''Institutions''),
      (''Government'', ''Institutions''), (''State'', ''Institutions''),
      (''Citizen'', ''Institutions''), (''Custom and Convention'', ''Institutions''),
      (''Courage'', ''Virtue''), (''Dialectic'', ''Reasoning''), (''Induction'', ''Reasoning''),
      (''Logic'', ''Reasoning''), (''Duty'', ''Obligation''), (''Education'', ''Learning''),
      (''Experience'', ''Learning''), (''Family'', ''Community''), (''Form'', ''Beauty''),
      (''God'', ''the Sacred''), (''Religion'', ''the Sacred''), (''Theology'', ''the Sacred''),
      (''Prophecy'', ''the Sacred''), (''Immortality'', ''the Sacred''),
      (''Hypothesis'', ''Evidence''), (''Labor'', ''Productivity''), (''Mind'', ''Consciousness''),
      (''Soul'', ''Consciousness''), (''Sense'', ''Consciousness''), (''Poetry'', ''Art''),
      (''Property'', ''Markets''), (''Wealth'', ''Markets''), (''Prudence'', ''Strategy''),
      (''Punishment'', ''Justice''), (''Revolution'', ''Conflict''), (''Rhetoric'', ''Narrative''),
      (''Sign and Symbol'', ''Language''), (''Sin'', ''Morality''),
      (''Temperance'', ''Discipline''), (''Wisdom'', ''Judgment''), (''Opinion'', ''Judgment''),
      (''Will'', ''Motivation''), (''World'', ''Nature''), (''Man'', ''Identity''),
      (''Good and Evil'', ''Morality''), (''Happiness'', ''Purpose''), (''Knowledge'', ''Truth''),
      (''Law'', ''Institutions''), (''Life and Death'', ''Life''),
      (''Memory and Imagination'', ''Memory''), (''Pleasure and Pain'', ''Emotion''),
      (''Slavery'', ''Freedom''), (''War and Peace'', ''Conflict'')]"

subsection \<open>Reading fields\<close>

record normalized_row =
  nz_primary_key :: string
  nz_row :: row
  nz_updated_at :: int

record normalized_import =
  ni_schema_version :: nat
  ni_books :: "normalized_row list"
  ni_notes :: "normalized_row list"
  ni_custom_ideas :: "normalized_row list"
  ni_note_links :: "normalized_row list"
  ni_lenses :: "normalized_row list"
  ni_collections :: "normalized_row list"
  ni_collection_memberships :: "normalized_row list"
  ni_note_signals :: "normalized_row list"

definition invalid :: "string \<Rightarrow> sync_error" where "invalid reason = InvalidImport reason"

fun as_u64 :: "json \<Rightarrow> nat option" where
  "as_u64 (JNumber (PosInt w)) = Some (unat w)"
| "as_u64 v = None"

definition schema_version :: "row \<Rightarrow> sync_error + nat" where
  "schema_version archive =
     (case fmlookup archive ''schemaVersion'' of None \<Rightarrow> Inr 1 | Some JNull \<Rightarrow> Inr 1
      | Some value \<Rightarrow>
          (case as_u64 value of
             Some version \<Rightarrow> if 1 \<le> version \<and> version \<le> MAX_SCHEMA_VERSION then Inr version
               else Inl (invalid ''schemaVersion must be an integer from 1 through 19'')
           | None \<Rightarrow> Inl (invalid ''schemaVersion must be an integer from 1 through 19'')))"

definition archive_array :: "row \<Rightarrow> string \<Rightarrow> sync_error + json list" where
  "archive_array archive field =
     (case fmlookup archive field of None \<Rightarrow> Inr [] | Some JNull \<Rightarrow> Inr [] | Some (JArray rows) \<Rightarrow> Inr rows
      | Some _ \<Rightarrow> Inl (invalid ''archive store must be an array''))"

definition validate_deleted :: "row \<Rightarrow> sync_error + unit" where
  "validate_deleted input =
     (case fmlookup input ''deleted'' of None \<Rightarrow> Inr () | Some JNull \<Rightarrow> Inr () | Some (JBool False) \<Rightarrow> Inr ()
      | Some (JNumber n) \<Rightarrow> if number_as_f64 n = 0 then Inr () else Inl (invalid ''deleted must identify a live archive row'')
      | Some _ \<Rightarrow> Inl (invalid ''deleted must identify a live archive row''))"

definition bad_string :: sync_error where "bad_string = invalid ''known string field has an invalid type''"
definition bad_integer :: sync_error where "bad_integer = invalid ''known timestamp or count must be an integer''"

definition copy_string :: "row \<Rightarrow> string \<Rightarrow> string \<Rightarrow> bool \<Rightarrow> row \<Rightarrow> sync_error + row" where
  "copy_string input input_field output_field nullable output =
     (case fmlookup input input_field of None \<Rightarrow> Inr output
      | Some (JString s) \<Rightarrow> Inr (fmupd output_field (JString s) output)
      | Some JNull \<Rightarrow> if nullable then Inr (fmupd output_field JNull output) else Inl bad_string
      | Some _ \<Rightarrow> Inl bad_string)"

definition nullable_string :: "row \<Rightarrow> string \<Rightarrow> sync_error + string option option" where
  "nullable_string input field =
     (case fmlookup input field of None \<Rightarrow> Inr None | Some JNull \<Rightarrow> Inr (Some None)
      | Some (JString s) \<Rightarrow> Inr (Some (Some s)) | Some _ \<Rightarrow> Inl bad_string)"

text \<open>\<open>Option::flatten\<close>.\<close>

definition flatten :: "'a option option \<Rightarrow> 'a option" where
  "flatten x = Option.bind x id"

definition validate_nullable_string :: "row \<Rightarrow> string \<Rightarrow> sync_error + unit" where
  "validate_nullable_string input field = and_then (nullable_string input field) (\<lambda>_. Inr ())"

definition copy_integer :: "row \<Rightarrow> string \<Rightarrow> string \<Rightarrow> bool \<Rightarrow> row \<Rightarrow> sync_error + row" where
  "copy_integer input input_field output_field nullable output =
     (case fmlookup input input_field of None \<Rightarrow> Inr output
      | Some value \<Rightarrow>
          if value = JNull \<and> nullable then Inr (fmupd output_field JNull output)
          else (case as_i64 value of None \<Rightarrow> Inl bad_integer
                | Some i \<Rightarrow> Inr (fmupd output_field (json_i64 i) output)))"

definition defaulted_timestamp :: "row \<Rightarrow> string \<Rightarrow> int \<Rightarrow> sync_error + int" where
  "defaulted_timestamp input field now =
     (case fmlookup input field of None \<Rightarrow> Inr now | Some JNull \<Rightarrow> Inr now
      | Some value \<Rightarrow>
          (case as_i64 value of None \<Rightarrow> Inl bad_integer | Some t \<Rightarrow> Inr (if t = 0 then now else t)))"

definition nullish_integer :: "row \<Rightarrow> string \<Rightarrow> int \<Rightarrow> sync_error + int" where
  "nullish_integer input field dflt =
     (case fmlookup input field of None \<Rightarrow> Inr dflt | Some JNull \<Rightarrow> Inr dflt
      | Some value \<Rightarrow> (case as_i64 value of None \<Rightarrow> Inl bad_integer | Some i \<Rightarrow> Inr i))"

definition finite_number :: "json \<Rightarrow> sync_error + rat" where
  "finite_number value =
     (case as_f64 value of None \<Rightarrow> Inl (invalid ''known signal float must be a finite JSON number'')
      | Some x \<Rightarrow> Inr x)"

definition string_array :: "json \<Rightarrow> sync_error + string list" where
  "string_array value =
     (case value of
        JArray vs \<Rightarrow>
          traverse (\<lambda>x. case as_str x of
              None \<Rightarrow> Inl (invalid ''known string-array field contains a non-string'') | Some s \<Rightarrow> Inr s) vs
      | _ \<Rightarrow> Inl (invalid ''known string-array field must be an array''))"

fun remap_stage :: "(string \<times> string) list \<Rightarrow> string list \<Rightarrow> string list \<Rightarrow> string list" where
  "remap_stage remap seen [] = []"
| "remap_stage remap seen (tag # tags) =
     (let mapped = unwrap_or (map_of remap tag) tag
      in if mapped \<in> set seen then remap_stage remap seen tags
         else mapped # remap_stage remap (mapped # seen) tags)"

definition remap_tag_stage :: "string list \<Rightarrow> (string \<times> string) list \<Rightarrow> string list" where
  "remap_tag_stage tags remap = remap_stage remap [] tags"

definition remap_tags :: "string list \<Rightarrow> nat \<Rightarrow> string list" where
  "remap_tags tags version =
     (let t1 = (if version < 11 then remap_tag_stage tags GREAT_IDEAS_RENAMES else tags)
      in if version < 14 then remap_tag_stage t1 CANON_REMAP_V14 else t1)"

subsection \<open>Normalising a row\<close>

text \<open>A sequence of copies into one output.\<close>

fun copies :: "(row \<Rightarrow> sync_error + row) list \<Rightarrow> row \<Rightarrow> sync_error + row" where
  "copies [] output = Inr output"
| "copies (f # fs) output = and_then (f output) (copies fs)"

definition insert_stamp :: "row \<Rightarrow> string \<Rightarrow> string \<Rightarrow> int \<Rightarrow> row \<Rightarrow> sync_error + row" where
  "insert_stamp input input_field output_field now output =
     and_then (defaulted_timestamp input input_field now) (\<lambda>t. Inr (fmupd output_field (json_i64 t) output))"

definition insert_if :: "string \<Rightarrow> string option \<Rightarrow> row \<Rightarrow> sync_error + row" where
  "insert_if column value output =
     Inr (case value of None \<Rightarrow> output | Some s \<Rightarrow> fmupd column (JString s) output)"

text \<open>\<open>Option::filter\<close>.\<close>

definition option_filter :: "('a \<Rightarrow> bool) \<Rightarrow> 'a option \<Rightarrow> 'a option" where
  "option_filter P x = Option.bind x (\<lambda>a. if P a then Some a else None)"

definition normalize_book :: "url_lib \<Rightarrow> row \<Rightarrow> int \<Rightarrow> sync_error + row" where
  "normalize_book L input now =
     copies
       [copy_string input ''title'' ''title'' False, copy_string input ''author'' ''author'' True,
        copy_string input ''isbn'' ''isbn'' True, copy_string input ''coverUrl'' ''cover_url'' True,
        copy_string input ''coverSource'' ''cover_source'' True,
        copy_integer input ''coverResolvedAt'' ''cover_resolved_at'' True,
        copy_integer input ''createdAt'' ''created_at'' False,
        insert_if ''status'' (option_filter (\<lambda>raw. status_value (parse_status (Some raw)) = raw) (row_str input ''status'')),
        insert_if ''kind'' (option_filter (\<lambda>raw. kind_value (parse_kind (Some raw)) = raw) (row_str input ''kind'')),
        insert_if ''url'' (Option.bind (row_str input ''url'') (normalize_source_url L)),
        insert_stamp input ''updatedAt'' ''updated_at'' now] fmempty"

definition note_source :: "row \<Rightarrow> row \<Rightarrow> sync_error + row" where
  "note_source input output =
     and_then (validate_nullable_string input ''contentTag'') (\<lambda>_.
     and_then (nullable_string input ''source'') (\<lambda>s.
       Inr (fmupd ''source'' (JString (unwrap_or (flatten s) ''manual'')) output)))"

definition note_source_id :: "row \<Rightarrow> row \<Rightarrow> sync_error + row" where
  "note_source_id input output =
     Inr (if is_null (unwrap_or (fmlookup input ''sourceId'') JNull) then fmupd ''source_id'' JNull output else output)"

definition note_chapter :: "row \<Rightarrow> row \<Rightarrow> sync_error + row" where
  "note_chapter input output =
     (case fmlookup input ''chapter'' of None \<Rightarrow> Inr (fmupd ''chapter'' JNull output)
      | Some JNull \<Rightarrow> Inr (fmupd ''chapter'' JNull output)
      | Some (JString s) \<Rightarrow> Inr (fmupd ''chapter'' (JString s) output)
      | Some _ \<Rightarrow> Inl bad_string)"

definition note_source_meta :: "row \<Rightarrow> row \<Rightarrow> sync_error + row" where
  "note_source_meta input output =
     (case fmlookup input ''sourceMeta'' of None \<Rightarrow> Inr (fmupd ''source_meta'' (JObject fmempty) output)
      | Some JNull \<Rightarrow> Inr (fmupd ''source_meta'' (JObject fmempty) output)
      | Some (JObject m) \<Rightarrow> Inr (fmupd ''source_meta'' (JObject m) output)
      | Some _ \<Rightarrow> Inl (invalid ''sourceMeta must be an object''))"

definition string_list_field :: "row \<Rightarrow> string \<Rightarrow> sync_error + string list" where
  "string_list_field input field =
     (case fmlookup input field of None \<Rightarrow> Inr [] | Some JNull \<Rightarrow> Inr [] | Some value \<Rightarrow> string_array value)"

definition note_tags :: "row \<Rightarrow> nat \<Rightarrow> row \<Rightarrow> sync_error + row" where
  "note_tags input version output =
     and_then (string_list_field input ''tags'') (\<lambda>tags.
       Inr (fmupd ''tags'' (JArray (map JString (remap_tags tags version))) output))"

definition normalize_note :: "row \<Rightarrow> int \<Rightarrow> nat \<Rightarrow> sync_error + row" where
  "normalize_note input now version =
     copies
       [copy_string input ''bookId'' ''book_id'' True, copy_string input ''text'' ''text'' True,
        copy_string input ''page'' ''page'' True, copy_string input ''imagePath'' ''image_path'' True,
        copy_string input ''inkCropPath'' ''ink_crop_path'' True, copy_string input ''sourceId'' ''source_id'' True,
        copy_integer input ''createdAt'' ''created_at'' False,
        note_source input, note_source_id input, note_chapter input, note_source_meta input,
        note_tags input version, insert_stamp input ''updatedAt'' ''updated_at'' now] fmempty"

definition normalize_custom_idea :: "row \<Rightarrow> int \<Rightarrow> sync_error + row" where
  "normalize_custom_idea input now =
     copies
       [copy_string input ''name'' ''name'' False, copy_string input ''description'' ''description'' True,
        copy_integer input ''createdAt'' ''created_at'' False,
        insert_stamp input ''updatedAt'' ''updated_at'' now] fmempty"

text \<open>A string that may be absent, null or empty, with the default it then has.\<close>

definition defaulted_string :: "row \<Rightarrow> string \<Rightarrow> string \<Rightarrow> string \<Rightarrow> row \<Rightarrow> sync_error + row" where
  "defaulted_string input input_field output_field dflt output =
     and_then (nullable_string input input_field) (\<lambda>s.
       Inr (fmupd output_field (JString (unwrap_or (option_filter (\<lambda>x. x \<noteq> []) (flatten s)) dflt)) output))"

definition normalize_note_link :: "row \<Rightarrow> int \<Rightarrow> sync_error + row" where
  "normalize_note_link input now =
     copies
       [copy_string input ''fromNoteId'' ''from_note_id'' False, copy_string input ''toNoteId'' ''to_note_id'' False,
        defaulted_string input ''relationType'' ''relation_type'' HANDWRITTEN_ANNOTATION,
        insert_stamp input ''createdAt'' ''created_at'' now, insert_stamp input ''updatedAt'' ''updated_at'' now] fmempty"

definition insert_integer :: "row \<Rightarrow> string \<Rightarrow> string \<Rightarrow> int \<Rightarrow> row \<Rightarrow> sync_error + row" where
  "insert_integer input input_field output_field dflt output =
     and_then (nullish_integer input input_field dflt) (\<lambda>i. Inr (fmupd output_field (json_i64 i) output))"

definition normalize_lens :: "row \<Rightarrow> int \<Rightarrow> sync_error + row" where
  "normalize_lens input now =
     copies
       [copy_string input ''name'' ''name'' False,
        (\<lambda>output. and_then (string_list_field input ''leafIds'') (\<lambda>ids. Inr (fmupd ''leaf_ids'' (JArray (map JString ids)) output))),
        defaulted_string input ''combinator'' ''combinator'' ''AND'',
        insert_integer input ''threshold'' ''threshold'' 100,
        insert_stamp input ''createdAt'' ''created_at'' now, insert_stamp input ''updatedAt'' ''updated_at'' now] fmempty"

definition normalize_collection :: "row \<Rightarrow> int \<Rightarrow> sync_error + row" where
  "normalize_collection input now =
     copies
       [copy_string input ''name'' ''name'' False,
        insert_stamp input ''createdAt'' ''created_at'' now, insert_stamp input ''updatedAt'' ''updated_at'' now] fmempty"

definition normalize_membership :: "row \<Rightarrow> int \<Rightarrow> sync_error + row" where
  "normalize_membership input now =
     copies
       [copy_string input ''noteId'' ''note_id'' False, copy_string input ''collectionId'' ''collection_id'' False,
        insert_stamp input ''createdAt'' ''created_at'' now, insert_stamp input ''updatedAt'' ''updated_at'' now] fmempty"

definition signal_prior :: "row \<Rightarrow> string option \<Rightarrow> sync_error + rat" where
  "signal_prior input raw_note_source =
     (case fmlookup input ''sourcePrior'' of None \<Rightarrow> Inr (source_prior raw_note_source)
      | Some JNull \<Rightarrow> Inr (source_prior raw_note_source) | Some value \<Rightarrow> finite_number value)"

definition signal_annotation :: "row \<Rightarrow> sync_error + bool" where
  "signal_annotation input =
     (case fmlookup input ''hasAnnotation'' of None \<Rightarrow> Inr False | Some JNull \<Rightarrow> Inr False
      | Some (JBool b) \<Rightarrow> Inr b | Some _ \<Rightarrow> Inl (invalid ''hasAnnotation must be a boolean''))"

definition check_importance :: "row \<Rightarrow> sync_error + unit" where
  "check_importance input =
     (case fmlookup input ''importance'' of None \<Rightarrow> Inr () | Some JNull \<Rightarrow> Inr ()
      | Some value \<Rightarrow> and_then (finite_number value) (\<lambda>_. Inr ()))"

definition normalize_note_signal :: "f64_ops \<Rightarrow> row \<Rightarrow> int \<Rightarrow> string option \<Rightarrow> sync_error + row" where
  "normalize_note_signal F input now raw_note_source =
     and_then (signal_prior input raw_note_source) (\<lambda>prior.
     and_then (nullish_integer input ''returnVisits'' 0) (\<lambda>return_visits.
     and_then (nullish_integer input ''stitchSpawns'' 0) (\<lambda>stitch_spawns.
     and_then (signal_annotation input) (\<lambda>has_annotation.
     and_then (nullish_integer input ''exposureRecencyAt'' 0) (\<lambda>exposure.
     and_then (nullish_integer input ''engagementRecencyAt'' 0) (\<lambda>engagement.
     and_then (check_importance input) (\<lambda>_.
       copies
         [insert_stamp input ''createdAt'' ''created_at'' now, insert_stamp input ''updatedAt'' ''updated_at'' now]
         (fmap_of_list
           [(''source_prior'', JNumber (Float prior)), (''return_visits'', json_i64 return_visits),
            (''has_annotation'', JBool has_annotation), (''stitch_spawns'', json_i64 stitch_spawns),
            (''exposure_recency_at'', json_i64 exposure), (''engagement_recency_at'', json_i64 engagement),
            (''importance'', JNumber (Float (compute_importance F prior return_visits has_annotation stitch_spawns)))]))))))))"

subsection \<open>The archive\<close>

text \<open>The last stamp is always there: each normaliser sets it.\<close>

fun normalize_rows ::
  "json list \<Rightarrow> string \<Rightarrow> string \<Rightarrow> (row \<Rightarrow> string \<Rightarrow> sync_error + row) \<Rightarrow> string list \<Rightarrow>
   sync_error + normalized_row list" where
  "normalize_rows [] input_key output_key nf seen = Inr []"
| "normalize_rows (value # vs) input_key output_key nf seen =
     (case as_object value of None \<Rightarrow> Inl (invalid ''archive store row must be an object'')
      | Some input \<Rightarrow>
          and_then (validate_deleted input) (\<lambda>_.
            case option_filter (\<lambda>k. k \<noteq> []) (row_str input input_key) of
              None \<Rightarrow> Inl (invalid ''archive row primary key must be a non-empty string'')
            | Some key \<Rightarrow>
                if key \<in> set seen then Inl (invalid ''archive store contains a duplicate primary key'')
                else and_then (nf input key) (\<lambda>r.
                  let r' = fmupd ''deleted'' (JBool False) (fmupd output_key (JString key) r)
                  in and_then (normalize_rows vs input_key output_key nf (key # seen)) (\<lambda>rs.
                       Inr (\<lparr>nz_primary_key = key, nz_row = r', nz_updated_at = unwrap_or (row_i64 r' ''updated_at'') 0\<rparr> # rs)))))"

text \<open>The source of each note of the archive, by its id.\<close>

definition raw_note_sources :: "json list \<Rightarrow> string \<Rightarrow> string option" where
  "raw_note_sources vs i =
     flatten (map_of (List.map_filter (\<lambda>x. Option.bind (as_object x) (\<lambda>m.
       map_option (\<lambda>k. (k, row_str m ''source'')) (row_str m ''id''))) vs) i)"

definition parse_import_at :: "serde \<Rightarrow> url_lib \<Rightarrow> f64_ops \<Rightarrow> string \<Rightarrow> int \<Rightarrow> sync_error + normalized_import" where
  "parse_import_at J L F archive_json now =
     (case from_str J archive_json of None \<Rightarrow> Inl (invalid ''malformed JSON archive'')
      | Some root_value \<Rightarrow>
     (case as_object root_value of None \<Rightarrow> Inl (invalid ''archive root must be an object'')
      | Some archive \<Rightarrow>
     if fmlookup archive ''_syntopicon'' \<noteq> Some (JBool True) then Inl (invalid ''archive marker must be literal true'')
     else
       and_then (schema_version archive) (\<lambda>version.
       and_then (archive_array archive ''books'') (\<lambda>book_values.
       and_then (normalize_rows book_values ''id'' ''id'' (\<lambda>r _. normalize_book L r now) []) (\<lambda>books.
       and_then (archive_array archive ''notes'') (\<lambda>note_values.
       and_then (normalize_rows note_values ''id'' ''id'' (\<lambda>r _. normalize_note r now version) []) (\<lambda>notes.
       and_then (archive_array archive ''customIdeas'') (\<lambda>idea_values.
       and_then (normalize_rows idea_values ''id'' ''id'' (\<lambda>r _. normalize_custom_idea r now) []) (\<lambda>custom_ideas.
       and_then (archive_array archive ''noteLinks'') (\<lambda>link_values.
       and_then (normalize_rows link_values ''id'' ''id'' (\<lambda>r _. normalize_note_link r now) []) (\<lambda>note_links.
       and_then (archive_array archive ''lenses'') (\<lambda>lens_values.
       and_then (normalize_rows lens_values ''id'' ''id'' (\<lambda>r _. normalize_lens r now) []) (\<lambda>lenses.
       and_then (archive_array archive ''collections'') (\<lambda>collection_values.
       and_then (normalize_rows collection_values ''id'' ''id'' (\<lambda>r _. normalize_collection r now) []) (\<lambda>collections.
       and_then (archive_array archive ''collectionMemberships'') (\<lambda>membership_values.
       and_then (normalize_rows membership_values ''id'' ''id'' (\<lambda>r _. normalize_membership r now) []) (\<lambda>memberships.
       and_then (archive_array archive ''noteSignals'') (\<lambda>signal_values.
       and_then (normalize_rows signal_values ''noteId'' ''note_id''
           (\<lambda>r note_id. normalize_note_signal F r now (raw_note_sources note_values note_id)) []) (\<lambda>note_signals.
         Inr \<lparr>ni_schema_version = version, ni_books = books, ni_notes = notes, ni_custom_ideas = custom_ideas,
           ni_note_links = note_links, ni_lenses = lenses, ni_collections = collections,
           ni_collection_memberships = memberships, ni_note_signals = note_signals\<rparr>)))))))))))))))))))"

subsection \<open>The server as the import sees it\<close>

definition FETCH_CHUNK_SIZE :: nat where "FETCH_CHUNK_SIZE = 100"
definition IMPORT_PREFLIGHT_FAILED :: string where "IMPORT_PREFLIGHT_FAILED = ''snapshot import server preflight failed''"
definition IMPORT_STORE_FAILED :: string where "IMPORT_STORE_FAILED = ''snapshot import persistence failed''"

definition row_valid :: "string \<Rightarrow> row \<Rightarrow> bool" where
  "row_valid pk r \<longleftrightarrow> (case row_str r pk of None \<Rightarrow> False | Some k \<Rightarrow> k \<noteq> []) \<and>
     row_i64 r ''updated_at'' \<noteq> None \<and> row_bool r ''deleted'' \<noteq> None"

fun valid_rows :: "string \<Rightarrow> int \<Rightarrow> json list \<Rightarrow> string + unit" where
  "valid_rows pk prior_change_seq [] = Inr ()"
| "valid_rows pk prior_change_seq (value # vs) =
     (case as_object value of None \<Rightarrow> Inl IMPORT_PREFLIGHT_FAILED
      | Some r \<Rightarrow>
          (case option_filter (\<lambda>s. 0 \<le> s) (row_i64 r ''change_seq'') of None \<Rightarrow> Inl IMPORT_PREFLIGHT_FAILED
           | Some change_seq \<Rightarrow>
               if \<not> row_valid pk r \<or> change_seq \<le> prior_change_seq then Inl IMPORT_PREFLIGHT_FAILED
               else valid_rows pk change_seq vs))"

definition validate_pull_page :: "string \<Rightarrow> int \<Rightarrow> json list \<Rightarrow> string + unit" where
  "validate_pull_page table after_seq rows =
     (case table_schema table of None \<Rightarrow> Inl IMPORT_PREFLIGHT_FAILED
      | Some t \<Rightarrow> valid_rows (pk_of t) after_seq rows)"

definition sanitize_page_error :: "string \<Rightarrow> string" where
  "sanitize_page_error e =
     (if is_transport e then ''transport: '' @ IMPORT_PREFLIGHT_FAILED
      else if take (length ''PostgREST '') e = ''PostgREST ''
      then ''PostgREST response '' @ em_dash @ '' '' @ IMPORT_PREFLIGHT_FAILED
      else IMPORT_PREFLIGHT_FAILED)"

text \<open>\<open>SanitizedSink\<close>; it keeps the trait's own \<open>patch\<close>, which always fails.\<close>

definition sanitized_sink :: "'w sink \<Rightarrow> 'w sink" where
  "sanitized_sink snk = \<lparr>
     snk_upsert = \<lambda>table oc rows w. (case snk_upsert snk table oc rows w of
         (Inl _, w') \<Rightarrow> (Inl IMPORT_PREFLIGHT_FAILED, w') | (Inr u, w') \<Rightarrow> (Inr u, w')),
     snk_patch = \<lambda>_ _ _ _ w. (Inl ''targeted patch is not supported by this sink'', w),
     snk_fetch_page = \<lambda>table after limit w. (case snk_fetch_page snk table after limit w of
         (Inl e, w') \<Rightarrow> (Inl (sanitize_page_error e), w')
       | (Inr rows, w') \<Rightarrow> (and_then (validate_pull_page table after rows) (\<lambda>_. Inr rows), w'))\<rparr>"

definition archive_tables :: "(string \<times> (normalized_import \<Rightarrow> normalized_row list)) list" where
  "archive_tables =
     [(''books'', ni_books), (''notes'', ni_notes), (''custom_ideas'', ni_custom_ideas),
      (''note_links'', ni_note_links), (''lenses'', ni_lenses), (''collections'', ni_collections),
      (''collection_memberships'', ni_collection_memberships), (''note_signals'', ni_note_signals)]"

definition owned_tables :: "normalized_import \<Rightarrow> (string \<times> normalized_row list) list" where
  "owned_tables parsed = map (\<lambda>(table, rows). (table, rows parsed)) archive_tables"

type_synonym server_rows = "(string, row) fmap"
type_synonym server_state = "(string, (string, row) fmap) fmap"

definition preflight_error :: sync_error where "preflight_error = FlushError IMPORT_PREFLIGHT_FAILED"
definition import_store_error :: sync_error where "import_store_error = StoreError IMPORT_STORE_FAILED"

fun take_returned :: "string \<Rightarrow> string list \<Rightarrow> json list \<Rightarrow> server_rows \<Rightarrow> sync_error + server_rows" where
  "take_returned pk requested [] rows = Inr rows"
| "take_returned pk requested (value # vs) rows =
     (case as_object value of None \<Rightarrow> Inl preflight_error
      | Some r \<Rightarrow>
          (case option_filter (\<lambda>i. i \<in> set requested) (row_str r pk) of None \<Rightarrow> Inl preflight_error
           | Some i \<Rightarrow>
               if row_i64 r ''updated_at'' = None \<or> row_bool r ''deleted'' = None \<or> fmlookup rows i \<noteq> None
               then Inl preflight_error
               else take_returned pk requested vs (fmupd i r rows)))"

fun chunks_of :: "nat \<Rightarrow> 'a list \<Rightarrow> 'a list list" where
  "chunks_of n [] = []"
| "chunks_of n (x # xs) = take n (x # xs) # chunks_of n (drop (n - 1) xs)"

fun fetch_chunks ::
  "'w repair_sink \<Rightarrow> string \<Rightarrow> string \<Rightarrow> string list list \<Rightarrow> server_rows \<Rightarrow> 'w \<Rightarrow> (sync_error + server_rows) \<times> 'w" where
  "fetch_chunks rsk table pk [] rows w = (Inr rows, w)"
| "fetch_chunks rsk table pk (ids # rest) rows w =
     (case rs_fetch_by_ids rsk table pk ids w of
        (Inl _, w') \<Rightarrow> (Inl preflight_error, w')
      | (Inr returned, w') \<Rightarrow>
          (case take_returned pk ids returned rows of Inl e \<Rightarrow> (Inl e, w')
           | Inr rows' \<Rightarrow> fetch_chunks rsk table pk rest rows' w'))"

fun fetch_tables ::
  "'w repair_sink \<Rightarrow> (string \<times> normalized_row list) list \<Rightarrow> server_state \<Rightarrow> 'w \<Rightarrow> (sync_error + server_state) \<times> 'w" where
  "fetch_tables rsk [] all_rows w = (Inr all_rows, w)"
| "fetch_tables rsk ((table, candidates) # rest) all_rows w =
     (if candidates = [] then fetch_tables rsk rest all_rows w
      else case table_schema table of None \<Rightarrow> (Inl import_store_error, w)
        | Some t \<Rightarrow>
            (case fetch_chunks rsk table (pk_of t) (chunks_of FETCH_CHUNK_SIZE (map nz_primary_key candidates)) fmempty w of
               (Inl e, w') \<Rightarrow> (Inl e, w')
             | (Inr rows, w') \<Rightarrow> fetch_tables rsk rest (fmupd table rows all_rows) w'))"

definition fetch_candidate_state ::
  "'w repair_sink \<Rightarrow> normalized_import \<Rightarrow> 'w \<Rightarrow> (sync_error + server_state) \<times> 'w" where
  "fetch_candidate_state rsk parsed w = fetch_tables rsk (owned_tables parsed) fmempty w"

subsection \<open>Choosing what to import\<close>

record import_counts =
  ic_books :: nat
  ic_notes :: nat
  ic_custom_ideas :: nat
  ic_note_links :: nat
  ic_lenses :: nat
  ic_collections :: nat
  ic_collection_memberships :: nat
  ic_note_signals :: nat

definition no_counts :: import_counts where
  "no_counts = \<lparr>ic_books = 0, ic_notes = 0, ic_custom_ideas = 0, ic_note_links = 0, ic_lenses = 0,
     ic_collections = 0, ic_collection_memberships = 0, ic_note_signals = 0\<rparr>"

record import_summary =
  is_schema_version :: nat
  is_imported :: import_counts
  is_skipped_stale :: import_counts

definition count_up :: "nat \<Rightarrow> sync_error + nat" where
  "count_up n = (if int n + 1 < 2 ^ 32 then Inr (n + 1) else Inl (InvalidImport ''snapshot import row count is too large''))"

definition increment :: "import_counts \<Rightarrow> string \<Rightarrow> sync_error + import_counts" where
  "increment c table =
     (if table = ''books'' then and_then (count_up (ic_books c)) (\<lambda>n. Inr (c\<lparr>ic_books := n\<rparr>))
      else if table = ''notes'' then and_then (count_up (ic_notes c)) (\<lambda>n. Inr (c\<lparr>ic_notes := n\<rparr>))
      else if table = ''custom_ideas'' then and_then (count_up (ic_custom_ideas c)) (\<lambda>n. Inr (c\<lparr>ic_custom_ideas := n\<rparr>))
      else if table = ''note_links'' then and_then (count_up (ic_note_links c)) (\<lambda>n. Inr (c\<lparr>ic_note_links := n\<rparr>))
      else if table = ''lenses'' then and_then (count_up (ic_lenses c)) (\<lambda>n. Inr (c\<lparr>ic_lenses := n\<rparr>))
      else if table = ''collections'' then and_then (count_up (ic_collections c)) (\<lambda>n. Inr (c\<lparr>ic_collections := n\<rparr>))
      else if table = ''collection_memberships''
      then and_then (count_up (ic_collection_memberships c)) (\<lambda>n. Inr (c\<lparr>ic_collection_memberships := n\<rparr>))
      else if table = ''note_signals'' then and_then (count_up (ic_note_signals c)) (\<lambda>n. Inr (c\<lparr>ic_note_signals := n\<rparr>))
      else Inl import_store_error)"

definition state_timestamp :: "row option \<Rightarrow> sync_error + int option" where
  "state_timestamp r =
     (case r of None \<Rightarrow> Inr None
      | Some x \<Rightarrow> (case row_i64 x ''updated_at'' of None \<Rightarrow> Inl import_store_error | Some t \<Rightarrow> Inr (Some t)))"

definition server_row_of :: "server_state \<Rightarrow> string \<Rightarrow> string \<Rightarrow> row option" where
  "server_row_of server table i = Option.bind (fmlookup server table) (\<lambda>rows. fmlookup rows i)"

definition server_timestamp :: "row option \<Rightarrow> sync_error + int option" where
  "server_timestamp r =
     (case r of None \<Rightarrow> Inr None
      | Some x \<Rightarrow> (case row_i64 x ''updated_at'' of None \<Rightarrow> Inl preflight_error | Some t \<Rightarrow> Inr (Some t)))"

text \<open>The columns an accepted book keeps from the rows that exist, the newer one first.\<close>

definition existing_books :: "row option \<Rightarrow> row option \<Rightarrow> int option \<Rightarrow> int option \<Rightarrow> row list" where
  "existing_books l s local_updated server_updated =
     (case (l, s) of
        (Some a, Some b) \<Rightarrow> if the server_updated \<le> the local_updated then [a, b] else [b, a]
      | (Some a, None) \<Rightarrow> [a] | (None, Some b) \<Rightarrow> [b] | (None, None) \<Rightarrow> [])"

definition kept_value ::
  "crypto \<Rightarrow> vault \<Rightarrow> string \<Rightarrow> row list \<Rightarrow> row \<Rightarrow> string \<times> string option \<Rightarrow> string option" where
  "kept_value C v i existing candidate x =
     (case x of (col, dflt) \<Rightarrow>
        let stored = List.map_filter (\<lambda>r. option_filter (\<lambda>s. col \<noteq> ''url'' \<or> open_book_url C v i s \<noteq> None) (row_str r col)) existing
        in case stored of s # _ \<Rightarrow> Some s
           | [] \<Rightarrow> if col = ''kind'' \<and> existing \<noteq> [] then Some ''book''
                   else (case row_str candidate col of Some s \<Rightarrow> Some s | None \<Rightarrow> dflt))"

definition keep_book_columns :: "crypto \<Rightarrow> vault \<Rightarrow> string \<Rightarrow> row list \<Rightarrow> row \<Rightarrow> row" where
  "keep_book_columns C v i existing candidate =
     fold (\<lambda>x r. case kept_value C v i existing r x of None \<Rightarrow> r | Some s \<Rightarrow> fmupd (fst x) (JString s) r)
       [(''status'', Some ''shelved''), (''kind'', Some ''book''), (''url'', None)] candidate"

record selection =
  sl_imported :: import_counts
  sl_skipped :: import_counts
  sl_accepted :: "(string \<times> normalized_row) list"
  sl_newest :: "int option"

definition newest_of :: "int option \<Rightarrow> int option \<Rightarrow> int option" where
  "newest_of a b = (case (a, b) of (None, x) \<Rightarrow> x | (x, None) \<Rightarrow> x | (Some x, Some y) \<Rightarrow> Some (max x y))"

definition accept_row ::
  "crypto \<Rightarrow> vault \<Rightarrow> server_state \<Rightarrow> string \<Rightarrow> normalized_row \<Rightarrow> row option \<Rightarrow> int option \<Rightarrow> int option \<Rightarrow>
   selection \<Rightarrow> sync_error + selection" where
  "accept_row C v server table candidate l local_updated server_updated sl =
     and_then (increment (sl_imported sl) table) (\<lambda>c.
       let i = nz_primary_key candidate;
           candidate' = (if table = ''books''
             then candidate\<lparr>nz_row := keep_book_columns C v i
               (existing_books l (server_row_of server table i) local_updated server_updated) (nz_row candidate)\<rparr>
             else candidate)
       in Inr (sl\<lparr>sl_imported := c, sl_accepted := sl_accepted sl @ [(table, candidate')],
             sl_newest := newest_of (newest_of (newest_of (sl_newest sl) (Some (nz_updated_at candidate))) local_updated)
               server_updated\<rparr>))"

definition select_row ::
  "serde \<Rightarrow> crypto \<Rightarrow> vault \<Rightarrow> store \<Rightarrow> server_state \<Rightarrow> string \<Rightarrow> normalized_row \<Rightarrow> selection \<Rightarrow> sync_error + selection" where
  "select_row J C v st server table candidate sl =
     (case get_row J st table (nz_primary_key candidate) of Inl _ \<Rightarrow> Inl import_store_error
      | Inr l \<Rightarrow>
          and_then (state_timestamp l) (\<lambda>local_updated.
          and_then (server_timestamp (server_row_of server table (nz_primary_key candidate))) (\<lambda>server_updated.
            if (case newest_of local_updated server_updated of None \<Rightarrow> False | Some t \<Rightarrow> nz_updated_at candidate \<le> t)
            then and_then (increment (sl_skipped sl) table) (\<lambda>c. Inr (sl\<lparr>sl_skipped := c\<rparr>))
            else accept_row C v server table candidate l local_updated server_updated sl)))"

fun select_rows ::
  "serde \<Rightarrow> crypto \<Rightarrow> vault \<Rightarrow> store \<Rightarrow> server_state \<Rightarrow> (string \<times> normalized_row) list \<Rightarrow> selection \<Rightarrow> sync_error + selection" where
  "select_rows J C v st server [] sl = Inr sl"
| "select_rows J C v st server ((table, candidate) # rest) sl =
     and_then (select_row J C v st server table candidate sl) (select_rows J C v st server rest)"

text \<open>The two loops visit the candidates table by table.\<close>

definition candidates_of :: "normalized_import \<Rightarrow> (string \<times> normalized_row) list" where
  "candidates_of parsed = concat (map (\<lambda>(table, rows). map (\<lambda>r. (table, r)) rows) (owned_tables parsed))"

subsection \<open>Staging\<close>

definition invalid_note :: sync_error where "invalid_note = InvalidImport ''invalid normalized note''"

definition prepare_note :: "env \<Rightarrow> vault \<Rightarrow> string \<Rightarrow> string \<Rightarrow> row \<Rightarrow> sync_error + row" where
  "prepare_note V v iv i r =
     (let r0 = fmdrop ''content_tag'' (fmdrop ''text'' r)
      in case fmlookup r ''text'' of
           Some (JString plaintext) \<Rightarrow>
             and_then (case fmlookup r0 ''book_id'' of None \<Rightarrow> Inr None | Some JNull \<Rightarrow> Inr None
                 | Some (JString b) \<Rightarrow> Inr (Some b) | Some _ \<Rightarrow> Inl invalid_note) (\<lambda>book_id.
               Inr (fmupd ''content_tag'' (JString (vault_content_tag (env_crypto V) (env_text V) v plaintext book_id))
                 (fmupd ''text'' (JString (vault_encrypt_note (env_crypto V) iv v (Some i) plaintext)) r0)))
         | None \<Rightarrow> Inr (fmupd ''content_tag'' JNull (fmupd ''text'' JNull r0))
         | Some JNull \<Rightarrow> Inr (fmupd ''content_tag'' JNull (fmupd ''text'' JNull r0))
         | Some _ \<Rightarrow> Inl invalid_note)"

definition prepare_book :: "crypto \<Rightarrow> vault \<Rightarrow> string \<Rightarrow> string \<Rightarrow> row \<Rightarrow> row" where
  "prepare_book C v iv i r =
     (case fmlookup r ''url'' of
        Some (JString url) \<Rightarrow> if is_encrypted_v2 url then r else fmupd ''url'' (JString (seal_book_url C iv v i url)) r
      | _ \<Rightarrow> r)"

definition complete_row :: "table_desc \<Rightarrow> row \<Rightarrow> row" where
  "complete_row t r = fmap_of_list (map (\<lambda>(column, _). (column, unwrap_or (fmlookup r column) JNull)) (ts_columns t))"

definition prepare_write :: "env \<Rightarrow> vault \<Rightarrow> string \<Rightarrow> int \<Rightarrow> string \<times> normalized_row \<Rightarrow> sync_error + import_write" where
  "prepare_write V v iv batch_timestamp x =
     (case x of (table, candidate) \<Rightarrow>
        let i = nz_primary_key candidate in
        and_then (if table = ''notes'' then prepare_note V v iv i (nz_row candidate) else Inr (nz_row candidate)) (\<lambda>r1.
          let r2 = (if table = ''books'' then prepare_book (env_crypto V) v iv i r1 else r1);
              r3 = fmupd ''deleted'' (JBool False) (fmupd ''updated_at'' (json_i64 batch_timestamp) r2)
          in case table_schema table of None \<Rightarrow> Inl import_store_error
             | Some t \<Rightarrow> Inr \<lparr>iw_table = table, iw_record_id = i, iw_row = complete_row t r3\<rparr>))"

fun prepare_writes ::
  "env \<Rightarrow> vault \<Rightarrow> (nat \<Rightarrow> string) \<Rightarrow> int \<Rightarrow> nat \<Rightarrow> (string \<times> normalized_row) list \<Rightarrow> sync_error + import_write list" where
  "prepare_writes V v ivs batch_timestamp n [] = Inr []"
| "prepare_writes V v ivs batch_timestamp n (x # xs) =
     and_then (prepare_write V v (ivs n) batch_timestamp x) (\<lambda>w.
     and_then (prepare_writes V v ivs batch_timestamp (Suc n) xs) (\<lambda>ws. Inr (w # ws)))"

definition stage_selection ::
  "env \<Rightarrow> vault \<Rightarrow> (nat \<Rightarrow> string) \<Rightarrow> int \<Rightarrow> nat \<Rightarrow> selection \<Rightarrow> store \<Rightarrow> (sync_error + import_summary) \<times> store" where
  "stage_selection V v ivs import_now version sl st =
     (let summary = \<lparr>is_schema_version = version, is_imported = sl_imported sl, is_skipped_stale = sl_skipped sl\<rparr> in
      if sl_accepted sl = [] then (Inr summary, st)
      else case checked_add (the (sl_newest sl)) 1 of
          None \<Rightarrow> (Inl (InvalidImport ''snapshot import timestamp cannot advance safely''), st)
        | Some advanced \<Rightarrow>
            let batch_timestamp = max import_now advanced in
            case prepare_writes V v ivs batch_timestamp 0 (sl_accepted sl) of Inl e \<Rightarrow> (Inl e, st)
            | Inr writes \<Rightarrow>
                (case stage_import_batch (env_serde V) st writes batch_timestamp of
                   Inl _ \<Rightarrow> (Inl import_store_error, st) | Inr st' \<Rightarrow> (Inr summary, st')))"

definition no_selection :: selection where
  "no_selection = \<lparr>sl_imported = no_counts, sl_skipped = no_counts, sl_accepted = [], sl_newest = None\<rparr>"

definition select_prepare_and_stage ::
  "env \<Rightarrow> vault \<Rightarrow> (nat \<Rightarrow> string) \<Rightarrow> normalized_import \<Rightarrow> server_state \<Rightarrow> int \<Rightarrow> store \<Rightarrow>
   (sync_error + import_summary) \<times> store" where
  "select_prepare_and_stage V v ivs parsed server import_now st =
     (case select_rows (env_serde V) (env_crypto V) v st server (candidates_of parsed) no_selection of
        Inl e \<Rightarrow> (Inl e, st)
      | Inr sl \<Rightarrow> stage_selection V v ivs import_now (ni_schema_version parsed) sl st)"

definition merge_parsed_with_sink ::
  "env \<Rightarrow> 'w sink \<Rightarrow> 'w repair_sink \<Rightarrow> vault \<Rightarrow> (nat \<Rightarrow> string) \<Rightarrow> normalized_import \<Rightarrow> int \<Rightarrow> store \<Rightarrow> 'w \<Rightarrow>
   (sync_error + import_summary) \<times> store \<times> 'w" where
  "merge_parsed_with_sink V snk rsk v ivs parsed import_now st w =
     (case pull (env_serde V) (env_show V) (sanitized_sink snk) synced_table_names st w of
        (pulled, st1, w1) \<Rightarrow>
          if pr_failed_tables pulled \<noteq> [] then (Inl preflight_error, st1, w1)
          else case fetch_candidate_state rsk parsed w1 of
              (Inl e, w2) \<Rightarrow> (Inl e, st1, w2)
            | (Inr server, w2) \<Rightarrow>
                (case select_prepare_and_stage V v ivs parsed server import_now st1 of (res, st2) \<Rightarrow> (res, st2, w2)))"

definition import_merge ::
  "env \<Rightarrow> url_lib \<Rightarrow> 'w http_lib \<Rightarrow> client \<Rightarrow> vault \<Rightarrow> (nat \<Rightarrow> string) \<Rightarrow> string \<Rightarrow> int \<Rightarrow> store \<Rightarrow> 'w \<Rightarrow>
   (sync_error + import_summary) \<times> store \<times> 'w" where
  "import_merge V L H c v ivs archive_json import_now st w =
     (case parse_import_at (env_serde V) L (env_f64 V) archive_json import_now of
        Inl e \<Rightarrow> (Inl e, st, w)
      | Inr parsed \<Rightarrow>
          if access_token c = None then (Inl (missing_token ''importing''), st, w)
          else merge_parsed_with_sink V (client_sink (env_serde V) H c) (client_repair_sink H c) v ivs parsed import_now st w)"

end
