(* ===== verification/Device.thy ===== *)
theory Device
  imports Facade_Laws Snapshot_Import
begin

text \<open>
  A whole device: any interleaving of host calls, local writes, signals, merges, repairs, imports, flushes,
  pulls and whole syncs, against a server that may answer anything, and what every state it reaches has.
\<close>

subsection \<open>Host writes\<close>

text \<open>One call of a host on the write side of the engine, with whatever drafts, clock readings and
  random bytes; a call that stops half way leaves the store it reached.\<close>

inductive host_write :: "env \<Rightarrow> vault \<Rightarrow> store \<Rightarrow> store \<Rightarrow> bool" for V v where
  hw_book: "enqueue_book V L iv now queued v st bd = Inr st' \<Longrightarrow> host_write V v st st'"
| hw_shared_book: "find_or_create_book_by_url V L iv now queued v st bd = (r, st') \<Longrightarrow> host_write V v st st'"
| hw_note: "enqueue_note V iv now queued v st nd = Inr st' \<Longrightarrow> host_write V v st st'"
| hw_idea: "enqueue_custom_idea V now queued st i nm descr created del = Inr st' \<Longrightarrow> host_write V v st st'"
| hw_link: "enqueue_note_link V now queued st i a b rel created del = Inr st' \<Longrightarrow> host_write V v st st'"
| hw_lens: "enqueue_lens V now queued st i nm leaves comb thr created del = Inr st' \<Longrightarrow> host_write V v st st'"
| hw_collection: "enqueue_collection V now queued st i nm created del = Inr st' \<Longrightarrow> host_write V v st st'"
| hw_membership: "enqueue_collection_membership V now st i j created del = Inr st' \<Longrightarrow> host_write V v st st'"
| hw_attachment: "enqueue_question_note V now st qn = Inr st' \<Longrightarrow> host_write V v st st'"
| hw_signals: "enqueue_note_signals V now queued st i p visits ann spawns ex en im created del = Inr st' \<Longrightarrow>
    host_write V v st st'"
| hw_question: "enqueue_question V iv now marked v st qd = (e, st') \<Longrightarrow> host_write V v st st'"
| hw_setting: "set_user_setting V now st k val = Inr st' \<Longrightarrow> host_write V v st st'"
| hw_cadence: "set_prompt_cadence V now st hours = Inr st' \<Longrightarrow> host_write V v st st'"
| hw_tone: "set_prompt_tone V now st t = Inr st' \<Longrightarrow> host_write V v st st'"
| hw_sort: "set_library_sort V now st s = Inr st' \<Longrightarrow> host_write V v st st'"
| hw_prompt: "next_prompt_events V queued st now_ms acct = (evs, st') \<Longrightarrow> host_write V v st st'"
| hw_margins: "replace_handwritten_annotations V ivs now v st i given = Inr (n, st') \<Longrightarrow> host_write V v st st'"

lemma stage_op: "stage_local_write J st table rid r now = Inr st' \<Longrightarrow> (store_op J)\<^sup>*\<^sup>* st st'"
  by (blast intro: op_stage)

lemma writes_op: "stage_local_writes J st ws now = Inr st' \<Longrightarrow> (store_op J)\<^sup>*\<^sup>* st st'"
  by (blast intro: op_stage_batch)

lemma note_patch_op:
  "stage_local_write_existing_live J st table rid r ws now = Inr st' \<Longrightarrow> (store_op J)\<^sup>*\<^sup>* st st'"
  by (blast intro: op_stage_live)

lemma existing_note_patch_op:
  "stage_existing_live_note_patch F J st i r retire now = Inr st' \<Longrightarrow> (store_op J)\<^sup>*\<^sup>* st st'"
  by (auto simp: stage_existing_live_note_patch_def Let_def split: sum.splits if_splits intro: note_patch_op)

lemma resurrect_op:
  "stage_local_write_resurrecting J st table rid r now = Inr st' \<Longrightarrow> (store_op J)\<^sup>*\<^sup>* st st'"
  by (blast intro: op_resurrect)

lemmas staging_ops = stage_op writes_op note_patch_op existing_note_patch_op resurrect_op

lemma stage_write_op: "stage_write V queued st table i r = Inr st' \<Longrightarrow> (store_op (env_serde V))\<^sup>*\<^sup>* st st'"
  by (auto simp: stage_write_def intro: stage_op)

lemma stage_pair_op: "stage_pair V now st table i r del = Inr st' \<Longrightarrow> (store_op (env_serde V))\<^sup>*\<^sup>* st st'"
  by (auto simp: stage_pair_def and_then_Inr split: if_splits intro: staging_ops)

lemma setting_op: "set_user_setting V now st k val = Inr st' \<Longrightarrow> (store_op (env_serde V))\<^sup>*\<^sup>* st st'"
  by (auto simp: set_user_setting_def intro: stage_op)

lemma if_changed_op: "set_if_changed V now st k val = Inr st' \<Longrightarrow> (store_op (env_serde V))\<^sup>*\<^sup>* st st'"
  by (auto simp: set_if_changed_def and_then_Inr split: if_splits intro: setting_op)

lemma stage_book_op: "stage_book V L iv now queued v st d = Inr st' \<Longrightarrow> (store_op (env_serde V))\<^sup>*\<^sup>* st st'"
  by (auto simp: stage_book_def and_then_Inr Let_def intro: stage_op)

lemma shared_book_op:
  "find_or_create_book_by_url V L iv now queued v st d = (r, st') \<Longrightarrow> (store_op (env_serde V))\<^sup>*\<^sup>* st st'"
  by (auto simp: find_or_create_book_by_url_def split: if_splits option.splits sum.splits intro: stage_book_op)

lemma note_op: "enqueue_note V iv now queued v st d = Inr st' \<Longrightarrow> (store_op (env_serde V))\<^sup>*\<^sup>* st st'"
  by (auto simp: enqueue_note_def and_then_Inr Let_def split: option.splits if_splits
      intro: staging_ops stage_write_op)

lemma question_op: "enqueue_question V iv now marked v st d = (e, st') \<Longrightarrow> (store_op (env_serde V))\<^sup>*\<^sup>* st st'"
  by (auto simp: enqueue_question_def split: option.splits sum.splits
      intro: staging_ops rtranclp_trans [OF stage_op setting_op])

lemma prompt_op: "next_prompt_events V queued st now_ms acct = (r, st') \<Longrightarrow> (store_op (env_serde V))\<^sup>*\<^sup>* st st'"
  by (auto simp: next_prompt_events_def Let_def split: if_splits sum.splits intro: setting_op)

lemma margins_op:
  "replace_handwritten_annotations V ivs now v st i given = Inr (n, st') \<Longrightarrow> (store_op (env_serde V))\<^sup>*\<^sup>* st st'"
  by (auto simp: replace_handwritten_annotations_def and_then_Inr Let_def split: option.splits if_splits
      intro: writes_op)

lemma host_write_ops: "host_write V v st st' \<Longrightarrow> (store_op (env_serde V))\<^sup>*\<^sup>* st st'"
  by (induction rule: host_write.induct)
     (auto simp: enqueue_book_def enqueue_custom_idea_def enqueue_note_link_def enqueue_lens_def
        enqueue_collection_def enqueue_collection_membership_def enqueue_question_note_def
        enqueue_note_signals_def set_prompt_cadence_def set_prompt_tone_def set_library_sort_def Let_def
        split: option.splits
        intro: stage_book_op shared_book_op note_op stage_write_op stage_pair_op question_op setting_op
          if_changed_op prompt_op margins_op)

subsection \<open>Steps\<close>

text \<open>One step of a device; the second component is the world of the server.\<close>

inductive device_step ::
  "env \<Rightarrow> 'w sink \<Rightarrow> 'w repair_sink \<Rightarrow> string \<Rightarrow> vault \<Rightarrow> store \<times> 'w \<Rightarrow> store \<times> 'w \<Rightarrow> bool"
  for V snk rsk user_id v where
  ds_local: "store_op (env_serde V) st st' \<Longrightarrow> device_step V snk rsk user_id v (st, w) (st', w)"
| ds_host: "host_write V v st st' \<Longrightarrow> device_step V snk rsk user_id v (st, w) (st', w)"
| ds_flush: "flush (env_serde V) snk user_id st w = (f, st', w') \<Longrightarrow>
    device_step V snk rsk user_id v (st, w) (st', w')"
| ds_pull: "pull (env_serde V) (env_show V) snk tabs st w = (p, st', w') \<Longrightarrow>
    device_step V snk rsk user_id v (st, w) (st', w')"
| ds_reconcile: "reconcile V rsk clk user_id v st w = (r, st', w') \<Longrightarrow>
    device_step V snk rsk user_id v (st, w) (st', w')"
| ds_sync: "pull_then_flush V snk rsk clk user_id tabs v st w = (s, st', w') \<Longrightarrow>
    device_step V snk rsk user_id v (st, w) (st', w')"
| ds_merge_books: "merge_books (env_serde V) (env_show V) now st sid lids = (u, st') \<Longrightarrow>
    device_step V snk rsk user_id v (st, w) (st', w)"
| ds_unmerge_books: "unmerge_books (env_serde V) (env_show V) now st undo = (u', st') \<Longrightarrow>
    device_step V snk rsk user_id v (st, w) (st', w)"
| ds_merge_notes: "merge_content_duplicates (env_serde V) (env_show V) now st sid lids cross = (n, st') \<Longrightarrow>
    device_step V snk rsk user_id v (st, w) (st', w)"
| ds_signal: "record_note_signal (env_f64 V) (env_serde V) now st note_id kind = Inr (b, st') \<Longrightarrow>
    device_step V snk rsk user_id v (st, w) (st', w)"
| ds_retire: "soft_delete_signals_for_note (env_f64 V) (env_serde V) now st note_id = Inr st' \<Longrightarrow>
    device_step V snk rsk user_id v (st, w) (st', w)"
| ds_note_patch: "stage_existing_live_note_patch (env_f64 V) (env_serde V) st note_id r retire now = Inr st' \<Longrightarrow>
    device_step V snk rsk user_id v (st, w) (st', w)"
| ds_import: "merge_parsed_with_sink V snk rsk v ivs parsed now st w = (i, st', w') \<Longrightarrow>
    device_step V snk rsk user_id v (st, w) (st', w')"

abbreviation device_run ::
  "env \<Rightarrow> 'w sink \<Rightarrow> 'w repair_sink \<Rightarrow> string \<Rightarrow> vault \<Rightarrow> store \<times> 'w \<Rightarrow> store \<times> 'w \<Rightarrow> bool" where
  "device_run V snk rsk user_id v \<equiv> (device_step V snk rsk user_id v)\<^sup>*\<^sup>*"

subsection \<open>Every step is a sequence of store operations\<close>

lemma reconcile_ops: "(store_op (env_serde V))\<^sup>*\<^sup>* st (fst (snd (reconcile V rsk clk user_id v st w)))"
  by (rule repair_ops.reconcile_closed [OF refl])

lemma pull_ops: "(store_op J)\<^sup>*\<^sup>* st (fst (snd (pull J E snk tabs st w)))"
  using pull_tables_ops by (metis fst_conv pull_def snd_conv surj_pair)

lemma stage_selection_ops:
  "(store_op (env_serde V))\<^sup>*\<^sup>* st (snd (stage_selection V v ivs now version sl st))"
  by (auto simp: stage_selection_def Let_def split: option.splits sum.splits intro: op_import)

lemma import_ops: "(store_op (env_serde V))\<^sup>*\<^sup>* st (fst (snd (merge_parsed_with_sink V snk rsk v ivs parsed now st w)))"
proof -
  obtain p st1 w1 where p: "pull (env_serde V) (env_show V) (sanitized_sink snk) synced_table_names st w = (p, st1, w1)" by (metis surj_pair)
  have r1: "(store_op (env_serde V))\<^sup>*\<^sup>* st st1" using pull_ops p by (metis fst_conv snd_conv)
  have "(store_op (env_serde V))\<^sup>*\<^sup>* st1 st2" if "select_prepare_and_stage V v ivs parsed server now st1 = (res, st2)" for server res st2
    using that stage_selection_ops [of V st1] by (auto simp: select_prepare_and_stage_def split: sum.splits) (metis snd_conv)
  with r1 show ?thesis
    by (auto simp: merge_parsed_with_sink_def p split: prod.splits sum.splits intro: rtranclp_trans)
qed

lemma sync_ops: "(store_op (env_serde V))\<^sup>*\<^sup>* st (fst (snd (pull_then_flush V snk rsk clk user_id tabs v st w)))"
proof -
  obtain p st1 w1 where p: "pull (env_serde V) (env_show V) snk tabs st w = (p, st1, w1)" by (metis surj_pair)
  obtain r st2 w2 where r: "reconcile V rsk clk user_id v st1 w1 = (r, st2, w2)" by (metis surj_pair)
  obtain f st3 w3 where f: "flush (env_serde V) snk user_id st2 w2 = (f, st3, w3)" by (metis surj_pair)
  have r1: "(store_op (env_serde V))\<^sup>*\<^sup>* st st1" using pull_ops p by (metis fst_conv snd_conv)
  have r2: "(store_op (env_serde V))\<^sup>*\<^sup>* st st2"
    using r1 reconcile_ops r by (metis fst_conv snd_conv rtranclp_trans)
  have r3: "(store_op (env_serde V))\<^sup>*\<^sup>* st st3" using r2 flush_ops [OF f] by (rule rtranclp_trans)
  show ?thesis
    using r1 r3 by (cases r; cases f) (simp_all add: pull_then_flush_def repair_def p r f)
qed

lemma device_step_ops:
  "device_step V snk rsk user_id v s s' \<Longrightarrow> (store_op (env_serde V))\<^sup>*\<^sup>* (fst s) (fst s')"
proof (induction rule: device_step.induct)
  case (ds_host st st' w)
  then show ?case using host_write_ops by simp
next
  case (ds_flush st w f st' w')
  then show ?case using flush_ops by auto
next
  case (ds_pull tabs st w p st' w')
  then show ?case using pull_ops by (metis fst_conv snd_conv)
next
  case (ds_reconcile clk st w r st' w')
  then show ?case using reconcile_ops by (metis fst_conv snd_conv)
next
  case (ds_sync clk tabs st w s st' w')
  then show ?case using sync_ops by (metis fst_conv snd_conv)
next
  case (ds_merge_books now st sid lids u st' w)
  then show ?case using repair_ops.merge_books_closed by (metis fst_conv snd_conv)
next
  case (ds_unmerge_books now st undo u' st' w)
  then show ?case using repair_ops.unmerge_books_closed by (metis fst_conv snd_conv)
next
  case (ds_merge_notes now st sid lids cross n st' w)
  then show ?case using repair_ops.merge_duplicates_closed by (metis fst_conv snd_conv)
next
  case (ds_signal now st note_id kind b st' w)
  then show ?case
    by (auto simp: record_note_signal_def and_then_Inr split: option.splits if_splits intro: writes_op)
next
  case (ds_retire now st note_id st' w)
  then show ?case
    by (auto simp: soft_delete_signals_for_note_def and_then_Inr split: option.splits intro: writes_op)
next
  case (ds_note_patch st note_id r retire now st' w)
  then show ?case
    using existing_note_patch_op by simp
next
  case (ds_import ivs parsed now st w i st' w')
  then show ?case using import_ops by (metis fst_conv snd_conv)
qed auto

lemma device_run_ops:
  "device_run V snk rsk user_id v (st, w) (st', w') \<Longrightarrow> (store_op (env_serde V))\<^sup>*\<^sup>* st st'"
  by (induction rule: rtranclp_induct2) (auto dest!: device_step_ops)

text \<open>
  Property C4.  However host calls, local writes, signals, merges, repairs, imports, flushes, pulls
  and whole syncs interleave, and whatever the server answers, a device that starts from an empty store only ever
  holds stores with the invariant: typed rows, unique keys, an ordered outbox of synced tables, one
  vector per owner and none for a tombstone.
\<close>

theorem device_keeps_invariant:
  "device_run V snk rsk user_id v (empty_store, w) (st, w') \<Longrightarrow> store_inv st"
  using store_ops_inv [OF device_run_ops store_inv_empty] .

text \<open>A server with no books, and a clock that stands.\<close>

definition quiet_sink :: "nat repair_sink" where
  "quiet_sink = \<lparr>rs_fetch_by_ids = (\<lambda>_ _ _ w. (Inr [], w)), rs_fetch_app_config = (\<lambda>_ w. (Inr None, w)),
     rs_search_cover = (\<lambda>_ _ w. (Inr None, w))\<rparr>"

definition steady_clocks :: pass_clocks where
  "steady_clocks = \<lparr>pc_stranded = (\<lambda>_. 5), pc_tags = (\<lambda>_. 5), pc_dupes = (\<lambda>_. 5), pc_signals = 5, pc_covers = (\<lambda>_. 5)\<rparr>"

theorem device_keeps_invariant_witness:
  "store_inv (fst (snd (pull_then_flush (demo_env mute_serde) (serving_sink three_collections) quiet_sink
     steady_clocks ''u'' [''collections''] (new_vault toy_mk) empty_store 0)))"
proof -
  obtain r st' w' where p: "pull_then_flush (demo_env mute_serde) (serving_sink three_collections) quiet_sink
     steady_clocks ''u'' [''collections''] (new_vault toy_mk) empty_store 0 = (r, st', w')" by (metis surj_pair)
  have "device_run (demo_env mute_serde) (serving_sink three_collections) quiet_sink ''u'' (new_vault toy_mk)
      (empty_store, 0) (st', w')"
    using ds_sync [OF p] by blast
  from device_keeps_invariant [OF this] p show ?thesis by simp
qed


definition staged_store :: store where
  "staged_store = (case stage_local_write flat_serde empty_store ''collections'' ''c1'' collection_edit 7 of
     Inr st \<Rightarrow> st | Inl _ \<Rightarrow> empty_store)"

lemma staged_store_run:
  "device_run (demo_env flat_serde) (demo_sink (\<lambda>_. True)) quiet_sink ''u'' (new_vault toy_mk)
     (empty_store, 0) (staged_store, 0)" "length (outbox staged_store) = 1"
proof -
  have "case stage_local_write flat_serde empty_store ''collections'' ''c1'' collection_edit 7 of
      Inr st \<Rightarrow> length (outbox st) = 1 | Inl _ \<Rightarrow> False"
    by code_simp
  then obtain st where st: "stage_local_write flat_serde empty_store ''collections'' ''c1'' collection_edit 7 = Inr st"
    and one: "length (outbox st) = 1" by (auto split: sum.splits)
  then have eq: "staged_store = st" by (simp add: staged_store_def)
  have se: "env_serde (demo_env flat_serde) = flat_serde" by (simp add: demo_env_def)
  show "device_run (demo_env flat_serde) (demo_sink (\<lambda>_. True)) quiet_sink ''u'' (new_vault toy_mk)
      (empty_store, 0) (staged_store, 0)"
    unfolding eq by (rule r_into_rtranclp, rule ds_local) (simp add: se op_stage [OF st])
  show "length (outbox staged_store) = 1" using one eq by simp
qed


subsection \<open>The types of what is read\<close>

text \<open>
  Property C5.  Reads are typed.  On every device state that any interleaving of local writes,
  flushes, pulls, repairs and merges reaches from an empty store, whatever the server answered, a row
  read by its id has exactly the columns of its table's descriptor, its primary key is the id that was
  asked for, and each column is null or of the column's declared type: a string, an integer in the
  \<open>i64\<close> range, a boolean or a float.
\<close>

theorem device_reads_typed:
  assumes "device_run V snk rsk user_id v (empty_store, w) (st, w1)"
    and "table_schema table = Some t" "get_row J st table i = Inr (Some r)"
  shows "fset (fmdom r) = fst ` set (ts_columns t) \<and> fmlookup r (pk_of t) = Some (JString i) \<and>
    (\<forall>(c, ty) \<in> set (ts_columns t). \<exists>x. fmlookup r c = Some x \<and> json_typed ty x)"
proof -
  have inv: "store_inv st"
    using store_ops_inv [OF _ store_inv_empty] device_run_ops [OF assms(1)] by simp
  obtain s where s: "s \<in> set (tables st table)" "s (pk_of t) = SText i" "r = row_of_sql J t s"
    using assms(3) by (auto simp: get_row_eq [OF assms(2)] dest: find_SomeD)
  have ok: "desc_ok t" using table_schema_Some(2) [OF assms(2)] .
  have "row_typed t s"
    using inv s(1) table_schema_in [OF assms(2)] table_schema_Some(1) [OF assms(2)]
    by (auto simp: store_inv_def rows_typed_def)
  note typed = row_of_sql_typed [OF ok this]
  have "fmlookup r (pk_of t) = Some (JString i)"
    using ok s(2) by (simp add: s(3) fmlookup_row_of_sql desc_ok_def sql_to_json_def)
  moreover have "c \<in> fset (fmdom r) \<longleftrightarrow> c \<in> fst ` set (ts_columns t)" for c
  proof -
    have "c \<in> fset (fmdom r) \<longleftrightarrow> map_of (ts_columns t) c \<noteq> None"
      unfolding s(3) fmlookup_dom_iff fmlookup_row_of_sql by (cases "map_of (ts_columns t) c") auto
    then show ?thesis by (simp only: map_of_eq_None_iff) simp
  qed
  then have "fset (fmdom r) = fst ` set (ts_columns t)" by blast
  ultimately show ?thesis using typed s(3) by fast
qed

theorem device_reads_typed_witness:
  "case get_row flat_serde staged_store ''collections'' ''c1'' of
     Inr (Some r) \<Rightarrow> fmlookup r ''id'' = Some (JString ''c1'') \<and> (\<exists>x. fmlookup r ''deleted'' = Some x \<and> json_typed CBool x)
   | _ \<Rightarrow> False"
proof -
  have "case get_row flat_serde staged_store ''collections'' ''c1'' of Inr (Some _) \<Rightarrow> True | _ \<Rightarrow> False" by code_simp
  then obtain r where r: "get_row flat_serde staged_store ''collections'' ''c1'' = Inr (Some r)"
    by (auto split: sum.splits option.splits)
  have "case table_schema ''collections'' of Some t \<Rightarrow> pk_of t = ''id'' \<and> (''deleted'', CBool) \<in> set (ts_columns t)
    | None \<Rightarrow> False" by code_simp
  then obtain t where t: "table_schema ''collections'' = Some t" "pk_of t = ''id''" "(''deleted'', CBool) \<in> set (ts_columns t)"
    by (auto split: option.splits)
  from device_reads_typed [OF staged_store_run(1) t(1) r] t(2,3) r show ?thesis by auto
qed

subsection \<open>The sync state under repairs\<close>

lemma merge_key_apart: "sync_seq_key table \<noteq> MERGED_BOOK_IDS_KEY" "sync_pulled_key table \<noteq> MERGED_BOOK_IDS_KEY"
  by (simp_all add: sync_seq_key_def sync_pulled_key_def MERGED_BOOK_IDS_KEY_def)

lemma progress_cong:
  assumes "\<forall>k. k \<noteq> MERGED_BOOK_IDS_KEY \<longrightarrow> meta st' k = meta st k"
  shows "get_seq_cursor st' table = get_seq_cursor st table \<and> has_completed_pull st' table = has_completed_pull st table"
  using assms merge_key_apart by (simp add: get_seq_cursor_def has_completed_pull_def meta_get_def)

text \<open>
  Property C33.  No repair and no merge moves the sync state: whatever the server answers and
  wherever a pass stops, every table's cursor and completion receipt are as they were, so no row
  past a cursor is skipped and no partial pull counts as complete.
\<close>

theorem repairs_keep_cursors:
  "st' \<in> {fst (snd (reconcile V rsk clk user_id v st w)), snd (merge_books J E now st sid lids),
     snd (unmerge_books J E now st u), snd (merge_content_duplicates J E now st sid lids cross)} \<Longrightarrow>
   get_seq_cursor st' table = get_seq_cursor st table \<and> has_completed_pull st' table = has_completed_pull st table"
  using repair_meta.reconcile_closed [OF refl, where V = V and st = st and snk = rsk and clk = clk
      and user_id = user_id and v = v and w = w]
    repair_meta.merge_books_closed [where J = J and st = st] repair_meta.unmerge_books_closed [where J = J and st = st]
    repair_meta.merge_duplicates_closed [where J = J and st = st]
  by (intro progress_cong) auto

theorem repairs_keep_cursors_witness:
  "get_seq_cursor (snd (merge_books flat_serde (\<lambda>_. []) 9 (set_seq_cursor shelf_store ''notes'' 4) ''s'' [''l''])) ''notes'' = Some 4"
proof -
  have "get_seq_cursor (set_seq_cursor shelf_store ''notes'' 4) ''notes'' = Some 4" by code_simp
  with repairs_keep_cursors [where st = "set_seq_cursor shelf_store ''notes'' 4" and J = flat_serde
      and E = "\<lambda>_. []" and now = 9 and sid = "''s''" and lids = "[''l'']" and table = "''notes''"
      and V = "demo_env flat_serde" and rsk = quiet_sink and w = 0]
  show ?thesis by simp
qed

end
