(* ===== verification/Floats.thy ===== *)
theory Floats
  imports Braird_Prelude
begin

text \<open>
  The floating point of the ranking modules.  An \<open>f64\<close> is a NaN, an infinity or the rational it
  denotes (the two zeros, which no comparison tells apart, are one value); an \<open>f32\<close> is its bit
  pattern.  The rounding of a rational, the rounded square root and the narrowing to \<open>f32\<close> are the
  fields of an \<open>f64_lib\<close>; every case distinction of the operations is written out.
\<close>

subsection \<open>Values and operations\<close>

datatype f64 = NaN | Inf bool | Fin rat

record f64_lib =
  round64 :: "rat \<Rightarrow> f64"
  root64 :: "rat \<Rightarrow> f64"
  to_f32 :: "f64 \<Rightarrow> 32 word"

definition f_of_nat :: "f64_lib \<Rightarrow> nat \<Rightarrow> f64" where
  "f_of_nat F n = round64 F (of_nat n)"

fun fadd :: "f64_lib \<Rightarrow> f64 \<Rightarrow> f64 \<Rightarrow> f64" where
  "fadd F (Fin x) (Fin y) = round64 F (x + y)"
| "fadd F (Inf s) (Inf t) = (if s = t then Inf s else NaN)"
| "fadd F (Inf s) (Fin y) = Inf s"
| "fadd F (Fin x) (Inf t) = Inf t"
| "fadd F _ _ = NaN"

fun fmul :: "f64_lib \<Rightarrow> f64 \<Rightarrow> f64 \<Rightarrow> f64" where
  "fmul F (Fin x) (Fin y) = round64 F (x * y)"
| "fmul F (Inf s) (Inf t) = Inf (s = t)"
| "fmul F (Inf s) (Fin y) = (if y = 0 then NaN else Inf (s = (0 < y)))"
| "fmul F (Fin x) (Inf t) = (if x = 0 then NaN else Inf (t = (0 < x)))"
| "fmul F _ _ = NaN"

fun fdiv :: "f64_lib \<Rightarrow> f64 \<Rightarrow> f64 \<Rightarrow> f64" where
  "fdiv F (Fin x) (Fin y) = (if y \<noteq> 0 then round64 F (x / y) else if x = 0 then NaN else Inf (0 < x))"
| "fdiv F (Inf s) (Fin y) = Inf (s = (0 \<le> y))"
| "fdiv F (Fin x) (Inf t) = Fin 0"
| "fdiv F _ _ = NaN"

fun fsqrt :: "f64_lib \<Rightarrow> f64 \<Rightarrow> f64" where
  "fsqrt F (Fin x) = (if x < 0 then NaN else root64 F x)"
| "fsqrt F (Inf s) = (if s then Inf True else NaN)"
| "fsqrt F NaN = NaN"

text \<open>The comparisons; one with a NaN is false.\<close>

fun flt :: "f64 \<Rightarrow> f64 \<Rightarrow> bool" where
  "flt (Fin x) (Fin y) \<longleftrightarrow> x < y"
| "flt (Inf s) (Inf t) \<longleftrightarrow> \<not> s \<and> t"
| "flt (Inf s) (Fin y) \<longleftrightarrow> \<not> s"
| "flt (Fin x) (Inf t) \<longleftrightarrow> t"
| "flt _ _ \<longleftrightarrow> False"

definition fle :: "f64 \<Rightarrow> f64 \<Rightarrow> bool" where
  "fle a b \<longleftrightarrow> a \<noteq> NaN \<and> b \<noteq> NaN \<and> \<not> flt b a"

definition fmax :: "f64 \<Rightarrow> f64 \<Rightarrow> f64" where
  "fmax a b = (if a = NaN then b else if b = NaN then a else if flt a b then b else a)"

definition is_finite :: "f64 \<Rightarrow> bool" where
  "is_finite a = (case a of Fin _ \<Rightarrow> True | _ \<Rightarrow> False)"

text \<open>\<open>f64::from(f32)\<close>, which is exact.\<close>

definition f64_of_f32 :: "32 word \<Rightarrow> f64" where
  "f64_of_f32 w =
     (let n = unat w; e = n div 2 ^ 23 mod 2 ^ 8; m = n mod 2 ^ 23;
          sign = (if 2 ^ 31 \<le> n then - 1 else 1) :: rat
      in if e = 255 then (if m = 0 then Inf (n < 2 ^ 31) else NaN)
         else if e = 0 then Fin (sign * of_nat m / 2 ^ 149)
         else Fin (sign * of_nat (2 ^ 23 + m) * 2 ^ e / 2 ^ 150))"

subsection \<open>Order\<close>

lemma flt_irrefl [simp]: "\<not> flt a a"
  by (cases a) auto

lemma flt_trans: "flt a b \<Longrightarrow> flt b c \<Longrightarrow> flt a c"
  by (cases a; cases b; cases c) auto

lemma flt_asym: "flt a b \<Longrightarrow> \<not> flt b a"
  by (cases a; cases b) auto

lemma flt_cases: "a \<noteq> NaN \<Longrightarrow> b \<noteq> NaN \<Longrightarrow> flt a b \<or> a = b \<or> flt b a"
  by (cases a; cases b) auto

lemma flt_NaN [simp]: "\<not> flt NaN a" "\<not> flt a NaN"
  by (cases a; simp)+

text \<open>The incomparability of two numbers is transitive, so a sort by decreasing number is sound.\<close>

lemma not_flt_trans: "b \<noteq> NaN \<Longrightarrow> \<not> flt a b \<Longrightarrow> \<not> flt b c \<Longrightarrow> a \<noteq> NaN \<Longrightarrow> c \<noteq> NaN \<Longrightarrow> \<not> flt a c"
  by (cases a; cases b; cases c) auto

subsection \<open>Rounding\<close>

text \<open>
  What is used of the rounding: between \<open>2 ^ -64\<close> and \<open>2 ^ 1000\<close> a result is finite and off by a
  factor of two at most; above it may be infinite; and zero is exact.
\<close>

definition round_ok :: "f64_lib \<Rightarrow> bool" where
  "round_ok F \<longleftrightarrow> round64 F 0 = Fin 0 \<and> (\<forall>x. 1 / 2 ^ 64 \<le> x \<longrightarrow>
     (\<exists>y. round64 F x = Fin y \<and> x / 2 \<le> y \<and> y \<le> 2 * x) \<or> (2 ^ 1000 < x \<and> round64 F x = Inf True))"

definition ranges :: "rat \<Rightarrow> rat \<Rightarrow> f64 \<Rightarrow> bool" where
  "ranges a b d \<longleftrightarrow> (\<exists>y. d = Fin y \<and> a \<le> y \<and> y \<le> b)"

lemma ranges_Fin: "a \<le> x \<Longrightarrow> x \<le> b \<Longrightarrow> ranges a b (Fin x)"
  by (simp add: ranges_def)

lemma ranges_mono: "ranges a b d \<Longrightarrow> a' \<le> a \<Longrightarrow> b \<le> b' \<Longrightarrow> ranges a' b' d"
  by (auto simp: ranges_def)

lemma round_ranges:
  assumes "round_ok F" "1 / 2 ^ 64 \<le> a" "b \<le> 2 ^ 1000" "a \<le> x" "x \<le> b"
  shows "ranges (a / 2) (2 * b) (round64 F x)"
proof -
  have "1 / 2 ^ 64 \<le> x" "\<not> 2 ^ 1000 < x" using assms(2-5) by simp_all
  then obtain y where "round64 F x = Fin y" "x / 2 \<le> y" "y \<le> 2 * x"
    using assms(1) unfolding round_ok_def by blast
  then show ?thesis using assms(4,5) by (auto simp: ranges_def)
qed

lemma f_of_nat_ranges:
  assumes "round_ok F" "1 \<le> n" "n \<le> 2 ^ 64"
  shows "ranges (of_nat n / 2) (2 * of_nat n) (f_of_nat F n)"
proof -
  have "(of_nat n :: rat) \<le> of_nat (2 ^ 64)" using assms(3) by (simp only: of_nat_le_iff)
  then have "(of_nat n :: rat) \<le> 2 ^ 1000" by simp
  then show ?thesis unfolding f_of_nat_def using assms(2) by (intro round_ranges [OF assms(1)]) simp_all
qed

lemma fmul_ranges:
  assumes "round_ok F" "ranges a b x" "ranges c d y" "0 \<le> a" "0 \<le> c" "1 / 2 ^ 64 \<le> a * c" "b * d \<le> 2 ^ 1000"
  shows "ranges (a * c / 2) (2 * (b * d)) (fmul F x y)"
proof -
  from assms(2,3) obtain p q where pq: "x = Fin p" "y = Fin q" "a \<le> p" "p \<le> b" "c \<le> q" "q \<le> d"
    by (auto simp: ranges_def)
  have "a * c \<le> p * q" "p * q \<le> b * d" using pq assms(4,5) by (auto intro: mult_mono)
  then show ?thesis using round_ranges [OF assms(1,6,7)] pq by simp
qed

lemma fadd_ranges:
  assumes "round_ok F" "ranges a b x" "ranges c d y" "1 / 2 ^ 64 \<le> a + c" "b + d \<le> 2 ^ 1000"
  shows "ranges ((a + c) / 2) (2 * (b + d)) (fadd F x y)"
proof -
  from assms(2,3) obtain p q where pq: "x = Fin p" "y = Fin q" "a \<le> p" "p \<le> b" "c \<le> q" "q \<le> d"
    by (auto simp: ranges_def)
  then have "a + c \<le> p + q" "p + q \<le> b + d" by simp_all
  then show ?thesis using round_ranges [OF assms(1,4,5)] pq by simp
qed

lemma fdiv_ranges:
  assumes "round_ok F" "ranges a b x" "ranges c d y" "0 \<le> a" "0 < c" "1 / 2 ^ 64 \<le> a / d" "b / c \<le> 2 ^ 1000"
  shows "ranges (a / d / 2) (2 * (b / c)) (fdiv F x y)"
proof -
  from assms(2,3) obtain p q where pq: "x = Fin p" "y = Fin q" "a \<le> p" "p \<le> b" "c \<le> q" "q \<le> d"
    by (auto simp: ranges_def)
  have "a / d \<le> p / q" "p / q \<le> b / c" using pq assms(4,5) by (auto intro: frac_le)
  then show ?thesis using round_ranges [OF assms(1,6,7)] pq assms(5) by simp
qed

text \<open>A number above the smallest the law speaks of, an infinity included.\<close>

definition solid :: "f64 \<Rightarrow> bool" where
  "solid d = (case d of Fin y \<Rightarrow> 1 / 2 ^ 32 \<le> y | Inf s \<Rightarrow> s | NaN \<Rightarrow> False)"

lemma solid_not_NaN [simp]: "solid d \<Longrightarrow> d \<noteq> NaN"
  by (auto simp: solid_def)

lemma solid_pos: "solid d \<Longrightarrow> flt (Fin 0) d"
  by (cases d) (auto simp: solid_def elim: less_le_trans [rotated])

lemma round_big:
  assumes "round_ok F" "1 / 2 ^ 64 \<le> x"
  shows "(\<exists>y. round64 F x = Fin y \<and> x / 2 \<le> y) \<or> round64 F x = Inf True"
  using assms unfolding round_ok_def by blast

lemma fadd_solid:
  assumes "round_ok F" "solid a" "solid b"
  shows "solid (fadd F a b)"
proof (cases "\<exists>x y. a = Fin x \<and> b = Fin y")
  case True
  then obtain x y where ab: "a = Fin x" "b = Fin y" by blast
  then have xy: "2 * (1 / 2 ^ 32) \<le> x + y" using assms(2,3) by (simp add: solid_def)
  then have "1 / 2 ^ 64 \<le> x + y" by simp
  from round_big [OF assms(1) this] xy show ?thesis by (auto simp: ab solid_def)
next
  case False
  then show ?thesis using assms(2,3) by (cases a; cases b) (auto simp: solid_def)
qed

lemma fadd_zero_solid: "round_ok F \<Longrightarrow> ranges (1 / 2 ^ 31) b d \<Longrightarrow> b \<le> 2 ^ 1000 \<Longrightarrow> solid (fadd F (Fin 0) d)"
  using fadd_ranges [of F 0 0 "Fin 0" "1 / 2 ^ 31" b d] by (auto simp: ranges_def solid_def)

lemma fmul_count_pos:
  assumes "round_ok F" "solid a" "1 \<le> n" "n \<le> 2 ^ 64"
  shows "flt (Fin 0) (fmul F a (f_of_nat F n))"
proof -
  obtain m where m: "f_of_nat F n = Fin m" "of_nat n / 2 \<le> m"
    using f_of_nat_ranges [OF assms(1,3,4)] by (auto simp: ranges_def)
  have half: "1 / 2 \<le> m" using m(2) assms(3) by (auto intro: order_trans [rotated])
  show ?thesis
  proof (cases a)
    case (Fin x)
    then have x: "1 / 2 ^ 32 \<le> x" using assms(2) by (simp add: solid_def)
    have "1 / 2 ^ 32 * (1 / 2) \<le> x * m" using x half by (intro mult_mono) simp_all
    then have b: "1 / 2 ^ 64 \<le> x * m" by simp
    moreover have "0 < x * m" using b by (auto intro: less_le_trans [rotated])
    ultimately show ?thesis using round_big [OF assms(1) b] by (auto simp: Fin m)
  qed (use assms(2) half m in \<open>auto simp: solid_def\<close>)
qed

text \<open>A library that does not round at all.\<close>

definition exact_lib :: f64_lib where
  "exact_lib = \<lparr>round64 = Fin, root64 = Fin, to_f32 = (\<lambda>_. 0)\<rparr>"

lemma exact_lib_ok: "round_ok exact_lib"
proof -
  have "x / 2 \<le> x \<and> x \<le> 2 * x" if "1 / 2 ^ 64 \<le> x" for x :: rat
    using that by (auto intro: order_trans [of 0 "1 / 2 ^ 64"])
  then show ?thesis by (simp add: round_ok_def exact_lib_def)
qed

end
