(* ===== verification/Ranking.thy ===== *)
theory Ranking
  imports Search Floats Read Content_Tag
begin

text \<open>
  The ranked half of \<open>src/src/search.rs\<close> over the decrypted documents, and the reciprocal-rank
  fusion of \<open>src/src/fusion.rs\<close>.  A literal is the exact value of the double it denotes.
\<close>

subsection \<open>Lexical search\<close>

record search_hit =
  sh_kind :: search_doc_kind
  sh_ref_id :: string
  sh_title :: string
  sh_snippet :: string
  sh_score :: f64

definition PREFIX_WEIGHT :: f64 where "PREFIX_WEIGHT = Fin (3 / 8)"
definition FUZZY_WEIGHT :: f64 where "FUZZY_WEIGHT = Fin (8106479329266893 / 2 ^ 54)"
definition TITLE_BOOST :: f64 where "TITLE_BOOST = Fin 2"
definition CONTENT_BOOST :: f64 where "CONTENT_BOOST = Fin 1"

definition token_category :: "text_lib \<Rightarrow> nat \<Rightarrow> bool" where
  "token_category U c \<longleftrightarrow> get_general_category U c \<in>
     {SpaceSeparator, LineSeparator, ParagraphSeparator, ConnectorPunctuation, DashPunctuation,
      ClosePunctuation, FinalPunctuation, InitialPunctuation, OtherPunctuation, OpenPunctuation}"

definition terms_of :: "text_lib \<Rightarrow> string \<Rightarrow> scalars list" where
  "terms_of U s = stem_all (to_lowercase U) (token_category U) (utf8_decode s)"

text \<open>\<open>str::starts_with\<close>.\<close>

definition starts_with_term :: "scalars \<Rightarrow> scalars \<Rightarrow> bool" where
  "starts_with_term it qt \<longleftrightarrow> take (length qt) it = qt"

definition term_weight :: "f64_lib \<Rightarrow> scalars \<Rightarrow> scalars \<Rightarrow> f64" where
  "term_weight F qt it =
     (if it = qt then Fin 1
      else if starts_with_term it qt
      then let it_len = f_of_nat F (length it); gap = f_of_nat F (length it - length qt)
           in fdiv F (fmul F PREFIX_WEIGHT it_len)
                (fadd F it_len (fmul F (Fin (5404319552844595 / 2 ^ 54)) gap))
      else let d = levenshtein qt it
           in if 0 < d \<and> d \<le> fuzzy_max_distance qt
              then let it_len = f_of_nat F (length it)
                   in fdiv F (fmul F FUZZY_WEIGHT it_len) (fadd F it_len (f_of_nat F d))
              else Fin 0)"

definition best_field_weight :: "f64_lib \<Rightarrow> scalars \<Rightarrow> scalars list \<Rightarrow> f64" where
  "best_field_weight F qt terms =
     fold (\<lambda>it best. let w = term_weight F qt it in if flt best w then w else best) terms (Fin 0)"

definition contribution :: "f64_lib \<Rightarrow> scalars list \<Rightarrow> scalars list \<Rightarrow> scalars \<Rightarrow> f64" where
  "contribution F title_terms content_terms qt =
     fmax (fmul F (best_field_weight F qt title_terms) TITLE_BOOST)
       (fmul F (best_field_weight F qt content_terms) CONTENT_BOOST)"

definition add_contribution :: "f64_lib \<Rightarrow> scalars list \<Rightarrow> scalars list \<Rightarrow> scalars \<Rightarrow> f64 \<times> nat \<Rightarrow> f64 \<times> nat" where
  "add_contribution F title_terms content_terms qt x =
     (case x of (score, matched) \<Rightarrow>
        let c = contribution F title_terms content_terms qt
        in if flt (Fin 0) c then (fadd F score c, matched + 1) else (score, matched))"

definition score_doc :: "f64_lib \<Rightarrow> text_lib \<Rightarrow> scalars list \<Rightarrow> search_doc \<Rightarrow> (f64 \<times> search_doc) option" where
  "score_doc F U query_terms d =
     (case fold (add_contribution F (terms_of U (sd_title d)) (terms_of U (sd_content d))) query_terms (Fin 0, 0) of
        (score, matched) \<Rightarrow> if 0 < matched then Some (fmul F score (f_of_nat F matched), d) else None)"

definition snippet_of :: "search_doc \<Rightarrow> string" where
  "snippet_of d = (if sd_content d = [] then sd_title d else sd_content d)"

definition hit_of :: "f64 \<times> search_doc \<Rightarrow> search_hit" where
  "hit_of x = (case x of (score, d) \<Rightarrow>
     \<lparr>sh_kind = sd_kind d, sh_ref_id = sd_ref_id d, sh_title = sd_title d, sh_snippet = snippet_of d,
      sh_score = score\<rparr>)"

definition search :: "f64_lib \<Rightarrow> text_lib \<Rightarrow> search_doc list \<Rightarrow> string \<Rightarrow> nat \<Rightarrow> search_hit list" where
  "search F U docs query limit =
     (let query_terms = distinct_terms (terms_of U query)
      in if query_terms = [] then []
         else map hit_of (take limit (sort_by (\<lambda>a b. \<not> flt (fst a) (fst b))
                (List.map_filter (score_doc F U query_terms) docs))))"

subsection \<open>Rank fusion\<close>

record semantic_hit =
  sm_note_id :: string
  sm_score :: f64

record fused =
  fu_kind :: search_doc_kind
  fu_ref_id :: string
  fu_score :: f64
  fu_matched_lexical :: bool
  fu_matched_semantic :: bool

definition RRF_K :: f64 where "RRF_K = Fin 60"
definition SEMANTIC_FLOOR :: f64 where "SEMANTIC_FLOOR = Fin (3152519739159347 / 2 ^ 53)"

definition above_floor :: "semantic_hit list \<Rightarrow> semantic_hit list" where
  "above_floor hits = filter (\<lambda>h. fle SEMANTIC_FLOOR (sm_score h)) hits"

definition rrf :: "f64_lib \<Rightarrow> nat \<Rightarrow> f64" where
  "rrf F rank0 = fdiv F (Fin 1) (fadd F RRF_K (f_of_nat F (rank0 + 1)))"

definition blank :: "search_doc_kind \<times> string \<Rightarrow> fused" where
  "blank key = \<lparr>fu_kind = fst key, fu_ref_id = snd key, fu_score = Fin 0, fu_matched_lexical = False,
     fu_matched_semantic = False\<rparr>"

definition fused_key :: "fused \<Rightarrow> search_doc_kind \<times> string" where
  "fused_key e = (fu_kind e, fu_ref_id e)"

text \<open>\<open>entry(key).or_insert_with(blank)\<close> and the update of the entry; the map is the list of its
  values in the order of insertion.\<close>

fun update_entry ::
  "search_doc_kind \<times> string \<Rightarrow> (fused \<Rightarrow> fused) \<Rightarrow> fused list \<Rightarrow> fused list" where
  "update_entry key f [] = [f (blank key)]"
| "update_entry key f (e # es) = (if fused_key e = key then f e # es else e # update_entry key f es)"

definition add_lexical :: "f64_lib \<Rightarrow> nat \<times> search_hit \<Rightarrow> fused list \<Rightarrow> fused list" where
  "add_lexical F x es = (case x of (rank0, h) \<Rightarrow>
     update_entry (sh_kind h, sh_ref_id h)
       (\<lambda>e. e\<lparr>fu_score := fadd F (fu_score e) (rrf F rank0), fu_matched_lexical := True\<rparr>) es)"

definition add_semantic :: "f64_lib \<Rightarrow> nat \<times> semantic_hit \<Rightarrow> fused list \<Rightarrow> fused list" where
  "add_semantic F x es = (case x of (rank0, h) \<Rightarrow>
     update_entry (NoteDoc, sm_note_id h)
       (\<lambda>e. e\<lparr>fu_score := fadd F (fu_score e) (rrf F rank0), fu_matched_semantic := True\<rparr>) es)"

definition kind_order :: "search_doc_kind \<Rightarrow> nat" where
  "kind_order k = (case k of NoteDoc \<Rightarrow> 0 | IdeaDoc \<Rightarrow> 1)"

text \<open>Score descending (a NaN ties with everything), then the reference, then the kind.\<close>

definition fused_le :: "fused \<Rightarrow> fused \<Rightarrow> bool" where
  "fused_le a b \<longleftrightarrow>
     (if flt (fu_score b) (fu_score a) then True
      else if flt (fu_score a) (fu_score b) then False
      else if fu_ref_id a \<noteq> fu_ref_id b then fu_ref_id a \<le> fu_ref_id b
      else kind_order (fu_kind a) \<le> kind_order (fu_kind b))"

definition fuse_entries :: "f64_lib \<Rightarrow> search_hit list \<Rightarrow> semantic_hit list \<Rightarrow> fused list" where
  "fuse_entries F lexical semantic =
     fold (add_semantic F) (List.enumerate 0 semantic) (fold (add_lexical F) (List.enumerate 0 lexical) [])"

definition fuse :: "f64_lib \<Rightarrow> search_hit list \<Rightarrow> semantic_hit list \<Rightarrow> fused list" where
  "fuse F lexical semantic = sort_by fused_le (fuse_entries F lexical semantic)"

subsection \<open>Sorting by an order of the elements at hand\<close>

lemma sorted_insort_by_on:
  assumes "\<forall>a \<in> A. \<forall>b \<in> A. le a b \<or> le b a" "\<forall>a \<in> A. \<forall>b \<in> A. \<forall>c \<in> A. le a b \<longrightarrow> le b c \<longrightarrow> le a c"
    and "set ys \<subseteq> A" "x \<in> A" "sorted_wrt le ys"
  shows "sorted_wrt le (insort_by le x ys)"
  using assms(3,5)
proof (induction ys)
  case (Cons y ys)
  show ?case
  proof (cases "le x y")
    case True
    have "le x z" if "z \<in> set ys" for z
      using True that Cons.prems assms(2,4) by (metis insert_iff list.simps(15) sorted_wrt.simps(2) subset_iff)
    with True Cons.prems(2) show ?thesis by simp
  next
    case False
    then have "le y x" using Cons.prems(1) assms(1,4) by auto
    moreover have "set (insort_by le x ys) = insert x (set ys)" by (simp flip: set_mset_mset)
    ultimately show ?thesis using Cons False by auto
  qed
qed simp

lemma sorted_sort_by_on:
  assumes "\<forall>a \<in> A. \<forall>b \<in> A. le a b \<or> le b a" "\<forall>a \<in> A. \<forall>b \<in> A. \<forall>c \<in> A. le a b \<longrightarrow> le b c \<longrightarrow> le a c"
    and "set xs \<subseteq> A"
  shows "sorted_wrt le (sort_by le xs)"
  using assms(3)
proof (induction xs)
  case (Cons x xs)
  then have "sorted_wrt le (insort_by le x (sort_by le xs))"
    by (intro sorted_insort_by_on [OF assms(1,2)]) auto
  then show ?case by (simp add: sort_by_def)
qed (simp add: sort_by_def)

lemma sorted_unique:
  assumes "sorted_wrt le xs" "sorted_wrt le ys" "mset xs = mset ys"
    and "\<forall>a \<in> set xs. \<forall>b \<in> set xs. le a b \<longrightarrow> le b a \<longrightarrow> a = b"
  shows "xs = ys"
  using assms
proof (induction xs arbitrary: ys)
  case (Cons x xs)
  obtain y ys' where ys: "ys = y # ys'" using Cons.prems(3) by (cases ys) auto
  have sets: "insert x (set xs) = insert y (set ys')" using mset_eq_setD [OF Cons.prems(3)] by (simp add: ys)
  have "x = y"
  proof (rule ccontr)
    assume ne: "x \<noteq> y"
    then have "y \<in> set xs" "x \<in> set ys'" using sets by auto
    then show False using Cons.prems(1,2,4) ne by (auto simp: ys)
  qed
  moreover from this have "xs = ys'" using Cons by (intro Cons.IH) (auto simp: ys)
  ultimately show ?case by (simp add: ys)
qed simp

subsection \<open>The entries of a fusion\<close>

text \<open>The reference: where a document stands in a ranking, and the sum its ranks contribute.\<close>

definition positions :: "'a \<Rightarrow> 'a list \<Rightarrow> nat list" where
  "positions k ks = map fst (filter (\<lambda>x. snd x = k) (List.enumerate 0 ks))"

definition rrf_score :: "f64_lib \<Rightarrow> 'a list \<Rightarrow> 'a list \<Rightarrow> 'a \<Rightarrow> f64" where
  "rrf_score F lexical semantic k =
     foldl (fadd F) (Fin 0) (map (rrf F) (positions k lexical @ positions k semantic))"

lemma positions_snoc: "positions k (ks @ [x]) = positions k ks @ (if x = k then [length ks] else [])"
  by (simp add: positions_def enumerate_append_eq)

lemma positions_Nil [simp]: "positions k [] = []" "k \<notin> set ks \<Longrightarrow> positions k ks = []"
  by (auto simp: positions_def filter_empty_conv in_set_enumerate_eq)

lemma positions_less: "i \<in> set (positions k ks) \<Longrightarrow> i < length ks"
  by (auto simp: positions_def in_set_enumerate_eq)

lemma fused_key_blank [simp]: "fused_key (blank k) = k"
  by (simp add: fused_key_def blank_def)

lemma fused_key_update [simp]:
  "fused_key (fu_score_update g e) = fused_key e" "fused_key (fu_matched_lexical_update m e) = fused_key e"
  "fused_key (fu_matched_semantic_update m e) = fused_key e"
  by (simp_all add: fused_key_def)

lemma update_entry_keys:
  "(\<And>e. fused_key (f e) = fused_key e) \<Longrightarrow>
   map fused_key (update_entry k f es) =
     (if k \<in> fused_key ` set es then map fused_key es else map fused_key es @ [k])"
  by (induction k f es rule: update_entry.induct) auto

lemma update_entry_set:
  assumes "distinct (map fused_key es)" "e \<in> set (update_entry k f es)"
  shows "(\<exists>e0. e = f e0 \<and> fused_key e0 = k \<and> (e0 \<in> set es \<or> e0 = blank k \<and> k \<notin> fused_key ` set es)) \<or>
    (e \<in> set es \<and> fused_key e \<noteq> k)"
  using assms
proof (induction es)
  case (Cons a es)
  show ?case
  proof (cases "fused_key a = k")
    case True
    then have "e = f a \<or> e \<in> set es" using Cons.prems(2) by auto
    with True Cons.prems(1) show ?thesis by (auto simp: image_iff)
  next
    case False
    then have "e = a \<or> e \<in> set (update_entry k f es)" using Cons.prems(2) by auto
    with False Cons show ?thesis by auto
  qed
qed simp

definition fused_ok ::
  "f64_lib \<Rightarrow> (search_doc_kind \<times> string) list \<Rightarrow> (search_doc_kind \<times> string) list \<Rightarrow> fused list \<Rightarrow> bool" where
  "fused_ok F A B es \<longleftrightarrow> distinct (map fused_key es) \<and> fused_key ` set es = set A \<union> set B \<and>
     (\<forall>e \<in> set es. fu_score e = rrf_score F A B (fused_key e) \<and>
        (fu_matched_lexical e \<longleftrightarrow> fused_key e \<in> set A) \<and> (fu_matched_semantic e \<longleftrightarrow> fused_key e \<in> set B))"

lemma fused_ok_lexical:
  assumes ok: "fused_ok F A [] es" and k: "k = (sh_kind h, sh_ref_id h)"
  shows "fused_ok F (A @ [k]) [] (add_lexical F (length A, h) es)"
proof -
  let ?f = "\<lambda>e. e\<lparr>fu_score := fadd F (fu_score e) (rrf F (length A)), fu_matched_lexical := True\<rparr>"
  have key: "fused_key (?f e) = fused_key e" for e by simp
  have es: "add_lexical F (length A, h) es = update_entry k ?f es" by (simp add: add_lexical_def k)
  have d: "distinct (map fused_key es)" using ok by (simp add: fused_ok_def)
  have keys: "fused_key ` set es = set A" using ok by (simp add: fused_ok_def)
  have "fu_score e = rrf_score F (A @ [k]) [] (fused_key e) \<and> fu_matched_lexical e = (fused_key e \<in> set (A @ [k])) \<and>
      \<not> fu_matched_semantic e" if "e \<in> set (update_entry k ?f es)" for e
    using update_entry_set [OF d that]
  proof (elim disjE exE conjE)
    fix e0 assume e0: "e = ?f e0" "fused_key e0 = k" and "e0 \<in> set es"
    with ok show ?thesis by (simp add: fused_ok_def rrf_score_def positions_snoc key)
  next
    fix e0 assume e0: "e = ?f e0" "fused_key e0 = k" and "e0 = blank k" "k \<notin> fused_key ` set es"
    with keys show ?thesis by (simp add: rrf_score_def positions_snoc key) (simp add: blank_def)
  next
    assume "e \<in> set es" "fused_key e \<noteq> k"
    with ok show ?thesis by (simp add: fused_ok_def rrf_score_def positions_snoc)
  qed
  moreover have "fused_key ` set (update_entry k ?f es) = insert k (fused_key ` set es)"
    using arg_cong [OF update_entry_keys [OF key, of k es], of set] by auto
  moreover have "distinct (map fused_key (update_entry k ?f es))"
    unfolding update_entry_keys [OF key] using d by simp
  ultimately show ?thesis using keys by (simp add: fused_ok_def es)
qed

lemma fused_ok_semantic:
  assumes ok: "fused_ok F A B es" and k: "k = (NoteDoc, sm_note_id h)"
  shows "fused_ok F A (B @ [k]) (add_semantic F (length B, h) es)"
proof -
  let ?f = "\<lambda>e. e\<lparr>fu_score := fadd F (fu_score e) (rrf F (length B)), fu_matched_semantic := True\<rparr>"
  have key: "fused_key (?f e) = fused_key e" for e by simp
  have es: "add_semantic F (length B, h) es = update_entry k ?f es" by (simp add: add_semantic_def k)
  have d: "distinct (map fused_key es)" using ok by (simp add: fused_ok_def)
  have keys: "fused_key ` set es = set A \<union> set B" using ok by (simp add: fused_ok_def)
  have "fu_score e = rrf_score F A (B @ [k]) (fused_key e) \<and> fu_matched_lexical e = (fused_key e \<in> set A) \<and>
      fu_matched_semantic e = (fused_key e \<in> set (B @ [k]))" if "e \<in> set (update_entry k ?f es)" for e
    using update_entry_set [OF d that]
  proof (elim disjE exE conjE)
    fix e0 assume e0: "e = ?f e0" "fused_key e0 = k" and "e0 \<in> set es"
    with ok show ?thesis by (simp add: fused_ok_def rrf_score_def positions_snoc key)
  next
    fix e0 assume e0: "e = ?f e0" "fused_key e0 = k" and "e0 = blank k" "k \<notin> fused_key ` set es"
    with keys show ?thesis by (simp add: rrf_score_def positions_snoc key) (simp add: blank_def)
  next
    assume "e \<in> set es" "fused_key e \<noteq> k"
    with ok show ?thesis by (simp add: fused_ok_def rrf_score_def positions_snoc)
  qed
  moreover have "fused_key ` set (update_entry k ?f es) = insert k (fused_key ` set es)"
    using arg_cong [OF update_entry_keys [OF key, of k es], of set] by auto
  moreover have "distinct (map fused_key (update_entry k ?f es))"
    unfolding update_entry_keys [OF key] using d by simp
  ultimately show ?thesis using keys by (simp add: fused_ok_def es)
qed

abbreviation lex_key :: "search_hit \<Rightarrow> search_doc_kind \<times> string" where
  "lex_key h \<equiv> (sh_kind h, sh_ref_id h)"

abbreviation sem_key :: "semantic_hit \<Rightarrow> search_doc_kind \<times> string" where
  "sem_key h \<equiv> (NoteDoc, sm_note_id h)"

lemma enumerate_snoc: "List.enumerate 0 (xs @ [x]) = List.enumerate 0 xs @ [(length xs, x)]"
  by (simp add: enumerate_append_eq)

lemma fold_lexical_ok: "fused_ok F (map lex_key xs) [] (fold (add_lexical F) (List.enumerate 0 xs) [])"
proof (induction xs rule: rev_induct)
  case (snoc x xs)
  from fused_ok_lexical [OF this refl, of x] show ?case by (simp add: enumerate_snoc)
qed (simp add: fused_ok_def)

lemma fuse_entries_ok: "fused_ok F (map lex_key xs) (map sem_key ys) (fuse_entries F xs ys)"
  unfolding fuse_entries_def
proof (induction ys rule: rev_induct)
  case (snoc y ys)
  from fused_ok_semantic [OF this refl, of y] show ?case by (simp add: enumerate_snoc)
qed (simp add: fold_lexical_ok)

subsection \<open>The order of a fusion\<close>

lemma rrf_ranges:
  assumes F: "round_ok F" and n: "n < 2 ^ 24"
  shows "ranges (1 / 2 ^ 31) 1 (rrf F n)"
proof -
  have "n + 1 \<le> 2 ^ 24" using n by simp
  then have m: "(of_nat (n + 1) :: rat) \<le> 2 ^ 24" by (metis of_nat_le_iff of_nat_numeral of_nat_power)
  have r: "ranges (1 / 2) (2 ^ 25) (f_of_nat F (n + 1))"
    by (rule ranges_mono [OF f_of_nat_ranges [OF F]]) (use n m in simp_all)
  have s: "ranges (121 / 4) (2 * (60 + 2 ^ 25)) (fadd F RRF_K (f_of_nat F (n + 1)))"
    unfolding RRF_K_def by (rule ranges_mono [OF fadd_ranges [OF F ranges_Fin [of 60 60 60] r]]) simp_all
  show ?thesis
    unfolding rrf_def by (rule ranges_mono [OF fdiv_ranges [OF F ranges_Fin [of 1 1 1] s]]) simp_all
qed

lemma ranges_solid: "ranges a b d \<Longrightarrow> 1 / 2 ^ 32 \<le> a \<Longrightarrow> solid d"
  by (auto simp: ranges_def solid_def)

lemma foldl_solid:
  "round_ok F \<Longrightarrow> solid a \<Longrightarrow> list_all solid ds \<Longrightarrow> solid (foldl (fadd F) a ds)"
  by (induction ds arbitrary: a) (auto intro: fadd_solid)

lemma rrf_score_number:
  assumes F: "round_ok F" and "length A < 2 ^ 24" "length B < 2 ^ 24"
  shows "rrf_score F A B k \<noteq> NaN"
proof -
  let ?ps = "positions k A @ positions k B"
  have small: "n < 2 ^ 24" if "n \<in> set ?ps" for n
    using that positions_less [of n k A] positions_less [of n k B] assms(2,3) by auto
  show ?thesis
  proof (cases ?ps)
    case (Cons n ns)
    have "solid (rrf F m)" if "m \<in> set ns" for m
      by (rule ranges_solid [OF rrf_ranges [OF F small]]) (use that Cons in simp_all)
    then have "list_all solid (map (rrf F) ns)" by (simp add: list_all_iff)
    moreover have "solid (fadd F (Fin 0) (rrf F n))"
      using fadd_zero_solid [OF F rrf_ranges [OF F small [of n]]] by (simp add: Cons)
    ultimately have "solid (rrf_score F A B k)" using foldl_solid [OF F] by (simp add: rrf_score_def Cons)
    then show ?thesis by simp
  qed (simp add: rrf_score_def)
qed

lemma fused_le_total:
  "fu_score a \<noteq> NaN \<Longrightarrow> fu_score b \<noteq> NaN \<Longrightarrow> fused_le a b \<or> fused_le b a"
  by (auto simp: fused_le_def dest: flt_asym)

lemma fused_le_antisym: "fu_score a \<noteq> NaN \<Longrightarrow> fu_score b \<noteq> NaN \<Longrightarrow> fused_le a b \<Longrightarrow> fused_le b a \<Longrightarrow> fused_key a = fused_key b"
  by (cases "fu_kind a"; cases "fu_kind b")
     (auto simp: fused_le_def fused_key_def kind_order_def dest: flt_asym split: if_splits)

lemma fused_le_trans:
  assumes "fu_score a \<noteq> NaN" "fu_score b \<noteq> NaN" "fu_score c \<noteq> NaN" "fused_le a b" "fused_le b c"
  shows "fused_le a c"
proof (cases "fu_score a = fu_score b \<and> fu_score b = fu_score c")
  case True
  then show ?thesis using assms(4,5) by (auto simp: fused_le_def split: if_splits)
next
  case False
  then have "flt (fu_score c) (fu_score a)"
    using assms flt_cases [of "fu_score a" "fu_score b"] flt_cases [of "fu_score b" "fu_score c"]
    by (auto simp: fused_le_def dest: flt_asym flt_trans split: if_splits)
  then show ?thesis by (simp add: fused_le_def)
qed

text \<open>
  Property C18.  The fusion of two rankings is their reciprocal-rank fusion: every document of
  either ranking appears once and nothing else does; its flags say which rankings it is in; its
  score is the rounded sum of the contributions of its ranks; and the result is sorted best first in
  an order that leaves no ties, so it does not depend on the order in which the hash map gives its
  values.
\<close>

theorem fuse_is_rrf:
  assumes "round_ok F" "length lexical < 2 ^ 24" "length semantic < 2 ^ 24"
  shows "distinct (map fused_key (fuse F lexical semantic)) \<and>
    fused_key ` set (fuse F lexical semantic) =
      {(sh_kind h, sh_ref_id h) |h. h \<in> set lexical} \<union> {(NoteDoc, sm_note_id h) |h. h \<in> set semantic} \<and>
    (\<forall>e \<in> set (fuse F lexical semantic).
       fu_score e = rrf_score F (map lex_key lexical) (map sem_key semantic) (fused_key e) \<and>
       (fu_matched_lexical e \<longleftrightarrow> fused_key e \<in> lex_key ` set lexical) \<and>
       (fu_matched_semantic e \<longleftrightarrow> fused_key e \<in> sem_key ` set semantic)) \<and>
    sorted_wrt fused_le (fuse F lexical semantic) \<and>
    (\<forall>es. mset es = mset (fuse_entries F lexical semantic) \<longrightarrow> sort_by fused_le es = fuse F lexical semantic)"
proof -
  let ?es = "fuse_entries F lexical semantic"
  note ok = fuse_entries_ok [of F lexical semantic, unfolded fused_ok_def]
  have num: "fu_score e \<noteq> NaN" if "e \<in> set ?es" for e
    using ok that rrf_score_number [OF assms(1), of "map lex_key lexical" "map sem_key semantic"] assms(2,3) by simp
  have tot: "\<forall>a \<in> set ?es. \<forall>b \<in> set ?es. fused_le a b \<or> fused_le b a" using num fused_le_total by blast
  have trans: "\<forall>a \<in> set ?es. \<forall>b \<in> set ?es. \<forall>c \<in> set ?es. fused_le a b \<longrightarrow> fused_le b c \<longrightarrow> fused_le a c"
    using num fused_le_trans by blast
  have d: "distinct (map fused_key ?es)" using ok by blast
  have anti: "\<forall>a \<in> set ?es. \<forall>b \<in> set ?es. fused_le a b \<longrightarrow> fused_le b a \<longrightarrow> a = b"
    using num fused_le_antisym d by (metis distinct_map inj_onD)
  have srt: "sorted_wrt fused_le (sort_by fused_le es)" if "set es = set ?es" for es
    using sorted_sort_by_on [OF tot trans] that by simp
  have perm: "sort_by fused_le es = sort_by fused_le ?es" if "mset es = mset ?es" for es
    using mset_eq_setD [OF that] that anti by (intro sorted_unique [of fused_le] srt) simp_all
  have dist: "distinct (map fused_key (sort_by fused_le ?es))"
    using d by (metis mset_eq_imp_distinct_iff mset_map mset_sort_by)
  have keys: "fused_key ` set ?es = {(sh_kind h, sh_ref_id h) |h. h \<in> set lexical} \<union> {(NoteDoc, sm_note_id h) |h. h \<in> set semantic}"
    using ok by auto
  have entries: "\<forall>e \<in> set ?es. fu_score e = rrf_score F (map lex_key lexical) (map sem_key semantic) (fused_key e) \<and>
      (fu_matched_lexical e \<longleftrightarrow> fused_key e \<in> lex_key ` set lexical) \<and>
      (fu_matched_semantic e \<longleftrightarrow> fused_key e \<in> sem_key ` set semantic)"
    using ok [THEN conjunct2, THEN conjunct2] by (simp only: set_map)
  show ?thesis
    unfolding fuse_def set_sort_by
  proof (intro conjI)
    show "\<forall>es. mset es = mset ?es \<longrightarrow> sort_by fused_le es = sort_by fused_le ?es" using perm by blast
  qed (rule dist keys entries srt [OF refl])+
qed

theorem fuse_is_rrf_witness:
  "map fused_key (fuse exact_lib [\<lparr>sh_kind = IdeaDoc, sh_ref_id = ''i'', sh_title = [], sh_snippet = [], sh_score = Fin 1\<rparr>,
      \<lparr>sh_kind = NoteDoc, sh_ref_id = ''n'', sh_title = [], sh_snippet = [], sh_score = Fin 1\<rparr>]
      [\<lparr>sm_note_id = ''n'', sm_score = Fin 1\<rparr>]) = [(NoteDoc, ''n''), (IdeaDoc, ''i'')]"
proof -
  let ?l = "[\<lparr>sh_kind = IdeaDoc, sh_ref_id = ''i'', sh_title = [], sh_snippet = [], sh_score = Fin 1\<rparr>,
      \<lparr>sh_kind = NoteDoc, sh_ref_id = ''n'', sh_title = [], sh_snippet = [], sh_score = Fin 1\<rparr>]"
    and ?s = "[\<lparr>sm_note_id = ''n'', sm_score = Fin 1\<rparr>]"
  have "distinct (map fused_key (fuse exact_lib ?l ?s))" using fuse_is_rrf [OF exact_lib_ok, of ?l ?s] by simp
  then show ?thesis by (simp add: fuse_def fuse_entries_def add_lexical_def add_semantic_def rrf_def RRF_K_def f_of_nat_def
    exact_lib_def blank_def fused_key_def sort_by_def fused_le_def)
qed

subsection \<open>The verdicts of the lexical search\<close>

definition term_matches :: "scalars \<Rightarrow> scalars \<Rightarrow> bool" where
  "term_matches qt it \<longleftrightarrow> it = qt \<or> starts_with_term it qt \<or> levenshtein qt it \<le> fuzzy_max_distance qt"

lemma levenshtein_zero: "levenshtein a b = 0 \<longleftrightarrow> a = b"
  unfolding levenshtein_eq using edit_dist_zero [of "length a" a "length b" b] by auto

lemma prefix_weight_ranges:
  assumes F: "round_ok F" and n: "1 \<le> n" "n \<le> 2 ^ 32" and g: "1 \<le> g" "g \<le> n"
  shows "ranges (1 / 2 ^ 10) 16 (fdiv F (fmul F PREFIX_WEIGHT (f_of_nat F n))
     (fadd F (f_of_nat F n) (fmul F (Fin (5404319552844595 / 2 ^ 54)) (f_of_nat F g))))"
proof -
  define q where "q = (of_nat n :: rat)"
  have q: "1 \<le> q" "q \<le> 2 ^ 32" using n unfolding q_def by (simp, metis of_nat_le_iff of_nat_numeral of_nat_power)
  have gq: "1 \<le> (of_nat g :: rat)" "(of_nat g :: rat) \<le> q" using g by (simp_all add: q_def)
  have l: "ranges (q / 2) (2 * q) (f_of_nat F n)" unfolding q_def using f_of_nat_ranges [OF F n(1)] n(2) by simp
  have gr: "ranges (1 / 2) (2 * q) (f_of_nat F g)"
    by (rule ranges_mono [OF f_of_nat_ranges [OF F g(1)]]) (use n g gq in simp_all)
  have p: "ranges (3 / 32 * q) (3 / 2 * q) (fmul F PREFIX_WEIGHT (f_of_nat F n))"
    unfolding PREFIX_WEIGHT_def
    by (rule ranges_mono [OF fmul_ranges [OF F ranges_Fin [of "3 / 8" "3 / 8" "3 / 8"] l]]) (use q in simp_all)
  have c: "ranges (1 / 16) (5 / 4 * q) (fmul F (Fin (5404319552844595 / 2 ^ 54)) (f_of_nat F g))"
    by (rule ranges_mono [OF fmul_ranges [OF F ranges_Fin [of "1 / 4" _ "5 / 16"] gr]]) (use q in simp_all)
  have s: "ranges (q / 4) (13 / 2 * q) (fadd F (f_of_nat F n) (fmul F (Fin (5404319552844595 / 2 ^ 54)) (f_of_nat F g)))"
    by (rule ranges_mono [OF fadd_ranges [OF F l c]]) (use q in simp_all)
  show ?thesis
    by (rule ranges_mono [OF fdiv_ranges [OF F p s]]) (use q in \<open>simp_all add: field_simps\<close>)
qed

lemma fuzzy_weight_ranges:
  assumes F: "round_ok F" and n: "1 \<le> n" "n \<le> 2 ^ 32" and d: "1 \<le> d" "d \<le> 6"
  shows "ranges (1 / 2 ^ 10) 16 (fdiv F (fmul F FUZZY_WEIGHT (f_of_nat F n)) (fadd F (f_of_nat F n) (f_of_nat F d)))"
proof -
  define q where "q = (of_nat n :: rat)"
  have q: "1 \<le> q" "q \<le> 2 ^ 32" using n unfolding q_def by (simp, metis of_nat_le_iff of_nat_numeral of_nat_power)
  have dq: "1 \<le> (of_nat d :: rat)" "(of_nat d :: rat) \<le> 6" using d by simp_all
  have l: "ranges (q / 2) (2 * q) (f_of_nat F n)" unfolding q_def using f_of_nat_ranges [OF F n(1)] n(2) by simp
  have dr: "ranges (1 / 2) (12 * q) (f_of_nat F d)"
    by (rule ranges_mono [OF f_of_nat_ranges [OF F d(1)]]) (use d dq q in simp_all)
  have p: "ranges (q / 10) (2 * q) (fmul F FUZZY_WEIGHT (f_of_nat F n))"
    unfolding FUZZY_WEIGHT_def
    by (rule ranges_mono [OF fmul_ranges [OF F ranges_Fin [of "2 / 5" _ "1 / 2"] l]]) (use q in simp_all)
  have s: "ranges (q / 4) (28 * q) (fadd F (f_of_nat F n) (f_of_nat F d))"
    by (rule ranges_mono [OF fadd_ranges [OF F l dr]]) (use q in simp_all)
  show ?thesis
    by (rule ranges_mono [OF fdiv_ranges [OF F p s]]) (use q in \<open>simp_all add: field_simps\<close>)
qed

abbreviation short_term :: "scalars \<Rightarrow> bool" where
  "short_term t \<equiv> t \<noteq> [] \<and> length t \<le> 2 ^ 32"

lemma term_weight_matches:
  assumes F: "round_ok F" and "short_term qt" "short_term it"
  shows "if term_matches qt it then ranges (1 / 2 ^ 10) 16 (term_weight F qt it) else term_weight F qt it = Fin 0"
proof -
  consider (same) "it = qt" | (pre) "it \<noteq> qt" "starts_with_term it qt"
    | (other) "it \<noteq> qt" "\<not> starts_with_term it qt" by blast
  then show ?thesis
  proof cases
    case same
    then show ?thesis by (simp add: term_weight_def term_matches_def ranges_def)
  next
    case pre
    then have "take (length qt) it = qt" by (simp add: starts_with_term_def)
    then have "length qt \<le> length it" by (metis length_take min.absorb_iff2 min.commute)
    moreover from this have "length qt \<noteq> length it" using \<open>take (length qt) it = qt\<close> pre(1) by (metis take_all order_refl)
    ultimately have g: "1 \<le> length it - length qt" "length it - length qt \<le> length it" by simp_all
    have n: "1 \<le> length it" "length it \<le> 2 ^ 32" using assms(3) by (cases it; simp)+
    show ?thesis using prefix_weight_ranges [OF F n g] pre by (simp add: term_weight_def term_matches_def Let_def)
  next
    case other
    have pos: "1 \<le> levenshtein qt it" using other(1) levenshtein_zero [of qt it] by (cases "levenshtein qt it") auto
    have n: "1 \<le> length it" "length it \<le> 2 ^ 32" using assms(3) by (cases it; simp)+
    show ?thesis
    proof (cases "levenshtein qt it \<le> fuzzy_max_distance qt")
      case True
      then have "levenshtein qt it \<le> 6" by (simp add: fuzzy_max_distance_def MAX_FUZZY_def)
      from fuzzy_weight_ranges [OF F n pos this] True pos other show ?thesis
        by (simp add: term_weight_def term_matches_def Let_def)
    qed (use other in \<open>simp add: term_weight_def term_matches_def Let_def\<close>)
  qed
qed

definition weight_ok :: "bool \<Rightarrow> f64 \<Rightarrow> bool" where
  "weight_ok m d \<longleftrightarrow> (if m then ranges (1 / 2 ^ 10) 16 d else d = Fin 0)"

lemma best_field_weight_ok:
  assumes F: "round_ok F" and "short_term qt" "\<forall>it \<in> set terms. short_term it"
  shows "weight_ok (\<exists>it \<in> set terms. term_matches qt it) (best_field_weight F qt terms)"
proof -
  let ?step = "\<lambda>it best. let w = term_weight F qt it in if flt best w then w else best"
  have step: "weight_ok (m \<or> term_matches qt it) (?step it b)" if "weight_ok m b" "short_term it" for m it b
    using that(1) term_weight_matches [OF F assms(2) that(2)]
    by (auto simp: weight_ok_def Let_def ranges_def split: if_splits)
  have "weight_ok (m \<or> (\<exists>it \<in> set terms. term_matches qt it)) (fold ?step terms b)" if "weight_ok m b" for m b
    using assms(3) that
  proof (induction terms arbitrary: m b)
    case (Cons it terms)
    from Cons.IH [OF _ step [OF Cons.prems(2)], of it] Cons.prems(1) show ?case by (simp add: disj_assoc)
  qed simp
  from this [of False "Fin 0"] show ?thesis by (simp add: best_field_weight_def weight_ok_def)
qed

lemma fmul_weight:
  assumes F: "round_ok F" and "weight_ok m d" "1 \<le> c" "c \<le> 2"
  shows "if m then ranges (1 / 2 ^ 11) 64 (fmul F d (Fin c)) else fmul F d (Fin c) = Fin 0"
proof (cases m)
  case True
  then have "ranges (1 / 2 ^ 10) 16 d" using assms(2) by (simp add: weight_ok_def)
  from ranges_mono [OF fmul_ranges [OF F this ranges_Fin [of c c c]], of "1 / 2 ^ 11" 64] True assms(3,4)
  show ?thesis by simp
qed (use assms in \<open>simp add: weight_ok_def round_ok_def\<close>)

lemma contribution_ok:
  assumes F: "round_ok F" and "short_term qt" "\<forall>it \<in> set ts. short_term it" "\<forall>it \<in> set cs. short_term it"
  shows "if \<exists>it \<in> set ts \<union> set cs. term_matches qt it then ranges (1 / 2 ^ 11) 64 (contribution F ts cs qt)
    else contribution F ts cs qt = Fin 0"
  using fmul_weight [OF F best_field_weight_ok [OF F assms(2,3)], of 2]
    fmul_weight [OF F best_field_weight_ok [OF F assms(2,4)], of 1]
  by (auto simp: contribution_def TITLE_BOOST_def CONTENT_BOOST_def fmax_def ranges_def split: if_splits)

lemma score_fold_ok:
  assumes F: "round_ok F" and "\<forall>qt \<in> set qts. short_term qt" "\<forall>it \<in> set ts. short_term it" "\<forall>it \<in> set cs. short_term it"
  shows "\<exists>score matched. fold (add_contribution F ts cs) qts (Fin 0, 0) = (score, matched) \<and>
    matched = length (filter (\<lambda>qt. \<exists>it \<in> set ts \<union> set cs. term_matches qt it) qts) \<and> (0 < matched \<longrightarrow> solid score) \<and>
    (matched = 0 \<longrightarrow> score = Fin 0)"
  using assms(2)
proof (induction qts rule: rev_induct)
  case (snoc qt qts)
  then obtain score matched where IH: "fold (add_contribution F ts cs) qts (Fin 0, 0) = (score, matched)"
    "matched = length (filter (\<lambda>qt. \<exists>it \<in> set ts \<union> set cs. term_matches qt it) qts)" "0 < matched \<longrightarrow> solid score"
    "matched = 0 \<longrightarrow> score = Fin 0" by auto
  show ?case
  proof (cases "\<exists>it \<in> set ts \<union> set cs. term_matches qt it")
    case True
    then have r: "ranges (1 / 2 ^ 11) 64 (contribution F ts cs qt)"
      using contribution_ok [OF F _ assms(3,4), of qt] snoc.prems by simp
    then have s: "solid (contribution F ts cs qt)" by (rule ranges_solid) simp
    have "solid (fadd F score (contribution F ts cs qt))"
    proof (cases "matched = 0")
      case True
      then show ?thesis using IH(4) fadd_zero_solid [OF F ranges_mono [OF r, of "1 / 2 ^ 31" 64]] by simp
    qed (use IH(3) s fadd_solid [OF F] in simp)
    moreover have "fold (add_contribution F ts cs) (qts @ [qt]) (Fin 0, 0) =
        (fadd F score (contribution F ts cs qt), matched + 1)"
      using IH(1) solid_pos [OF s] by (simp add: add_contribution_def [of F ts cs qt] Let_def)
    ultimately show ?thesis using IH(2) True by simp
  next
    case False
    then have "contribution F ts cs qt = Fin 0" using contribution_ok [OF F _ assms(3,4), of qt] snoc.prems by (simp split: if_splits)
    then have "fold (add_contribution F ts cs) (qts @ [qt]) (Fin 0, 0) = (score, matched)"
      using IH(1) by (simp add: add_contribution_def [of F ts cs qt] Let_def)
    then show ?thesis using IH(2-4) False by simp
  qed
qed simp

definition doc_matches :: "text_lib \<Rightarrow> string \<Rightarrow> search_doc \<Rightarrow> bool" where
  "doc_matches U query d \<longleftrightarrow> (\<exists>qt \<in> set (terms_of U query).
     \<exists>it \<in> set (terms_of U (sd_title d)) \<union> set (terms_of U (sd_content d)). term_matches qt it)"

definition short_text :: "text_lib \<Rightarrow> string \<Rightarrow> bool" where
  "short_text U s \<longleftrightarrow> (\<forall>t \<in> set (terms_of U s). length t \<le> 2 ^ 32)"

lemma terms_nonempty: "t \<in> set (terms_of U s) \<Longrightarrow> t \<noteq> []"
  by (simp add: terms_of_def stem_all_def)

lemma set_distinct_terms [simp]: "set (distinct_terms ts) = set ts"
proof -
  have "set (fold (\<lambda>t out. if t \<in> set out then out else out @ [t]) ts out) = set out \<union> set ts" for out
    by (induction ts arbitrary: out) auto
  then show ?thesis by (simp add: distinct_terms_def)
qed

lemma score_doc_verdict:
  assumes F: "round_ok F" and "short_text U query" "length (distinct_terms (terms_of U query)) \<le> 2 ^ 64"
    and d: "short_text U (sd_title d)" "short_text U (sd_content d)"
  shows "if doc_matches U query d
    then \<exists>s. score_doc F U (distinct_terms (terms_of U query)) d = Some (s, d) \<and> flt (Fin 0) s
    else score_doc F U (distinct_terms (terms_of U query)) d = None"
proof -
  let ?q = "distinct_terms (terms_of U query)" and ?t = "terms_of U (sd_title d)" and ?c = "terms_of U (sd_content d)"
  have short: "\<forall>qt \<in> set ?q. short_term qt" "\<forall>it \<in> set ?t. short_term it" "\<forall>it \<in> set ?c. short_term it"
    using assms(2) d terms_nonempty by (simp_all add: short_text_def)
  obtain score matched where s: "fold (add_contribution F ?t ?c) ?q (Fin 0, 0) = (score, matched)"
    and m: "matched = length (filter (\<lambda>qt. \<exists>it \<in> set ?t \<union> set ?c. term_matches qt it) ?q)"
    and sol: "0 < matched \<longrightarrow> solid score"
    using score_fold_ok [OF F short] by blast
  have "matched \<le> length ?q" unfolding m by (rule length_filter_le)
  then have "matched \<le> 2 ^ 64" using assms(3) by simp
  moreover have "0 < matched \<longleftrightarrow> doc_matches U query d" by (auto simp: m doc_matches_def filter_empty_conv)
  moreover have "flt (Fin 0) (fmul F score (f_of_nat F matched))" if "0 < matched"
    by (rule fmul_count_pos [OF F]) (use that sol calculation(1) in auto)
  ultimately show ?thesis by (auto simp: score_doc_def s)
qed

abbreviation hit_face :: "search_hit \<Rightarrow> search_doc_kind \<times> string \<times> string \<times> string" where
  "hit_face h \<equiv> (sh_kind h, sh_ref_id h, sh_title h, sh_snippet h)"

abbreviation doc_face :: "search_doc \<Rightarrow> search_doc_kind \<times> string \<times> string \<times> string" where
  "doc_face d \<equiv> (sd_kind d, sd_ref_id d, sd_title d, snippet_of d)"


definition demo_docs :: "search_doc list" where
  "demo_docs = [\<lparr>sd_kind = NoteDoc, sd_ref_id = ''n'', sd_title = [], sd_content = ''cats''\<rparr>,
     \<lparr>sd_kind = IdeaDoc, sd_ref_id = ''i'', sd_title = ''dog'', sd_content = []\<rparr>]"

definition plain_text :: text_lib where
  "plain_text = blank_text\<lparr>to_lowercase := id\<rparr>"

lemmas plain_terms = terms_of_def stem_all_def utf8_decode.simps byte_def is_token_boundary_def token_category_def
  plain_text_def blank_text_def stem_def lit_def strip_plural_def strip_inflection_def ends_with_def Let_def


end
