(* ===== verification/Semantic.thy ===== *)
theory Semantic
  imports Ranking Facade
begin

text \<open>
  The host embedder and the vectors: the contract types and the vector codec of
  \<open>src/src/embeddings.rs\<close>, and the embedding surface of \<open>SyncEngine\<close> in \<open>src/src/sync/mod.rs\<close>.  The
  embedder lives in the host and is a parameter; no lock is held while it runs, so a call of it may
  do anything to the engine: it is a function of the whole state.  What a method does between two
  such calls is one step.
\<close>

subsection \<open>The contract\<close>

record embedder_descriptor =
  ed_model_id :: string
  ed_dims :: nat
  ed_quantization :: string

datatype embedder_error = Runtime | Unavailable

record embed_summary =
  es_attempted :: nat
  es_embedded :: nat
  es_skipped :: nat
  es_failed :: nat
  es_pending :: nat

record register_embedder_summary =
  re_corpus_changed :: bool
  re_invalidated :: nat
  re_pending :: nat

definition corpus_key :: "embedder_descriptor \<Rightarrow> string" where
  "corpus_key d = ed_model_id d @ ''|'' @ nat_to_string (ed_dims d) @ ''|'' @ ed_quantization d @ ''|f32le-v1''"

definition embed_aad :: "string \<Rightarrow> string" where
  "embed_aad note_id = ''emb:'' @ note_id"

definition question_embed_aad :: "string \<Rightarrow> string" where
  "question_embed_aad question_id = ''qemb:'' @ question_id"

subsection \<open>Vectors\<close>

definition norm_squared :: "f64_lib \<Rightarrow> 32 word list \<Rightarrow> f64" where
  "norm_squared F v = foldl (\<lambda>s x. fadd F s (fmul F (f64_of_f32 x) (f64_of_f32 x))) (Fin 0) v"

definition normalize :: "f64_lib \<Rightarrow> 32 word list \<Rightarrow> 32 word list option" where
  "normalize F v =
     (let norm_sq = norm_squared F v
      in if \<not> is_finite norm_sq \<or> fle norm_sq (Fin 0) then None
         else let inv = fdiv F (Fin 1) (fsqrt F norm_sq)
              in Some (map (\<lambda>x. to_f32 F (fmul F (f64_of_f32 x) inv)) v))"

definition f32_to_le_bytes :: "32 word \<Rightarrow> string" where
  "f32_to_le_bytes x = map (\<lambda>k. char_of (unat x div 256 ^ k)) [0, 1, 2, 3]"

definition to_le_bytes :: "32 word list \<Rightarrow> string" where
  "to_le_bytes v = concat (map f32_to_le_bytes v)"

fun f32_chunks :: "string \<Rightarrow> 32 word list" where
  "f32_chunks (a # b # c # d # rest) =
     word_of_nat (byte a + 256 * byte b + 256 ^ 2 * byte c + 256 ^ 3 * byte d) # f32_chunks rest"
| "f32_chunks _ = []"

definition from_le_bytes :: "string \<Rightarrow> nat \<Rightarrow> crypto_error + 32 word list" where
  "from_le_bytes bytes dims =
     (if length bytes \<noteq> dims * 4 then Inl (BadInput ''sealed vector has wrong length'')
      else Inr (f32_chunks bytes))"

definition dot :: "f64_lib \<Rightarrow> 32 word list \<Rightarrow> 32 word list \<Rightarrow> f64" where
  "dot F a b = foldl (\<lambda>s p. fadd F s (fmul F (f64_of_f32 (fst p)) (f64_of_f32 (snd p)))) (Fin 0) (zip a b)"

definition semantic_le :: "semantic_hit \<Rightarrow> semantic_hit \<Rightarrow> bool" where
  "semantic_le a b \<longleftrightarrow>
     (if flt (sm_score b) (sm_score a) then True
      else if flt (sm_score a) (sm_score b) then False
      else sm_note_id a \<le> sm_note_id b)"

definition top_k :: "semantic_hit list \<Rightarrow> nat \<Rightarrow> semantic_hit list" where
  "top_k hits limit = take limit (sort_by semantic_le hits)"

text \<open>The result types of a hybrid search (\<open>src/src/fusion.rs\<close>).\<close>

datatype semantic_status = StatusFused | NoSemanticMatch | StatusNotRegistered | StatusFailed

record ranked_hit =
  rh_kind :: search_doc_kind
  rh_ref_id :: string
  rh_title :: string
  rh_snippet :: string
  rh_score :: f64
  rh_matched_lexical :: bool
  rh_matched_semantic :: bool

record ranked_search_page =
  rp_hits :: "ranked_hit list"
  rp_status :: semantic_status
  rp_pending :: nat

definition u32_max :: nat where "u32_max = 2 ^ 32 - 1"
definition usize_max :: nat where "usize_max = 2 ^ 64 - 1"

subsection \<open>The engine as the embedder sees it\<close>

record failure_memory =
  fm_generation :: nat
  fm_by_note :: "(string, string) fmap"

record 'e registration =
  rg_embedder :: 'e
  rg_corpus_key :: string
  rg_dims :: nat
  rg_generation :: nat

record 'e engine =
  en_store :: store
  en_embedder :: "'e registration option"
  en_failures :: failure_memory

text \<open>The host: \<open>'e\<close> names its embedders, \<open>'w\<close> is its world.\<close>

record ('e, 'w) host =
  ho_descriptor :: "'e \<Rightarrow> embedder_descriptor"
  ho_document :: "'e \<Rightarrow> string \<Rightarrow> 'e engine \<times> 'w \<Rightarrow> (embedder_error + 32 word list) \<times> 'e engine \<times> 'w"
  ho_query :: "'e \<Rightarrow> string \<Rightarrow> 'e engine \<times> 'w \<Rightarrow> (embedder_error + 32 word list) \<times> 'e engine \<times> 'w"

datatype pending_embed = PendingNote | PendingQuestion

definition failure_key :: "pending_embed \<Rightarrow> string \<Rightarrow> string" where
  "failure_key kind i = (case kind of PendingNote \<Rightarrow> i | PendingQuestion \<Rightarrow> ''question:'' @ i)"

definition item_aad :: "pending_embed \<Rightarrow> string \<Rightarrow> string" where
  "item_aad kind i = (case kind of PendingNote \<Rightarrow> embed_aad i | PendingQuestion \<Rightarrow> question_embed_aad i)"

definition registered_embedder :: "'e engine \<Rightarrow> sync_error + 'e registration" where
  "registered_embedder s = (case en_embedder s of None \<Rightarrow> Inl EmbedderNotRegistered | Some r \<Rightarrow> Inr r)"

definition record_embed_failure :: "'e registration \<Rightarrow> string \<Rightarrow> string \<Rightarrow> 'e engine \<Rightarrow> 'e engine" where
  "record_embed_failure reg key token s =
     (if fm_generation (en_failures s) = rg_generation reg
      then s\<lparr>en_failures := (en_failures s)\<lparr>fm_by_note := fmupd key token (fm_by_note (en_failures s))\<rparr>\<rparr> else s)"

definition open_vector :: "crypto \<Rightarrow> vault \<Rightarrow> nat \<Rightarrow> string \<Rightarrow> string \<Rightarrow> crypto_error + 32 word list" where
  "open_vector C v dims aad sealed =
     (case vault_open_bytes C v sealed aad of Inl e \<Rightarrow> Inl e | Inr bytes \<Rightarrow> from_le_bytes bytes dims)"

definition scan_corpus ::
  "env \<Rightarrow> f64_lib \<Rightarrow> vault \<Rightarrow> 'e registration \<Rightarrow> 32 word list \<Rightarrow> nat \<Rightarrow> string option \<Rightarrow> 'e engine \<Rightarrow>
   semantic_hit list \<times> 'e engine" where
  "scan_corpus V F v reg probe limit exclude s =
     (let rows = filter (\<lambda>r. exclude \<noteq> Some (fst r)) (live_embeddings (en_store s) (rg_corpus_key reg));
          opened = (\<lambda>r. open_vector (env_crypto V) v (rg_dims reg) (embed_aad (fst r)) (snd r));
          hits = List.map_filter (\<lambda>r. case opened r of Inl _ \<Rightarrow> None
            | Inr vec \<Rightarrow> Some \<lparr>sm_note_id = fst r, sm_score = dot F probe vec\<rparr>) rows;
          corrupt = map fst (filter (\<lambda>r. isl (opened r)) rows)
      in (top_k hits limit, s\<lparr>en_store := fold (\<lambda>i st. delete_embedding st i) corrupt (en_store s)\<rparr>))"

definition pending_for :: "'e registration \<Rightarrow> 'e engine \<Rightarrow> nat" where
  "pending_for reg s = as_u32 (nat (pending_embedding_count (en_store s) (rg_corpus_key reg)))"

definition embed_unit ::
  "f64_lib \<Rightarrow> ('e, 'w) host \<Rightarrow> 'e registration \<Rightarrow> string \<Rightarrow> bool \<Rightarrow> 'e engine \<times> 'w \<Rightarrow>
   (embedder_error + 32 word list) \<times> 'e engine \<times> 'w" where
  "embed_unit F H reg content as_query sw =
     (case (if as_query then ho_query H else ho_document H) (rg_embedder reg) content sw of
        (Inl e, sw') \<Rightarrow> (Inl e, sw')
      | (Inr vector, sw') \<Rightarrow>
          (if length vector \<noteq> rg_dims reg then Inl Runtime
           else case normalize F vector of None \<Rightarrow> Inl Runtime | Some u \<Rightarrow> Inr u, sw'))"

definition store_vector ::
  "pending_embed \<Rightarrow> string \<Rightarrow> 'e registration \<Rightarrow> string \<Rightarrow> string option \<Rightarrow> int \<Rightarrow> 'e engine \<Rightarrow> bool \<times> 'e engine" where
  "store_vector kind i reg token sealed now s =
     (case (case kind of
              PendingNote \<Rightarrow> upsert_embedding_if_current (en_store s) i (rg_corpus_key reg) token sealed now
            | PendingQuestion \<Rightarrow> upsert_question_embedding_if_current (en_store s) i (rg_corpus_key reg) token sealed now) of
        (b, st) \<Rightarrow> (b, s\<lparr>en_store := st\<rparr>))"

subsection \<open>Registering\<close>

definition register_embedder ::
  "('e, 'w) host \<Rightarrow> 'e \<Rightarrow> 'e engine \<Rightarrow> (sync_error + register_embedder_summary) \<times> 'e engine" where
  "register_embedder H emb s =
     (let d = ho_descriptor H emb in
      if ed_model_id d = [] \<or> CHR ''|'' \<in> set (ed_model_id d) \<or> CHR ''|'' \<in> set (ed_quantization d)
      then (Inl (EmbedError ''embedder descriptor needs a non-empty, '|'-free identity''), s)
      else if ed_dims d = 0 \<or> 4096 < ed_dims d
      then (Inl (EmbedError ''embedder descriptor dims out of range (1..=4096)''), s)
      else let key = corpus_key d;
               generation = fm_generation (en_failures s) + 1;
               del = delete_embeddings_not_matching (en_store s) key;
               s' = s\<lparr>en_store := snd del,
                 en_embedder := Some \<lparr>rg_embedder = emb, rg_corpus_key = key, rg_dims = ed_dims d, rg_generation = generation\<rparr>,
                 en_failures := \<lparr>fm_generation = generation, fm_by_note = fmempty\<rparr>\<rparr>
           in (Inr \<lparr>re_corpus_changed = (0 < fst del), re_invalidated = as_u32 (fst del),
                 re_pending = as_u32 (nat (pending_embedding_count (snd del) key))\<rparr>, s'))"

definition pending_embed_count :: "'e engine \<Rightarrow> sync_error + nat" where
  "pending_embed_count s = and_then (registered_embedder s) (\<lambda>reg. Inr (pending_for reg s))"

subsection \<open>Draining the queue\<close>

definition all_pending :: "store \<Rightarrow> string \<Rightarrow> db_error + (pending_embed \<times> string \<times> string) list" where
  "all_pending st key =
     and_then (pending_question_embeddings st key) (\<lambda>qs.
     and_then (pending_embeddings st key (- 1)) (\<lambda>ns.
       Inr (map (\<lambda>(i, t). (PendingQuestion, i, t)) qs @ map (\<lambda>(i, t). (PendingNote, i, t)) ns)))"

text \<open>What to attempt: the items that have not failed under their present token, or, when all have,
  everything with the memory cleared.\<close>

definition pick_pending ::
  "(pending_embed \<times> string \<times> string) list \<Rightarrow> nat \<Rightarrow> failure_memory \<Rightarrow>
   (pending_embed \<times> string) list \<times> failure_memory" where
  "pick_pending items max_items m =
     (let fresh = filter (\<lambda>(kind, i, token). fmlookup (fm_by_note m) (failure_key kind i) \<noteq> Some token) items;
          retry = (fresh = [] \<and> items \<noteq> [])
      in (map (\<lambda>(kind, i, _). (kind, i)) (take max_items (if retry then items else fresh)),
          if retry then m\<lparr>fm_by_note := fmempty\<rparr> else m))"

text \<open>The text of an item and its token; \<open>None\<close> when it vanished.\<close>

definition item_content ::
  "env \<Rightarrow> vault \<Rightarrow> store \<Rightarrow> pending_embed \<Rightarrow> string \<Rightarrow> db_error + (string option \<times> string) option" where
  "item_content V v st kind i =
     (case kind of
        PendingNote \<Rightarrow>
          and_then (get_row (env_serde V) st ''notes'' i) (\<lambda>row.
            Inr (case (row, note_content_token st i) of
                   (Some r, Some token) \<Rightarrow>
                     (case decrypt_note_text (env_crypto V) v r i of
                        (text, decrypt_failed) \<Rightarrow> Some (if decrypt_failed then None else text, token))
                 | _ \<Rightarrow> None))
      | PendingQuestion \<Rightarrow>
          and_then (get_row (env_serde V) st ''questions'' i) (\<lambda>row.
            Inr (case (row, question_text_token st i) of
                   (Some r, Some token) \<Rightarrow> Some (qr_text (to_question_record (env_crypto V) v r), token)
                 | _ \<Rightarrow> None)))"

definition trimmed :: "string option \<Rightarrow> string option" where
  "trimmed text = (case text of None \<Rightarrow> None | Some t \<Rightarrow> if str_trim t = [] then None else Some (str_trim t))"

datatype embed_outcome = Embedded | Skipped | Failed | Aborted | Broken sync_error

definition embed_item ::
  "env \<Rightarrow> f64_lib \<Rightarrow> ('e, 'w) host \<Rightarrow> vault \<Rightarrow> 'e registration \<Rightarrow> string \<Rightarrow> int \<Rightarrow> pending_embed \<times> string \<Rightarrow>
   'e engine \<times> 'w \<Rightarrow> embed_outcome \<times> 'e engine \<times> 'w" where
  "embed_item V F H v reg iv now item sw =
     (case (item, sw) of ((kind, i), (s, w)) \<Rightarrow>
        case item_content V v (en_store s) kind i of
          Inl e \<Rightarrow> (Broken (store_err V e), s, w)
        | Inr None \<Rightarrow> (Skipped, s, w)
        | Inr (Some (text, token)) \<Rightarrow>
            (case trimmed text of
               None \<Rightarrow> (Skipped, snd (store_vector kind i reg token None now s), w)
             | Some content \<Rightarrow>
                 (case embed_unit F H reg content (kind = PendingQuestion) (s, w) of
                    (Inl Unavailable, s', w') \<Rightarrow> (Aborted, s', w')
                  | (Inl Runtime, s', w') \<Rightarrow> (Failed, record_embed_failure reg (failure_key kind i) token s', w')
                  | (Inr unit, s', w') \<Rightarrow>
                      (case store_vector kind i reg token
                           (Some (vault_seal_bytes (env_crypto V) iv v (to_le_bytes unit) (item_aad kind i))) now s' of
                         (True, s'') \<Rightarrow> (Embedded, s'', w') | (False, s'') \<Rightarrow> (Skipped, s'', w')))))"

text \<open>The loop; \<open>ivs\<close> and \<open>clk\<close> give the random bytes and the clock reading of the n-th item.\<close>

fun embed_loop ::
  "env \<Rightarrow> f64_lib \<Rightarrow> ('e, 'w) host \<Rightarrow> vault \<Rightarrow> 'e registration \<Rightarrow> (nat \<Rightarrow> string) \<Rightarrow> (nat \<Rightarrow> int) \<Rightarrow>
   (pending_embed \<times> string) list \<Rightarrow> embed_summary \<Rightarrow> 'e engine \<times> 'w \<Rightarrow>
   (sync_error + embed_summary) \<times> 'e engine \<times> 'w" where
  "embed_loop V F H v reg ivs clk [] c sw = (Inr c, sw)"
| "embed_loop V F H v reg ivs clk (item # items) c sw =
     (let c' = c\<lparr>es_attempted := es_attempted c + 1\<rparr>; n = es_attempted c in
      case embed_item V F H v reg (ivs n) (clk n) item sw of
        (Embedded, sw') \<Rightarrow> embed_loop V F H v reg ivs clk items (c'\<lparr>es_embedded := es_embedded c + 1\<rparr>) sw'
      | (Skipped, sw') \<Rightarrow> embed_loop V F H v reg ivs clk items (c'\<lparr>es_skipped := es_skipped c + 1\<rparr>) sw'
      | (Failed, sw') \<Rightarrow> embed_loop V F H v reg ivs clk items (c'\<lparr>es_failed := es_failed c + 1\<rparr>) sw'
      | (Aborted, sw') \<Rightarrow> (Inr (c'\<lparr>es_failed := es_failed c + 1\<rparr>), sw')
      | (Broken e, sw') \<Rightarrow> (Inl e, sw'))"

definition no_embeds :: embed_summary where
  "no_embeds = \<lparr>es_attempted = 0, es_embedded = 0, es_skipped = 0, es_failed = 0, es_pending = 0\<rparr>"

definition embed_pending ::
  "env \<Rightarrow> f64_lib \<Rightarrow> ('e, 'w) host \<Rightarrow> vault \<Rightarrow> (nat \<Rightarrow> string) \<Rightarrow> (nat \<Rightarrow> int) \<Rightarrow> nat \<Rightarrow> 'e engine \<times> 'w \<Rightarrow>
   (sync_error + embed_summary) \<times> 'e engine \<times> 'w" where
  "embed_pending V F H v ivs clk max_items sw =
     (case sw of (s, w) \<Rightarrow>
        case registered_embedder s of Inl e \<Rightarrow> (Inl e, s, w)
        | Inr reg \<Rightarrow>
            let st = snd (sweep_orphan_embeddings (en_store s)) in
            case all_pending st (rg_corpus_key reg) of
              Inl e \<Rightarrow> (Inl (store_err V e), s\<lparr>en_store := st\<rparr>, w)
            | Inr items \<Rightarrow>
                (case pick_pending items max_items (en_failures s) of (picked, m) \<Rightarrow>
                   case embed_loop V F H v reg ivs clk picked no_embeds (s\<lparr>en_store := st, en_failures := m\<rparr>, w) of
                     (Inl e, s', w') \<Rightarrow> (Inl e, s', w')
                   | (Inr c, s', w') \<Rightarrow> (Inr (c\<lparr>es_pending := pending_for reg s'\<rparr>), s', w')))"

subsection \<open>Asking the vectors\<close>

definition ranked_semantic_leg ::
  "env \<Rightarrow> f64_lib \<Rightarrow> ('e, 'w) host \<Rightarrow> vault \<Rightarrow> string \<Rightarrow> 'e engine \<times> 'w \<Rightarrow>
   (semantic_hit list \<times> semantic_status \<times> nat) \<times> 'e engine \<times> 'w" where
  "ranked_semantic_leg V F H v query sw =
     (case sw of (s, w) \<Rightarrow>
        case registered_embedder s of
          Inl _ \<Rightarrow> (([], StatusNotRegistered, 0), s, w)
        | Inr reg \<Rightarrow>
            (case ho_query H (rg_embedder reg) query (s, w) of
               (res, s', w') \<Rightarrow>
                 (case (case res of Inl _ \<Rightarrow> None
                        | Inr vec \<Rightarrow> if length vec = rg_dims reg then normalize F vec else None) of
                    None \<Rightarrow> (([], StatusFailed, pending_for reg s'), s', w')
                  | Some probe \<Rightarrow>
                      (case scan_corpus V F v reg probe u32_max None s' of
                         (scan, s'') \<Rightarrow>
                           let hits = above_floor scan
                           in ((hits, if hits = [] then NoSemanticMatch else StatusFused, pending_for reg s''), s'', w')))))"

definition note_probe ::
  "env \<Rightarrow> f64_lib \<Rightarrow> ('e, 'w) host \<Rightarrow> vault \<Rightarrow> 'e registration \<Rightarrow> string \<Rightarrow> 'e engine \<times> 'w \<Rightarrow>
   (sync_error + 32 word list option) \<times> 'e engine \<times> 'w" where
  "note_probe V F H v reg note_id sw =
     (case sw of (s, w) \<Rightarrow>
        case get_row (env_serde V) (en_store s) ''notes'' note_id of
          Inl e \<Rightarrow> (Inl (store_err V e), s, w)
        | Inr row \<Rightarrow>
            let sealed = current_sealed_embedding (en_store s) note_id (rg_corpus_key reg);
                found = Option.bind sealed (\<lambda>b. case open_vector (env_crypto V) v (rg_dims reg) (embed_aad note_id) b of
                  Inl _ \<Rightarrow> None | Inr vec \<Rightarrow> Some vec);
                s' = (if sealed \<noteq> None \<and> found = None then s\<lparr>en_store := delete_embedding (en_store s) note_id\<rparr> else s)
            in case found of
                 Some vec \<Rightarrow> (Inr (Some vec), s', w)
               | None \<Rightarrow>
                   (case live_row row of
                      None \<Rightarrow> (Inr None, s', w)
                    | Some r \<Rightarrow>
                        (case decrypt_note_text (env_crypto V) v r note_id of
                           (text, decrypt_failed) \<Rightarrow>
                             (case trimmed (if decrypt_failed then None else text) of
                                None \<Rightarrow> (Inr None, s', w)
                              | Some content \<Rightarrow>
                                  (case embed_unit F H reg content False (s', w) of
                                     (Inl _, sw') \<Rightarrow> (Inr None, sw') | (Inr u, sw') \<Rightarrow> (Inr (Some u), sw'))))))"

definition question_vectors ::
  "env \<Rightarrow> vault \<Rightarrow> 'e registration \<Rightarrow> 'e engine \<Rightarrow> (string, 32 word list) fmap \<times> 'e engine" where
  "question_vectors V v reg s =
     fold (\<lambda>r x. case x of (out, s') \<Rightarrow>
         (case open_vector (env_crypto V) v (rg_dims reg) (question_embed_aad (fst r)) (snd r) of
            Inr vec \<Rightarrow> (fmupd (fst r) vec out, s')
          | Inl _ \<Rightarrow> (out, s'\<lparr>en_store := delete_question_embedding (en_store s') (fst r)\<rparr>)))
       (live_question_embeddings (en_store s) (rg_corpus_key reg)) (fmempty, s)"

text \<open>Scored questions first, best first; equal scores and the unscored ones keep their order.\<close>

definition question_le :: "(question_record \<Rightarrow> f64 option) \<Rightarrow> question_record \<Rightarrow> question_record \<Rightarrow> bool" where
  "question_le score a b =
     (case (score a, score b) of
        (Some x, Some y) \<Rightarrow> \<not> flt x y
      | (Some _, None) \<Rightarrow> True | (None, Some _) \<Rightarrow> False | (None, None) \<Rightarrow> True)"

definition rank_questions_for_note ::
  "env \<Rightarrow> f64_lib \<Rightarrow> ('e, 'w) host \<Rightarrow> vault \<Rightarrow> string \<Rightarrow> 'e engine \<times> 'w \<Rightarrow>
   (sync_error + question_record list) \<times> 'e engine \<times> 'w" where
  "rank_questions_for_note V F H v note_id sw =
     (case active_question_records (env_serde V) (env_crypto V) (en_store (fst sw)) v of
        Inl e \<Rightarrow> (Inl (store_err V e), sw)
      | Inr active \<Rightarrow>
          if length active < 2 then (Inr active, sw)
          else case registered_embedder (fst sw) of
              Inl _ \<Rightarrow> (Inr active, sw)
            | Inr reg \<Rightarrow>
                (case note_probe V F H v reg note_id sw of
                   (Inl e, sw') \<Rightarrow> (Inl e, sw')
                 | (Inr None, sw') \<Rightarrow> (Inr active, sw')
                 | (Inr (Some probe), s', w') \<Rightarrow>
                     (case question_vectors V v reg s' of
                        (vectors, s'') \<Rightarrow>
                          (Inr (sort_by (question_le (\<lambda>q. map_option (dot F probe) (fmlookup vectors (qr_id q)))) active),
                           s'', w'))))"

definition show_embedder_error :: "embedder_error \<Rightarrow> string" where
  "show_embedder_error e = (case e of Runtime \<Rightarrow> ''embedder runtime failure'' | Unavailable \<Rightarrow> ''embedder unavailable'')"

definition semantic_search ::
  "env \<Rightarrow> f64_lib \<Rightarrow> ('e, 'w) host \<Rightarrow> vault \<Rightarrow> string \<Rightarrow> nat \<Rightarrow> 'e engine \<times> 'w \<Rightarrow>
   (sync_error + semantic_hit list) \<times> 'e engine \<times> 'w" where
  "semantic_search V F H v query limit sw =
     (case registered_embedder (fst sw) of Inl e \<Rightarrow> (Inl e, sw)
      | Inr reg \<Rightarrow>
          if str_trim query = [] \<or> limit = 0 then (Inr [], sw)
          else case ho_query H (rg_embedder reg) query sw of
              (Inl e, sw') \<Rightarrow> (Inl (EmbedError (show_embedder_error e)), sw')
            | (Inr vec, s', w') \<Rightarrow>
                if length vec \<noteq> rg_dims reg
                then (Inl (EmbedError ''embedder returned a query vector of the wrong dimension''), s', w')
                else case normalize F vec of
                    None \<Rightarrow> (Inl (EmbedError ''embedder returned a zero or non-finite query vector''), s', w')
                  | Some probe \<Rightarrow> (case scan_corpus V F v reg probe limit None s' of (hits, s'') \<Rightarrow> (Inr hits, s'', w')))"

definition similar_notes ::
  "env \<Rightarrow> f64_lib \<Rightarrow> vault \<Rightarrow> string \<Rightarrow> nat \<Rightarrow> 'e engine \<Rightarrow> (sync_error + semantic_hit list) \<times> 'e engine" where
  "similar_notes V F v note_id limit s =
     (case registered_embedder s of Inl e \<Rightarrow> (Inl e, s)
      | Inr reg \<Rightarrow>
          if limit = 0 then (Inr [], s)
          else case sealed_embedding (en_store s) note_id (rg_corpus_key reg) of
              None \<Rightarrow> (Inr [], s)
            | Some sealed \<Rightarrow>
                (case open_vector (env_crypto V) v (rg_dims reg) (embed_aad note_id) sealed of
                   Inl _ \<Rightarrow> (Inr [], s\<lparr>en_store := delete_embedding (en_store s) note_id\<rparr>)
                 | Inr probe \<Rightarrow> (case scan_corpus V F v reg probe limit (Some note_id) s of (hits, s') \<Rightarrow> (Inr hits, s'))))"

subsection \<open>Hybrid search\<close>

definition engine_search :: "env \<Rightarrow> f64_lib \<Rightarrow> vault \<Rightarrow> store \<Rightarrow> string \<Rightarrow> nat \<Rightarrow> sync_error + search_hit list" where
  "engine_search V F v st query limit =
     and_then (stored V (build_search_docs (env_serde V) (env_crypto V) st v)) (\<lambda>docs.
       Inr (search F (env_text V) docs query limit))"

text \<open>A \<open>HashMap\<close> collected from pairs: the last document of a key.\<close>

definition doc_at :: "search_doc list \<Rightarrow> search_doc_kind \<times> string \<Rightarrow> search_doc option" where
  "doc_at docs key = find (\<lambda>d. (sd_kind d, sd_ref_id d) = key) (rev docs)"

definition hydrate :: "search_doc list \<Rightarrow> fused \<Rightarrow> ranked_hit option" where
  "hydrate docs f =
     map_option (\<lambda>d. \<lparr>rh_kind = fu_kind f, rh_ref_id = sd_ref_id d, rh_title = sd_title d, rh_snippet = snippet_of d,
        rh_score = fu_score f, rh_matched_lexical = fu_matched_lexical f, rh_matched_semantic = fu_matched_semantic f\<rparr>)
       (doc_at docs (fused_key f))"

definition ranked_search ::
  "env \<Rightarrow> f64_lib \<Rightarrow> ('e, 'w) host \<Rightarrow> vault \<Rightarrow> string \<Rightarrow> nat \<Rightarrow> 'e engine \<times> 'w \<Rightarrow>
   (sync_error + ranked_search_page) \<times> 'e engine \<times> 'w" where
  "ranked_search V F H v query limit sw =
     (if str_trim query = [] \<or> limit = 0
      then (Inr (case registered_embedder (fst sw) of
              Inr reg \<Rightarrow> \<lparr>rp_hits = [], rp_status = StatusFused, rp_pending = pending_for reg (fst sw)\<rparr>
            | Inl _ \<Rightarrow> \<lparr>rp_hits = [], rp_status = StatusNotRegistered, rp_pending = 0\<rparr>), sw)
      else case ranked_semantic_leg V F H v query sw of
          ((semantic, status, pending), s', w') \<Rightarrow>
            (case build_search_docs (env_serde V) (env_crypto V) (en_store s') v of
               Inl e \<Rightarrow> (Inl (store_err V e), s', w')
             | Inr docs \<Rightarrow>
                 let lexical = search F (env_text V) docs query usize_max
                 in (Inr \<lparr>rp_hits = take limit (List.map_filter (hydrate docs) (fuse F lexical semantic)),
                          rp_status = status, rp_pending = pending\<rparr>, s', w')))"

end
