(* ===== verification/Semantic_Laws.thy ===== *)
theory Semantic_Laws
  imports Semantic Facade_Laws Note_Lifecycle
begin

text \<open>
  Properties of the embedding surface: the sealed vectors open only to what was sealed for their own
  item, a pass over the embed queue drains it and touches nothing that syncs, and a page of the
  hybrid search is what its two halves say.
\<close>

subsection \<open>The vector codec\<close>

lemma byte_less: "byte c < 256"
  unfolding byte_def by (subst of_char_mod_256 [symmetric]) simp

lemma byte_char_mod: "byte (char_of n) = n mod 256"
  by (simp add: byte_def)

lemma char_of_byte: "n mod 256 = byte c \<Longrightarrow> char_of n = c"
  by (metis byte_def char_of_char char_of_mod_256)

lemma f32_bytes_sum: "(x :: nat) < 2 ^ 32 \<Longrightarrow>
   x mod 256 + 256 * (x div 256 mod 256) + 256 ^ 2 * (x div 256 ^ 2 mod 256) + 256 ^ 3 * (x div 256 ^ 3 mod 256) = x"
proof -
  assume x: "x < 2 ^ 32"
  have a: "256 * (x div 256) + x mod 256 = x" by simp
  have b: "256 * (x div 256 div 256) + x div 256 mod 256 = x div 256" by simp
  have c: "256 * (x div 256 div 256 div 256) + x div 256 div 256 mod 256 = x div 256 div 256" by simp
  have d: "x div 256 div 256 div 256 mod 256 = x div 256 div 256 div 256"
    using x by (intro mod_less) (simp add: div_mult2_eq [symmetric] less_mult_imp_div_less)
  have e: "x div 256 ^ 2 = x div 256 div 256" "x div 256 ^ 3 = x div 256 div 256 div 256"
    by (simp_all flip: div_mult2_eq)
  have p: "(256 :: nat) ^ 2 = 65536" "(256 :: nat) ^ 3 = 16777216" by simp_all
  show ?thesis unfolding e d unfolding p using a b c by linarith
qed

lemma f32_chunks_to_le_bytes [simp]: "f32_chunks (to_le_bytes v) = v"
proof (induction v)
  case (Cons x v)
  have "unat x < 2 ^ 32" using unsigned_less [of x, where 'a = nat] by simp
  from f32_bytes_sum [OF this] have "word_of_nat (byte (char_of (unat x)) + 256 * byte (char_of (unat x div 256)) +
      256 ^ 2 * byte (char_of (unat x div 256 ^ 2)) + 256 ^ 3 * byte (char_of (unat x div 256 ^ 3))) = x"
    by (simp only: byte_char_mod) simp
  with Cons show ?case by (simp add: to_le_bytes_def f32_to_le_bytes_def)
qed (simp add: to_le_bytes_def)

lemma length_to_le_bytes [simp]: "length (to_le_bytes v) = length v * 4"
  by (induction v) (simp_all add: to_le_bytes_def f32_to_le_bytes_def)

lemma f32_bytes_digits:
  fixes a b c d :: nat
  assumes "a < 256" "b < 256" "c < 256" "d < 256"
  defines "n \<equiv> a + 256 * b + 256 ^ 2 * c + 256 ^ 3 * d"
  shows "n < 2 ^ 32" "n mod 256 = a" "n div 256 mod 256 = b" "n div 256 ^ 2 mod 256 = c" "n div 256 ^ 3 mod 256 = d"
proof -
  have n: "n = a + 256 * (b + 256 * (c + 256 * d))" by (simp add: n_def)
  have e: "n div 256 ^ 2 = n div 256 div 256" "n div 256 ^ 3 = n div 256 div 256 div 256"
    by (simp_all flip: div_mult2_eq)
  have low: "(p + 256 * m) mod 256 = p" "(p + 256 * m) div 256 = m" "p mod 256 = p" if "p < 256" for p m :: nat
    using that by auto
  show "n < 2 ^ 32" using assms(1-4) by (simp add: n_def)
  show "n mod 256 = a" "n div 256 mod 256 = b" "n div 256 ^ 2 mod 256 = c" "n div 256 ^ 3 mod 256 = d"
    unfolding e unfolding n using assms(1-4) by (simp_all only: low)
qed

lemma to_le_bytes_f32_chunks: "length b = 4 * k \<Longrightarrow> to_le_bytes (f32_chunks b) = b"
proof (induction b arbitrary: k rule: f32_chunks.induct)
  case (1 a b c d rest)
  define n where "n = byte a + 256 * byte b + 256 ^ 2 * byte c + 256 ^ 3 * byte d"
  note dg = f32_bytes_digits [OF byte_less [of a] byte_less [of b] byte_less [of c] byte_less [of d], folded n_def]
  have u: "unat (word_of_nat n :: 32 word) = n" using dg(1) by (simp add: unat_of_nat)
  have "f32_to_le_bytes (word_of_nat n) = [a, b, c, d]"
    using dg(2-5) by (simp add: f32_to_le_bytes_def u char_of_byte)
  moreover obtain k' where "k = Suc k'" using 1(2) by (cases k) auto
  ultimately show ?case using 1 by (simp add: to_le_bytes_def n_def)
qed (auto simp: to_le_bytes_def, presburger+)

lemma from_le_bytes_exact: "from_le_bytes b n = Inr v \<longleftrightarrow> length v = n \<and> b = to_le_bytes v"
proof
  assume "from_le_bytes b n = Inr v"
  then have l: "length b = 4 * n" and v: "v = f32_chunks b" by (auto simp: from_le_bytes_def split: if_splits)
  then have "to_le_bytes v = b" using to_le_bytes_f32_chunks by blast
  moreover from this have "length v = n" using l length_to_le_bytes [of v] by simp
  ultimately show "length v = n \<and> b = to_le_bytes v" by simp
qed (auto simp: from_le_bytes_def)

text \<open>
  Property C20.  A stored vector opens for an item to a vector exactly when it has the declared
  dimension and the blob is a sealing of it, by this vault, for that very item: a blob moved to
  another note or question, sealed by another vault or of another dimension is refused.
\<close>

theorem sealed_vector_exact:
  assumes "crypto_ok C" "length (vault_mk v) = 32"
  shows "(open_vector C v dims (item_aad kind i) b = Inr x \<longleftrightarrow>
      length x = dims \<and> (\<exists>iv. length iv = 12 \<and> b = vault_seal_bytes C iv v (to_le_bytes x) (item_aad kind i))) \<and>
    (item_aad kind i = item_aad kind' i' \<longleftrightarrow> kind = kind' \<and> i = i')"
proof
  show "open_vector C v dims (item_aad kind i) b = Inr x \<longleftrightarrow>
    length x = dims \<and> (\<exists>iv. length iv = 12 \<and> b = vault_seal_bytes C iv v (to_le_bytes x) (item_aad kind i))"
    by (auto simp: open_vector_def vault_open_bytes_def vault_seal_bytes_def from_le_bytes_exact
        bytes_exact [OF assms] split: sum.splits) (metis assms bytes_exact sum.distinct(1) sum.inject(2))+
  show "item_aad kind i = item_aad kind' i' \<longleftrightarrow> kind = kind' \<and> i = i'"
    by (cases kind; cases kind') (auto simp: item_aad_def embed_aad_def question_embed_aad_def)
qed

theorem sealed_vector_exact_witness:
  "open_vector toy_crypto (new_vault toy_mk) 1 (embed_aad ''n'')
     (vault_seal_bytes toy_crypto toy_iv (new_vault toy_mk) (to_le_bytes [7]) (embed_aad ''n'')) = Inr [7]"
proof -
  have k: "length (vault_mk (new_vault toy_mk)) = 32" "length toy_iv = 12" by (simp_all add: new_vault_def)
  then have "\<exists>iv. length iv = 12 \<and> vault_seal_bytes toy_crypto toy_iv (new_vault toy_mk) (to_le_bytes [7]) (embed_aad ''n'') =
      vault_seal_bytes toy_crypto iv (new_vault toy_mk) (to_le_bytes [7]) (embed_aad ''n'')" by blast
  then show ?thesis
    using sealed_vector_exact [OF toy_crypto_ok k(1), of 1 PendingNote "''n''" _ "[7]" PendingNote "''n''"]
    by (simp add: item_aad_def)
qed

subsection \<open>One item of the queue\<close>

definition same_synced :: "store \<Rightarrow> store \<Rightarrow> bool" where
  "same_synced st st' \<longleftrightarrow> tables st' = tables st \<and> outbox st' = outbox st \<and> outbox_seq st' = outbox_seq st \<and> meta st' = meta st"

lemma same_synced_refl [simp]: "same_synced st st"
  by (simp add: same_synced_def)

lemma same_synced_trans: "same_synced a b \<Longrightarrow> same_synced b c \<Longrightarrow> same_synced a c"
  by (simp add: same_synced_def)

lemma same_synced_vectors [simp]:
  "same_synced st (snd (upsert_embedding_if_current st i key tok sealed now))"
  "same_synced st (snd (upsert_question_embedding_if_current st i key tok sealed now))"
  "same_synced st (delete_embedding st i)" "same_synced st (delete_question_embedding st i)"
  "same_synced st (snd (sweep_orphan_embeddings st))" "same_synced st (snd (delete_embeddings_not_matching st key))"
  by (simp_all add: same_synced_def upsert_embedding_if_current_def upsert_question_embedding_if_current_def
      delete_embedding_def delete_question_embedding_def sweep_orphan_embeddings_def
      delete_embeddings_not_matching_def Let_def)

lemma same_synced_store_vector: "same_synced (en_store s) (en_store (snd (store_vector kind i reg tok sealed now s)))"
  by (cases kind) (simp_all add: store_vector_def case_prod_beta)

lemma question_token_pending:
  assumes inv: "store_inv st" and r: "r \<in> set (tables st ''questions'')" "r ''id'' = SText i" "is_live r" "r ''text'' \<noteq> SNull"
  shows "\<exists>tx. r ''text'' = SText tx \<and> question_text_token st i = Some tx"
proof -
  obtain r' where f: "find (\<lambda>r. r ''id'' = SText i \<and> is_live r) (tables st ''questions'') = Some r'"
    using r(1-3) by (cases "find (\<lambda>r. r ''id'' = SText i \<and> is_live r) (tables st ''questions'')") (auto simp: find_None_iff)
  then have "r' \<in> set (tables st ''questions'')" "r' ''id'' = SText i" by (auto dest: find_SomeD)
  then have "r' = r"
    using pk_unique_at_most_one [OF store_inv_pk(2) [OF inv] _ r(1)] r(2) pk_notes_questions(2) by auto
  moreover have "row_typed questions_desc r"
    using inv r(1) read_schemas(5) table_schema_in [OF read_schemas(5)] table_schema_Some(1) [OF read_schemas(5)]
    by (auto simp: store_inv_def rows_typed_def list_all_iff)
  then have "sql_typed CText (r ''text'')" by (auto simp: row_typed_def schema_defs desc_defs)
  ultimately show ?thesis using f r(4) by (cases "r ''text''") (auto simp: question_text_token_def)
qed

text \<open>The queues with an item taken off.\<close>

definition without :: "pending_embed \<Rightarrow> pending_embed \<Rightarrow> string \<Rightarrow> sqlrow list \<Rightarrow> sqlrow list" where
  "without q kind i rs = (if kind = q then filter (\<lambda>r. r ''id'' \<noteq> SText i) rs else rs)"

definition drained :: "string \<Rightarrow> pending_embed \<Rightarrow> string \<Rightarrow> store \<Rightarrow> store \<Rightarrow> bool" where
  "drained key kind i st st' \<longleftrightarrow> store_inv st' \<and> same_synced st st' \<and>
     pending_note_rows st' key = without PendingNote kind i (pending_note_rows st key) \<and>
     pending_question_rows st' key = without PendingQuestion kind i (pending_question_rows st key)"

lemma drained_gone:
  assumes "store_inv st" "kind = PendingNote \<Longrightarrow> note_content_token st i = None"
    "kind = PendingQuestion \<Longrightarrow> question_text_token st i = None"
  shows "drained key kind i st st"
proof -
  have "r ''id'' \<noteq> SText i" if "kind = PendingNote" "r \<in> set (pending_note_rows st key)" for r
    using that assms(2) by (auto simp: note_content_token_def find_None_iff pending_note_rows_def is_pending_def)
  moreover have "r ''id'' \<noteq> SText i" if "kind = PendingQuestion" "r \<in> set (pending_question_rows st key)" for r
    using that assms(3) question_token_pending [OF assms(1), of r i]
    by (auto simp: pending_question_rows_def is_pending_question_def)
  ultimately show ?thesis using assms(1) by (auto simp: drained_def without_def filter_id_conv)
qed

lemma drained_note:
  assumes inv: "store_inv st" and t: "note_content_token st i = Some tok"
  shows "\<exists>st'. upsert_embedding_if_current st i key tok sealed now = (True, st') \<and> drained key PendingNote i st st'"
proof -
  obtain st' where up: "upsert_embedding_if_current st i key tok sealed now = (True, st')"
    using t by (simp add: upsert_embedding_if_current_def)
  obtain r0 where r0: "r0 \<in> set (tables st ''notes'')" "r0 ''id'' = SText i" "is_live r0" "content_token_sql r0 = tok"
    using t by (rule note_content_token_Some)
  have sync: "same_synced st st'" using same_synced_vectors(1) [of st i key tok sealed now] up by simp
  have st'i: "store_inv st'" using store_inv_upsert [OF inv, of i key tok sealed now] up by simp
  have "question_embeddings st' = question_embeddings st" using up by (auto simp: upsert_embedding_if_current_def split: if_splits)
  then have q: "pending_question_rows st' key = pending_question_rows st key"
    using sync by (simp add: pending_question_rows_def is_pending_question_def [abs_def] same_synced_def)
  have one: "r = r0" if "r \<in> set (tables st ''notes'')" "r ''id'' = SText i" for r
    using pk_unique_at_most_one [OF store_inv_pk(1) [OF inv] that(1) r0(1)] that(2) r0(2) pk_notes_questions(1) by auto
  have "is_pending st' key r \<longleftrightarrow> r ''id'' \<noteq> SText i \<and> is_pending st key r" if "r \<in> set (tables st ''notes'')" for r
    using is_pending_after_upsert [OF t up, of r] one [OF that] r0(4) by auto
  then have "pending_note_rows st' key = filter (\<lambda>r. r ''id'' \<noteq> SText i) (pending_note_rows st key)"
    using sync by (auto simp: pending_note_rows_def same_synced_def intro!: filter_cong)
  with q sync st'i up show ?thesis by (simp add: drained_def without_def)
qed

lemma drained_question:
  assumes inv: "store_inv st" and t: "question_text_token st i = Some tok"
  shows "\<exists>st'. upsert_question_embedding_if_current st i key tok sealed now = (True, st') \<and> drained key PendingQuestion i st st'"
proof -
  obtain st' where up: "upsert_question_embedding_if_current st i key tok sealed now = (True, st')"
    using t by (simp add: upsert_question_embedding_if_current_def)
  have sync: "same_synced st st'" using same_synced_vectors(2) [of st i key tok sealed now] up by simp
  have st'i: "store_inv st'" using store_inv_upsert_question [OF inv, of i key tok sealed now] up by simp
  have es: "embeddings st' = embeddings st" "question_embeddings st' = put_embedding
      \<lparr>emb_owner = i, emb_model_version = Some key, emb_content_token = Some tok, emb_vector = sealed,
       emb_updated_at = now\<rparr> (question_embeddings st)"
    using up t by (auto simp: upsert_question_embedding_if_current_def)
  then have n: "pending_note_rows st' key = pending_note_rows st key"
    using sync by (simp add: pending_note_rows_def is_pending_def [abs_def] same_synced_def)
  have "is_pending_question st' key r \<longleftrightarrow> r ''id'' \<noteq> SText i \<and> is_pending_question st key r"
    if "r \<in> set (tables st ''questions'')" for r
  proof (cases "r ''id'' = SText i \<and> is_live r \<and> r ''text'' \<noteq> SNull")
    case True
    then have "r ''text'' = SText tok" using question_token_pending [OF inv that, of i] t by auto
    then show ?thesis unfolding is_pending_question_def es find_put_embedding using True by auto
  next
    case False
    then show ?thesis unfolding is_pending_question_def es find_put_embedding by auto
  qed
  then have "pending_question_rows st' key = filter (\<lambda>r. r ''id'' \<noteq> SText i) (pending_question_rows st key)"
    using sync by (auto simp: pending_question_rows_def same_synced_def intro!: filter_cong)
  with n sync st'i up show ?thesis by (simp add: drained_def without_def)
qed

lemma store_vector_drains:
  assumes "store_inv (en_store s)"
    and "kind = PendingNote \<Longrightarrow> note_content_token (en_store s) i = Some tok"
    and "kind = PendingQuestion \<Longrightarrow> question_text_token (en_store s) i = Some tok"
  obtains st' where "store_vector kind i reg tok sealed now s = (True, s\<lparr>en_store := st'\<rparr>)"
    "drained (rg_corpus_key reg) kind i (en_store s) st'"
  using drained_note [OF assms(1), of i tok "rg_corpus_key reg" sealed now]
    drained_question [OF assms(1), of i tok "rg_corpus_key reg" sealed now] assms(2,3)
  by (cases kind) (auto simp: store_vector_def)

text \<open>A host that answers: every text gets a vector of the declared dimension that has a direction,
  and the call leaves the engine alone.\<close>

definition answering :: "f64_lib \<Rightarrow> ('e, 'w) host \<Rightarrow> 'e \<Rightarrow> nat \<Rightarrow> bool" where
  "answering F H emb dims \<longleftrightarrow> (\<forall>c s w. \<forall>ask \<in> {ho_document H, ho_query H}.
     \<exists>vec w'. ask emb c (s, w) = (Inr vec, s, w') \<and> length vec = dims \<and> normalize F vec \<noteq> None)"

lemma embed_unit_answering:
  assumes "answering F H (rg_embedder reg) (rg_dims reg)"
  obtains u w' where "embed_unit F H reg content q (s, w) = (Inr u, s, w')"
proof -
  obtain vec w' where "(if q then ho_query H else ho_document H) (rg_embedder reg) content (s, w) = (Inr vec, s, w')"
    "length vec = rg_dims reg" "normalize F vec \<noteq> None"
    using assms unfolding answering_def by (cases q) (auto, metis+)
  then show thesis by (intro that [of "the (normalize F vec)" w']) (auto simp: embed_unit_def)
qed

lemma embed_item_drains:
  assumes inv: "store_inv (en_store s)" and host: "answering F H (rg_embedder reg) (rg_dims reg)"
  obtains out st' w' where "embed_item V F H v reg iv now (kind, i) (s, w) = (out, s\<lparr>en_store := st'\<rparr>, w')"
    "out \<in> {Embedded, Skipped}" "drained (rg_corpus_key reg) kind i (en_store s) st'"
proof -
  let ?st = "en_store s"
  define tok where "tok = (case kind of PendingNote \<Rightarrow> note_content_token ?st i | PendingQuestion \<Rightarrow> question_text_token ?st i)"
  have content: "\<exists>x. item_content V v ?st kind i = Inr x \<and> map_option snd x = tok"
  proof (cases kind)
    case PendingNote
    have "row_at (env_serde V) ?st ''notes'' i \<noteq> None" if "note_content_token ?st i = Some t" for t
      using note_content_token_Some [OF that] by (auto simp: row_at_def get_row_eq [OF read_schemas(4)] find_None_iff)
    then show ?thesis
      by (cases "note_content_token ?st i") (auto simp: PendingNote item_content_def tok_def get_row_at [OF read_schemas(4)] split: option.split prod.split)
  next
    case PendingQuestion
    have "row_at (env_serde V) ?st ''questions'' i \<noteq> None" if "question_text_token ?st i = Some t" for t
      using that by (auto simp: question_text_token_def row_at_def get_row_eq [OF read_schemas(5)] find_None_iff
          dest: find_SomeD split: option.splits)
    then show ?thesis
      by (cases "question_text_token ?st i") (auto simp: PendingQuestion item_content_def tok_def get_row_at [OF read_schemas(5)] split: option.split)
  qed
  then obtain x where x: "item_content V v ?st kind i = Inr x" "map_option snd x = tok" by blast
  show thesis
  proof (cases x)
    case None
    then have "tok = None" using x(2) by simp
    then have "drained (rg_corpus_key reg) kind i ?st ?st"
      by (intro drained_gone [OF inv]) (auto simp: tok_def)
    with None x(1) show thesis by (intro that [of Skipped ?st w]) (simp_all add: embed_item_def)
  next
    case (Some y)
    obtain tx t where y: "y = (tx, t)" by (cases y)
    have t: "kind = PendingNote \<Longrightarrow> note_content_token ?st i = Some t" "kind = PendingQuestion \<Longrightarrow> question_text_token ?st i = Some t"
      using x(2) Some y by (auto simp: tok_def)
    show thesis
    proof (cases "trimmed tx")
      case None
      obtain st' where "store_vector kind i reg t None now s = (True, s\<lparr>en_store := st'\<rparr>)" "drained (rg_corpus_key reg) kind i ?st st'"
        using store_vector_drains [OF inv t] by blast
      with None show thesis using x(1) Some y by (intro that [of Skipped st' w]) (simp_all add: embed_item_def)
    next
      case c: (Some content)
      obtain u w' where u: "embed_unit F H reg content (kind = PendingQuestion) (s, w) = (Inr u, s, w')"
        by (rule embed_unit_answering [OF host])
      obtain st' where "store_vector kind i reg t (Some (vault_seal_bytes (env_crypto V) iv v (to_le_bytes u) (item_aad kind i))) now s =
          (True, s\<lparr>en_store := st'\<rparr>)" "drained (rg_corpus_key reg) kind i ?st st'"
        using store_vector_drains [OF inv t] by blast
      with c u show thesis using x(1) Some y by (intro that [of Embedded st' w']) (simp_all add: embed_item_def)
    qed
  qed
qed

lemma embed_loop_drains:
  assumes "store_inv (en_store s)" and host: "answering F H (rg_embedder reg) (rg_dims reg)"
  shows "\<exists>c' st' w'. embed_loop V F H v reg ivs clk items c (s, w) = (Inr c', s\<lparr>en_store := st'\<rparr>, w') \<and>
    es_failed c' = es_failed c \<and> es_attempted c' = es_attempted c + length items \<and>
    es_embedded c' + es_skipped c' = es_embedded c + es_skipped c + length items \<and>
    store_inv st' \<and> same_synced (en_store s) st' \<and>
    pending_note_rows st' (rg_corpus_key reg) =
      filter (\<lambda>r. \<forall>i. (PendingNote, i) \<in> set items \<longrightarrow> r ''id'' \<noteq> SText i) (pending_note_rows (en_store s) (rg_corpus_key reg)) \<and>
    pending_question_rows st' (rg_corpus_key reg) =
      filter (\<lambda>r. \<forall>i. (PendingQuestion, i) \<in> set items \<longrightarrow> r ''id'' \<noteq> SText i) (pending_question_rows (en_store s) (rg_corpus_key reg))"
  using assms(1)
proof (induction items arbitrary: s w c)
  case Nil
  then show ?case by (intro exI [of _ c] exI [of _ "en_store s"] exI [of _ w]) simp
next
  case (Cons item items)
  obtain kind i where item: "item = (kind, i)" by (cases item)
  obtain out st1 w1 where e: "embed_item V F H v reg (ivs (es_attempted c)) (clk (es_attempted c)) (kind, i) (s, w) = (out, s\<lparr>en_store := st1\<rparr>, w1)"
    and out: "out \<in> {Embedded, Skipped}" and d: "drained (rg_corpus_key reg) kind i (en_store s) st1"
    by (rule embed_item_drains [OF Cons.prems host])
  define c1 where "c1 = (if out = Embedded then c\<lparr>es_attempted := es_attempted c + 1, es_embedded := es_embedded c + 1\<rparr>
    else c\<lparr>es_attempted := es_attempted c + 1, es_skipped := es_skipped c + 1\<rparr>)"
  have step: "embed_loop V F H v reg ivs clk (item # items) c (s, w) = embed_loop V F H v reg ivs clk items c1 (s\<lparr>en_store := st1\<rparr>, w1)"
    using out by (auto simp: item e c1_def)
  have "store_inv (en_store (s\<lparr>en_store := st1\<rparr>))" using d by (simp add: drained_def)
  from Cons.IH [OF this, of c1 w1] obtain c' st' w' where
    l: "embed_loop V F H v reg ivs clk items c1 (s\<lparr>en_store := st1\<rparr>, w1) = (Inr c', s\<lparr>en_store := st'\<rparr>, w')"
    and cs: "es_failed c' = es_failed c1" "es_attempted c' = es_attempted c1 + length items"
      "es_embedded c' + es_skipped c' = es_embedded c1 + es_skipped c1 + length items"
    and st': "store_inv st'" "same_synced st1 st'"
    and p: "pending_note_rows st' (rg_corpus_key reg) =
        filter (\<lambda>r. \<forall>i. (PendingNote, i) \<in> set items \<longrightarrow> r ''id'' \<noteq> SText i) (pending_note_rows st1 (rg_corpus_key reg))"
      "pending_question_rows st' (rg_corpus_key reg) =
        filter (\<lambda>r. \<forall>i. (PendingQuestion, i) \<in> set items \<longrightarrow> r ''id'' \<noteq> SText i) (pending_question_rows st1 (rg_corpus_key reg))"
    by auto
  have rows: "pending_note_rows st' (rg_corpus_key reg) =
      filter (\<lambda>r. \<forall>i. (PendingNote, i) \<in> set (item # items) \<longrightarrow> r ''id'' \<noteq> SText i) (pending_note_rows (en_store s) (rg_corpus_key reg))"
    "pending_question_rows st' (rg_corpus_key reg) =
      filter (\<lambda>r. \<forall>i. (PendingQuestion, i) \<in> set (item # items) \<longrightarrow> r ''id'' \<noteq> SText i) (pending_question_rows (en_store s) (rg_corpus_key reg))"
    using d by (auto simp: p drained_def without_def item intro!: filter_cong)
  have "same_synced (en_store s) st'" using d st'(2) same_synced_trans by (auto simp: drained_def)
  moreover have "es_failed c1 = es_failed c" "es_attempted c1 = es_attempted c + 1"
    "es_embedded c1 + es_skipped c1 = es_embedded c + es_skipped c + 1" by (simp_all add: c1_def)
  ultimately show ?case using l cs st'(1) rows unfolding step by auto
qed

subsection \<open>A pass over the queue\<close>

lemma traverse_length: "traverse f xs = Inr ys \<Longrightarrow> length ys = length xs"
  by (induction xs arbitrary: ys) (auto split: sum.splits)

lemma pick_pending_all:
  "fm_by_note m = fmempty \<Longrightarrow> length items \<le> n \<Longrightarrow> pick_pending items n m = (map (\<lambda>(kind, i, _). (kind, i)) items, m)"
  by (auto simp: pick_pending_def Let_def case_prod_beta)

lemma all_pending_total:
  assumes inv: "store_inv st" and k: "keyed ''notes'' st" "keyed ''questions'' st"
  obtains items where "all_pending st key = Inr items"
    "length items = length (pending_note_rows st key) + length (pending_question_rows st key)"
    "\<forall>r \<in> set (pending_note_rows st key). \<exists>i t. r ''id'' = SText i \<and> (PendingNote, i, t) \<in> set items"
    "\<forall>r \<in> set (pending_question_rows st key). \<exists>i t. r ''id'' = SText i \<and> (PendingQuestion, i, t) \<in> set items"
proof -
  let ?f = "\<lambda>r. case text_column r ''id'' of Inl e \<Rightarrow> Inl e | Inr i \<Rightarrow> Inr (i, content_token_sql r)"
  let ?g = "\<lambda>r. case text_column r ''id'' of Inl e \<Rightarrow> Inl e
    | Inr i \<Rightarrow> (case text_column r ''text'' of Inl e \<Rightarrow> Inl e | Inr s \<Rightarrow> Inr (i, s))"
  have ids: "\<exists>i. r ''id'' = SText i" if "r \<in> set (pending_note_rows st key) \<union> set (pending_question_rows st key)" for r
    using that k pk_notes_questions read_schemas(4,5)
    by (auto simp: keyed_def pending_note_rows_def pending_question_rows_def)
  have f: "\<exists>i. r ''id'' = SText i \<and> ?f r = Inr (i, content_token_sql r)" if "r \<in> set (pending_note_rows st key)" for r
    using ids [of r] that by (auto simp: text_column_def)
  have g: "\<exists>i t. r ''id'' = SText i \<and> ?g r = Inr (i, t)" if q: "r \<in> set (pending_question_rows st key)" for r
  proof -
    obtain i where i: "r ''id'' = SText i" using ids q by blast
    then show ?thesis
      using q question_token_pending [OF inv, of r i]
      by (auto simp: pending_question_rows_def is_pending_question_def text_column_def)
  qed
  obtain ns where ns: "traverse ?f (sort_by (order_desc ''created_at'' ''id'') (pending_note_rows st key)) = Inr ns"
    using traverse_total [of "sort_by (order_desc ''created_at'' ''id'') (pending_note_rows st key)" ?f] f by fastforce
  obtain qs where qs: "traverse ?g (sort_by (order_desc ''created_at'' ''id'') (pending_question_rows st key)) = Inr qs"
    using traverse_total [of "sort_by (order_desc ''created_at'' ''id'') (pending_question_rows st key)" ?g] g by fastforce
  have n: "\<exists>i t. r ''id'' = SText i \<and> (i, t) \<in> set ns" if "r \<in> set (pending_note_rows st key)" for r
    using f [OF that] traverse_mem(2) [OF ns, of r] that by force
  have q: "\<exists>i t. r ''id'' = SText i \<and> (i, t) \<in> set qs" if "r \<in> set (pending_question_rows st key)" for r
    using g [OF that] traverse_mem(2) [OF qs, of r] that by force
  show thesis
  proof (rule that)
    show "all_pending st key = Inr (map (\<lambda>(i, t). (PendingQuestion, i, t)) qs @ map (\<lambda>(i, t). (PendingNote, i, t)) ns)"
      using ns qs by (simp add: all_pending_def pending_embeddings_def pending_question_embeddings_def limit_offset_def)
  qed (use traverse_length [OF ns] traverse_length [OF qs] n q in \<open>force+\<close>)
qed

lemma find_filter_eq: "(\<And>x. x \<in> set xs \<Longrightarrow> P x \<Longrightarrow> Q x) \<Longrightarrow> find P (filter Q xs) = find P xs"
  by (induction xs) auto

lemma pending_after_sweep [simp]:
  "pending_note_rows (snd (sweep_orphan_embeddings st)) key = pending_note_rows st key"
  "pending_question_rows (snd (sweep_orphan_embeddings st)) key = pending_question_rows st key"
proof -
  have n: "is_pending (snd (sweep_orphan_embeddings st)) key r = is_pending st key r" if "r \<in> set (tables st ''notes'')" for r
  proof (cases "is_live r")
    case True
    then have "find (\<lambda>e. r ''id'' = SText (emb_owner e)) (filter (\<lambda>e. has_live_row st ''notes'' (emb_owner e)) (embeddings st)) =
        find (\<lambda>e. r ''id'' = SText (emb_owner e)) (embeddings st)"
      using that by (intro find_filter_eq) (auto simp: has_live_row_def list_ex_iff)
    then show ?thesis by (simp add: is_pending_def sweep_orphan_embeddings_def)
  qed (simp add: is_pending_def)
  have q: "is_pending_question (snd (sweep_orphan_embeddings st)) key r = is_pending_question st key r"
    if "r \<in> set (tables st ''questions'')" for r
  proof (cases "is_live r")
    case True
    then have "find (\<lambda>e. r ''id'' = SText (emb_owner e)) (filter (\<lambda>e. has_live_row st ''questions'' (emb_owner e)) (question_embeddings st)) =
        find (\<lambda>e. r ''id'' = SText (emb_owner e)) (question_embeddings st)"
      using that by (intro find_filter_eq) (auto simp: has_live_row_def list_ex_iff)
    then show ?thesis by (simp add: is_pending_question_def sweep_orphan_embeddings_def)
  qed (simp add: is_pending_question_def)
  show "pending_note_rows (snd (sweep_orphan_embeddings st)) key = pending_note_rows st key"
    "pending_question_rows (snd (sweep_orphan_embeddings st)) key = pending_question_rows st key"
    using n q by (auto simp: pending_note_rows_def pending_question_rows_def sweep_orphan_embeddings_def cong: filter_cong)
qed

lemma keyed_synced: "same_synced st st' \<Longrightarrow> keyed table st' = keyed table st"
  by (simp add: keyed_def same_synced_def)

lemma embed_pending_drains:
  assumes inv: "store_inv (en_store s)" "keyed ''notes'' (en_store s)" "keyed ''questions'' (en_store s)"
    and reg: "en_embedder s = Some reg" "answering F H (rg_embedder reg) (rg_dims reg)"
    and fresh: "fm_by_note (en_failures s) = fmempty"
    and room: "pending_embedding_count (en_store s) (rg_corpus_key reg) \<le> int max_items"
  shows "\<exists>c st' w'. embed_pending V F H v ivs clk max_items (s, w) = (Inr c, s\<lparr>en_store := st'\<rparr>, w') \<and>
    es_failed c = 0 \<and> es_pending c = 0 \<and> es_embedded c + es_skipped c = es_attempted c \<and>
    int (es_attempted c) = pending_embedding_count (en_store s) (rg_corpus_key reg) \<and>
    store_inv st' \<and> same_synced (en_store s) st' \<and> pending_embedding_count st' (rg_corpus_key reg) = 0"
proof -
  let ?key = "rg_corpus_key reg"
  define st where "st = snd (sweep_orphan_embeddings (en_store s))"
  have sync: "same_synced (en_store s) st" by (simp add: st_def)
  have st: "store_inv st" using inv(1) by (simp add: st_def sweep_orphan_embeddings_def Let_def store_inv_both_vectors)
  have k: "keyed ''notes'' st" "keyed ''questions'' st" using inv(2,3) keyed_synced [OF sync] by simp_all
  obtain items where items: "all_pending st ?key = Inr items"
      "length items = length (pending_note_rows st ?key) + length (pending_question_rows st ?key)"
    and mem: "\<forall>r \<in> set (pending_note_rows st ?key). \<exists>i t. r ''id'' = SText i \<and> (PendingNote, i, t) \<in> set items"
      "\<forall>r \<in> set (pending_question_rows st ?key). \<exists>i t. r ''id'' = SText i \<and> (PendingQuestion, i, t) \<in> set items"
    by (rule all_pending_total [OF st k])
  have len: "int (length items) = pending_embedding_count (en_store s) ?key"
    using items(2) by (simp add: pending_embedding_count_def st_def)
  let ?picked = "map (\<lambda>(kind, i, _). (kind, i)) items"
  have pick: "pick_pending items max_items (en_failures s) = (?picked, en_failures s)"
    by (rule pick_pending_all [OF fresh]) (use len room in linarith)
  have s: "s\<lparr>en_store := st, en_failures := en_failures s\<rparr> = s\<lparr>en_store := st\<rparr>" by simp
  have i: "store_inv (en_store (s\<lparr>en_store := st\<rparr>))" using st by simp
  obtain c st' w' where l: "embed_loop V F H v reg ivs clk ?picked no_embeds (s\<lparr>en_store := st\<rparr>, w) =
      (Inr c, s\<lparr>en_store := st'\<rparr>, w')"
    and c: "es_failed c = 0" "es_attempted c = length items" "es_embedded c + es_skipped c = length items"
    and st': "store_inv st'" "same_synced st st'"
    and n: "pending_note_rows st' ?key =
        filter (\<lambda>r. \<forall>i. (PendingNote, i) \<in> set ?picked \<longrightarrow> r ''id'' \<noteq> SText i) (pending_note_rows st ?key)"
    and q: "pending_question_rows st' ?key =
        filter (\<lambda>r. \<forall>i. (PendingQuestion, i) \<in> set ?picked \<longrightarrow> r ''id'' \<noteq> SText i) (pending_question_rows st ?key)"
    using embed_loop_drains [OF i reg(2), of V v ivs clk ?picked no_embeds w] by (auto simp: no_embeds_def)
  have "pending_note_rows st' ?key = []" unfolding n using mem(1) by (force simp: filter_empty_conv)
  moreover have "pending_question_rows st' ?key = []" unfolding q using mem(2) by (force simp: filter_empty_conv)
  ultimately have z: "pending_embedding_count st' ?key = 0" by (simp add: pending_embedding_count_def)
  have "embed_pending V F H v ivs clk max_items (s, w) = (Inr (c\<lparr>es_pending := 0\<rparr>), s\<lparr>en_store := st'\<rparr>, w')"
    using items(1) pick l z reg(1) s
    by (simp add: embed_pending_def registered_embedder_def pending_for_def as_u32_def Let_def flip: st_def)
  then show ?thesis using c st'(1) same_synced_trans [OF sync st'(2)] z len by auto
qed

text \<open>
  Property C17.  Property.  Registering an embedder and then making one pass over the embed queue ends with nothing
  pending: when the host answers every text with a vector of the declared dimension that has a
  direction, and the pass may take as many items as are pending, the pass returns, it fails on no
  item, every pending item was attempted and is embedded or skipped, the count read afterwards is
  0, and the synced tables, the outbox and the meta values are those from before the registration.
\<close>

theorem embed_drains:
  assumes "store_inv (en_store s)" "keyed ''notes'' (en_store s)" "keyed ''questions'' (en_store s)"
    and "register_embedder H emb s = (Inr summary, s1)" "answering F H emb (ed_dims (ho_descriptor H emb))"
    and "pending_embedding_count (en_store s1) (corpus_key (ho_descriptor H emb)) \<le> int max_items"
  shows "\<exists>c s2 w2. embed_pending V F H v ivs clk max_items (s1, w) = (Inr c, s2, w2) \<and>
    es_failed c = 0 \<and> es_pending c = 0 \<and> es_embedded c + es_skipped c = es_attempted c \<and>
    int (es_attempted c) = pending_embedding_count (en_store s1) (corpus_key (ho_descriptor H emb)) \<and>
    pending_embed_count s2 = Inr 0 \<and> store_inv (en_store s2) \<and> same_synced (en_store s) (en_store s2)"
proof -
  let ?d = "ho_descriptor H emb"
  obtain reg where reg: "en_embedder s1 = Some reg" "rg_embedder reg = emb" "rg_corpus_key reg = corpus_key ?d" "rg_dims reg = ed_dims ?d"
    and m: "fm_by_note (en_failures s1) = fmempty"
    and st: "en_store s1 = snd (delete_embeddings_not_matching (en_store s) (corpus_key ?d))"
    using assms(4) by (auto simp: register_embedder_def Let_def split: if_splits)
  have sync: "same_synced (en_store s) (en_store s1)" by (simp add: st)
  have i: "store_inv (en_store s1)"
    using assms(1) by (simp add: st delete_embeddings_not_matching_def Let_def store_inv_both_vectors)
  have "keyed ''notes'' (en_store s1)" "keyed ''questions'' (en_store s1)"
    using assms(2,3) keyed_synced [OF sync] by simp_all
  from embed_pending_drains [OF i this reg(1) _ m, of F H max_items V v ivs clk w]
  obtain c st' w' where e: "embed_pending V F H v ivs clk max_items (s1, w) = (Inr c, s1\<lparr>en_store := st'\<rparr>, w')"
    and c: "es_failed c = 0" "es_pending c = 0" "es_embedded c + es_skipped c = es_attempted c"
      "int (es_attempted c) = pending_embedding_count (en_store s1) (corpus_key ?d)"
    and st': "store_inv st'" "same_synced (en_store s1) st'" "pending_embedding_count st' (corpus_key ?d) = 0"
    using assms(5,6) reg(2-4) by auto
  have "pending_embed_count (s1\<lparr>en_store := st'\<rparr>) = Inr 0"
    using reg(1,3) st'(3) by (simp add: pending_embed_count_def registered_embedder_def pending_for_def as_u32_def)
  then show ?thesis using e c st' same_synced_trans [OF sync st'(2)] by fastforce
qed

text \<open>A host whose one embedder, of dimension 1, answers 1.0 to everything.\<close>

definition constant_host :: "(unit, unit) host" where
  "constant_host = \<lparr>ho_descriptor = (\<lambda>_. \<lparr>ed_model_id = ''m'', ed_dims = 1, ed_quantization = ''q''\<rparr>),
     ho_document = (\<lambda>_ _ sw. (Inr [0x3F800000], sw)), ho_query = (\<lambda>_ _ sw. (Inr [0x3F800000], sw))\<rparr>"

lemma constant_host_answers: "answering exact_lib constant_host () 1"
proof -
  have "f64_of_f32 0x3F800000 = Fin 1" by (simp add: f64_of_f32_def)
  then have "normalize exact_lib [0x3F800000] \<noteq> None"
    by (simp add: normalize_def norm_squared_def exact_lib_def Let_def is_finite_def fle_def)
  then show ?thesis by (simp add: answering_def constant_host_def)
qed

definition family_engine :: "unit engine" where
  "family_engine = \<lparr>en_store = family_store, en_embedder = None, en_failures = \<lparr>fm_generation = 0, fm_by_note = fmempty\<rparr>\<rparr>"

theorem embed_drains_witness:
  "case register_embedder constant_host () family_engine of
     (Inr _, s1) \<Rightarrow>
       (case embed_pending (demo_env mute_serde) exact_lib constant_host (new_vault toy_mk) (\<lambda>_. toy_iv) (\<lambda>_. 1) 10 (s1, ()) of
          (Inr c, s2, _) \<Rightarrow> es_attempted c = 2 \<and> es_failed c = 0 \<and> pending_embed_count s2 = Inr 0
        | _ \<Rightarrow> False)
   | _ \<Rightarrow> False"
proof -
  let ?key = "corpus_key (ho_descriptor constant_host ())"
  obtain summary s1 where r: "register_embedder constant_host () family_engine = (Inr summary, s1)"
    and st: "en_store s1 = snd (delete_embeddings_not_matching family_store ?key)"
    by (auto simp: register_embedder_def constant_host_def family_engine_def Let_def)
  have n: "pending_embedding_count (en_store s1) ?key = 2"
    by (simp add: st pending_embedding_count_def pending_note_rows_def pending_question_rows_def is_pending_def
        is_live_def family_store_def empty_store_def delete_embeddings_not_matching_def)
  have k: "keyed ''notes'' (en_store family_engine)" "keyed ''questions'' (en_store family_engine)"
    by (simp_all add: keyed_def read_schemas(4,5) family_engine_def family_store_def)
  have i: "store_inv (en_store family_engine)" by (simp add: family_engine_def family_store_inv)
  have a: "answering exact_lib constant_host () (ed_dims (ho_descriptor constant_host ()))"
    using constant_host_answers by (simp add: constant_host_def)
  have le: "pending_embedding_count (en_store s1) ?key \<le> int 10" by (simp add: n)
  from embed_drains [OF i k r a le, of "demo_env mute_serde" "new_vault toy_mk" "\<lambda>_. toy_iv" "\<lambda>_. 1" "()"] n r
  show ?thesis by auto
qed

end
