(* ===== verification/Snapshot_Laws.thy ===== *)
theory Snapshot_Laws
  imports Snapshot_Import Facade_Laws
begin

text \<open>
  Properties of the snapshot import: what the parser accepts is keyed and stamped, a failed import
  stages nothing, an import keeps the newer row of every record and stamps what it takes newer than
  all it was compared with, and imported texts read back.
\<close>

subsection \<open>Parsed rows\<close>

lemma option_filter_Some [simp]: "option_filter P x = Some a \<longleftrightarrow> x = Some a \<and> P a"
  by (cases x) (auto simp: option_filter_def)

lemma option_filter_None: "option_filter P None = None"
  by (simp add: option_filter_def)

definition parsed_row_ok :: "string \<Rightarrow> normalized_row \<Rightarrow> bool" where
  "parsed_row_ok pk c \<longleftrightarrow> nz_primary_key c \<noteq> [] \<and> fmlookup (nz_row c) pk = Some (JString (nz_primary_key c))"

lemma normalize_rows_ok:
  assumes "normalize_rows vs ik pk nf seen = Inr rs" "pk \<noteq> ''deleted''"
  shows "distinct (map nz_primary_key rs) \<and> set (map nz_primary_key rs) \<inter> set seen = {} \<and> list_all (parsed_row_ok pk) rs"
  using assms
proof (induction vs ik pk nf seen arbitrary: rs rule: normalize_rows.induct)
  case (2 x vs ik pk nf seen)
  obtain input key r rs' where i: "as_object x = Some input" "validate_deleted input = Inr ()"
    and k: "option_filter (\<lambda>k. k \<noteq> []) (row_str input ik) = Some key" "key \<notin> set seen"
    and n: "nf input key = Inr r" and rec: "normalize_rows vs ik pk nf (key # seen) = Inr rs'"
    and rs: "nz_primary_key (hd rs) = key" "fmlookup (nz_row (hd rs)) pk = Some (JString key)" "rs = hd rs # rs'"
    using 2(2,3) by (auto simp: and_then_Inr Let_def split: option.splits if_splits)
  have ih: "distinct (map nz_primary_key rs')" "set (map nz_primary_key rs') \<inter> set (key # seen) = {}" "list_all (parsed_row_ok pk) rs'"
    using 2(1) [OF i(1) k refl rec 2(3)] by auto
  have "key \<noteq> []" using k(1) by simp
  then have "parsed_row_ok pk (hd rs)" using rs(1,2) by (simp add: parsed_row_ok_def)
  then show ?case using ih k(2) rs(1) by (subst (1 2 3) rs(3)) auto
qed simp

text \<open>A parsed archive: each table's rows carry distinct, non-empty keys in their key column.\<close>

definition archive_pk :: "string \<Rightarrow> string" where
  "archive_pk table = (if table = ''note_signals'' then ''note_id'' else ''id'')"

lemma parse_import_keyed:
  assumes "parse_import_at J L F archive now = Inr parsed" "(table, rows) \<in> set (owned_tables parsed)"
  shows "distinct (map nz_primary_key rows) \<and> list_all (parsed_row_ok (archive_pk table)) rows"
proof -
  from assms(1) obtain bv b nv n iv i lv l ev e cv c mv m sv s ver f1 f2 f3 f4 f5 f6 f7 f8 where
    "normalize_rows bv ''id'' ''id'' f1 [] = Inr b" "normalize_rows nv ''id'' ''id'' f2 [] = Inr n"
    "normalize_rows iv ''id'' ''id'' f3 [] = Inr i" "normalize_rows lv ''id'' ''id'' f4 [] = Inr l"
    "normalize_rows ev ''id'' ''id'' f5 [] = Inr e" "normalize_rows cv ''id'' ''id'' f6 [] = Inr c"
    "normalize_rows mv ''id'' ''id'' f7 [] = Inr m" "normalize_rows sv ''noteId'' ''note_id'' f8 [] = Inr s"
    "parsed = \<lparr>ni_schema_version = ver, ni_books = b, ni_notes = n, ni_custom_ideas = i, ni_note_links = l,
       ni_lenses = e, ni_collections = c, ni_collection_memberships = m, ni_note_signals = s\<rparr>"
    unfolding parse_import_at_def and_then_Inr by (force split: option.splits if_splits simp: and_then_Inr)
  note p = this
  show ?thesis
    using assms(2) p(1-8) [THEN normalize_rows_ok] by (auto simp: p(9) owned_tables_def archive_tables_def archive_pk_def)
qed

subsection \<open>The selection\<close>

definition local_stamp_of :: "serde \<Rightarrow> store \<Rightarrow> string \<times> normalized_row \<Rightarrow> int option" where
  "local_stamp_of J st x = Option.bind (row_at J st (fst x) (nz_primary_key (snd x))) (\<lambda>r. row_i64 r ''updated_at'')"

definition server_stamp_of :: "server_state \<Rightarrow> string \<times> normalized_row \<Rightarrow> int option" where
  "server_stamp_of server x = Option.bind (server_row_of server (fst x) (nz_primary_key (snd x))) (\<lambda>r. row_i64 r ''updated_at'')"

text \<open>A candidate is newer when no row of its record, here or on the server, is at least as new.\<close>

definition newer :: "serde \<Rightarrow> store \<Rightarrow> server_state \<Rightarrow> string \<times> normalized_row \<Rightarrow> bool" where
  "newer J st server x \<longleftrightarrow> (\<forall>t. local_stamp_of J st x = Some t \<or> server_stamp_of server x = Some t \<longrightarrow> t < nz_updated_at (snd x))"

definition taken :: "serde \<Rightarrow> crypto \<Rightarrow> vault \<Rightarrow> store \<Rightarrow> server_state \<Rightarrow> string \<times> normalized_row \<Rightarrow> string \<times> normalized_row" where
  "taken J C v st server x =
     (fst x, if fst x = ''books''
       then (snd x)\<lparr>nz_row := keep_book_columns C v (nz_primary_key (snd x))
         (existing_books (row_at J st (fst x) (nz_primary_key (snd x))) (server_row_of server (fst x) (nz_primary_key (snd x)))
           (local_stamp_of J st x) (server_stamp_of server x)) (nz_row (snd x))\<rparr>
       else snd x)"

definition counted :: "import_counts \<Rightarrow> string \<Rightarrow> nat" where
  "counted c table =
     (if table = ''books'' then ic_books c else if table = ''notes'' then ic_notes c
      else if table = ''custom_ideas'' then ic_custom_ideas c else if table = ''note_links'' then ic_note_links c
      else if table = ''lenses'' then ic_lenses c else if table = ''collections'' then ic_collections c
      else if table = ''collection_memberships'' then ic_collection_memberships c
      else if table = ''note_signals'' then ic_note_signals c else 0)"

lemma count_up_Suc: "count_up n = Inr m \<Longrightarrow> m = Suc n"
  by (simp add: count_up_def split: if_splits)

lemma increment_cases:
  assumes "increment c table = Inr c'"
  obtains "table = ''books''" "c' = c\<lparr>ic_books := Suc (ic_books c)\<rparr>"
  | "table = ''notes''" "c' = c\<lparr>ic_notes := Suc (ic_notes c)\<rparr>"
  | "table = ''custom_ideas''" "c' = c\<lparr>ic_custom_ideas := Suc (ic_custom_ideas c)\<rparr>"
  | "table = ''note_links''" "c' = c\<lparr>ic_note_links := Suc (ic_note_links c)\<rparr>"
  | "table = ''lenses''" "c' = c\<lparr>ic_lenses := Suc (ic_lenses c)\<rparr>"
  | "table = ''collections''" "c' = c\<lparr>ic_collections := Suc (ic_collections c)\<rparr>"
  | "table = ''collection_memberships''" "c' = c\<lparr>ic_collection_memberships := Suc (ic_collection_memberships c)\<rparr>"
  | "table = ''note_signals''" "c' = c\<lparr>ic_note_signals := Suc (ic_note_signals c)\<rparr>"
  using assms unfolding increment_def
  by (simp only: and_then_Inr split: if_splits) (auto dest: count_up_Suc)

lemma increment_counted: "increment c table = Inr c' \<Longrightarrow> counted c' t = counted c t + (if t = table then 1 else 0)"
  by (erule increment_cases) (cases "t = table"; simp add: counted_def)+

lemma counted_none [simp]: "counted no_counts t = 0"
  by (simp add: counted_def no_counts_def)

lemma newest_of_le: "(a = Some t \<or> b = Some t) \<Longrightarrow> \<exists>m. newest_of a b = Some m \<and> t \<le> m"
  by (cases a; cases b) (auto simp: newest_of_def)

lemma newest_of_Some: "newest_of a b = Some m \<Longrightarrow> a = Some m \<or> b = Some m"
  by (cases a; cases b) (auto simp: newest_of_def max_def split: if_splits)

lemma select_row_cases:
  assumes "select_row J C v st server table c sl = Inr sl'"
  shows "if newer J st server (table, c)
    then increment (sl_imported sl) table = Inr (sl_imported sl') \<and> sl_skipped sl' = sl_skipped sl \<and>
      sl_accepted sl' = sl_accepted sl @ [taken J C v st server (table, c)] \<and>
      sl_newest sl' = newest_of (newest_of (newest_of (sl_newest sl) (Some (nz_updated_at c))) (local_stamp_of J st (table, c)))
        (server_stamp_of server (table, c))
    else increment (sl_skipped sl) table = Inr (sl_skipped sl') \<and> sl_imported sl' = sl_imported sl \<and>
      sl_accepted sl' = sl_accepted sl \<and> sl_newest sl' = sl_newest sl"
proof -
  obtain l where l: "get_row J st table (nz_primary_key c) = Inr l"
    using assms by (auto simp: select_row_def split: sum.splits)
  let ?s = "server_row_of server table (nz_primary_key c)"
  obtain lu su where lu: "state_timestamp l = Inr lu" and su: "server_timestamp ?s = Inr su"
    using assms l by (auto simp: select_row_def and_then_Inr)
  have ls: "local_stamp_of J st (table, c) = lu"
    using lu by (auto simp: local_stamp_of_def row_at_def l state_timestamp_def split: option.splits)
  have ss: "server_stamp_of server (table, c) = su"
    using su by (auto simp: server_stamp_of_def server_timestamp_def split: option.splits)
  have stale: "(case newest_of lu su of None \<Rightarrow> False | Some t \<Rightarrow> nz_updated_at c \<le> t) \<longleftrightarrow> \<not> newer J st server (table, c)"
    unfolding newer_def ls ss using newest_of_le [of lu _ su] newest_of_Some [of lu su]
    by (cases "newest_of lu su") (fastforce simp: not_less)+
  show ?thesis
  proof (cases "newer J st server (table, c)")
    case True
    then have "accept_row C v server table c l lu su sl = Inr sl'"
      using assms by (simp add: select_row_def l lu su stale)
    then obtain n where n: "increment (sl_imported sl) table = Inr n" and sl': "sl' = sl\<lparr>sl_imported := n,
        sl_accepted := sl_accepted sl @ [(table, if table = ''books''
          then c\<lparr>nz_row := keep_book_columns C v (nz_primary_key c) (existing_books l ?s lu su) (nz_row c)\<rparr> else c)],
        sl_newest := newest_of (newest_of (newest_of (sl_newest sl) (Some (nz_updated_at c))) lu) su\<rparr>"
      unfolding accept_row_def and_then_Inr Let_def by auto
    have "row_at J st table (nz_primary_key c) = l" by (simp add: row_at_def l)
    then have "taken J C v st server (table, c) = (table, if table = ''books''
        then c\<lparr>nz_row := keep_book_columns C v (nz_primary_key c) (existing_books l ?s lu su) (nz_row c)\<rparr> else c)"
      by (simp only: taken_def ls ss fst_conv snd_conv)
    then show ?thesis using True n sl' by (simp add: ls ss)
  next
    case False
    then show ?thesis using assms by (auto simp: select_row_def l lu su stale and_then_Inr)
  qed
qed

text \<open>What the selection loop leaves.\<close>

definition bounds :: "int option \<Rightarrow> int option \<Rightarrow> bool" where
  "bounds m x \<longleftrightarrow> (\<forall>t. x = Some t \<longrightarrow> (\<exists>n. m = Some n \<and> t \<le> n))"

lemma bounds_newest: "bounds m x \<Longrightarrow> bounds (newest_of m y) x" "bounds (newest_of m y) y"
  by (cases m; cases y; fastforce simp: bounds_def newest_of_def)+

definition bounded_by :: "serde \<Rightarrow> store \<Rightarrow> server_state \<Rightarrow> int option \<Rightarrow> string \<times> normalized_row \<Rightarrow> bool" where
  "bounded_by J st server m x \<longleftrightarrow> bounds m (Some (nz_updated_at (snd x))) \<and> bounds m (local_stamp_of J st x) \<and>
     bounds m (server_stamp_of server x)"

lemma bounded_by_newest: "bounded_by J st server m x \<Longrightarrow> bounded_by J st server (newest_of m y) x"
  by (simp add: bounded_by_def bounds_newest)

lemma select_rows_spec:
  assumes "select_rows J C v st server xs sl = Inr sl'"
  shows "sl_accepted sl' = sl_accepted sl @ map (taken J C v st server) (filter (newer J st server) xs) \<and>
    (\<forall>x. bounded_by J st server (sl_newest sl) x \<or> x \<in> set (filter (newer J st server) xs) \<longrightarrow> bounded_by J st server (sl_newest sl') x) \<and>
    (\<forall>t. counted (sl_imported sl') t = counted (sl_imported sl) t + length (filter (\<lambda>x. fst x = t \<and> newer J st server x) xs)) \<and>
    (\<forall>t. counted (sl_skipped sl') t = counted (sl_skipped sl) t + length (filter (\<lambda>x. fst x = t \<and> \<not> newer J st server x) xs))"
  using assms
proof (induction J C v st server xs sl rule: select_rows.induct)
  case (2 J C v st server table c rest sl)
  obtain sl1 where one: "select_row J C v st server table c sl = Inr sl1" and more: "select_rows J C v st server rest sl1 = Inr sl'"
    using 2(2) by (auto simp: and_then_Inr)
  note ih = 2(1) [OF more]
  note step = select_row_cases [OF one]
  show ?case
  proof (cases "newer J st server (table, c)")
    case True
    have "bounded_by J st server (sl_newest sl1) (table, c)"
      using step True by (simp add: bounded_by_def bounds_newest)
    moreover have "bounded_by J st server (sl_newest sl) x \<Longrightarrow> bounded_by J st server (sl_newest sl1) x" for x
      using step True by (simp add: bounded_by_newest)
    ultimately show ?thesis using ih step True increment_counted [of "sl_imported sl" table "sl_imported sl1"] by auto
  next
    case False
    then show ?thesis using ih step increment_counted [of "sl_skipped sl" table "sl_skipped sl1"] by auto
  qed
qed simp

subsection \<open>The staged batch\<close>

abbreviation write_key :: "import_write \<Rightarrow> string \<times> string" where
  "write_key w \<equiv> (iw_table w, iw_record_id w)"

definition write_ok :: "import_write \<Rightarrow> bool" where
  "write_ok w \<longleftrightarrow> (\<exists>t. table_schema (iw_table w) = Some t \<and> row_str (iw_row w) (pk_of t) = Some (iw_record_id w))"

lemma stage_import_rows:
  assumes "stage_import_batch J st ws now = Inr st'" "list_all write_ok ws" "distinct (map write_key ws)"
  shows "(\<forall>w \<in> set ws. row_at J st' (iw_table w) (iw_record_id w) =
      Some (stored_row J (the (table_schema (iw_table w))) (iw_row w))) \<and>
    (\<forall>table i. (table, i) \<notin> write_key ` set ws \<longrightarrow> row_at J st' table i = row_at J st table i)"
  using assms
proof (induction J st ws now rule: stage_import_batch.induct)
  case (2 J st w ws now)
  let ?d = "snd (drop_pending_deletes_inner J st (iw_table w) (iw_record_id w))"
  obtain st1 where ap: "apply_row J ?d (iw_table w) (iw_row w) = Inr st1"
    and rest: "stage_import_batch J (enqueue st1 (iw_table w) (iw_record_id w) (to_str J (JObject (iw_row w))) now) ws now = Inr st'"
    using 2(2) by (auto split: sum.splits)
  obtain t where t: "table_schema (iw_table w) = Some t" "row_str (iw_row w) (pk_of t) = Some (iw_record_id w)"
    using 2(3) by (auto simp: write_ok_def)
  have d: "get_row J ?d = get_row J st" by (rule get_row_frame) simp
  have one: "row_at J st1 table i = (if (table, i) = write_key w then Some (stored_row J t (iw_row w)) else row_at J st table i)" for table i
    using get_row_apply [OF ap t, of i] get_row_apply_other [OF ap, of table i] d
    by (cases "table = iw_table w") (simp_all add: row_at_def)
  have ih: "\<forall>w \<in> set ws. row_at J st' (iw_table w) (iw_record_id w) = Some (stored_row J (the (table_schema (iw_table w))) (iw_row w))"
    "\<forall>table i. (table, i) \<notin> write_key ` set ws \<longrightarrow> row_at J st' table i = row_at J st1 table i"
    using 2(1) [OF ap rest] 2(3,4) by (simp_all add: row_at_def)
  have "write_key w \<notin> write_key ` set ws" using 2(4) by simp
  then have "row_at J st' (iw_table w) (iw_record_id w) = Some (stored_row J t (iw_row w))"
    using ih(2) one by simp
  with ih one t(1) show ?case by auto
qed simp

lemma fmlookup_complete_row:
  "fmlookup (complete_row t r) c = (if c \<in> fst ` set (ts_columns t) then Some (unwrap_or (fmlookup r c) JNull) else None)"
proof -
  have "map_of (map (\<lambda>(c, _). (c, unwrap_or (fmlookup r c) JNull)) cs) c =
      (if c \<in> fst ` set cs then Some (unwrap_or (fmlookup r c) JNull) else None)" for cs :: "(string \<times> col_type) list"
    by (induction cs) auto
  then show ?thesis by (simp add: complete_row_def fmlookup_of_list)
qed

text \<open>The columns the import sets itself; the rest of a candidate's row is written as it is.\<close>

definition own_columns :: "string set" where
  "own_columns = {''updated_at'', ''deleted'', ''text'', ''content_tag'', ''status'', ''kind'', ''url''}"

lemma keep_book_columns_other: "c \<notin> {''status'', ''kind'', ''url''} \<Longrightarrow> fmlookup (keep_book_columns C v i ex r) c = fmlookup r c"
  by (simp add: keep_book_columns_def) (auto split: option.split)

lemma taken_simps [simp]:
  "fst (taken J C v st server x) = fst x" "nz_primary_key (snd (taken J C v st server x)) = nz_primary_key (snd x)"
  "nz_updated_at (snd (taken J C v st server x)) = nz_updated_at (snd x)"
  by (simp_all add: taken_def)

lemma taken_other:
  "c \<notin> own_columns \<Longrightarrow> fmlookup (nz_row (snd (taken J C v st server x))) c = fmlookup (nz_row (snd x)) c"
  by (simp add: taken_def own_columns_def keep_book_columns_other)

lemma prepare_note_other:
  "prepare_note V v iv i r = Inr r' \<Longrightarrow> c \<notin> {''text'', ''content_tag''} \<Longrightarrow> fmlookup r' c = fmlookup r c"
  by (auto simp: prepare_note_def Let_def and_then_Inr split: option.splits json.splits)

lemma prepare_book_other: "c \<noteq> ''url'' \<Longrightarrow> fmlookup (prepare_book C v iv i r) c = fmlookup r c"
  by (simp add: prepare_book_def split: option.split json.split)

lemma prepare_write_ok:
  assumes "prepare_write V v iv ts x = Inr w"
  obtains t r where "table_schema (fst x) = Some t" "iw_table w = fst x" "iw_record_id w = nz_primary_key (snd x)"
    "iw_row w = complete_row t r" "fmlookup r ''updated_at'' = Some (json_i64 ts)" "fmlookup r ''deleted'' = Some (JBool False)"
    "\<And>c. c \<notin> own_columns \<Longrightarrow> fmlookup r c = fmlookup (nz_row (snd x)) c"
    "fst x = ''notes'' \<Longrightarrow> \<exists>r1. prepare_note V v iv (nz_primary_key (snd x)) (nz_row (snd x)) = Inr r1 \<and>
       fmlookup r ''text'' = fmlookup r1 ''text''"
proof -
  obtain table c where x: "x = (table, c)" by (cases x)
  obtain r1 where r1: "(if table = ''notes'' then prepare_note V v iv (nz_primary_key c) (nz_row c) else Inr (nz_row c)) = Inr r1"
    using assms by (auto simp: prepare_write_def x Let_def and_then_Inr)
  define r3 where "r3 = fmupd ''deleted'' (JBool False) (fmupd ''updated_at'' (json_i64 ts)
    (if table = ''books'' then prepare_book (env_crypto V) v iv (nz_primary_key c) r1 else r1))"
  obtain t where t: "table_schema table = Some t" "w = \<lparr>iw_table = table, iw_record_id = nz_primary_key c, iw_row = complete_row t r3\<rparr>"
    using assms r1 by (auto simp: prepare_write_def x Let_def r3_def split: option.splits)
  show thesis
  proof (rule that [of t r3])
    show "fmlookup r3 col = fmlookup (nz_row (snd x)) col" if "col \<notin> own_columns" for col
      using that r1 prepare_note_other [of V v iv "nz_primary_key c" "nz_row c" r1 col]
      by (auto simp: r3_def x own_columns_def prepare_book_other split: if_splits)
  qed (use t r1 in \<open>simp_all add: x r3_def\<close>)
qed

abbreviation cand_key :: "string \<times> normalized_row \<Rightarrow> string \<times> string" where
  "cand_key x \<equiv> (fst x, nz_primary_key (snd x))"

lemma distinct_tagged:
  "distinct (map fst ts) \<Longrightarrow> (\<And>t rs. (t, rs) \<in> set ts \<Longrightarrow> distinct (map nz_primary_key rs)) \<Longrightarrow>
   distinct (map cand_key (concat (map (\<lambda>(t, rs). map (\<lambda>r. (t, r)) rs) ts)))"
proof (induction ts)
  case (Cons a ts)
  obtain t rs where a: "a = (t, rs)" by (cases a)
  have "distinct (map nz_primary_key rs)" using Cons.prems(2) [of t rs] a by simp
  then have "distinct (map cand_key (map (\<lambda>r. (t, r)) rs))" by (simp add: comp_def distinct_map inj_on_def)
  moreover have "t \<notin> fst ` set ts" using Cons.prems(1) a by simp
  then have "cand_key ` set (map (\<lambda>r. (t, r)) rs) \<inter> cand_key ` set (concat (map (\<lambda>(t, rs). map (\<lambda>r. (t, r)) rs) ts)) = {}"
    by force
  moreover have "distinct (map cand_key (concat (map (\<lambda>(t, rs). map (\<lambda>r. (t, r)) rs) ts)))"
    using Cons by auto
  ultimately show ?case
    unfolding a list.map concat.simps prod.case map_append distinct_append set_map by blast
qed simp

lemma archive_schemas:
  "(table, f) \<in> set archive_tables \<Longrightarrow> \<exists>t. table_schema table = Some t \<and> pk_of t = archive_pk table"
  by (auto simp: archive_tables_def archive_pk_def table_schema_def schema_defs pk_of_def)

lemma candidates_ok:
  assumes "parse_import_at J L F archive now = Inr parsed"
  shows "distinct (map cand_key (candidates_of parsed))"
    and "x \<in> set (candidates_of parsed) \<Longrightarrow> parsed_row_ok (archive_pk (fst x)) (snd x)"
    and "x \<in> set (candidates_of parsed) \<Longrightarrow> \<exists>t. table_schema (fst x) = Some t \<and> pk_of t = archive_pk (fst x)"
proof -
  note k = parse_import_keyed [OF assms]
  have "distinct (map fst (owned_tables parsed))" by (simp add: owned_tables_def archive_tables_def)
  then show "distinct (map cand_key (candidates_of parsed))"
    unfolding candidates_of_def using k by (intro distinct_tagged) auto
  assume x: "x \<in> set (candidates_of parsed)"
  then obtain rows where r: "(fst x, rows) \<in> set (owned_tables parsed)" "snd x \<in> set rows"
    by (auto simp: candidates_of_def)
  then show "parsed_row_ok (archive_pk (fst x)) (snd x)" using k by (auto simp: list_all_iff)
  show "\<exists>t. table_schema (fst x) = Some t \<and> pk_of t = archive_pk (fst x)"
    using r(1) archive_schemas by (auto simp: owned_tables_def)
qed

lemma prepare_writes_all:
  assumes "prepare_writes V v ivs ts n xs = Inr ws"
  shows "list_all2 (\<lambda>x w. \<exists>k. prepare_write V v (ivs k) ts x = Inr w) xs ws"
  using assms by (induction V v ivs ts n xs arbitrary: ws rule: prepare_writes.induct) (auto simp: and_then_Inr)

lemma prepared_write_ok:
  assumes "prepare_write V v iv ts x = Inr w" "parsed_row_ok (archive_pk (fst x)) (snd x)"
    "table_schema (fst x) = Some t" "pk_of t = archive_pk (fst x)"
  shows "write_ok w" "write_key w = cand_key x"
proof -
  obtain t' r where w: "table_schema (fst x) = Some t'" "iw_table w = fst x" "iw_record_id w = nz_primary_key (snd x)"
    "iw_row w = complete_row t' r" and other: "\<And>c. c \<notin> own_columns \<Longrightarrow> fmlookup r c = fmlookup (nz_row (snd x)) c"
    using prepare_write_ok [OF assms(1)] by metis
  have t: "t' = t" using w(1) assms(3) by simp
  have "desc_ok t" using table_schema_Some(2) [OF assms(3)] .
  then have "pk_of t \<in> fst ` set (ts_columns t)" by (auto simp: desc_ok_def dest: map_of_SomeD intro: rev_image_eqI)
  moreover have "fmlookup r (pk_of t) = Some (JString (nz_primary_key (snd x)))"
    using other [of "pk_of t"] assms(2,4) by (auto simp: parsed_row_ok_def archive_pk_def own_columns_def split: if_splits)
  ultimately show "write_ok w" using w assms(3) by (auto simp: write_ok_def t fmlookup_complete_row row_str_def)
  show "write_key w = cand_key x" using w by simp
qed

text \<open>A bound on the compared stamps, advanced by one, is above them all.\<close>

lemma bounded_by_below:
  assumes "bounded_by J st server (Some n) x" "n < batch"
  shows "nz_updated_at (snd x) < batch" "local_stamp_of J st x = Some t \<Longrightarrow> t < batch" "server_stamp_of server x = Some t \<Longrightarrow> t < batch"
  using assms by (auto simp: bounded_by_def bounds_def)

lemma select_stage_spec:
  assumes p: "parse_import_at J L F archive now = Inr parsed" and J: "J = env_serde V" and now: "is_i64 now"
    and s: "select_prepare_and_stage V v ivs parsed server now st = (Inr summary, st')"
  obtains batch where "is_i64 batch" "now \<le> batch"
    "\<forall>x \<in> set (candidates_of parsed). newer J st server x \<longrightarrow>
       (\<exists>k w t. prepare_write V v (ivs k) batch (taken J (env_crypto V) v st server x) = Inr w \<and> table_schema (fst x) = Some t \<and>
          row_at J st' (fst x) (nz_primary_key (snd x)) = Some (stored_row J t (iw_row w))) \<and>
       nz_updated_at (snd x) < batch \<and> (\<forall>t. local_stamp_of J st x = Some t \<or> server_stamp_of server x = Some t \<longrightarrow> t < batch)"
    "\<forall>table i. (table, i) \<notin> cand_key ` {x \<in> set (candidates_of parsed). newer J st server x} \<longrightarrow>
       row_at J st' table i = row_at J st table i"
    "\<forall>t. counted (is_imported summary) t = length (filter (\<lambda>x. fst x = t \<and> newer J st server x) (candidates_of parsed))"
    "\<forall>t. counted (is_skipped_stale summary) t = length (filter (\<lambda>x. fst x = t \<and> \<not> newer J st server x) (candidates_of parsed))"
proof -
  let ?xs = "candidates_of parsed" and ?C = "env_crypto V"
  let ?new = "filter (newer J st server) ?xs" and ?take = "taken J ?C v st server"
  obtain sl where sl: "select_rows J ?C v st server ?xs no_selection = Inr sl"
    and stage: "stage_selection V v ivs now (ni_schema_version parsed) sl st = (Inr summary, st')"
    using s by (auto simp: select_prepare_and_stage_def J split: sum.splits)
  note spec = select_rows_spec [OF sl]
  have acc: "sl_accepted sl = map ?take ?new" using spec by (simp add: no_selection_def)
  have bnd: "bounded_by J st server (sl_newest sl) x" if "x \<in> set ?new" for x using spec that by blast
  have cnt: "counted (sl_imported sl) t = length (filter (\<lambda>x. fst x = t \<and> newer J st server x) ?xs)"
    "counted (sl_skipped sl) t = length (filter (\<lambda>x. fst x = t \<and> \<not> newer J st server x) ?xs)" for t
    using spec by (simp_all add: no_selection_def)
  have sums: "is_imported summary = sl_imported sl" "is_skipped_stale summary = sl_skipped sl"
    using stage by (auto simp: stage_selection_def Let_def split: if_splits option.splits sum.splits)
  show thesis
  proof (cases "?new = []")
    case True
    then have "st' = st" using stage acc by (simp add: stage_selection_def Let_def)
    then show thesis using True now cnt sums by (intro that [of now]) (auto simp: filter_empty_conv)
  next
    case False
    then obtain x0 where x0: "x0 \<in> set ?new" by (metis ex_in_conv set_empty)
    obtain n where n: "sl_newest sl = Some n" using bnd [OF x0] by (auto simp: bounded_by_def bounds_def)
    define batch where "batch = max now (n + 1)"
    obtain ws where i64: "is_i64 (n + 1)" and ws: "prepare_writes V v ivs batch 0 (map ?take ?new) = Inr ws"
      and st': "stage_import_batch J st ws batch = Inr st'"
      using stage False acc n by (auto simp: stage_selection_def checked_add_def Let_def batch_def J split: if_splits sum.splits)
    have l2: "list_all2 (\<lambda>x w. \<exists>k. prepare_write V v (ivs k) batch (?take x) = Inr w) ?new ws"
      using prepare_writes_all [OF ws] by (simp add: list_all2_map1)
    have ok: "parsed_row_ok (archive_pk (fst (?take x))) (snd (?take x))" "\<exists>t. table_schema (fst (?take x)) = Some t \<and> pk_of t = archive_pk (fst (?take x))"
      if "x \<in> set ?xs" for x
      using candidates_ok(2,3) [OF p that] taken_other [of "archive_pk (fst x)" J ?C v st server x]
      by (auto simp: parsed_row_ok_def archive_pk_def own_columns_def)
    have each: "write_ok w \<and> write_key w = cand_key x" if x: "x \<in> set ?xs" "prepare_write V v iv batch (?take x) = Inr w" for x w iv
    proof -
      obtain t where t: "table_schema (fst (?take x)) = Some t" "pk_of t = archive_pk (fst (?take x))" using ok(2) [OF x(1)] by blast
      from prepared_write_ok [OF x(2) ok(1) [OF x(1)] t] show ?thesis by simp
    qed
    have "list_all2 (\<lambda>x w. write_ok w \<and> write_key w = cand_key x) ?new ws"
      unfolding list_all2_conv_all_nth
    proof (intro conjI allI impI)
      show "length ?new = length ws" using l2 by (rule list_all2_lengthD)
      fix m assume m: "m < length ?new"
      then have "?new ! m \<in> set ?new" by (rule nth_mem)
      then have "?new ! m \<in> set ?xs" by simp
      moreover obtain k where "prepare_write V v (ivs k) batch (?take (?new ! m)) = Inr (ws ! m)"
        using list_all2_nthD [OF l2 m] by blast
      ultimately show "write_ok (ws ! m)" "write_key (ws ! m) = cand_key (?new ! m)" using each by blast+
    qed
    then have wok: "list_all write_ok ws" and keys: "map write_key ws = map cand_key ?new"
      by (induction rule: list_all2_induct) auto
    have "distinct (map cand_key ?new)" using candidates_ok(1) [OF p] by (rule distinct_map_filter)
    then have dist: "distinct (map write_key ws)" using keys by simp
    note rows = stage_import_rows [OF st' wok dist]
    have set_keys: "write_key ` set ws = cand_key ` {x \<in> set ?xs. newer J st server x}"
      using arg_cong [OF keys, of set] by simp
    show thesis
    proof (rule that [of batch])
      show "is_i64 batch" "now \<le> batch" using i64 now by (auto simp: batch_def is_i64_def)
      have "(\<exists>k w t. prepare_write V v (ivs k) batch (?take x) = Inr w \<and> table_schema (fst x) = Some t \<and>
          row_at J st' (fst x) (nz_primary_key (snd x)) = Some (stored_row J t (iw_row w))) \<and>
        nz_updated_at (snd x) < batch \<and> (\<forall>t. local_stamp_of J st x = Some t \<or> server_stamp_of server x = Some t \<longrightarrow> t < batch)"
        if x: "x \<in> set ?xs" "newer J st server x" for x
      proof -
        have "x \<in> set ?new" using x by simp
        then obtain m where m: "m < length ?new" "?new ! m = x" by (auto simp: in_set_conv_nth simp del: set_filter)
        then obtain k where k: "prepare_write V v (ivs k) batch (?take x) = Inr (ws ! m)"
          using list_all2_nthD [OF l2 m(1)] by auto
        have "m < length ws" using m(1) list_all2_lengthD [OF l2] by simp
        then obtain w where w: "w \<in> set ws" "prepare_write V v (ivs k) batch (?take x) = Inr w"
          using k nth_mem by blast
        obtain t where t: "table_schema (fst x) = Some t" using candidates_ok(3) [OF p x(1)] by blast
        have "row_at J st' (fst x) (nz_primary_key (snd x)) = Some (stored_row J t (iw_row w))"
          using rows w(1) each [OF x(1) w(2)] t by auto
        moreover have "n < batch" by (simp add: batch_def)
        ultimately show ?thesis using w(2) t bounded_by_below [OF bnd [unfolded n, of x] \<open>n < batch\<close>] x by auto
      qed
      then show "\<forall>x \<in> set ?xs. newer J st server x \<longrightarrow>
        (\<exists>k w t. prepare_write V v (ivs k) batch (?take x) = Inr w \<and> table_schema (fst x) = Some t \<and>
          row_at J st' (fst x) (nz_primary_key (snd x)) = Some (stored_row J t (iw_row w))) \<and>
        nz_updated_at (snd x) < batch \<and> (\<forall>t. local_stamp_of J st x = Some t \<or> server_stamp_of server x = Some t \<longrightarrow> t < batch)"
        by blast
      show "\<forall>table i. (table, i) \<notin> cand_key ` {x \<in> set ?xs. newer J st server x} \<longrightarrow> row_at J st' table i = row_at J st table i"
        using rows set_keys by blast
    qed (use cnt sums in simp_all)
  qed
qed

subsection \<open>Importing\<close>

abbreviation preflight :: "env \<Rightarrow> 'w http_lib \<Rightarrow> client \<Rightarrow> store \<Rightarrow> 'w \<Rightarrow> pull_result \<times> store \<times> 'w" where
  "preflight V H c st w \<equiv>
     pull (env_serde V) (env_show V) (sanitized_sink (client_sink (env_serde V) H c)) synced_table_names st w"

text \<open>
  Property C15.  An import is all or nothing.  An archive that does not parse and an engine without a
  session touch neither the store nor the server; an import that fails later, at any row of any
  table, leaves exactly the store that its protective pull left, so nothing of the archive is staged;
  and when a table of that pull failed, the import fails.
\<close>

theorem import_all_or_nothing:
  "case import_merge V L H c v ivs archive now st w of (res, st', w') \<Rightarrow>
     (isl (parse_import_at (env_serde V) L (env_f64 V) archive now) \<or> access_token c = None \<longrightarrow>
        isl res \<and> st' = st \<and> w' = w) \<and>
     (isl res \<longrightarrow> st' = st \<or> st' = fst (snd (preflight V H c st w))) \<and>
     (\<not> isl res \<longrightarrow> pr_failed_tables (fst (preflight V H c st w)) = [])"
  by (auto simp: import_merge_def merge_parsed_with_sink_def select_prepare_and_stage_def stage_selection_def Let_def
      split: sum.splits prod.splits if_splits option.splits)

lemma import_merge_Inr:
  assumes "import_merge V L H c v ivs archive now st w = (Inr summary, st', w')"
  obtains parsed pulled st1 w1 server where
    "parse_import_at (env_serde V) L (env_f64 V) archive now = Inr parsed"
    "preflight V H c st w = (pulled, st1, w1)" "pr_failed_tables pulled = []"
    "fetch_candidate_state (client_repair_sink H c) parsed w1 = (Inr server, w')"
    "select_prepare_and_stage V v ivs parsed server now st1 = (Inr summary, st')"
  using assms unfolding import_merge_def merge_parsed_with_sink_def
  by (auto split: sum.splits prod.splits if_splits)

lemma taken_stored:
  assumes w: "prepare_write V v iv batch (taken J C v' st server x) = Inr w" and t: "table_schema (fst x) = Some t"
    and b: "is_i64 batch"
  shows "row_i64 (stored_row J t (iw_row w)) ''updated_at'' = Some batch" "\<not> is_deleted (stored_row J t (iw_row w))"
    and "col \<notin> own_columns \<Longrightarrow> fmlookup (stored_row J t (iw_row w)) col = fmlookup (stored_row J t (nz_row (snd x))) col"
proof -
  obtain r where r: "iw_row w = complete_row t r" "fmlookup r ''updated_at'' = Some (json_i64 batch)" "fmlookup r ''deleted'' = Some (JBool False)"
    and other: "\<And>c. c \<notin> own_columns \<Longrightarrow> fmlookup r c = fmlookup (nz_row (snd (taken J C v' st server x))) c"
    by (rule prepare_write_ok [OF w]) (use t in auto)
  have cols: "map_of (ts_columns t) ''updated_at'' = Some CInt" "map_of (ts_columns t) ''deleted'' = Some CBool"
    using table_schema_Some(2) [OF t] by (auto simp: desc_ok_def)
  then have mem: "''updated_at'' \<in> fst ` set (ts_columns t)" "''deleted'' \<in> fst ` set (ts_columns t)"
    by (auto dest: map_of_SomeD intro: rev_image_eqI)
  show "row_i64 (stored_row J t (iw_row w)) ''updated_at'' = Some batch"
    unfolding stored_row_i64 [OF cols(1)] using mem(1) b
    by (simp add: r fmlookup_complete_row row_i64_def as_i64_json_i64)
  show "\<not> is_deleted (stored_row J t (iw_row w))"
    using mem(2) by (simp add: is_deleted_def fmlookup_stored_row cols(2) r fmlookup_complete_row json_to_sql_def sql_to_json_def)
  have null: "json_to_sql J (Some (unwrap_or u JNull)) ty = json_to_sql J u ty" for u ty
    by (cases u; cases ty) (simp_all add: json_to_sql_def)
  show "fmlookup (stored_row J t (iw_row w)) col = fmlookup (stored_row J t (nz_row (snd x))) col" if c: "col \<notin> own_columns"
    using other [OF c] taken_other [OF c, of J C v' st server x] map_of_eq_None_iff [of "ts_columns t" col]
    by (cases "map_of (ts_columns t) col") (auto simp: fmlookup_stored_row r fmlookup_complete_row null dest: map_of_SomeD)
qed

text \<open>
  Property C13.  An import keeps the newer row of every record.  After the protective pull and the
  batch fetch, a row of the archive that is not newer than the stored row and the server's row is
  skipped and its record stays as the pull left it; a row that is newer than both is stored live, with
  the archive's columns (the sealed text and its tag, and what a book keeps of its own, aside), under one stamp that is later than the archive row, the stored row and the
  server's row, so that it also wins everywhere after the next flush; every other record is
  untouched, and the counts of the summary are the numbers of rows taken and skipped.
\<close>

theorem import_newest_wins:
  assumes "import_merge V L H c v ivs archive now st w = (Inr summary, st', w')" "is_i64 now"
    and "parse_import_at (env_serde V) L (env_f64 V) archive now = Inr parsed"
    and "preflight V H c st w = (pulled, st1, w1)"
  shows "\<exists>server batch. fetch_candidate_state (client_repair_sink H c) parsed w1 = (Inr server, w') \<and> now \<le> batch \<and>
    (\<forall>x \<in> set (candidates_of parsed).
       if newer (env_serde V) st1 server x
       then \<exists>r t. row_at (env_serde V) st' (fst x) (nz_primary_key (snd x)) = Some r \<and> table_schema (fst x) = Some t \<and>
          \<not> is_deleted r \<and> row_i64 r ''updated_at'' = Some batch \<and> nz_updated_at (snd x) < batch \<and>
          (\<forall>s. local_stamp_of (env_serde V) st1 x = Some s \<or> server_stamp_of server x = Some s \<longrightarrow> s < batch) \<and>
          (\<forall>col. col \<notin> own_columns \<longrightarrow> fmlookup r col = fmlookup (stored_row (env_serde V) t (nz_row (snd x))) col)
       else row_at (env_serde V) st' (fst x) (nz_primary_key (snd x)) = row_at (env_serde V) st1 (fst x) (nz_primary_key (snd x))) \<and>
    (\<forall>table i. (table, i) \<notin> cand_key ` set (candidates_of parsed) \<longrightarrow> row_at (env_serde V) st' table i = row_at (env_serde V) st1 table i) \<and>
    (\<forall>t. counted (is_imported summary) t = length (filter (\<lambda>x. fst x = t \<and> newer (env_serde V) st1 server x) (candidates_of parsed)) \<and>
       counted (is_skipped_stale summary) t = length (filter (\<lambda>x. fst x = t \<and> \<not> newer (env_serde V) st1 server x) (candidates_of parsed)))"
proof -
  let ?J = "env_serde V"
  obtain server where f: "fetch_candidate_state (client_repair_sink H c) parsed w1 = (Inr server, w')"
    and s: "select_prepare_and_stage V v ivs parsed server now st1 = (Inr summary, st')"
    using import_merge_Inr [OF assms(1)] assms(3,4) by (metis Inr_inject prod.inject)
  obtain batch where b: "is_i64 batch" "now \<le> batch"
    and new: "\<forall>x \<in> set (candidates_of parsed). newer ?J st1 server x \<longrightarrow>
       (\<exists>k w t. prepare_write V v (ivs k) batch (taken ?J (env_crypto V) v st1 server x) = Inr w \<and> table_schema (fst x) = Some t \<and>
          row_at ?J st' (fst x) (nz_primary_key (snd x)) = Some (stored_row ?J t (iw_row w))) \<and>
       nz_updated_at (snd x) < batch \<and> (\<forall>t. local_stamp_of ?J st1 x = Some t \<or> server_stamp_of server x = Some t \<longrightarrow> t < batch)"
    and old: "\<forall>table i. (table, i) \<notin> cand_key ` {x \<in> set (candidates_of parsed). newer ?J st1 server x} \<longrightarrow>
       row_at ?J st' table i = row_at ?J st1 table i"
    and cnt: "\<forall>t. counted (is_imported summary) t = length (filter (\<lambda>x. fst x = t \<and> newer ?J st1 server x) (candidates_of parsed))"
      "\<forall>t. counted (is_skipped_stale summary) t = length (filter (\<lambda>x. fst x = t \<and> \<not> newer ?J st1 server x) (candidates_of parsed))"
    by (rule select_stage_spec [OF assms(3) refl assms(2) s])
  have taken_row: "\<exists>r t. row_at ?J st' (fst x) (nz_primary_key (snd x)) = Some r \<and> table_schema (fst x) = Some t \<and>
      \<not> is_deleted r \<and> row_i64 r ''updated_at'' = Some batch \<and> nz_updated_at (snd x) < batch \<and>
      (\<forall>s. local_stamp_of ?J st1 x = Some s \<or> server_stamp_of server x = Some s \<longrightarrow> s < batch) \<and>
      (\<forall>col. col \<notin> own_columns \<longrightarrow> fmlookup r col = fmlookup (stored_row ?J t (nz_row (snd x))) col)"
    if x: "x \<in> set (candidates_of parsed)" "newer ?J st1 server x" for x
  proof -
    obtain k w t where k: "prepare_write V v (ivs k) batch (taken ?J (env_crypto V) v st1 server x) = Inr w" "table_schema (fst x) = Some t"
      and r: "row_at ?J st' (fst x) (nz_primary_key (snd x)) = Some (stored_row ?J t (iw_row w))" using new x by blast
    from taken_stored [OF k b(1)] r k(2) new x show ?thesis by blast
  qed
  have left: "row_at ?J st' (fst x) (nz_primary_key (snd x)) = row_at ?J st1 (fst x) (nz_primary_key (snd x))"
    if x: "x \<in> set (candidates_of parsed)" "\<not> newer ?J st1 server x" for x
  proof (rule old [rule_format])
    have "inj_on cand_key (set (candidates_of parsed))" using candidates_ok(1) [OF assms(3)] by (simp add: distinct_map)
    then show "(fst x, nz_primary_key (snd x)) \<notin> cand_key ` {x \<in> set (candidates_of parsed). newer ?J st1 server x}"
      using x by (auto dest: inj_onD)
  qed
  have rest: "\<forall>table i. (table, i) \<notin> cand_key ` set (candidates_of parsed) \<longrightarrow> row_at ?J st' table i = row_at ?J st1 table i"
    using old by blast
  show ?thesis
  proof (intro exI [of _ server] exI [of _ batch] conjI ballI)
    fix x assume "x \<in> set (candidates_of parsed)"
    then show "if newer ?J st1 server x
       then \<exists>r t. row_at ?J st' (fst x) (nz_primary_key (snd x)) = Some r \<and> table_schema (fst x) = Some t \<and>
          \<not> is_deleted r \<and> row_i64 r ''updated_at'' = Some batch \<and> nz_updated_at (snd x) < batch \<and>
          (\<forall>s. local_stamp_of ?J st1 x = Some s \<or> server_stamp_of server x = Some s \<longrightarrow> s < batch) \<and>
          (\<forall>col. col \<notin> own_columns \<longrightarrow> fmlookup r col = fmlookup (stored_row ?J t (nz_row (snd x))) col)
       else row_at ?J st' (fst x) (nz_primary_key (snd x)) = row_at ?J st1 (fst x) (nz_primary_key (snd x))"
      using taken_row left by (cases "newer ?J st1 server x") simp_all
  qed (use f b(2) rest cnt in \<open>blast+\<close>)
qed

lemma prepare_note_text:
  assumes "prepare_note V v iv i r = Inr r'" "fmlookup r ''text'' = Some (JString p)"
  shows "fmlookup r' ''text'' = Some (JString (encrypt_note (env_crypto V) (vault_mk v) (Some i) p iv))"
  using assms by (auto simp: prepare_note_def Let_def and_then_Inr vault_encrypt_note_def split: option.splits json.splits)

lemma taken_note: "fst x = ''notes'' \<Longrightarrow> taken J C v st server x = x"
  by (simp add: taken_def prod_eq_iff)

text \<open>
  Property C16.  A text of the archive that the import takes reads back: the note is stored sealed
  under its own id, and the next read of it under the same vault shows exactly the archive's text,
  without a decryption failure.
\<close>

theorem import_texts_read_back:
  assumes "crypto_ok (env_crypto V)" "length (vault_mk v) = 32" "\<forall>k. length (ivs k) = 12" "is_i64 now"
    and "import_merge V L H c v ivs archive now st w = (Inr summary, st', w')"
    and "parse_import_at (env_serde V) L (env_f64 V) archive now = Inr parsed" "preflight V H c st w = (pulled, st1, w1)"
    and "fetch_candidate_state (client_repair_sink H c) parsed w1 = (Inr server, w')"
    and "x \<in> set (candidates_of parsed)" "fst x = ''notes''" "newer (env_serde V) st1 server x"
    and "fmlookup (nz_row (snd x)) ''text'' = Some (JString p)" "utf8_valid p"
  shows "\<exists>n. get_note (env_serde V) (env_crypto V) st' v (nz_primary_key (snd x)) = Inr (Some n) \<and>
    nr_id n = nz_primary_key (snd x) \<and> nr_text n = Some p \<and> \<not> nr_decrypt_failed n"
proof -
  let ?J = "env_serde V" and ?C = "env_crypto V" and ?i = "nz_primary_key (snd x)"
  have s: "select_prepare_and_stage V v ivs parsed server now st1 = (Inr summary, st')"
    using import_merge_Inr [OF assms(5)] assms(6,7,8) by (metis Inr_inject prod.inject)
  obtain batch where b: "is_i64 batch" and new: "\<forall>x \<in> set (candidates_of parsed). newer ?J st1 server x \<longrightarrow>
       (\<exists>k w t. prepare_write V v (ivs k) batch (taken ?J ?C v st1 server x) = Inr w \<and> table_schema (fst x) = Some t \<and>
          row_at ?J st' (fst x) (nz_primary_key (snd x)) = Some (stored_row ?J t (iw_row w))) \<and>
       nz_updated_at (snd x) < batch \<and> (\<forall>t. local_stamp_of ?J st1 x = Some t \<or> server_stamp_of server x = Some t \<longrightarrow> t < batch)"
    by (rule select_stage_spec [OF assms(6) refl assms(4) s])
  then obtain k w t where w: "prepare_write V v (ivs k) batch (taken ?J ?C v st1 server x) = Inr w" and t: "table_schema (fst x) = Some t"
    and row: "row_at ?J st' (fst x) ?i = Some (stored_row ?J t (iw_row w))" using assms(9,11) by blast
  have tn: "t = notes_desc" using t assms(10) merge_schemas(1) by simp
  obtain r where r: "iw_row w = complete_row t r"
    and pn: "\<exists>r1. prepare_note V v (ivs k) ?i (nz_row (snd x)) = Inr r1 \<and> fmlookup r ''text'' = fmlookup r1 ''text''"
    by (rule prepare_write_ok [OF w]) (use t taken_note [OF assms(10)] assms(10) in auto)
  let ?sealed = "encrypt_note ?C (vault_mk v) (Some ?i) p (ivs k)"
  have "fmlookup r ''text'' = Some (JString ?sealed)" using pn prepare_note_text [OF _ assms(12)] by metis
  then have tx: "string_field (stored_row ?J t (iw_row w)) ''text'' = Some ?sealed"
    using read_columns(5) by (auto simp: tn r string_field_def fmlookup_stored_row fmlookup_complete_row json_to_sql_def sql_to_json_def
        dest: map_of_SomeD intro: rev_image_eqI)
  have op: "is_encrypted_v2 ?sealed \<and> decrypt_note ?C (vault_mk v) (Some ?i) ?sealed = Inr p"
    using decrypt_v2_opens [OF assms(1,2)] assms(3,13) by blast
  then have ne: "?sealed \<noteq> []" by (auto simp: is_encrypted_v2_def SENTINEL_V2_def strip_prefix_Some)
  have "decrypt_note_text ?C v (stored_row ?J t (iw_row w)) ?i = (Some p, False)"
    using tx op ne by (simp add: decrypt_note_text_def decrypt_v2_bound_def vault_decrypt_note_def)
  moreover have "get_row ?J st' ''notes'' ?i = Inr (Some (stored_row ?J t (iw_row w)))"
    using row assms(10) get_row_at [OF merge_schemas(1)] by metis
  moreover have "\<not> is_deleted (stored_row ?J t (iw_row w))" using taken_stored(2) [OF w t b] .
  moreover have "string_field (stored_row ?J t (iw_row w)) ''id'' = Some ?i"
    using row_at_pk [OF merge_schemas(1), of ?J st' ?i] row assms(10) by (simp add: string_field_def)
  ultimately show ?thesis by (simp add: get_note_def to_note_record_def)
qed

subsection \<open>An archive with one note and one collection\<close>

definition demo_archive :: json where
  "demo_archive = JObject (fmap_of_list [(''_syntopicon'', JBool True), (''schemaVersion'', json_i64 19),
     (''notes'', JArray [JObject (fmap_of_list [(''id'', JString ''n''), (''text'', JString ''hi''), (''updatedAt'', json_i64 7)])]),
     (''collections'', JArray [JObject (fmap_of_list [(''id'', JString ''c1''), (''name'', JString ''Old''), (''updatedAt'', json_i64 400)])])])"

definition archive_env :: env where
  "archive_env = (demo_env \<lparr>to_str = (\<lambda>_. []), from_str = (\<lambda>_. Some demo_archive)\<rparr>)\<lparr>env_text := blank_text\<rparr>"

definition demo_parsed :: normalized_import where
  "demo_parsed = (case parse_import_at (env_serde archive_env) one_url_lib (env_f64 archive_env) [] 5 of Inr p \<Rightarrow> p | Inl _ \<Rightarrow>
     \<lparr>ni_schema_version = 0, ni_books = [], ni_notes = [], ni_custom_ideas = [], ni_note_links = [], ni_lenses = [],
      ni_collections = [], ni_collection_memberships = [], ni_note_signals = []\<rparr>)"

lemma demo_parse: "parse_import_at (env_serde archive_env) one_url_lib (env_f64 archive_env) [] 5 = Inr demo_parsed"
proof -
  have "case parse_import_at (env_serde archive_env) one_url_lib (env_f64 archive_env) [] 5 of Inr _ \<Rightarrow> True | Inl _ \<Rightarrow> False"
    by code_simp
  then show ?thesis by (auto simp: demo_parsed_def split: sum.splits)
qed

lemma demo_candidates: "map cand_key (candidates_of demo_parsed) = [(''notes'', ''n''), (''collections'', ''c1'')]"
  by code_simp

abbreviation demo_import :: "(sync_error + import_summary) \<times> store \<times> unit" where
  "demo_import \<equiv> import_merge archive_env one_url_lib silent_http test_client (new_vault toy_mk) (\<lambda>_. toy_iv) [] 5 collection_store ()"

lemma demo_import_ok:
  obtains summary st' pulled st1 server where "demo_import = (Inr summary, st', ())"
    "preflight archive_env silent_http test_client collection_store () = (pulled, st1, ())"
    "fetch_candidate_state (client_repair_sink silent_http test_client) demo_parsed () = (Inr server, ())"
    "newer (env_serde archive_env) st1 server (candidates_of demo_parsed ! 0)"
    "\<not> newer (env_serde archive_env) st1 server (candidates_of demo_parsed ! 1)"
    "counted (is_imported summary) ''notes'' = 1" "counted (is_skipped_stale summary) ''collections'' = 1"
proof -
  let ?J = "env_serde archive_env" and ?st1 = "fst (snd (preflight archive_env silent_http test_client collection_store ()))"
  have i: "case fst demo_import of Inr s \<Rightarrow> counted (is_imported s) ''notes'' = 1 \<and> counted (is_skipped_stale s) ''collections'' = 1 | Inl _ \<Rightarrow> False"
    by code_simp
  have f: "fetch_candidate_state (client_repair_sink silent_http test_client) demo_parsed () =
      (Inr (fmap_of_list [(''notes'', fmempty), (''collections'', fmempty)]), ())" by code_simp
  have n: "local_stamp_of ?J ?st1 (candidates_of demo_parsed ! 0) = None"
    "local_stamp_of ?J ?st1 (candidates_of demo_parsed ! 1) = Some 500" "nz_updated_at (snd (candidates_of demo_parsed ! 1)) = 400"
    by code_simp+
  have s: "server_stamp_of (fmap_of_list [(''notes'', fmempty), (''collections'', fmempty)]) x = None" for x
    by (auto simp: server_stamp_of_def server_row_of_def fmlookup_of_list Option.bind_eq_None_conv)
  obtain summary st' where d: "demo_import = (Inr summary, st', ())"
    and "counted (is_imported summary) ''notes'' = 1" "counted (is_skipped_stale summary) ''collections'' = 1"
    using i by (cases demo_import) (auto split: sum.splits)
  moreover obtain pulled where "preflight archive_env silent_http test_client collection_store () = (pulled, ?st1, ())"
    by (metis old.unit.exhaust prod.collapse)
  moreover have "newer ?J ?st1 (fmap_of_list [(''notes'', fmempty), (''collections'', fmempty)]) (candidates_of demo_parsed ! 0)"
    "\<not> newer ?J ?st1 (fmap_of_list [(''notes'', fmempty), (''collections'', fmempty)]) (candidates_of demo_parsed ! 1)"
    unfolding newer_def s n by simp_all
  ultimately show thesis using f by (intro that)
qed

theorem import_all_or_nothing_witness:
  "case import_merge archive_env one_url_lib silent_http (test_client\<lparr>access_token := None\<rparr>) (new_vault toy_mk) (\<lambda>_. toy_iv) [] 5
      collection_store () of (res, st', w') \<Rightarrow> isl res \<and> st' = collection_store"
  using import_all_or_nothing [where V = archive_env and L = one_url_lib and H = silent_http and c = "test_client\<lparr>access_token := None\<rparr>"
      and v = "new_vault toy_mk" and ivs = "\<lambda>_. toy_iv" and archive = "[]" and now = 5 and st = collection_store and w = "()"]
  by (auto split: prod.splits)

theorem import_newest_wins_witness:
  "\<exists>r batch. case demo_import of
     (Inr _, st', _) \<Rightarrow> row_at (env_serde archive_env) st' ''notes'' ''n'' = Some r \<and> \<not> is_deleted r \<and> row_i64 r ''updated_at'' = Some batch \<and> 7 < batch
   | _ \<Rightarrow> False"
proof -
  obtain summary st' pulled st1 server where d: "demo_import = (Inr summary, st', ())"
    and p: "preflight archive_env silent_http test_client collection_store () = (pulled, st1, ())"
    and f: "fetch_candidate_state (client_repair_sink silent_http test_client) demo_parsed () = (Inr server, ())"
    and n: "newer (env_serde archive_env) st1 server (candidates_of demo_parsed ! 0)"
    by (rule demo_import_ok)
  have five: "is_i64 5" by (simp add: is_i64_def i64_min_def i64_max_def)
  have x: "candidates_of demo_parsed ! 0 \<in> set (candidates_of demo_parsed)" "cand_key (candidates_of demo_parsed ! 0) = (''notes'', ''n'')"
    "nz_updated_at (snd (candidates_of demo_parsed ! 0)) = 7" by code_simp+
  from import_newest_wins [OF d five demo_parse p] f obtain batch where
    "\<forall>x \<in> set (candidates_of demo_parsed).
       if newer (env_serde archive_env) st1 server x
       then \<exists>r t. row_at (env_serde archive_env) st' (fst x) (nz_primary_key (snd x)) = Some r \<and> table_schema (fst x) = Some t \<and>
          \<not> is_deleted r \<and> row_i64 r ''updated_at'' = Some batch \<and> nz_updated_at (snd x) < batch \<and>
          (\<forall>s. local_stamp_of (env_serde archive_env) st1 x = Some s \<or> server_stamp_of server x = Some s \<longrightarrow> s < batch) \<and>
          (\<forall>col. col \<notin> own_columns \<longrightarrow> fmlookup r col = fmlookup (stored_row (env_serde archive_env) t (nz_row (snd x))) col)
       else row_at (env_serde archive_env) st' (fst x) (nz_primary_key (snd x)) = row_at (env_serde archive_env) st1 (fst x) (nz_primary_key (snd x))"
    by auto
  from bspec [OF this x(1)] n x(2,3) d show ?thesis by auto
qed

theorem import_texts_read_back_witness:
  "\<exists>n. case demo_import of
     (Inr _, st', _) \<Rightarrow> get_note (env_serde archive_env) toy_crypto st' (new_vault toy_mk) ''n'' = Inr (Some n) \<and> nr_text n = Some ''hi''
   | _ \<Rightarrow> False"
proof -
  obtain summary st' pulled st1 server where d: "demo_import = (Inr summary, st', ())"
    and p: "preflight archive_env silent_http test_client collection_store () = (pulled, st1, ())"
    and f: "fetch_candidate_state (client_repair_sink silent_http test_client) demo_parsed () = (Inr server, ())"
    and n: "newer (env_serde archive_env) st1 server (candidates_of demo_parsed ! 0)"
    by (rule demo_import_ok)
  have five: "is_i64 5" by (simp add: is_i64_def i64_min_def i64_max_def)
  have x: "candidates_of demo_parsed ! 0 \<in> set (candidates_of demo_parsed)" "fst (candidates_of demo_parsed ! 0) = ''notes''"
    "nz_primary_key (snd (candidates_of demo_parsed ! 0)) = ''n''"
    "fmlookup (nz_row (snd (candidates_of demo_parsed ! 0))) ''text'' = Some (JString ''hi'')" "utf8_valid ''hi''" by code_simp+
  have c: "env_crypto archive_env = toy_crypto" by (simp add: archive_env_def demo_env_def)
  have k: "crypto_ok (env_crypto archive_env)" "length (vault_mk (new_vault toy_mk)) = 32" "\<forall>k::nat. length ((\<lambda>_. toy_iv) k) = 12"
    by (simp_all add: c toy_crypto_ok new_vault_def)
  from import_texts_read_back [OF k five d demo_parse p f x(1,2) n x(4,5)] d show ?thesis by (auto simp: x(3) c)
qed

end
