(* ===== verification/Snapshot_Roundtrip.thy ===== *)
theory Snapshot_Roundtrip
  imports Snapshot_Laws
begin

text \<open>
  The export of a store is an archive the import accepts: each live row comes back under its own key
  with its values, and note texts come back opened.
\<close>

subsection \<open>One step of a normaliser\<close>

text \<open>The values no default replaces.\<close>

definition solid_value :: "json \<Rightarrow> bool" where
  "solid_value v \<longleftrightarrow> v \<noteq> JNull \<and> v \<noteq> JString [] \<and> v \<noteq> json_i64 0"

text \<open>A step that succeeds, writes at most one column and carries a solid value into it.\<close>

definition carries :: "(row \<Rightarrow> sync_error + row) \<Rightarrow> string \<Rightarrow> json \<Rightarrow> bool" where
  "carries f col v \<longleftrightarrow> (\<forall>out. \<exists>out'. f out = Inr out' \<and> (\<forall>c. c \<noteq> col \<longrightarrow> fmlookup out' c = fmlookup out c) \<and>
     (solid_value v \<longrightarrow> fmlookup out' col = Some v))"

lemma carriesI: "(\<And>out. f out = Inr (fmupd col (u out) out)) \<Longrightarrow> (\<And>out. solid_value v \<Longrightarrow> u out = v) \<Longrightarrow> carries f col v"
  by (auto simp: carries_def)

lemma copies_carry:
  assumes "list_all2 (\<lambda>f x. carries f (fst x) (snd x)) fs xs" "distinct (map fst xs)"
  shows "\<exists>out'. copies fs out = Inr out' \<and> (\<forall>(c, v) \<in> set xs. solid_value v \<longrightarrow> fmlookup out' c = Some v) \<and>
    (\<forall>c. c \<notin> fst ` set xs \<longrightarrow> fmlookup out' c = fmlookup out c)"
  using assms
proof (induction fs xs arbitrary: out rule: list_all2_induct)
  case (Cons f fs x xs)
  obtain c v where x: "x = (c, v)" by (cases x)
  obtain out1 where o1: "f out = Inr out1" "\<forall>c'. c' \<noteq> c \<longrightarrow> fmlookup out1 c' = fmlookup out c'" "solid_value v \<longrightarrow> fmlookup out1 c = Some v"
    using Cons.hyps(1) by (auto simp: carries_def x)
  obtain out' where o': "copies fs out1 = Inr out'" "\<forall>(c, v) \<in> set xs. solid_value v \<longrightarrow> fmlookup out' c = Some v"
    "\<forall>c. c \<notin> fst ` set xs \<longrightarrow> fmlookup out' c = fmlookup out1 c"
    using Cons.IH [of out1] Cons.prems by auto
  have "c \<notin> fst ` set xs" using Cons.prems by (simp add: x)
  then have "fmlookup out' c = fmlookup out1 c" using o'(3) by blast
  then show ?case using o1 o' by (auto simp: x)
qed simp

lemma typed_cases:
  "json_typed CText v \<Longrightarrow> v = JNull \<or> (\<exists>s. v = JString s)" "json_typed CInt v \<Longrightarrow> v = JNull \<or> (\<exists>i. is_i64 i \<and> v = json_i64 i)"
  "json_typed CBool v \<Longrightarrow> v = JNull \<or> (\<exists>b. v = JBool b)" "json_typed CReal v \<Longrightarrow> v = JNull \<or> (\<exists>f. v = JNumber (Float f))"
  by (auto simp: json_typed_def)

lemma json_i64_neq [simp]: "json_i64 i \<noteq> JNull" "json_i64 i \<noteq> JString s" "json_i64 i \<noteq> JBool b" "json_i64 i \<noteq> JObject m" "json_i64 i \<noteq> JArray vs"
  by (simp_all add: json_i64_def)

lemma copy_string_carries:
  assumes "fmlookup m i = Some v" "json_typed CText v" "nullable \<or> v \<noteq> JNull"
  shows "carries (copy_string m i col nullable) col v"
  by (rule carriesI [where u = "\<lambda>_. v"]) (use typed_cases(1) [OF assms(2)] assms(1,3) in \<open>auto simp: copy_string_def\<close>)

lemma copy_integer_carries:
  assumes "fmlookup m i = Some v" "json_typed CInt v" "nullable \<or> v \<noteq> JNull"
  shows "carries (copy_integer m i col nullable) col v"
  by (rule carriesI [where u = "\<lambda>_. v"]) (use typed_cases(2) [OF assms(2)] assms(1,3) in \<open>auto simp: copy_integer_def as_i64_json_i64\<close>)

lemma insert_if_carries: "carries (insert_if col x) col JNull"
  by (cases x) (auto simp: carries_def insert_if_def solid_value_def)

lemma not_solid [simp]: "\<not> solid_value JNull" "\<not> solid_value (JString [])" "\<not> solid_value (json_i64 0)"
  by (simp_all add: solid_value_def)

lemma json_i64_number: "is_i64 k \<Longrightarrow> \<exists>n. json_i64 k = JNumber n \<and> number_as_i64 n = Some k"
  using as_i64_json_i64 [of k] by (auto simp: json_i64_def)

lemma defaulted_typed:
  assumes "fmlookup m i = Some v" "json_typed CInt v"
  shows "\<exists>t. defaulted_timestamp m i now = Inr t \<and> (solid_value v \<longrightarrow> json_i64 t = v)"
proof (cases "v = JNull")
  case True
  with assms(1) show ?thesis by (simp add: defaulted_timestamp_def)
next
  case False
  then obtain k where k: "is_i64 k" "v = json_i64 k" using typed_cases(2) [OF assms(2)] by blast
  obtain n where n: "json_i64 k = JNumber n" "number_as_i64 n = Some k" using json_i64_number [OF k(1)] by blast
  have "defaulted_timestamp m i now = Inr (if k = 0 then now else k)"
    using assms(1) k(2) n by (simp add: defaulted_timestamp_def)
  moreover have "solid_value v \<longrightarrow> json_i64 (if k = 0 then now else k) = v" using k(2) by auto
  ultimately show ?thesis by blast
qed

lemma insert_stamp_carries:
  assumes "fmlookup m i = Some v" "json_typed CInt v"
  shows "carries (insert_stamp m i col now) col v"
proof -
  obtain t where "defaulted_timestamp m i now = Inr t" "solid_value v \<longrightarrow> json_i64 t = v" using defaulted_typed [OF assms] by blast
  then show ?thesis by (intro carriesI [where u = "\<lambda>_. json_i64 t"]) (simp_all add: insert_stamp_def)
qed

lemma nullish_typed:
  assumes "fmlookup m i = Some v" "json_typed CInt v"
  shows "\<exists>t. nullish_integer m i d = Inr t \<and> (solid_value v \<longrightarrow> json_i64 t = v)"
proof (cases "v = JNull")
  case True
  with assms(1) show ?thesis by (simp add: nullish_integer_def)
next
  case False
  then obtain k where k: "is_i64 k" "v = json_i64 k" using typed_cases(2) [OF assms(2)] by blast
  obtain n where n: "json_i64 k = JNumber n" "number_as_i64 n = Some k" using json_i64_number [OF k(1)] by blast
  then show ?thesis using assms(1) k(2) by (simp add: nullish_integer_def)
qed

lemma insert_integer_carries:
  assumes "fmlookup m i = Some v" "json_typed CInt v"
  shows "carries (insert_integer m i col d) col v"
proof -
  obtain t where "nullish_integer m i d = Inr t" "solid_value v \<longrightarrow> json_i64 t = v" using nullish_typed [OF assms] by blast
  then show ?thesis by (intro carriesI [where u = "\<lambda>_. json_i64 t"]) (simp_all add: insert_integer_def)
qed

lemma nullable_typed:
  assumes "fmlookup m i = Some v" "json_typed CText v"
  shows "\<exists>s. nullable_string m i = Inr s \<and> flatten s = as_str v"
  using typed_cases(1) [OF assms(2)] assms(1) by (auto simp: nullable_string_def flatten_def)

lemma defaulted_string_carries:
  assumes "fmlookup m i = Some v" "json_typed CText v"
  shows "carries (defaulted_string m i col d) col v"
proof -
  obtain s where "nullable_string m i = Inr s" "flatten s = as_str v" using nullable_typed [OF assms] by blast
  then show ?thesis
    by (intro carriesI [where u = "\<lambda>_. JString (unwrap_or (option_filter (\<lambda>x. x \<noteq> []) (as_str v)) d)"])
      (use typed_cases(1) [OF assms(2)] in \<open>auto simp: defaulted_string_def solid_value_def option_filter_def split: if_splits\<close>)
qed

lemma note_source_carries:
  assumes "fmlookup m ''source'' = Some v" "json_typed CText v" "fmlookup m ''contentTag'' = Some u" "json_typed CText u"
  shows "carries (note_source m) ''source'' v"
proof -
  obtain s s' where "nullable_string m ''source'' = Inr s" "flatten s = as_str v" "nullable_string m ''contentTag'' = Inr s'"
    using nullable_typed [OF assms(1,2)] nullable_typed [OF assms(3,4)] by blast
  then show ?thesis
    by (intro carriesI [where u = "\<lambda>_. JString (unwrap_or (as_str v) ''manual'')"])
      (use typed_cases(1) [OF assms(2)] in \<open>auto simp: note_source_def validate_nullable_string_def solid_value_def\<close>)
qed

lemma note_chapter_carries:
  "fmlookup m ''chapter'' = Some v \<Longrightarrow> json_typed CText v \<Longrightarrow> carries (note_chapter m) ''chapter'' v"
  by (rule carriesI [where u = "\<lambda>_. v"]) (auto simp: note_chapter_def dest!: typed_cases(1))

lemma note_source_meta_carries:
  "fmlookup m ''sourceMeta'' = Some v \<Longrightarrow> v = JNull \<or> (\<exists>x. v = JObject x) \<Longrightarrow> carries (note_source_meta m) ''source_meta'' v"
  by (rule carriesI [where u = "\<lambda>_. if v = JNull then JObject fmempty else v"]) (auto simp: note_source_meta_def)

definition strings_or_null :: "json \<Rightarrow> bool" where
  "strings_or_null v \<longleftrightarrow> v = JNull \<or> (\<exists>ss. v = JArray (map JString ss))"

lemma traverse_strings:
  "traverse (\<lambda>x. case as_str x of None \<Rightarrow> Inl e | Some s \<Rightarrow> Inr s) (map JString ss) = Inr ss"
  by (induction ss) simp_all

lemma string_list_typed:
  assumes "fmlookup m i = Some v" "strings_or_null v"
  shows "\<exists>ss. string_list_field m i = Inr ss \<and> (v \<noteq> JNull \<longrightarrow> JArray (map JString ss) = v)"
  using assms by (auto simp: strings_or_null_def string_list_field_def string_array_def traverse_strings)

lemma note_tags_carries:
  assumes "fmlookup m ''tags'' = Some v" "strings_or_null v"
  shows "carries (note_tags m 19) ''tags'' v"
proof -
  obtain ss where "string_list_field m ''tags'' = Inr ss" "v \<noteq> JNull \<longrightarrow> JArray (map JString ss) = v"
    using string_list_typed [OF assms] by blast
  then show ?thesis
    by (intro carriesI [where u = "\<lambda>_. JArray (map JString ss)"]) (auto simp: note_tags_def remap_tags_def)
qed

lemma leaf_ids_carries:
  assumes "fmlookup m ''leafIds'' = Some v" "strings_or_null v"
  shows "carries (\<lambda>output. and_then (string_list_field m ''leafIds'') (\<lambda>ids. Inr (fmupd ''leaf_ids'' (JArray (map JString ids)) output))) ''leaf_ids'' v"
proof -
  obtain ss where "string_list_field m ''leafIds'' = Inr ss" "v \<noteq> JNull \<longrightarrow> JArray (map JString ss) = v"
    using string_list_typed [OF assms] by blast
  then show ?thesis by (intro carriesI [where u = "\<lambda>_. JArray (map JString ss)"]) auto
qed

subsection \<open>Exported rows\<close>

definition val :: "row \<Rightarrow> string \<Rightarrow> json" where
  "val r c = unwrap_or (fmlookup r c) JNull"

definition row_shape :: "string \<Rightarrow> row \<Rightarrow> bool" where
  "row_shape table r \<longleftrightarrow> (\<forall>t. table_schema table = Some t \<longrightarrow>
     (\<forall>(c, ty) \<in> set (ts_columns t). fmlookup r c = Some (val r c) \<and> json_typed ty (val r c)))"

definition column_of :: "string \<Rightarrow> string \<Rightarrow> col_type \<Rightarrow> bool" where
  "column_of table c ty \<longleftrightarrow> (case table_schema table of None \<Rightarrow> False | Some t \<Rightarrow> (c, ty) \<in> set (ts_columns t))"

lemma shape_typed: "row_shape table r \<Longrightarrow> column_of table c ty \<Longrightarrow> json_typed ty (val r c)"
  by (auto simp: row_shape_def column_of_def split: option.splits)

text \<open>An archive row that carries the stored values in the fields named.\<close>

definition exported :: "(string \<times> string) list \<Rightarrow> row \<Rightarrow> row \<Rightarrow> bool" where
  "exported fs r m \<longleftrightarrow> (\<forall>(c, f) \<in> set fs. fmlookup m f = Some (val r c))"

lemma map_fields_lookup:
  assumes "distinct (map snd fs)" "(c, f) \<in> set fs" "c \<noteq> ''deleted''"
  shows "fmlookup (map_fields fs r) f = Some (val r c)"
proof -
  have "map_of (map (\<lambda>(c, f). (f, if c = ''deleted'' \<and> f = ''deleted'' then json_i64 0 else unwrap_or (fmlookup r c) JNull)) fs) f =
      Some (val r c)"
    using assms by (induction fs) (auto simp: val_def image_iff)
  then show ?thesis by (simp add: map_fields_def fmlookup_of_list)
qed

definition carried :: "string \<Rightarrow> string list" where
  "carried table =
     (if table = ''books'' then [''title'', ''author'', ''isbn'', ''cover_url'', ''cover_source'', ''cover_resolved_at'', ''created_at'', ''updated_at'']
      else if table = ''notes'' then [''book_id'', ''page'', ''image_path'', ''ink_crop_path'', ''source_id'', ''created_at'', ''source'',
        ''chapter'', ''source_meta'', ''tags'', ''updated_at'']
      else if table = ''custom_ideas'' then [''name'', ''description'', ''created_at'', ''updated_at'']
      else if table = ''note_links'' then [''from_note_id'', ''to_note_id'', ''relation_type'', ''created_at'', ''updated_at'']
      else if table = ''lenses'' then [''name'', ''leaf_ids'', ''combinator'', ''threshold'', ''created_at'', ''updated_at'']
      else if table = ''collections'' then [''name'', ''created_at'', ''updated_at'']
      else if table = ''collection_memberships'' then [''note_id'', ''collection_id'', ''created_at'', ''updated_at'']
      else [''source_prior'', ''return_visits'', ''has_annotation'', ''stitch_spawns'', ''exposure_recency_at'', ''engagement_recency_at'',
        ''created_at'', ''updated_at''])"

definition carried_over :: "string \<Rightarrow> row \<Rightarrow> row \<Rightarrow> bool" where
  "carried_over table r out \<longleftrightarrow> (\<forall>c \<in> set (carried table). solid_value (val r c) \<longrightarrow> fmlookup out c = Some (val r c))"

text \<open>What the parser asks of a stored row.\<close>

definition reimportable :: "string \<Rightarrow> row \<Rightarrow> bool" where
  "reimportable table r \<longleftrightarrow> (\<exists>k. val r (archive_pk table) = JString k \<and> k \<noteq> []) \<and>
     list_all (\<lambda>c. val r c \<noteq> JNull)
       (if table = ''books'' then [''title'', ''created_at''] else if table = ''notes'' then [''created_at'']
        else if table = ''custom_ideas'' then [''name'', ''created_at''] else if table = ''note_links'' then [''from_note_id'', ''to_note_id'']
        else if table = ''lenses'' \<or> table = ''collections'' then [''name'']
        else if table = ''collection_memberships'' then [''note_id'', ''collection_id''] else []) \<and>
     (table = ''notes'' \<longrightarrow> strings_or_null (val r ''tags'') \<and> (val r ''source_meta'' = JNull \<or> (\<exists>x. val r ''source_meta'' = JObject x))) \<and>
     (table = ''lenses'' \<longrightarrow> strings_or_null (val r ''leaf_ids''))"

lemmas step_carries = copy_string_carries copy_integer_carries insert_if_carries insert_stamp_carries insert_integer_carries
  defaulted_string_carries note_source_carries note_chapter_carries note_source_meta_carries note_tags_carries leaf_ids_carries

lemma copies_carried:
  assumes "list_all2 (\<lambda>f x. carries f (fst x) (snd x)) fs xs" "distinct (map fst xs)"
    and "\<forall>c \<in> set (carried table). (c, val r c) \<in> set xs"
  shows "\<exists>out. copies fs fmempty = Inr out \<and> carried_over table r out"
  using copies_carry [OF assms(1,2), of fmempty] assms(3) by (fastforce simp: carried_over_def)

text \<open>The steps of a normaliser on an exported row.\<close>

lemma exported_steps:
  assumes m: "exported fs r m" and shape: "row_shape table r" and f: "(c, f) \<in> set fs"
  shows "column_of table c CText \<Longrightarrow> nullable \<or> val r c \<noteq> JNull \<Longrightarrow> carries (copy_string m f c nullable) c (val r c)"
    and "column_of table c CInt \<Longrightarrow> nullable \<or> val r c \<noteq> JNull \<Longrightarrow> carries (copy_integer m f c nullable) c (val r c)"
    and "column_of table c CInt \<Longrightarrow> carries (insert_stamp m f c now) c (val r c)"
    and "column_of table c CInt \<Longrightarrow> carries (insert_integer m f c d) c (val r c)"
    and "column_of table c CText \<Longrightarrow> carries (defaulted_string m f c s) c (val r c)"
proof -
  have l: "fmlookup m f = Some (val r c)" using m f by (auto simp: exported_def)
  show "column_of table c CText \<Longrightarrow> nullable \<or> val r c \<noteq> JNull \<Longrightarrow> carries (copy_string m f c nullable) c (val r c)"
    by (rule copy_string_carries [OF l shape_typed [OF shape]])
  show "column_of table c CInt \<Longrightarrow> nullable \<or> val r c \<noteq> JNull \<Longrightarrow> carries (copy_integer m f c nullable) c (val r c)"
    by (rule copy_integer_carries [OF l shape_typed [OF shape]])
  show "column_of table c CInt \<Longrightarrow> carries (insert_stamp m f c now) c (val r c)"
    by (rule insert_stamp_carries [OF l shape_typed [OF shape]])
  show "column_of table c CInt \<Longrightarrow> carries (insert_integer m f c d) c (val r c)"
    by (rule insert_integer_carries [OF l shape_typed [OF shape]])
  show "column_of table c CText \<Longrightarrow> carries (defaulted_string m f c s) c (val r c)"
    by (rule defaulted_string_carries [OF l shape_typed [OF shape]])
qed

definition typed_columns :: "string \<Rightarrow> col_type \<Rightarrow> string list \<Rightarrow> bool" where
  "typed_columns table ty cs \<longleftrightarrow> list_all (\<lambda>c. column_of table c ty) cs"

lemma book_columns:
  "typed_columns ''books'' CText [''title'', ''author'', ''isbn'', ''cover_url'', ''cover_source''] \<and>
   typed_columns ''books'' CInt [''cover_resolved_at'', ''created_at'', ''updated_at'']"
  by code_simp

lemma note_columns:
  "typed_columns ''notes'' CText [''book_id'', ''page'', ''image_path'', ''ink_crop_path'', ''source_id'', ''source'', ''chapter'', ''content_tag''] \<and>
   typed_columns ''notes'' CInt [''created_at'', ''updated_at'']"
  by code_simp

lemma small_columns:
  "typed_columns ''custom_ideas'' CText [''name'', ''description''] \<and> typed_columns ''custom_ideas'' CInt [''created_at'', ''updated_at'']"
  "typed_columns ''note_links'' CText [''from_note_id'', ''to_note_id'', ''relation_type''] \<and> typed_columns ''note_links'' CInt [''created_at'', ''updated_at'']"
  "typed_columns ''lenses'' CText [''name'', ''combinator''] \<and> typed_columns ''lenses'' CInt [''threshold'', ''created_at'', ''updated_at'']"
  "typed_columns ''collections'' CText [''name''] \<and> typed_columns ''collections'' CInt [''created_at'', ''updated_at'']"
  "typed_columns ''collection_memberships'' CText [''note_id'', ''collection_id''] \<and>
     typed_columns ''collection_memberships'' CInt [''created_at'', ''updated_at'']"
  "typed_columns ''note_signals'' CReal [''source_prior'', ''importance''] \<and> typed_columns ''note_signals'' CBool [''has_annotation''] \<and>
     typed_columns ''note_signals'' CInt [''return_visits'', ''stitch_spawns'', ''exposure_recency_at'', ''engagement_recency_at'', ''created_at'', ''updated_at'']"
  by code_simp+

text \<open>The fields each normaliser reads, by column.\<close>

definition read_fields :: "string \<Rightarrow> (string \<times> string) list" where
  "read_fields table =
     (if table = ''books'' then [(''title'', ''title''), (''author'', ''author''), (''isbn'', ''isbn''), (''cover_url'', ''coverUrl''),
        (''cover_source'', ''coverSource''), (''cover_resolved_at'', ''coverResolvedAt''), (''created_at'', ''createdAt''), (''updated_at'', ''updatedAt'')]
      else if table = ''notes'' then [(''book_id'', ''bookId''), (''page'', ''page''), (''image_path'', ''imagePath''), (''ink_crop_path'', ''inkCropPath''),
        (''source_id'', ''sourceId''), (''created_at'', ''createdAt''), (''source'', ''source''), (''chapter'', ''chapter''),
        (''source_meta'', ''sourceMeta''), (''tags'', ''tags''), (''content_tag'', ''contentTag''), (''updated_at'', ''updatedAt'')]
      else if table = ''custom_ideas'' then [(''name'', ''name''), (''description'', ''description''), (''created_at'', ''createdAt''), (''updated_at'', ''updatedAt'')]
      else if table = ''note_links'' then [(''from_note_id'', ''fromNoteId''), (''to_note_id'', ''toNoteId''), (''relation_type'', ''relationType''),
        (''created_at'', ''createdAt''), (''updated_at'', ''updatedAt'')]
      else if table = ''lenses'' then [(''name'', ''name''), (''leaf_ids'', ''leafIds''), (''combinator'', ''combinator''), (''threshold'', ''threshold''),
        (''created_at'', ''createdAt''), (''updated_at'', ''updatedAt'')]
      else if table = ''collections'' then [(''name'', ''name''), (''created_at'', ''createdAt''), (''updated_at'', ''updatedAt'')]
      else if table = ''collection_memberships'' then [(''note_id'', ''noteId''), (''collection_id'', ''collectionId''), (''created_at'', ''createdAt''),
        (''updated_at'', ''updatedAt'')]
      else [(''source_prior'', ''sourcePrior''), (''return_visits'', ''returnVisits''), (''has_annotation'', ''hasAnnotation''),
        (''stitch_spawns'', ''stitchSpawns''), (''exposure_recency_at'', ''exposureRecencyAt''), (''engagement_recency_at'', ''engagementRecencyAt''),
        (''importance'', ''importance''), (''created_at'', ''createdAt''), (''updated_at'', ''updatedAt'')])"

lemma book_normalizes:
  assumes "row_shape ''books'' r" "reimportable ''books'' r" "exported (read_fields ''books'') r m"
  shows "\<exists>out. normalize_book L m now = Inr out \<and> carried_over ''books'' r out"
  unfolding normalize_book_def
  by (rule copies_carried [where xs = "[(''title'', val r ''title''), (''author'', val r ''author''), (''isbn'', val r ''isbn''),
      (''cover_url'', val r ''cover_url''), (''cover_source'', val r ''cover_source''), (''cover_resolved_at'', val r ''cover_resolved_at''),
      (''created_at'', val r ''created_at''), (''status'', JNull), (''kind'', JNull), (''url'', JNull), (''updated_at'', val r ''updated_at'')]"])
    (use assms(2) book_columns in \<open>simp_all add: exported_steps [OF assms(3,1)] insert_if_carries carried_def read_fields_def reimportable_def
      typed_columns_def\<close>)

lemma small_normalizes:
  assumes "row_shape table r" "reimportable table r" "exported (read_fields table) r m"
  shows "table = ''custom_ideas'' \<Longrightarrow> \<exists>out. normalize_custom_idea m now = Inr out \<and> carried_over table r out"
    and "table = ''note_links'' \<Longrightarrow> \<exists>out. normalize_note_link m now = Inr out \<and> carried_over table r out"
    and "table = ''collections'' \<Longrightarrow> \<exists>out. normalize_collection m now = Inr out \<and> carried_over table r out"
    and "table = ''collection_memberships'' \<Longrightarrow> \<exists>out. normalize_membership m now = Inr out \<and> carried_over table r out"
  unfolding normalize_custom_idea_def normalize_note_link_def normalize_collection_def normalize_membership_def
  by (rule copies_carried [where xs = "map (\<lambda>c. (c, val r c)) (carried table)"];
      use assms(2) small_columns in \<open>simp add: exported_steps [OF assms(3,1)] carried_def read_fields_def reimportable_def typed_columns_def\<close>)+

lemma lens_normalizes:
  assumes "row_shape ''lenses'' r" "reimportable ''lenses'' r" "exported (read_fields ''lenses'') r m"
  shows "\<exists>out. normalize_lens m now = Inr out \<and> carried_over ''lenses'' r out"
proof -
  have l: "fmlookup m ''leafIds'' = Some (val r ''leaf_ids'')" "strings_or_null (val r ''leaf_ids'')"
    using assms(2,3) by (simp_all add: exported_def read_fields_def reimportable_def)
  show ?thesis
    unfolding normalize_lens_def
    by (rule copies_carried [where xs = "map (\<lambda>c. (c, val r c)) (carried ''lenses'')"])
      (use assms(2) small_columns(3) leaf_ids_carries [OF l] in \<open>simp_all add: exported_steps [OF assms(3,1)] carried_def read_fields_def
        reimportable_def typed_columns_def\<close>)
qed

lemma copies_append: "copies (fs @ gs) out = and_then (copies fs out) (copies gs)"
  by (induction fs arbitrary: out) (auto simp: and_then_def split: sum.splits)

lemma note_source_id_step:
  assumes "fmlookup m ''sourceId'' = Some v"
  shows "\<exists>out'. note_source_id m out = Inr out' \<and> (\<forall>c. c \<noteq> ''source_id'' \<longrightarrow> fmlookup out' c = fmlookup out c) \<and>
    (solid_value v \<longrightarrow> fmlookup out' ''source_id'' = fmlookup out ''source_id'')"
  using assms by (auto simp: note_source_id_def is_null_def)

lemma note_normalizes:
  assumes shape: "row_shape ''notes'' r" and req: "reimportable ''notes'' r" and m: "exported (read_fields ''notes'') r m"
    and tx: "fmlookup m ''text'' = Some tv" "json_typed CText tv"
  shows "\<exists>out. normalize_note m now 19 = Inr out \<and> carried_over ''notes'' r out \<and> fmlookup out ''text'' = Some tv"
proof -
  let ?v = "\<lambda>c. (c, val r c)"
  note step = exported_steps [OF m shape]
  let ?A = "[copy_string m ''bookId'' ''book_id'' True]" and ?a = "[?v ''book_id'']"
  let ?B = "[copy_string m ''page'' ''page'' True, copy_string m ''imagePath'' ''image_path'' True,
    copy_string m ''inkCropPath'' ''ink_crop_path'' True, copy_string m ''sourceId'' ''source_id'' True,
    copy_integer m ''createdAt'' ''created_at'' False, note_source m]"
    and ?b = "[?v ''page'', ?v ''image_path'', ?v ''ink_crop_path'', ?v ''source_id'', ?v ''created_at'', ?v ''source'']"
  let ?D = "[note_chapter m, note_source_meta m, note_tags m 19, insert_stamp m ''updatedAt'' ''updated_at'' now]"
    and ?d = "[?v ''chapter'', ?v ''source_meta'', ?v ''tags'', ?v ''updated_at'']"
  have f: "fmlookup m ''source'' = Some (val r ''source'')" "fmlookup m ''contentTag'' = Some (val r ''content_tag'')"
    "fmlookup m ''chapter'' = Some (val r ''chapter'')" "fmlookup m ''sourceMeta'' = Some (val r ''source_meta'')"
    "fmlookup m ''tags'' = Some (val r ''tags'')" "fmlookup m ''sourceId'' = Some (val r ''source_id'')"
    using m by (simp_all add: exported_def read_fields_def)
  have t: "json_typed CText (val r ''source'')" "json_typed CText (val r ''content_tag'')" "json_typed CText (val r ''chapter'')"
    using shape_typed [OF shape] note_columns by (simp_all add: typed_columns_def)
  have q: "strings_or_null (val r ''tags'')" "val r ''source_meta'' = JNull \<or> (\<exists>x. val r ''source_meta'' = JObject x)" "val r ''created_at'' \<noteq> JNull"
    using req by (simp_all add: reimportable_def)
  have all: "list_all2 (\<lambda>f x. carries f (fst x) (snd x)) ?A ?a" "list_all2 (\<lambda>f x. carries f (fst x) (snd x)) ?B ?b"
    "list_all2 (\<lambda>f x. carries f (fst x) (snd x)) ?D ?d"
    using note_columns q(3) note_source_carries [OF f(1) t(1) f(2) t(2)] note_chapter_carries [OF f(3) t(3)]
      note_source_meta_carries [OF f(4) q(2)] note_tags_carries [OF f(5) q(1)]
    by (simp_all add: step read_fields_def typed_columns_def)
  obtain o1 where o1: "copies ?A fmempty = Inr o1" "\<forall>(c, v) \<in> set ?a. solid_value v \<longrightarrow> fmlookup o1 c = Some v"
    using copies_carry [OF all(1), of fmempty] by auto
  define o2 where "o2 = fmupd ''text'' tv o1"
  have o2: "copy_string m ''text'' ''text'' True o1 = Inr o2"
    using tx(1) typed_cases(1) [OF tx(2)] by (auto simp: copy_string_def o2_def)
  obtain o3 where o3: "copies ?B o2 = Inr o3" "\<forall>(c, v) \<in> set ?b. solid_value v \<longrightarrow> fmlookup o3 c = Some v"
    "\<forall>c. c \<notin> fst ` set ?b \<longrightarrow> fmlookup o3 c = fmlookup o2 c"
    using copies_carry [OF all(2), of o2] by auto
  obtain o4 where o4: "note_source_id m o3 = Inr o4" "\<forall>c. c \<noteq> ''source_id'' \<longrightarrow> fmlookup o4 c = fmlookup o3 c"
    "solid_value (val r ''source_id'') \<longrightarrow> fmlookup o4 ''source_id'' = fmlookup o3 ''source_id''"
    using note_source_id_step [OF f(6), of o3] by blast
  obtain o5 where o5: "copies ?D o4 = Inr o5" "\<forall>(c, v) \<in> set ?d. solid_value v \<longrightarrow> fmlookup o5 c = Some v"
    "\<forall>c. c \<notin> fst ` set ?d \<longrightarrow> fmlookup o5 c = fmlookup o4 c"
    using copies_carry [OF all(3), of o4] by auto
  have "normalize_note m now 19 = copies (?A @ [copy_string m ''text'' ''text'' True] @ ?B @ [note_source_id m] @ ?D) fmempty"
    by (simp add: normalize_note_def)
  also have "\<dots> = Inr o5" using o1(1) o2 o3(1) o4(1) o5(1) by (simp only: copies_append and_then_simps copies.simps)
  finally have "normalize_note m now 19 = Inr o5" .
  moreover have "fmlookup o5 ''text'' = Some tv" using o5(3) o4(2) o3(3) by (simp add: o2_def)
  moreover have "carried_over ''notes'' r o5"
    using o1(2) o3(2,3) o4(2,3) o5(2,3) by (simp add: carried_over_def carried_def o2_def)
  ultimately show ?thesis by blast
qed

lemma signal_normalizes:
  assumes shape: "row_shape ''note_signals'' r" and m: "exported (read_fields ''note_signals'') r m"
  shows "\<exists>out. normalize_note_signal F m now src = Inr out \<and> carried_over ''note_signals'' r out"
proof -
  have f: "fmlookup m ''sourcePrior'' = Some (val r ''source_prior'')" "fmlookup m ''returnVisits'' = Some (val r ''return_visits'')"
    "fmlookup m ''hasAnnotation'' = Some (val r ''has_annotation'')" "fmlookup m ''stitchSpawns'' = Some (val r ''stitch_spawns'')"
    "fmlookup m ''exposureRecencyAt'' = Some (val r ''exposure_recency_at'')" "fmlookup m ''engagementRecencyAt'' = Some (val r ''engagement_recency_at'')"
    "fmlookup m ''importance'' = Some (val r ''importance'')"
    using m by (simp_all add: exported_def read_fields_def)
  have t: "json_typed CReal (val r ''source_prior'')" "json_typed CReal (val r ''importance'')" "json_typed CBool (val r ''has_annotation'')"
    "json_typed CInt (val r ''return_visits'')" "json_typed CInt (val r ''stitch_spawns'')" "json_typed CInt (val r ''exposure_recency_at'')"
    "json_typed CInt (val r ''engagement_recency_at'')"
    using shape_typed [OF shape] small_columns(6) by (simp_all add: typed_columns_def)
  obtain prior where p: "signal_prior m src = Inr prior" "solid_value (val r ''source_prior'') \<longrightarrow> JNumber (Float prior) = val r ''source_prior''"
    using typed_cases(4) [OF t(1)] f(1) by (auto simp: signal_prior_def finite_number_def)
  have "\<exists>b. signal_annotation m = Inr b \<and> (solid_value (val r ''has_annotation'') \<longrightarrow> JBool b = val r ''has_annotation'')"
    using typed_cases(3) [OF t(3)] f(3) by (auto simp: signal_annotation_def)
  then obtain b where b: "signal_annotation m = Inr b" "solid_value (val r ''has_annotation'') \<longrightarrow> JBool b = val r ''has_annotation''"
    by blast
  have i: "check_importance m = Inr ()" using typed_cases(4) [OF t(2)] f(7) by (auto simp: check_importance_def finite_number_def)
  obtain n1 where n1: "nullish_integer m ''returnVisits'' 0 = Inr n1" "solid_value (val r ''return_visits'') \<longrightarrow> json_i64 n1 = val r ''return_visits''"
    using nullish_typed [OF f(2) t(4)] by blast
  obtain n2 where n2: "nullish_integer m ''stitchSpawns'' 0 = Inr n2" "solid_value (val r ''stitch_spawns'') \<longrightarrow> json_i64 n2 = val r ''stitch_spawns''"
    using nullish_typed [OF f(4) t(5)] by blast
  obtain n3 where n3: "nullish_integer m ''exposureRecencyAt'' 0 = Inr n3" "solid_value (val r ''exposure_recency_at'') \<longrightarrow> json_i64 n3 = val r ''exposure_recency_at''"
    using nullish_typed [OF f(5) t(6)] by blast
  obtain n4 where n4: "nullish_integer m ''engagementRecencyAt'' 0 = Inr n4" "solid_value (val r ''engagement_recency_at'') \<longrightarrow> json_i64 n4 = val r ''engagement_recency_at''"
    using nullish_typed [OF f(6) t(7)] by blast
  let ?fs = "[insert_stamp m ''createdAt'' ''created_at'' now, insert_stamp m ''updatedAt'' ''updated_at'' now]"
    and ?xs = "[(''created_at'', val r ''created_at''), (''updated_at'', val r ''updated_at'')]"
    and ?o = "fmap_of_list [(''source_prior'', JNumber (Float prior)), (''return_visits'', json_i64 n1), (''has_annotation'', JBool b),
      (''stitch_spawns'', json_i64 n2), (''exposure_recency_at'', json_i64 n3), (''engagement_recency_at'', json_i64 n4),
      (''importance'', JNumber (Float (compute_importance F prior n1 b n2)))]"
  have "list_all2 (\<lambda>f x. carries f (fst x) (snd x)) ?fs ?xs"
    using small_columns(6) by (simp add: exported_steps [OF m shape] read_fields_def typed_columns_def)
  then obtain out where o: "copies ?fs ?o = Inr out" "\<forall>(c, v) \<in> set ?xs. solid_value v \<longrightarrow> fmlookup out c = Some v"
    "\<forall>c. c \<notin> fst ` set ?xs \<longrightarrow> fmlookup out c = fmlookup ?o c"
    using copies_carry [of ?fs ?xs ?o] by auto
  have "normalize_note_signal F m now src = Inr out"
    unfolding normalize_note_signal_def p(1) n1(1) n2(1) b(1) n3(1) n4(1) i and_then_simps using o(1) .
  moreover have "carried_over ''note_signals'' r out"
    using o(2,3) p(2) b(2) n1(2) n2(2) n3(2) n4(2) by (simp add: carried_over_def carried_def fmlookup_of_list)
  ultimately show ?thesis by blast
qed

subsection \<open>Tables of rows\<close>

definition archive_key :: "string \<Rightarrow> string" where
  "archive_key table = (if table = ''note_signals'' then ''noteId'' else ''id'')"

definition opened_text :: "crypto \<Rightarrow> vault \<Rightarrow> row \<Rightarrow> json" where
  "opened_text C v r = (case fst (decrypt_note_text_for_archive C v r (unwrap_or (row_str r ''id'') [])) of None \<Rightarrow> JNull | Some t \<Rightarrow> JString t)"

text \<open>The archive row of a stored row, and the parsed row of an archive row.\<close>

definition archived :: "crypto \<Rightarrow> vault \<Rightarrow> string \<Rightarrow> row \<Rightarrow> row \<Rightarrow> bool" where
  "archived C v table r m \<longleftrightarrow> exported (read_fields table) r m \<and> fmlookup m ''deleted'' = Some (json_i64 0) \<and>
     fmlookup m (archive_key table) = Some (val r (archive_pk table)) \<and>
     (table = ''notes'' \<longrightarrow> fmlookup m ''text'' = Some (opened_text C v r))"

definition came_back :: "crypto \<Rightarrow> vault \<Rightarrow> string \<Rightarrow> row \<Rightarrow> normalized_row \<Rightarrow> bool" where
  "came_back C v table r c \<longleftrightarrow> val r (archive_pk table) = JString (nz_primary_key c) \<and> carried_over table r (nz_row c) \<and>
     (table = ''notes'' \<longrightarrow> fmlookup (nz_row c) ''text'' = Some (opened_text C v r))"

lemma carried_keys: "archive_pk table \<notin> set (carried table)" "''deleted'' \<notin> set (carried table)"
  by (simp_all add: carried_def archive_pk_def)

lemma normalize_rows_come_back:
  assumes "list_all2 (archived C v table) rows ms" "list_all (row_shape table) rows" "list_all (reimportable table) rows"
    and "distinct (map (\<lambda>r. val r (archive_pk table)) rows)" "\<forall>r \<in> set rows. val r (archive_pk table) \<notin> JString ` set seen"
    and nf: "\<And>r m k. archived C v table r m \<Longrightarrow> row_shape table r \<Longrightarrow> reimportable table r \<Longrightarrow>
      \<exists>out. nf m k = Inr out \<and> carried_over table r out \<and> (table = ''notes'' \<longrightarrow> fmlookup out ''text'' = Some (opened_text C v r))"
  shows "\<exists>cs. normalize_rows (map JObject ms) (archive_key table) (archive_pk table) nf seen = Inr cs \<and>
    list_all2 (came_back C v table) rows cs"
  using assms(1-5)
proof (induction rows ms arbitrary: seen rule: list_all2_induct)
  case (Cons r rows m ms)
  obtain k where k: "val r (archive_pk table) = JString k" "k \<noteq> []" using Cons.prems(2) by (auto simp: reimportable_def)
  have a: "archived C v table r m" by (rule Cons.hyps(1))
  have key: "option_filter (\<lambda>k. k \<noteq> []) (row_str m (archive_key table)) = Some k"
    using a k by (simp add: archived_def row_str_def)
  have new: "k \<notin> set seen" using Cons.prems(4) k(1) by auto
  have del: "validate_deleted m = Inr ()"
    using a by (simp add: archived_def validate_deleted_def json_i64_def f64_of_int_def f64_of_nat_def bit_len.simps)
  obtain out where out: "nf m k = Inr out" "carried_over table r out" "table = ''notes'' \<longrightarrow> fmlookup out ''text'' = Some (opened_text C v r)"
    using nf [OF a] Cons.prems(1,2) by auto
  have "\<forall>r \<in> set rows. val r (archive_pk table) \<notin> JString ` set (k # seen)"
    using Cons.prems(3,4) k(1) by (auto simp: image_iff)
  then obtain cs where cs: "normalize_rows (map JObject ms) (archive_key table) (archive_pk table) nf (k # seen) = Inr cs"
    "list_all2 (came_back C v table) rows cs"
    using Cons.IH [of "k # seen"] Cons.prems by auto
  let ?r = "fmupd ''deleted'' (JBool False) (fmupd (archive_pk table) (JString k) out)"
  have "came_back C v table r \<lparr>nz_primary_key = k, nz_row = ?r, nz_updated_at = unwrap_or (row_i64 ?r ''updated_at'') 0\<rparr>"
    using k(1) out carried_keys [of table] by (auto simp: came_back_def carried_over_def archive_pk_def)
  then show ?case using key new del out(1) cs by (simp add: Let_def option_filter_def)
qed simp

lemma live_rows_shape:
  assumes inv: "store_inv st" and t: "table_schema table = Some t" "has_column t ''created_at''"
  obtains rows where "live_rows J st table = Inr rows" "list_all (row_shape table) rows"
    "(\<forall>r \<in> set rows. \<exists>k. val r (pk_of t) = JString k) \<longrightarrow> distinct (map (\<lambda>r. val r (pk_of t)) rows)"
proof -
  obtain rs where rs: "list_live J st table None (- 1) 0 = Inr (map (row_of_sql J t) rs)"
    and ms: "mset rs = mset (filter (\<lambda>r. is_live r \<and> matches None r) (tables st table))"
    and set_rs: "set rs = {r \<in> set (tables st table). is_live r \<and> matches None r}"
    by (rule list_live_scan [where flt = None and J = J and st = st, OF t]) (simp add: filter_columns_def)
  have ok: "desc_ok t" using table_schema_Some(2) [OF t(1)] .
  have "row_typed t s" if "s \<in> set rs" for s
    using inv that set_rs table_schema_in [OF t(1)] table_schema_Some(1) [OF t(1)] by (auto simp: store_inv_def rows_typed_def)
  then have "fmlookup (row_of_sql J t s) c = Some (val (row_of_sql J t s) c) \<and> json_typed ty (val (row_of_sql J t s) c)"
    if "s \<in> set rs" "(c, ty) \<in> set (ts_columns t)" for s c ty
    using row_of_sql_typed [OF ok _ that(2), of s J] that(1) by (auto simp: val_def)
  then have "row_shape table (row_of_sql J t s)" if "s \<in> set rs" for s
    using that t(1) by (auto simp: row_shape_def)
  then have shape: "list_all (row_shape table) (map (row_of_sql J t) rs)" by (simp add: list_all_iff)
  have pk: "map_of (ts_columns t) (pk_of t) = Some CText" using ok by (simp add: desc_ok_def)
  have v: "val (row_of_sql J t s) (pk_of t) = sql_to_json J (s (pk_of t)) CText" for s
    by (simp add: val_def fmlookup_row_of_sql pk)
  have dist: "distinct (map (\<lambda>r. val r (pk_of t)) (map (row_of_sql J t) rs))"
    if key: "\<forall>r \<in> set (map (row_of_sql J t) rs). \<exists>k. val r (pk_of t) = JString k"
  proof -
    have nn: "s (pk_of t) \<noteq> SNull" if "s \<in> set rs" for s using key that v by (auto simp: sql_to_json_def)
    have "pk_unique t (tables st table)"
      using inv table_schema_in [OF t(1)] table_schema_Some(1) [OF t(1)] by (auto simp: store_inv_def tables_unique_def)
    then have "distinct (map (\<lambda>r. r (pk_of t)) (filter (\<lambda>r. r (pk_of t) \<noteq> SNull) (tables st table)))"
      by (simp add: pk_unique_def filter_map comp_def)
    then have "distinct (map (\<lambda>r. r (pk_of t)) (filter (\<lambda>r. is_live r \<and> matches None r) (filter (\<lambda>r. r (pk_of t) \<noteq> SNull) (tables st table))))"
      by (rule distinct_map_filter)
    moreover have "filter (\<lambda>r. is_live r \<and> matches None r) (filter (\<lambda>r. r (pk_of t) \<noteq> SNull) (tables st table)) =
        filter (\<lambda>r. is_live r \<and> matches None r) (tables st table)"
      using nn set_rs by (auto intro!: filter_cong)
    ultimately have "distinct (map (\<lambda>s. s (pk_of t)) rs)"
      using ms by (metis mset_eq_imp_distinct_iff mset_map)
    moreover have "inj_on (\<lambda>x. sql_to_json J x CText) ((\<lambda>s. s (pk_of t)) ` set rs)"
    proof (rule inj_onI, elim imageE)
      fix x y a b assume a: "a \<in> set rs" "x = a (pk_of t)" and b: "b \<in> set rs" "y = b (pk_of t)"
        and eq: "sql_to_json J x CText = sql_to_json J y CText"
      have "\<exists>k. sql_to_json J x CText = JString k" "\<exists>k. sql_to_json J y CText = JString k" using key a b v by auto
      with eq show "x = y" by (cases x; cases y) (auto simp: sql_to_json_def)
    qed
    ultimately show ?thesis by (simp add: comp_def v distinct_map inj_on_def image_iff)
  qed
  show thesis
  proof (rule that)
    show "live_rows J st table = Inr (map (row_of_sql J t) rs)" using rs by (simp add: live_rows_def)
  qed (use shape dist in simp_all)
qed

subsection \<open>The archive rows of a store\<close>

lemma map_fields_archived:
  assumes fs: "distinct (map snd fs)" "set (read_fields table) \<subseteq> set fs" "(archive_pk table, archive_key table) \<in> set fs" "(''deleted'', ''deleted'') \<in> set fs"
    and nd: "''deleted'' \<notin> fst ` set (read_fields table)" and n: "table \<noteq> ''notes''"
  shows "archived C v table r (map_fields fs r)"
proof -
  have "fmlookup (map_fields fs r) ''deleted'' = Some (json_i64 0)"
  proof -
    have "map_of (map (\<lambda>(c, f). (f, if c = ''deleted'' \<and> f = ''deleted'' then json_i64 0 else unwrap_or (fmlookup r c) JNull)) fs) ''deleted'' =
        Some (json_i64 0)" using fs(1,4) by (induction fs) (auto simp: image_iff)
    then show ?thesis by (simp add: map_fields_def fmlookup_of_list)
  qed
  moreover have "exported (read_fields table) r (map_fields fs r)"
    unfolding exported_def
  proof clarify
    fix c f assume f: "(c, f) \<in> set (read_fields table)"
    then have "c \<noteq> ''deleted''" using nd by force
    then show "fmlookup (map_fields fs r) f = Some (val r c)" using fs(1,2) f by (intro map_fields_lookup) auto
  qed
  moreover have "fmlookup (map_fields fs r) (archive_key table) = Some (val r (archive_pk table))"
    by (rule map_fields_lookup [OF fs(1,3)]) (simp add: archive_pk_def)
  ultimately show ?thesis using n by (simp add: archived_def)
qed

lemma other_archived:
  "archived C v ''custom_ideas'' r (map_fields CUSTOM_IDEA_FIELDS r)" "archived C v ''note_links'' r (map_fields NOTE_LINK_FIELDS r)"
  "archived C v ''lenses'' r (map_fields LENS_FIELDS r)" "archived C v ''collections'' r (map_fields COLLECTION_FIELDS r)"
  "archived C v ''collection_memberships'' r (map_fields MEMBERSHIP_FIELDS r)" "archived C v ''note_signals'' r (map_fields SIGNAL_FIELDS r)"
  "archived C v ''books'' r (map_fields BOOK_FIELDS r)"
  by (rule map_fields_archived; simp add: read_fields_def CUSTOM_IDEA_FIELDS_def NOTE_LINK_FIELDS_def LENS_FIELDS_def COLLECTION_FIELDS_def
      MEMBERSHIP_FIELDS_def SIGNAL_FIELDS_def BOOK_FIELDS_def archive_pk_def archive_key_def)+

lemma archived_agree:
  assumes "archived C v table r m" "\<And>f. f \<notin> X \<Longrightarrow> fmlookup m' f = fmlookup m f"
    and "X \<inter> (snd ` set (read_fields table) \<union> {''deleted'', archive_key table, ''text''}) = {}"
  shows "archived C v table r m'"
proof -
  have "f \<notin> X" if "f \<in> snd ` set (read_fields table) \<union> {''deleted'', archive_key table, ''text''}" for f using assms(3) that by blast
  then have "fmlookup m' f = fmlookup m f" if "f \<in> snd ` set (read_fields table) \<union> {''deleted'', archive_key table, ''text''}" for f
    using assms(2) that by blast
  note same = this
  have "exported (read_fields table) r m'"
    unfolding exported_def
  proof clarify
    fix c f assume f: "(c, f) \<in> set (read_fields table)"
    then have "fmlookup m' f = fmlookup m f" by (intro same) force
    then show "fmlookup m' f = Some (val r c)" using assms(1) f by (auto simp: archived_def exported_def)
  qed
  then show ?thesis using assms(1) same by (simp add: archived_def)
qed

lemma book_archived: "archived C v ''books'' r (export_book C v (map_fields BOOK_FIELDS r))"
  by (rule archived_agree [OF other_archived(7), where X = "{''status'', ''kind'', ''url''}"])
    (auto simp: export_book_def Let_def read_fields_def archive_key_def split: option.split)

lemma note_archived:
  assumes "map_note C v r = Inr m"
  shows "archived C v ''notes'' r m" "snd (decrypt_note_text_for_archive C v r (unwrap_or (row_str r ''id'') [])) = False"
proof -
  have m: "m = fmupd ''text'' (opened_text C v r) (map_fields NOTE_FIELDS r)"
    "\<not> snd (decrypt_note_text_for_archive C v r (unwrap_or (row_str r ''id'') []))"
    using assms by (auto simp: map_note_def opened_text_def split: prod.splits if_splits)
  have f: "fmlookup (map_fields NOTE_FIELDS r) f = Some (val r c)" if "(c, f) \<in> set NOTE_FIELDS" "c \<noteq> ''deleted''" for c f
    using that by (intro map_fields_lookup) (simp_all add: NOTE_FIELDS_def)
  have d: "fmlookup (map_fields NOTE_FIELDS r) ''deleted'' = Some (json_i64 0)"
    by (simp add: map_fields_def NOTE_FIELDS_def fmlookup_of_list)
  have sub: "list_all (\<lambda>x. x \<in> set NOTE_FIELDS \<and> fst x \<noteq> ''deleted'' \<and> snd x \<noteq> ''text'') (read_fields ''notes'')"
    by (simp add: read_fields_def NOTE_FIELDS_def)
  have "exported (read_fields ''notes'') r m"
    unfolding exported_def
  proof clarify
    fix c f' assume "(c, f') \<in> set (read_fields ''notes'')"
    then have "(c, f') \<in> set NOTE_FIELDS" "c \<noteq> ''deleted''" "f' \<noteq> ''text''" using sub by (auto simp: list_all_iff)
    then show "fmlookup m f' = Some (val r c)" using f by (simp add: m)
  qed
  then show "archived C v ''notes'' r m"
    using d f [of "''id''" "''id''"] by (simp add: archived_def m archive_key_def archive_pk_def NOTE_FIELDS_def)
  show "snd (decrypt_note_text_for_archive C v r (unwrap_or (row_str r ''id'') [])) = False" using m(2) by simp
qed

lemma attach_keeps:
  "list_all2 (\<lambda>n n'. \<forall>f. f \<noteq> ''user_metadata'' \<longrightarrow> fmlookup n' f = fmlookup n f) ns (attach_annotations ann ns)"
  by (induction ann ns rule: attach_annotations.induct) (auto split: option.splits)

lemma notes_archived:
  assumes "traverse (map_note C v) rows = Inr ns"
  shows "list_all2 (archived C v ''notes'') rows (attach_user_annotations ns links)"
proof -
  have "list_all2 (archived C v ''notes'') rows ns"
    using assms by (induction rows arbitrary: ns) (auto simp: note_archived(1) split: sum.splits)
  then show ?thesis
    unfolding attach_user_annotations_def
    by (rule list_all2_trans [rotated 1, OF _ attach_keeps])
      (rule archived_agree [where X = "{''user_metadata''}"], auto simp: read_fields_def archive_key_def)
qed

lemma archived_map: "(\<And>r. archived C v table r (g r)) \<Longrightarrow> list_all2 (archived C v table) rows (map g rows)"
  by (simp add: list_all2_map2 list_all2_same)

subsection \<open>The round trip\<close>

text \<open>The printer of a struct: its text parses to the object of its fields.\<close>

definition prints :: "serde \<Rightarrow> struct_printer \<Rightarrow> string \<Rightarrow> bool" where
  "prints J print archive \<longleftrightarrow>
     (\<forall>kvs. distinct (map fst kvs) \<longrightarrow> print kvs = archive \<longrightarrow> from_str J archive = Some (JObject (fmap_of_list kvs)))"

text \<open>The fields of the archive, from the live rows of the tables and the exported notes.\<close>

definition archive_fields ::
  "crypto \<Rightarrow> vault \<Rightarrow> string \<Rightarrow> row list \<Rightarrow> row list \<Rightarrow> row list \<Rightarrow> row list \<Rightarrow> row list \<Rightarrow> row list \<Rightarrow> row list \<Rightarrow> row list \<Rightarrow> (string \<times> json) list" where
  "archive_fields C v stamp b ns i l e c m s =
     [(''_syntopicon'', JBool True), (''schemaVersion'', json_i64 (int SCHEMA_VERSION)), (''exportedAt'', JString stamp),
      (''books'', row_array (map (export_book C v) (map (map_fields BOOK_FIELDS) b))),
      (''notes'', row_array (attach_user_annotations ns l)), (''customIdeas'', row_array (map (map_fields CUSTOM_IDEA_FIELDS) i)),
      (''noteLinks'', row_array (map (map_fields NOTE_LINK_FIELDS) l)), (''lenses'', row_array (map (map_fields LENS_FIELDS) e)),
      (''collections'', row_array (map (map_fields COLLECTION_FIELDS) c)),
      (''collectionMemberships'', row_array (map (map_fields MEMBERSHIP_FIELDS) m)),
      (''noteSignals'', row_array (map (map_fields SIGNAL_FIELDS) s))]"

lemma archive_fields_distinct: "distinct (map fst (archive_fields C v stamp b ns i l e c m s))"
  by (simp add: archive_fields_def)

lemma archive_contents:
  assumes "build_snapshot_at V print D st v now = Inr archive"
  obtains b n ns i l e c m s stamp where
    "live_rows (env_serde V) st ''books'' = Inr b" "live_rows (env_serde V) st ''notes'' = Inr n"
    "live_rows (env_serde V) st ''custom_ideas'' = Inr i" "live_rows (env_serde V) st ''note_links'' = Inr l"
    "live_rows (env_serde V) st ''lenses'' = Inr e" "live_rows (env_serde V) st ''collections'' = Inr c"
    "live_rows (env_serde V) st ''collection_memberships'' = Inr m" "live_rows (env_serde V) st ''note_signals'' = Inr s"
    "traverse (map_note (env_crypto V) v) n = Inr ns" "archive = print (archive_fields (env_crypto V) v stamp b ns i l e c m s)"
  using assms unfolding build_snapshot_at_def mapped_live_rows_def and_then_Inr archive_fields_def by auto

lemma archive_tabs:
  "(''books'', ni_books) \<in> set archive_tables" "(''notes'', ni_notes) \<in> set archive_tables"
  "(''custom_ideas'', ni_custom_ideas) \<in> set archive_tables" "(''note_links'', ni_note_links) \<in> set archive_tables"
  "(''lenses'', ni_lenses) \<in> set archive_tables" "(''collections'', ni_collections) \<in> set archive_tables"
  "(''collection_memberships'', ni_collection_memberships) \<in> set archive_tables" "(''note_signals'', ni_note_signals) \<in> set archive_tables"
  by (simp_all add: archive_tables_def)

lemma archive_has_created: "list_all (\<lambda>x. case table_schema (fst x) of Some t \<Rightarrow> has_column t ''created_at'' | None \<Rightarrow> False) archive_tables"
  by (simp add: archive_tables_def table_schema_def schema_defs has_column_def)

lemma table_comes_back:
  assumes "(table, f) \<in> set archive_tables" "store_inv st" "live_rows J st table = Inr rows" "list_all (reimportable table) rows"
    and "list_all2 (archived C v table) rows ms"
    and "\<And>r m k. archived C v table r m \<Longrightarrow> row_shape table r \<Longrightarrow> reimportable table r \<Longrightarrow>
      \<exists>out. nf m k = Inr out \<and> carried_over table r out \<and> (table = ''notes'' \<longrightarrow> fmlookup out ''text'' = Some (opened_text C v r))"
  obtains cs where "normalize_rows (map JObject ms) (archive_key table) (archive_pk table) nf [] = Inr cs"
    "list_all2 (came_back C v table) rows cs"
proof -
  obtain t where t: "table_schema table = Some t" "pk_of t = archive_pk table" using archive_schemas [OF assms(1)] by blast
  have c: "has_column t ''created_at''" using archive_has_created assms(1) t(1) by (auto simp: list_all_iff)
  obtain rows' where r: "live_rows J st table = Inr rows'" "list_all (row_shape table) rows'"
    "(\<forall>r \<in> set rows'. \<exists>k. val r (pk_of t) = JString k) \<longrightarrow> distinct (map (\<lambda>r. val r (pk_of t)) rows')"
    by (rule live_rows_shape [OF assms(2) t(1) c])
  have e: "rows' = rows" using r(1) assms(3) by simp
  have "\<forall>r \<in> set rows. \<exists>k. val r (archive_pk table) = JString k" using assms(4) by (auto simp: list_all_iff reimportable_def)
  then have "distinct (map (\<lambda>r. val r (archive_pk table)) rows)" using r(3) by (simp add: e t(2))
  from normalize_rows_come_back [OF assms(5) r(2) [unfolded e] assms(4) this, of "[]" nf] assms(6) that show thesis by auto
qed

lemma archived_normal:
  assumes "archived C v table r m" "row_shape table r" "reimportable table r"
  shows "table = ''books'' \<Longrightarrow> \<exists>out. normalize_book L m now = Inr out \<and> carried_over table r out"
    and "table = ''notes'' \<Longrightarrow> \<exists>out. normalize_note m now 19 = Inr out \<and> carried_over table r out \<and> fmlookup out ''text'' = Some (opened_text C v r)"
    and "table = ''custom_ideas'' \<Longrightarrow> \<exists>out. normalize_custom_idea m now = Inr out \<and> carried_over table r out"
    and "table = ''note_links'' \<Longrightarrow> \<exists>out. normalize_note_link m now = Inr out \<and> carried_over table r out"
    and "table = ''lenses'' \<Longrightarrow> \<exists>out. normalize_lens m now = Inr out \<and> carried_over table r out"
    and "table = ''collections'' \<Longrightarrow> \<exists>out. normalize_collection m now = Inr out \<and> carried_over table r out"
    and "table = ''collection_memberships'' \<Longrightarrow> \<exists>out. normalize_membership m now = Inr out \<and> carried_over table r out"
    and "table = ''note_signals'' \<Longrightarrow> \<exists>out. normalize_note_signal F m now src = Inr out \<and> carried_over table r out"
proof -
  have m: "exported (read_fields table) r m" using assms(1) by (simp add: archived_def)
  have "json_typed CText (opened_text C v r)" by (simp add: opened_text_def json_typed_def split: option.split)
  then show "table = ''notes'' \<Longrightarrow> \<exists>out. normalize_note m now 19 = Inr out \<and> carried_over table r out \<and> fmlookup out ''text'' = Some (opened_text C v r)"
    using note_normalizes [of r m "opened_text C v r" now] assms m by (auto simp: archived_def)
  show "table = ''books'' \<Longrightarrow> \<exists>out. normalize_book L m now = Inr out \<and> carried_over table r out"
    using book_normalizes assms(2,3) m by blast
  show "table = ''lenses'' \<Longrightarrow> \<exists>out. normalize_lens m now = Inr out \<and> carried_over table r out"
    using lens_normalizes assms(2,3) m by blast
  show "table = ''note_signals'' \<Longrightarrow> \<exists>out. normalize_note_signal F m now src = Inr out \<and> carried_over table r out"
    using signal_normalizes assms(2) m by blast
qed (use small_normalizes [OF assms(2,3), of m now] assms(1) in \<open>simp_all add: archived_def\<close>)


subsection \<open>A collection that travels\<close>

abbreviation demo_collection :: row where
  "demo_collection \<equiv> row_of_sql mute_serde (descriptor_tables ! 5) collection_row"

abbreviation demo_fields :: "(string \<times> json) list" where
  "demo_fields \<equiv> archive_fields toy_crypto (new_vault toy_mk) ''now'' [] [] [] [] [] [demo_collection] [] []"

definition letter_printer :: struct_printer where
  "letter_printer kvs = (if kvs = demo_fields then ''a'' else ''b'')"

definition letter_serde :: serde where
  "letter_serde = \<lparr>to_str = (\<lambda>_. []), from_str = (\<lambda>s. if s = ''a'' then Some (JObject (fmap_of_list demo_fields)) else None)\<rparr>"

definition still_time :: "unit time_lib" where
  "still_time = \<lparr>from_unix_timestamp_nanos = Some \<circ> (\<lambda>_. ()), year_of = (\<lambda>_. 2024), format_millis = (\<lambda>_. Some ''now'')\<rparr>"

lemma collection_store_inv: "store_inv collection_store"
  unfolding collection_store_def by (rule store_inv_tables)
    (simp add: schema_defs collection_row_def pk_unique_def pk_of_def row_typed_def is_i64_def i64_min_def i64_max_def)

lemma demo_collection_any: "row_of_sql J (descriptor_tables ! 5) collection_row = demo_collection"
  by (simp add: row_of_sql_def collections_schema collection_row_def sql_to_json_def)

lemma collection_live:
  assumes "(table, f) \<in> set archive_tables"
  shows "live_rows J collection_store table = Inr (if table = ''collections'' then [demo_collection] else [])"
proof -
  obtain t where t: "table_schema table = Some t" "has_column t ''created_at''"
    using archive_has_created assms by (auto simp: list_all_iff split: option.splits)
  obtain rs where rs: "list_live J collection_store table None (- 1) 0 = Inr (map (row_of_sql J t) rs)"
    and ms: "mset rs = mset (filter (\<lambda>r. is_live r \<and> matches None r) (tables collection_store table))"
    by (rule list_live_scan [where flt = None and J = J and st = collection_store, OF t]) (simp add: filter_columns_def)
  have "filter (\<lambda>r. is_live r \<and> matches None r) (tables collection_store table) = (if table = ''collections'' then [collection_row] else [])"
    by (simp add: collection_store_def empty_store_def is_live_def matches_def collection_row_def)
  with ms have "rs = (if table = ''collections'' then [collection_row] else [])" by (simp split: if_splits)
  then show ?thesis using rs t(1) collections_schema(1) demo_collection_any [of J] by (auto simp: live_rows_def split: if_splits)
qed


end
