(* ===== verification/Spec2Isabelle.thy ===== *)
theory Spec2Isabelle
  imports Library_Vocab Image_Crypto Search Repairs Margins Settings Device Semantic_Laws Snapshot_Roundtrip
begin

text \<open>
  A verification development of the braird core (\<open>src/src/\<close>), the library a note-taking app shares
  across its hosts: an offline store with an outbox, a two-way sync with a PostgREST server, an
  end-to-end encrypting vault, the repairs that run after a pull, and the read surface.

  \<^bold>\<open>The parts and how they interact.\<close>  A host edit is staged by the store: the merged row
  and an outbox item are written together (\<open>store.rs\<close>).  A flush (\<open>sync/push.rs\<close>) collapses the
  outbox per record (\<open>sync/outbox.rs\<close>) and sends it in foreign-key order through a sink, which in
  production is the PostgREST client (\<open>sync/http.rs\<close>).  A pull (\<open>sync/pull.rs\<close>) pages through
  each table by the server's change sequence, merges last-write-wins and rebases the outbox.  The
  passes of \<open>sync/reconcile.rs\<close> then repair what the pull left: books a note refers to and the
  device does not have, notes on deleted books, content tags, duplicates, signals, covers.
  \<open>sync/read.rs\<close> answers the screens, opening sealed texts with the vault (\<open>vault.rs\<close> over
  \<open>note_encryption.rs\<close>, \<open>byte_encryption.rs\<close>, \<open>image_encryption.rs\<close>, \<open>key_manager.rs\<close>).
  \<open>prompt.rs\<close> computes the next prompts from the questions and answers; \<open>search.rs\<close> ranks the texts
  for a query, \<open>embeddings.rs\<close> holds the vectors a host's embedder makes of them and \<open>fusion.rs\<close> joins
  the two rankings; \<open>sync/export_import/\<close> writes a plaintext archive of the live rows and merges
  one back; \<open>source_url.rs\<close>, \<open>normalize.rs\<close> and \<open>content_tag.rs\<close> canonicalise links and
  texts.

  \<^bold>\<open>Which theory models which part.\<close>
  \<^item> \<open>Braird_Prelude\<close>, \<open>Text_Slices\<close>: byte strings, JSON values, saturating and checked \<open>i64\<close>
    arithmetic, the list, map and word lemmas and the \<open>str\<close> operations the components share.
  \<^item> \<open>Library_Vocab\<close>, \<open>Prompt\<close>, \<open>Search\<close>, \<open>Source_Url\<close>, \<open>Content_Tag\<close>: the pure modules of the
    same names.
  \<^item> \<open>Crypto\<close>, \<open>Image_Crypto\<close>: the sealing layer and the vault, over a record of the primitives.
  \<^item> \<open>Store\<close>, \<open>Staging\<close>, \<open>Embedding_Store\<close>: \<open>store.rs\<close>.  A store is a record of the tables (rows
    in rowid order), the outbox, the meta table and the two vector tables; each SQL transaction is
    one function.  \<open>Store_Invariant\<close> has the invariant \<open>store_inv\<close> and the step relation of the
    store's writes.
  \<^item> \<open>Outbox\<close>, \<open>Push\<close>, \<open>Lww\<close>, \<open>Pull\<close>, \<open>Engine\<close>: the two directions of the sync.
  \<^item> \<open>Http\<close>: the client that is the sink of the other two.
  \<^item> \<open>Read\<close>: the read surface.
  \<^item> \<open>Signals\<close>: the interaction signals of a note and the delete cascade of \<open>sync/mod.rs\<close>.
  \<^item> \<open>Reconcile\<close>: every pass and merge of \<open>sync/reconcile.rs\<close>, and the order in which
    \<open>sync/mod.rs\<close> runs pull, passes and flush.  \<open>Store_View\<close>, \<open>Book_Merge\<close>, \<open>Repairs\<close> hold the
    properties of the passes.
  \<^item> \<open>Facade\<close>: the engine a host calls, \<open>SyncEngine\<close> of \<open>sync/mod.rs\<close>: every \<open>enqueue_*\<close> operation
    with the draft it takes, shared links, margins, settings, the prompt surface and the three sync
    calls.  \<open>Facade_Laws\<close>, \<open>Note_Lifecycle\<close>, \<open>Margins\<close> and \<open>Settings\<close> hold their properties,
    \<open>Device\<close> the runs of a whole device.
  \<^item> \<open>Floats\<close>, \<open>Ranking\<close>: the \<open>f64\<close> values, the scoring of \<open>search.rs\<close> and the fusion of \<open>fusion.rs\<close>.
  \<^item> \<open>Semantic\<close>: \<open>embeddings.rs\<close> and the embedding surface of \<open>SyncEngine\<close> (registration, the embed
    queue, semantic and hybrid search), with the host embedder as a function of the whole engine
    state, because it runs while no lock is held.  \<open>Semantic_Laws\<close> holds its properties.

  \<^item> \<open>Snapshot_Export\<close>, \<open>Snapshot_Import\<close>: the archive of \<open>sync/export_import/\<close>: the export of every
    live row, the parser with its defaults and refusals, and the merge (preflight pull, targeted fetch,
    selection, sealing, one staged batch).  \<open>Snapshot_Laws\<close> and \<open>Snapshot_Roundtrip\<close> hold its
    properties.

  \<^bold>\<open>What the lemmas show.\<close>  The flush sends no child of a record that failed, accounts for every
  queued row, sends only complete inserts or keyed patches, and drains when the server accepts; the
  collapse is last-write-wins with sticky deletion.  The merge of a page is a last-write-wins join
  (an interpretation of the locale of \<open>Lww\<close>), paging is transparent, cursors never go back, and the
  rebase drops exactly the superseded edits.  A staged write is strictly newer than the row it
  replaces, keeps the columns it does not mention and is refused exactly on overflow.  A merge of
  books moves every note and its undo brings them back; the passes settle stranded notes, keep a
  copy of every text, spend at most their budget and leave the cursors alone.  A note draft patches
  exactly what it names and its text reads back; a deleted note takes its signals and margins along;
  a shared link is filed once; margins are replaced as a set; settings read back and prompts wait for
  the tables they rest on.  A search returns exactly the documents its terms match, a fusion is the
  reciprocal-rank fusion of its rankings, a pass over the embed queue drains it, and a sealed vector
  opens only for its own item.  An import takes exactly the rows that are newer than the device's and
  the server's, seals their texts under their own ids and stages all of them or none; an export reads
  back.  Every interleaving of host calls, syncs, repairs and imports keeps the store invariant.  Each
  sealed format opens exactly to what was sealed, for the id it was sealed for; the read surface shows nothing else.  The client sends its credentials
  only below the base URL its guard admitted.  The edit distance equals its reference recurrence,
  prompts are stable and bounded, canonical links are canonical.

  \<^bold>\<open>Parameters and hypotheses.\<close>  Code outside \<open>src/\<close> is an argument of the definitions:
  \<open>serde\<close> (serde\_json; \<open>serde_ok\<close>: printing then parsing gives the value back), \<open>sink\<close> and
  \<open>repair_sink\<close> (the server, which may answer anything; \<open>serves\<close>/\<open>stamped\<close> say that it answers the
  keyset query), \<open>crypto\<close> (the RustCrypto crates; \<open>crypto_ok\<close> is authenticated-decryption
  correctness, \<open>stream_ok\<close> the STREAM construction), \<open>http_lib\<close> (reqwest; \<open>plain_errors\<close> says what
  its error texts look like), \<open>text_lib\<close> (the Unicode tables; \<open>scalars_ok\<close>), \<open>url_lib\<close> (the url
  crate; \<open>url_ok\<close>), \<open>f64_ops\<close> (rounded arithmetic, no law assumed), \<open>f64_lib\<close> (the rounding of \<open>f64\<close>; \<open>round_ok\<close>: it is
  right up to a factor of two on the range the scores live in), \<open>host\<close> (the embedder of the host;
  \<open>answering\<close> where a pass is to succeed), \<open>struct_printer\<close> (the derived printer of the archive;
  \<open>prints\<close>: its text parses to its fields), \<open>time_lib\<close> (the time crate, no law assumed), and the clock, an argument of
  every operation that reads it.  Every hypothesis has a witness on a concrete instance.

  \<^bold>\<open>Bounds and termination.\<close>  Every definition is total.  The pull loop terminates because the
  cursor strictly advances or the loop stops; the redirect walks carry the source's cap of twenty
  hops; the retry of a page is the source's two attempts.  Integers of the source are \<open>i64\<close>s
  inside an \<open>int\<close> with the saturating, checked or wrapping operation written out where the source
  uses it, and \<open>word\<close>s in the byte formats.

  \<^bold>\<open>Not modelled.\<close>  SQL text, PRAGMAs and file migration; the mutex and the async runtime; the
  UniFFI bindings; the logging of counts.
\<close>

end
